(* ===== verification/Dlt_Prelude.thy ===== *)
theory Dlt_Prelude
  imports Main "HOL-Library.Word" "HOL-Library.Monad_Syntax"
begin

text \<open>
  Shared vocabulary of the development: bytes, the C integer conversions the sources use,
  byte-order encodings, the \<open>DltReturnValue\<close> enumeration, and the generic facts on lists
  that the component theories rest on.

  C integers are HOL integers with the conversion written out at every place where the
  source converts or may wrap: \<open>u32 x\<close> is \<^verbatim>\<open>(uint32_t)x\<close>, \<open>i32 x\<close> is
  \<^verbatim>\<open>(int32_t)x\<close> in two's complement. The host is little endian, the default of
  \<^verbatim>\<open>dlt_common.h\<close>.
\<close>

type_synonym byte = "8 word"
type_synonym bytes = "byte list"

named_theorems c_casts \<open>conversions that do nothing on values in range\<close>
named_theorems mem_simps \<open>accesses to a block that is split into its fields\<close>
named_theorems ring_simps \<open>reading and writing through a cyclic index\<close>


section \<open>Return values\<close>

text \<open>\<^verbatim>\<open>include/dlt/dlt_types.h\<close>, \<open>DltReturnValue\<close>.\<close>

datatype DltReturnValue =
    DLT_RETURN_LOAD_EXCEEDED
  | DLT_RETURN_FILESZERR
  | DLT_RETURN_LOGGING_DISABLED
  | DLT_RETURN_USER_BUFFER_FULL
  | DLT_RETURN_WRONG_PARAMETER
  | DLT_RETURN_BUFFER_FULL
  | DLT_RETURN_PIPE_FULL
  | DLT_RETURN_PIPE_ERROR
  | DLT_RETURN_ERROR
  | DLT_RETURN_OK
  | DLT_RETURN_TRUE

fun ret_int :: "DltReturnValue \<Rightarrow> int" where
  "ret_int DLT_RETURN_LOAD_EXCEEDED = -9"
| "ret_int DLT_RETURN_FILESZERR = -8"
| "ret_int DLT_RETURN_LOGGING_DISABLED = -7"
| "ret_int DLT_RETURN_USER_BUFFER_FULL = -6"
| "ret_int DLT_RETURN_WRONG_PARAMETER = -5"
| "ret_int DLT_RETURN_BUFFER_FULL = -4"
| "ret_int DLT_RETURN_PIPE_FULL = -3"
| "ret_int DLT_RETURN_PIPE_ERROR = -2"
| "ret_int DLT_RETURN_ERROR = -1"
| "ret_int DLT_RETURN_OK = 0"
| "ret_int DLT_RETURN_TRUE = 1"

lemma ret_int_inj: "ret_int a = ret_int b \<longleftrightarrow> a = b"
  by (cases a; cases b) simp_all

lemma ret_int_range: "-9 \<le> ret_int r" "ret_int r \<le> 1"
  by (cases r; simp)+


section \<open>C integer conversions\<close>

definition u8 :: "int \<Rightarrow> int" where "u8 x = x mod 2 ^ 8"
definition u16 :: "int \<Rightarrow> int" where "u16 x = x mod 2 ^ 16"
definition u32 :: "int \<Rightarrow> int" where "u32 x = x mod 2 ^ 32"
definition u64 :: "int \<Rightarrow> int" where "u64 x = x mod 2 ^ 64"
definition i8 :: "int \<Rightarrow> int" where "i8 x = (x + 2 ^ 7) mod 2 ^ 8 - 2 ^ 7"
definition i16 :: "int \<Rightarrow> int" where "i16 x = (x + 2 ^ 15) mod 2 ^ 16 - 2 ^ 15"
definition i32 :: "int \<Rightarrow> int" where "i32 x = (x + 2 ^ 31) mod 2 ^ 32 - 2 ^ 31"

lemma u8_id [c_casts]: "0 \<le> x \<Longrightarrow> x < 256 \<Longrightarrow> u8 x = x"
  by (simp add: u8_def)

lemma u16_id [c_casts]: "0 \<le> x \<Longrightarrow> x < 65536 \<Longrightarrow> u16 x = x"
  by (simp add: u16_def)

lemma u32_id [c_casts]: "0 \<le> x \<Longrightarrow> x < 4294967296 \<Longrightarrow> u32 x = x"
  by (simp add: u32_def)

lemma u64_id [c_casts]: "0 \<le> x \<Longrightarrow> x < 18446744073709551616 \<Longrightarrow> u64 x = x"
  by (simp add: u64_def)

lemma i8_id [c_casts]: "-128 \<le> x \<Longrightarrow> x < 128 \<Longrightarrow> i8 x = x"
  by (simp add: i8_def)

lemma i16_id [c_casts]: "-32768 \<le> x \<Longrightarrow> x < 32768 \<Longrightarrow> i16 x = x"
  by (simp add: i16_def)

lemma i32_id [c_casts]: "-2147483648 \<le> x \<Longrightarrow> x < 2147483648 \<Longrightarrow> i32 x = x"
  by (simp add: i32_def)

lemma u32_bounds: "0 \<le> u32 x" "u32 x < 4294967296"
  by (simp_all add: u32_def)

lemma i32_bounds: "-2147483648 \<le> i32 x" "i32 x < 2147483648"
proof -
  have "0 \<le> (x + 2 ^ 31) mod (2 ^ 32 :: int)" and "(x + 2 ^ 31) mod (2 ^ 32 :: int) < 2 ^ 32"
    by simp_all
  then show "-2147483648 \<le> i32 x" and "i32 x < 2147483648"
    by (simp_all add: i32_def)
qed

lemma u32_neg: "-2147483648 \<le> x \<Longrightarrow> x < 0 \<Longrightarrow> u32 x = x + 4294967296"
proof -
  assume "-2147483648 \<le> x" and "x < 0"
  then have "(x + 4294967296) mod 4294967296 = x + 4294967296"
    by (intro mod_pos_pos_trivial) simp_all
  then show ?thesis by (simp add: u32_def)
qed

lemma i32_u32 [simp]: "i32 (u32 x) = i32 x"
  by (simp add: i32_def u32_def mod_add_left_eq)

lemma u32_u32 [simp]: "u32 (u32 x) = u32 x"
  by (simp add: u32_def)


section \<open>Byte order\<close>

text \<open>
  \<open>le_bytes k x\<close> is how the host lays \<open>x\<close> out in \<open>k\<close> bytes, and \<open>le_val\<close> reads them
  back; \<open>be_bytes\<close> and \<open>be_val\<close> are the wire order of the protocol headers.
\<close>

fun le_bytes :: "nat \<Rightarrow> nat \<Rightarrow> bytes" where
  "le_bytes 0 x = []"
| "le_bytes (Suc k) x = of_nat (x mod 256) # le_bytes k (x div 256)"

fun le_val :: "bytes \<Rightarrow> nat" where
  "le_val [] = 0"
| "le_val (b # bs) = unat b + 256 * le_val bs"

definition be_bytes :: "nat \<Rightarrow> nat \<Rightarrow> bytes" where
  "be_bytes k x = rev (le_bytes k x)"

definition be_val :: "bytes \<Rightarrow> nat" where
  "be_val bs = le_val (rev bs)"

lemma le_bytes_4: "le_bytes 4 x = [of_nat (x mod 256), of_nat (x div 256 mod 256), of_nat (x div 256 div 256 mod 256),
    of_nat (x div 256 div 256 div 256 mod 256)]"
proof -
  have "(4::nat) = Suc (Suc (Suc (Suc 0)))" by simp
  then show ?thesis by (simp only: le_bytes.simps)
qed

lemma length_le_bytes [simp]: "length (le_bytes k x) = k"
  by (induction k arbitrary: x) simp_all

lemma length_be_bytes [simp]: "length (be_bytes k x) = k"
  by (simp add: be_bytes_def)

lemma unat_of_nat_mod256 [simp]: "unat (of_nat (x mod 256) :: byte) = x mod 256"
  by (simp add: unat_of_nat)

lemma unat_byte_less: "unat (b :: byte) < 256"
  using unsigned_less [of b] by simp

lemma le_val_bytes: "le_val (le_bytes k x) = x mod 256 ^ k"
proof (induction k arbitrary: x)
  case 0
  then show ?case by simp
next
  case (Suc k)
  have "x mod 256 ^ Suc k = x mod 256 + 256 * (x div 256 mod 256 ^ k)"
    by (simp add: mod_mult2_eq)
  with Suc show ?case by simp
qed

lemma le_val_bytes_id: "x < 256 ^ k \<Longrightarrow> le_val (le_bytes k x) = x"
  by (simp add: le_val_bytes)

lemma le_bytes_val: "le_bytes (length bs) (le_val bs) = bs"
proof (induction bs)
  case Nil
  then show ?case by simp
next
  case (Cons b bs)
  have "(unat b + 256 * le_val bs) mod 256 = unat b"
    and "(unat b + 256 * le_val bs) div 256 = le_val bs"
    using unat_byte_less [of b] by simp_all
  with Cons show ?case by simp
qed

lemma le_val_less: "le_val bs < 256 ^ length bs"
proof (induction bs)
  case Nil
  then show ?case by simp
next
  case (Cons b bs)
  then show ?case using unat_byte_less [of b] by simp
qed

lemma be_val_bytes_id: "x < 256 ^ k \<Longrightarrow> be_val (be_bytes k x) = x"
  by (simp add: be_val_def be_bytes_def le_val_bytes_id)

lemma be_bytes_val: "be_bytes (length bs) (be_val bs) = bs"
  using le_bytes_val [of "rev bs"] by (simp add: be_bytes_def be_val_def)

lemma be_val_less: "be_val bs < 256 ^ length bs"
  using le_val_less [of "rev bs"] by (simp add: be_val_def)


section \<open>C memory blocks\<close>

text \<open>
  A block of memory is the list of its elements. An access outside the block is undefined
  behaviour in C; here it is the value \<open>None\<close>, so that a theorem that an operation
  returns \<open>Some\<close> is a memory-safety statement.
\<close>

lemma nat_int_diff [simp]: "nat (int a - int b) = a - b"
  by linarith

lemma nat_int_diff_add [simp]: "b \<le> a \<Longrightarrow> nat (int a - int b + int c) = a - b + c"
  by linarith

definition memcpy :: "'a list \<Rightarrow> int \<Rightarrow> 'a list \<Rightarrow> int \<Rightarrow> int \<Rightarrow> 'a list option" where
  "memcpy dst d src s n =
     (if 0 \<le> d \<and> 0 \<le> s \<and> 0 \<le> n \<and> d + n \<le> int (length dst) \<and> s + n \<le> int (length src)
      then Some (take (nat d) dst @ take (nat n) (drop (nat s) src) @ drop (nat (d + n)) dst)
      else None)"

definition memset :: "'a list \<Rightarrow> 'a \<Rightarrow> nat \<Rightarrow> 'a list option" where
  "memset dst v n = (if n \<le> length dst then Some (replicate n v @ drop n dst) else None)"

lemma memcpy_length: "memcpy dst d src s n = Some r \<Longrightarrow> length r = length dst"
  by (auto simp: memcpy_def nat_add_distrib split: if_splits)

lemma memcpy_all:
  assumes "n = int (length src)" "0 \<le> d" "d + n \<le> int (length dst)"
  shows "memcpy dst d src 0 n = Some (take (nat d) dst @ src @ drop (nat d + length src) dst)"
  using assms by (simp add: memcpy_def nat_add_distrib)

lemma memcpy_append:
  assumes "k \<le> length ys" "k \<le> length src" "d = int (length xs)"
  shows "memcpy (xs @ ys) d src 0 (int k) = Some (xs @ take k src @ drop k ys)"
  using assms by (simp add: memcpy_def nat_add_distrib)

lemma memset_all [simp]: "n = length dst \<Longrightarrow> memset dst v n = Some (replicate n v)"
  by (simp add: memset_def)

text \<open>Reading \<open>n\<close> elements at an offset, and writing some.\<close>

definition load_at :: "'a list \<Rightarrow> nat \<Rightarrow> nat \<Rightarrow> 'a list option" where
  "load_at blk off n = (if off + n \<le> length blk then Some (take n (drop off blk)) else None)"

definition store_at :: "'a list \<Rightarrow> nat \<Rightarrow> 'a list \<Rightarrow> 'a list option" where
  "store_at blk off d =
     (if off + length d \<le> length blk then Some (take off blk @ d @ drop (off + length d) blk) else None)"

text \<open>A single byte of a block.\<close>

definition byte_at :: "bytes \<Rightarrow> nat \<Rightarrow> byte option" where
  "byte_at blk off = (if off < length blk then Some (blk ! off) else None)"

lemma load_at_length: "load_at blk off n = Some d \<Longrightarrow> length d = n"
  by (auto simp: load_at_def split: if_splits)

lemma store_at_length: "store_at blk off d = Some r \<Longrightarrow> length r = length blk"
  by (auto simp: store_at_def split: if_splits)

text \<open>A block split into fields: skip the fields in front, then hit the field.\<close>

lemma load_at_skip [mem_simps]: "length a \<le> off \<Longrightarrow> load_at (a @ t) off n = load_at t (off - length a) n"
  by (auto simp: load_at_def)

lemma load_at_hit [mem_simps]: "length a = n \<Longrightarrow> load_at (a @ t) 0 n = Some a"
  by (simp add: load_at_def)

lemma load_at_all [mem_simps]: "length a = n \<Longrightarrow> load_at a 0 n = Some a"
  by (simp add: load_at_def)

lemma store_at_skip [mem_simps]:
  "length a \<le> off \<Longrightarrow> store_at (a @ t) off d = map_option ((@) a) (store_at t (off - length a) d)"
  by (auto simp: store_at_def)

lemma store_at_hit [mem_simps]: "length d = length a \<Longrightarrow> store_at (a @ t) 0 d = Some (d @ t)"
  by (simp add: store_at_def)

lemma store_at_all [mem_simps]: "length d = length a \<Longrightarrow> store_at a 0 d = Some d"
  by (simp add: store_at_def)

text \<open>Splitting a block: \<open>xs = take a xs @ take b (drop a xs) @ drop (a + b) xs\<close> and so on.\<close>

lemma take_drop_join: "m = n + k \<Longrightarrow> take n (drop k xs) @ drop m xs = drop k xs"
  by (metis append_take_drop_id drop_drop)

text \<open>
  The allocator: it may fail, and what it returns has arbitrary content. \<open>zero_malloc\<close> is an
  allocator that always succeeds.
\<close>

type_synonym malloc = "nat \<Rightarrow> bytes option"

definition malloc_ok :: "malloc \<Rightarrow> bool" where
  "malloc_ok alloc \<longleftrightarrow> (\<forall>n p. alloc n = Some p \<longrightarrow> length p = n)"

definition zero_malloc :: malloc where
  "zero_malloc n = Some (replicate n 0)"

lemma zero_malloc_ok: "malloc_ok zero_malloc"
  by (simp add: malloc_ok_def zero_malloc_def)

lemma malloc_length: "malloc_ok alloc \<Longrightarrow> alloc n = Some p \<Longrightarrow> length p = n"
  by (simp add: malloc_ok_def)


section \<open>Cyclic buffers\<close>

text \<open>\<open>ring m r\<close> is the buffer \<open>m\<close> read once round, from position \<open>r\<close>.\<close>

definition ring :: "'a list \<Rightarrow> nat \<Rightarrow> 'a list" where
  "ring m r = drop r m @ take r m"

lemma mod_wrap: "n \<le> a \<Longrightarrow> a < n + n \<Longrightarrow> a mod n = a - (n::nat)"
  by (simp add: le_mod_geq)

definition overwrite :: "'a list \<Rightarrow> nat \<Rightarrow> 'a list \<Rightarrow> 'a list" where
  "overwrite m w d =
     map (\<lambda>k. let j = (k + (length m - w)) mod length m in if j < length d then d ! j else m ! k)
       [0..<length m]"

lemma length_ring [simp]: "length (ring m r) = length m"
  by (simp add: ring_def)

lemma ring_0 [simp]: "ring m 0 = m"
  by (simp add: ring_def)

lemma nth_ring [ring_simps]:
  assumes "r \<le> length m" "i < length m"
  shows "ring m r ! i = m ! ((r + i) mod length m)"
proof (cases "i < length m - r")
  case True
  then have "(r + i) mod length m = r + i"
    by (intro mod_less) simp
  with True assms show ?thesis by (simp add: ring_def nth_append)
next
  case False
  then have "(r + i) mod length m = r + i - length m"
    using assms by (intro mod_wrap) simp_all
  then have "(r + i) mod length m = i - (length m - r)"
    using assms by simp
  with False assms show ?thesis by (simp add: ring_def nth_append)
qed

lemma length_overwrite [simp]: "length (overwrite m w d) = length m"
  by (simp add: overwrite_def)

lemma overwrite_nth:
  "k < length m \<Longrightarrow> overwrite m w d ! k =
    (if (k + (length m - w)) mod length m < length d
     then d ! ((k + (length m - w)) mod length m) else m ! k)"
  by (simp add: overwrite_def Let_def)

lemma cyclic_offset:
  assumes "w \<le> n" "i < (n::nat)"
  shows "((w + i) mod n + (n - w)) mod n = i"
proof (cases "w + i < n")
  case True
  then have "(w + i) mod n + (n - w) = n + i" using assms by simp
  then show ?thesis using assms by simp
next
  case False
  then have "(w + i) mod n = w + i - n" using assms by (intro mod_wrap) simp_all
  then have "(w + i) mod n + (n - w) = i" using assms False by simp
  then show ?thesis using assms by simp
qed

lemma nth_overwrite [ring_simps]:
  assumes "w \<le> length m" "i < length m"
  shows "overwrite m w d ! ((w + i) mod length m) =
         (if i < length d then d ! i else m ! ((w + i) mod length m))"
proof -
  have "0 < length m" using assms(2) by linarith
  then have "(w + i) mod length m < length m" by (rule mod_less_divisor)
  then show ?thesis
    using cyclic_offset [OF assms] by (simp add: overwrite_nth)
qed

text \<open>
  Writing \<open>d\<close> just behind the first \<open>u\<close> elements of the ring, with room for it, appends it
  to them and leaves them as they are.
\<close>

lemma take_ring_overwrite:
  assumes r: "r \<le> length m" and w: "w \<le> length m"
    and at: "w mod length m = (r + u) mod length m"
    and room: "u + length d \<le> length m"
  shows "take (u + length d) (ring (overwrite m w d) r) = take u (ring m r) @ d"
proof (rule nth_equalityI)
  show "length (take (u + length d) (ring (overwrite m w d) r)) = length (take u (ring m r) @ d)"
    using room by simp
next
  fix i assume "i < length (take (u + length d) (ring (overwrite m w d) r))"
  then have i: "i < u + length d" "i < length m" using room by simp_all
  have L: "take (u + length d) (ring (overwrite m w d) r) ! i
           = overwrite m w d ! ((r + i) mod length m)"
    using i r by (simp add: nth_ring)
  show "take (u + length d) (ring (overwrite m w d) r) ! i = (take u (ring m r) @ d) ! i"
  proof (cases "i < u")
    case True
    define j where "j = length m - u + i"
    have j: "j < length m" "length d \<le> j" using True room i by (simp_all add: j_def)
    have "(w + j) mod length m = (w mod length m + j) mod length m" by (simp add: mod_add_left_eq)
    also have "\<dots> = (r + u + j) mod length m" by (simp add: at mod_add_left_eq)
    also have "r + u + j = r + i + length m" using True room by (simp add: j_def)
    finally have "(w + j) mod length m = (r + i) mod length m" by simp
    then have "overwrite m w d ! ((r + i) mod length m) = m ! ((r + i) mod length m)"
      using nth_overwrite [OF w j(1), of d] j(2) by simp
    with True L i r show ?thesis by (simp add: nth_append nth_ring)
  next
    case False
    define j where "j = i - u"
    have j: "j < length m" "j < length d" using False i by (simp_all add: j_def)
    have "(w + j) mod length m = (w mod length m + j) mod length m" by (simp add: mod_add_left_eq)
    also have "\<dots> = (r + u + j) mod length m" by (simp add: at mod_add_left_eq)
    also have "r + u + j = r + i" using False by (simp add: j_def)
    finally have "overwrite m w d ! ((r + i) mod length m) = d ! j"
      using nth_overwrite [OF w j(1), of d] j(2) by simp
    with False L i room show ?thesis by (simp add: nth_append j_def)
  qed
qed

text \<open>The ring seen from a later position, and what two pieces of a wrapped read are.\<close>

lemma drop_ring:
  assumes "r \<le> length m" "k + u \<le> length m" "r' \<le> length m"
    and "r' mod length m = (r + k) mod length m"
  shows "take u (drop k (ring m r)) = take u (ring m r')"
proof (rule nth_equalityI)
  show "length (take u (drop k (ring m r))) = length (take u (ring m r'))"
    using assms(2) by simp
next
  fix i assume "i < length (take u (drop k (ring m r)))"
  then have i: "i < u" "k + i < length m" using assms(2) by simp_all
  have "(r' + i) mod length m = (r' mod length m + i) mod length m" by (simp add: mod_add_left_eq)
  also have "\<dots> = (r + (k + i)) mod length m" by (simp add: assms(4) mod_add_left_eq add.assoc)
  finally show "take u (drop k (ring m r)) ! i = take u (ring m r') ! i"
    using i assms(1,3) by (simp add: nth_ring)
qed

lemma ring_split:
  assumes "r \<le> length m" "k \<le> length m"
  shows "take k (ring m r) =
    (if r + k \<le> length m then take k (drop r m) else drop r m @ take (k - (length m - r)) m)"
  using assms by (auto simp: ring_def min_def)

lemma overwrite_one:
  assumes "w + length d \<le> length m"
  shows "overwrite m w d = take w m @ d @ drop (w + length d) m"
proof (rule nth_equalityI)
  show "length (overwrite m w d) = length (take w m @ d @ drop (w + length d) m)"
    using assms by simp
next
  fix k assume "k < length (overwrite m w d)"
  then have k: "k < length m" by simp
  show "overwrite m w d ! k = (take w m @ d @ drop (w + length d) m) ! k"
  proof (cases "w \<le> k")
    case True
    then have "(k + (length m - w)) mod length m = k + (length m - w) - length m"
      using assms k by (intro mod_wrap) simp_all
    then have "(k + (length m - w)) mod length m = k - w"
      using True assms by simp
    with True k assms show ?thesis
      by (auto simp only: overwrite_nth) (auto simp: nth_append)
  next
    case False
    then have "(k + (length m - w)) mod length m = k + (length m - w)"
      using assms k by (intro mod_less) simp
    with False k assms show ?thesis
      by (auto simp only: overwrite_nth) (auto simp: nth_append)
  qed
qed

lemma overwrite_two:
  assumes "w \<le> length m" "length d \<le> length m" "length m < w + length d"
  shows "overwrite m w d =
     drop (length m - w) d @ take (length m - length d) (drop (w + length d - length m) m)
       @ take (length m - w) d"
proof (rule nth_equalityI)
  show "length (overwrite m w d) = length (drop (length m - w) d @
     take (length m - length d) (drop (w + length d - length m) m) @ take (length m - w) d)"
    using assms by simp
next
  fix k assume "k < length (overwrite m w d)"
  then have k: "k < length m" by simp
  show "overwrite m w d ! k = (drop (length m - w) d @
     take (length m - length d) (drop (w + length d - length m) m) @ take (length m - w) d) ! k"
  proof (cases "w \<le> k")
    case True
    then have "(k + (length m - w)) mod length m = k + (length m - w) - length m"
      using assms k by (intro mod_wrap) simp_all
    then have "(k + (length m - w)) mod length m = k - w"
      using True assms by simp
    with True k assms show ?thesis
      by (auto simp only: overwrite_nth) (auto simp: nth_append)
  next
    case False
    then have "(k + (length m - w)) mod length m = k + (length m - w)"
      using assms k by (intro mod_less) simp
    with False k assms show ?thesis
      by (auto simp only: overwrite_nth) (auto simp: nth_append add.commute)
  qed
qed

end
