(* ===== verification/Dlt_Receiver.thy ===== *)
theory Dlt_Receiver
  imports Dlt_Prelude
begin

text \<open>
  The receiver that collects the bytes of a connection (\<^verbatim>\<open>DltReceiver\<close> and the
  \<^verbatim>\<open>dlt_receiver_*\<close> functions of \<^verbatim>\<open>src/shared/dlt_common.c\<close>).

  All receivers of applications share one buffer, so the model has an explicit heap: a
  pointer is the address of a block, or an address and an offset. \<open>new\<close> is the allocator: it
  returns the address of a free block, or nothing. \<open>recv\<close> stands for the system calls
  \<^verbatim>\<open>recv\<close>, \<^verbatim>\<open>read\<close> and \<^verbatim>\<open>recvfrom\<close>: given the room that is left it returns the
  bytes it read, or nothing for an error. The result \<open>None\<close> is an access outside a block, or
  to a block that is not allocated.
\<close>

section \<open>The heap\<close>

type_synonym heap = "nat \<rightharpoonup> bytes"

type_synonym allocator = "heap \<Rightarrow> nat \<Rightarrow> nat option"

definition allocator_ok :: "allocator \<Rightarrow> bool" where
  "allocator_ok new \<longleftrightarrow> (\<forall>h n a. new h n = Some a \<longrightarrow> h a = None)"

definition free_block :: "heap \<Rightarrow> nat \<Rightarrow> heap option" where
  "free_block h a = (case h a of None \<Rightarrow> None | Some _ \<Rightarrow> Some (h(a := None)))"

definition free_opt :: "heap \<Rightarrow> nat option \<Rightarrow> heap option" where
  "free_opt h p = (case p of None \<Rightarrow> Some h | Some a \<Rightarrow> free_block h a)"


section \<open>Data\<close>

datatype DltReceiverType = DLT_RECEIVE_SOCKET | DLT_RECEIVE_UDP_SOCKET | DLT_RECEIVE_FD

record DltReceiver =
  lastBytesRcvd :: int
  bytesRcvd :: int
  totalBytesRcvd :: int
  rcv_buffer :: "nat option"
  rcv_buf :: "(nat \<times> int) option"
  backup_buf :: "nat option"
  rcv_fd :: int
  rcv_type :: DltReceiverType
  buffersize :: int

definition DLT_RECEIVE_BUFSIZE :: nat where
  "DLT_RECEIVE_BUFSIZE = 65535"

definition sizeof_DltUserHeader :: nat where
  "sizeof_DltUserHeader = 8"

type_synonym recv = "DltReceiverType \<Rightarrow> nat \<Rightarrow> bytes option"


section \<open>Operations\<close>

definition dlt_receiver_init ::
  "allocator \<Rightarrow> heap \<Rightarrow> DltReceiver \<Rightarrow> int \<Rightarrow> DltReceiverType \<Rightarrow> int \<Rightarrow>
   (DltReturnValue \<times> heap \<times> DltReceiver) option" where
  "dlt_receiver_init new h r fd ty sz = do {
     let r = r\<lparr>rcv_fd := fd, rcv_type := ty\<rparr>;
     (h, r) \<leftarrow> (case rcv_buffer r of
        Some a \<Rightarrow> if sz \<noteq> buffersize r
                   then map_option (\<lambda>h. (h, r\<lparr>rcv_buffer := None\<rparr>)) (free_block h a)
                   else Some (h, r)
      | None \<Rightarrow> Some (h, r));
     let (h, r) = (case rcv_buffer r of
        Some _ \<Rightarrow> (h, r)
      | None \<Rightarrow>
          let n = nat (u64 sz); p = new h n in
          (case p of None \<Rightarrow> h | Some a \<Rightarrow> h(a \<mapsto> replicate n 0),
           r\<lparr>lastBytesRcvd := 0, bytesRcvd := 0, totalBytesRcvd := 0, rcv_buf := None,
             backup_buf := None, rcv_buffer := p, buffersize := sz\<rparr>));
     (case rcv_buffer r of
        None \<Rightarrow> Some (DLT_RETURN_ERROR, h, r)
      | Some a \<Rightarrow> Some (DLT_RETURN_OK, h, r\<lparr>rcv_buf := Some (a, 0)\<rparr>))
   }"

text \<open>
  \<open>fresh\<close> is the content of the block that \<^verbatim>\<open>malloc\<close> returns; \<open>g\<close> is the global handle of
  the shared buffer.
\<close>

definition dlt_receiver_init_global_buffer ::
  "allocator \<Rightarrow> bytes \<Rightarrow> heap \<Rightarrow> DltReceiver \<Rightarrow> int \<Rightarrow> DltReceiverType \<Rightarrow> nat option \<Rightarrow>
   DltReturnValue \<times> heap \<times> DltReceiver \<times> nat option" where
  "dlt_receiver_init_global_buffer new fresh h r fd ty g =
     (let (h, g) = (case g of
        Some a \<Rightarrow> (h, Some a)
      | None \<Rightarrow> (case new h DLT_RECEIVE_BUFSIZE of
                   None \<Rightarrow> (h, None)
                 | Some a \<Rightarrow> (h(a \<mapsto> fresh), Some a)))
      in case g of
           None \<Rightarrow> (DLT_RETURN_ERROR, h, r, None)
         | Some a \<Rightarrow> (DLT_RETURN_OK, h,
             r\<lparr>lastBytesRcvd := 0, bytesRcvd := 0, totalBytesRcvd := 0,
               buffersize := int DLT_RECEIVE_BUFSIZE, rcv_fd := fd, rcv_type := ty,
               rcv_buffer := Some a, backup_buf := None, rcv_buf := Some (a, 0)\<rparr>, Some a))"

definition dlt_receiver_free ::
  "heap \<Rightarrow> DltReceiver \<Rightarrow> (DltReturnValue \<times> heap \<times> DltReceiver) option" where
  "dlt_receiver_free h r = do {
     h \<leftarrow> free_opt h (rcv_buffer r);
     h \<leftarrow> free_opt h (backup_buf r);
     Some (DLT_RETURN_OK, h, r\<lparr>rcv_buffer := None, rcv_buf := None, backup_buf := None\<rparr>)
   }"

definition dlt_receiver_free_global_buffer ::
  "heap \<Rightarrow> DltReceiver \<Rightarrow> (DltReturnValue \<times> heap \<times> DltReceiver) option" where
  "dlt_receiver_free_global_buffer h r = do {
     h \<leftarrow> free_opt h (backup_buf r);
     Some (DLT_RETURN_OK, h, r\<lparr>rcv_buffer := None, rcv_buf := None, backup_buf := None\<rparr>)
   }"

text \<open>The part of a receive that brings back the bytes that were set aside.\<close>

definition restore_backup :: "heap \<Rightarrow> DltReceiver \<Rightarrow> nat \<Rightarrow> (heap \<times> DltReceiver) option" where
  "restore_backup h r a =
     (case backup_buf r of
        Some b \<Rightarrow>
          if lastBytesRcvd r \<noteq> 0 then do {
            blk \<leftarrow> h a;
            bk \<leftarrow> h b;
            blk' \<leftarrow> memcpy blk 0 bk 0 (lastBytesRcvd r);
            h' \<leftarrow> free_block (h(a \<mapsto> blk')) b;
            Some (h', r\<lparr>backup_buf := None\<rparr>)
          }
          else Some (h, r)
      | None \<Rightarrow> Some (h, r))"

definition dlt_receiver_receive ::
  "recv \<Rightarrow> heap \<Rightarrow> DltReceiver \<Rightarrow> (int \<times> heap \<times> DltReceiver) option" where
  "dlt_receiver_receive recv h r =
     (case rcv_buffer r of
        None \<Rightarrow> Some (-1, h, r)
      | Some a \<Rightarrow> do {
          let r = r\<lparr>rcv_buf := Some (a, 0), lastBytesRcvd := bytesRcvd r\<rparr>;
          (h, r) \<leftarrow> restore_backup h r a;
          blk \<leftarrow> h a;
          (blk, n) \<leftarrow> (case recv (rcv_type r) (nat (u64 (buffersize r - lastBytesRcvd r))) of
             None \<Rightarrow> Some (blk, 0)
           | Some d \<Rightarrow> do {
               blk \<leftarrow> memcpy blk (lastBytesRcvd r) d 0 (int (length d));
               Some (blk, if length d \<le> 2147483647 then int (length d) else 0)
             });
          let h = h(a \<mapsto> blk);
          if n \<le> 0 then Some (0, h, r\<lparr>bytesRcvd := 0\<rparr>)
          else
            let r = r\<lparr>totalBytesRcvd := i32 (totalBytesRcvd r + n),
                      bytesRcvd := i32 (n + lastBytesRcvd r)\<rparr>
            in Some (bytesRcvd r, h, r)
        })"

definition move_buf :: "DltReceiver \<Rightarrow> nat \<times> int \<Rightarrow> int \<Rightarrow> DltReceiver" where
  "move_buf r p k = r\<lparr>rcv_buf := Some (fst p, snd p + k)\<rparr>"

definition dlt_receiver_remove :: "DltReceiver \<Rightarrow> int \<Rightarrow> DltReturnValue \<times> DltReceiver" where
  "dlt_receiver_remove r sz =
     (case rcv_buf r of
        None \<Rightarrow> (DLT_RETURN_ERROR, r)
      | Some p \<Rightarrow>
          if sz > bytesRcvd r \<or> sz \<le> 0 then
            (DLT_RETURN_WRONG_PARAMETER, (move_buf r p (bytesRcvd r))\<lparr>bytesRcvd := 0\<rparr>)
          else
            (DLT_RETURN_OK, (move_buf r p sz)\<lparr>bytesRcvd := bytesRcvd r - sz\<rparr>))"

definition dlt_receiver_move_to_begin ::
  "allocator \<Rightarrow> heap \<Rightarrow> DltReceiver \<Rightarrow> (DltReturnValue \<times> heap \<times> DltReceiver) option" where
  "dlt_receiver_move_to_begin new h r =
     (case (rcv_buffer r, rcv_buf r) of
        (Some a, Some p) \<Rightarrow>
          if p \<noteq> (a, 0) \<and> bytesRcvd r \<noteq> 0 then
            (let n = nat (u64 (bytesRcvd r + 1)) in
             case new h n of
               None \<Rightarrow> Some (DLT_RETURN_OK, h, r\<lparr>backup_buf := None\<rparr>)
             | Some b \<Rightarrow> do {
                 blk \<leftarrow> h (fst p);
                 bk \<leftarrow> memcpy (replicate n 0) 0 blk (snd p) (bytesRcvd r);
                 Some (DLT_RETURN_OK, h(b \<mapsto> bk), r\<lparr>backup_buf := Some b\<rparr>)
               })
          else Some (DLT_RETURN_OK, h, r)
      | _ \<Rightarrow> Some (DLT_RETURN_ERROR, h, r))"

text \<open>The flags \<^verbatim>\<open>DLT_RCV_SKIP_HEADER\<close> and \<^verbatim>\<open>DLT_RCV_REMOVE\<close> are bits 0 and 1.\<close>

definition dlt_receiver_check_and_get ::
  "heap \<Rightarrow> DltReceiver \<Rightarrow> bytes option \<Rightarrow> nat \<Rightarrow> nat \<Rightarrow> (int \<times> bytes option \<times> DltReceiver) option"
where
  "dlt_receiver_check_and_get h r dest to_get flags =
     (let skip = (if bit flags 0 then sizeof_DltUserHeader else 0);
          min_size = to_get + skip
      in case (rcv_buf r, dest) of
           (Some p, Some d) \<Rightarrow>
             if bytesRcvd r < i32 (int min_size)
             then Some (ret_int DLT_RETURN_WRONG_PARAMETER, dest, r)
             else do {
               blk \<leftarrow> h (fst p);
               d' \<leftarrow> memcpy d 0 blk (snd p + int skip) (int to_get);
               if bit flags 1 then
                 (case dlt_receiver_remove r (i32 (int min_size)) of
                    (DLT_RETURN_OK, r') \<Rightarrow> Some (i32 (int to_get), Some d', r')
                  | (_, r') \<Rightarrow> Some (ret_int DLT_RETURN_ERROR, Some d', r'))
               else Some (i32 (int to_get), Some d', r)
             }
         | _ \<Rightarrow> Some (ret_int DLT_RETURN_WRONG_PARAMETER, dest, r))"


section \<open>Byte streams\<close>

text \<open>
  What the users of a receiver rely on. A stream holds bytes that arrived and were not
  consumed yet. It is filled with a chunk of bytes, then bytes are taken from its front,
  then the rest is kept for the next chunk.
\<close>

fun stream_take :: "('e \<Rightarrow> nat \<Rightarrow> 's \<Rightarrow> (bytes \<times> 's) option) \<Rightarrow> 'e \<Rightarrow> nat list \<Rightarrow> 's \<Rightarrow> (bytes \<times> 's) option"
where
  "stream_take get e [] s = Some ([], s)"
| "stream_take get e (k # ks) s = do {
     (xs, s1) \<leftarrow> get e k s;
     (ys, s2) \<leftarrow> stream_take get e ks s1;
     Some (xs @ ys, s2)
   }"

fun stream_run ::
  "('e \<Rightarrow> bytes \<Rightarrow> 's \<Rightarrow> 's option) \<Rightarrow> ('e \<Rightarrow> nat \<Rightarrow> 's \<Rightarrow> (bytes \<times> 's) option) \<Rightarrow>
   ('e \<Rightarrow> 's \<Rightarrow> 's option) \<Rightarrow> ('e \<times> bytes \<times> nat list) list \<Rightarrow> 's \<Rightarrow> (bytes \<times> 's) option" where
  "stream_run fill get keep [] s = Some ([], s)"
| "stream_run fill get keep ((e, d, ks) # rounds) s = do {
     s1 \<leftarrow> fill e d s;
     (xs, s2) \<leftarrow> stream_take get e ks s1;
     s3 \<leftarrow> keep e s2;
     (ys, s4) \<leftarrow> stream_run fill get keep rounds s3;
     Some (xs @ ys, s4)
   }"

text \<open>
  \<open>rounds_fit cap n rounds\<close>: with \<open>n\<close> bytes kept, every chunk is nonempty and fits the
  capacity, and no more bytes are taken than there are.
\<close>

fun rounds_fit :: "nat \<Rightarrow> nat \<Rightarrow> ('e \<times> bytes \<times> nat list) list \<Rightarrow> bool" where
  "rounds_fit cap n [] = True"
| "rounds_fit cap n ((e, d, ks) # rounds) =
     (d \<noteq> [] \<and> n + length d \<le> cap \<and> 0 \<notin> set ks \<and> sum_list ks \<le> n + length d
      \<and> rounds_fit cap (n + length d - sum_list ks) rounds)"

definition chunks :: "('e \<times> bytes \<times> nat list) list \<Rightarrow> bytes" where
  "chunks rounds = concat (map (\<lambda>(e, d, ks). d) rounds)"

locale byte_stream =
  fixes env_ok :: "'e \<Rightarrow> bool"
    and cap :: "'s \<Rightarrow> nat"
    and ready :: "'s \<Rightarrow> bytes \<Rightarrow> bool"
    and opened :: "'s \<Rightarrow> bytes \<Rightarrow> bool"
    and fill :: "'e \<Rightarrow> bytes \<Rightarrow> 's \<Rightarrow> 's option"
    and get :: "'e \<Rightarrow> nat \<Rightarrow> 's \<Rightarrow> (bytes \<times> 's) option"
    and keep :: "'e \<Rightarrow> 's \<Rightarrow> 's option"
  assumes fill_law: "\<lbrakk>env_ok e; ready s bs; d \<noteq> []; length bs + length d \<le> cap s\<rbrakk> \<Longrightarrow>
      \<exists>s'. fill e d s = Some s' \<and> opened s' (bs @ d) \<and> cap s' = cap s"
    and get_law: "\<lbrakk>env_ok e; opened s (xs @ ys); xs \<noteq> []\<rbrakk> \<Longrightarrow>
      \<exists>s'. get e (length xs) s = Some (xs, s') \<and> opened s' ys \<and> cap s' = cap s"
    and keep_law: "\<lbrakk>env_ok e; opened s bs\<rbrakk> \<Longrightarrow>
      \<exists>s'. keep e s = Some s' \<and> ready s' bs \<and> cap s' = cap s"
begin

lemma take_conserves:
  assumes "env_ok e" "opened s bs" "0 \<notin> set ks" "sum_list ks \<le> length bs"
  shows "\<exists>s'. stream_take get e ks s = Some (take (sum_list ks) bs, s')
    \<and> opened s' (drop (sum_list ks) bs) \<and> cap s' = cap s"
  using assms
proof (induction ks arbitrary: s bs)
  case Nil
  then show ?case by simp
next
  case (Cons k ks)
  let ?xs = "take k bs" and ?ys = "drop k bs"
  have k: "length ?xs = k" "?xs \<noteq> []" using Cons.prems by auto
  have "opened s (?xs @ ?ys)" using Cons.prems(2) by simp
  from get_law [OF Cons.prems(1) this k(2)] k(1) obtain s1 where
    s1: "get e k s = Some (?xs, s1)" "opened s1 ?ys" "cap s1 = cap s" by auto
  have "sum_list ks \<le> length ?ys" using Cons.prems(4) by simp
  with Cons.IH [OF Cons.prems(1) s1(2)] Cons.prems(3) obtain s2 where
    "stream_take get e ks s1 = Some (take (sum_list ks) ?ys, s2)"
    "opened s2 (drop (sum_list ks) ?ys)" "cap s2 = cap s1" by auto
  with s1 show ?case by (simp add: take_add add.commute [of "sum_list ks"])
qed

text \<open>No byte is lost, repeated or reordered, over any number of rounds.\<close>

lemma stream_conserves:
  assumes "ready s bs" "rounds_fit (cap s) (length bs) rounds"
    "\<And>e d ks. (e, d, ks) \<in> set rounds \<Longrightarrow> env_ok e"
  shows "\<exists>out s' bs'. stream_run fill get keep rounds s = Some (out, s') \<and> ready s' bs'
    \<and> bs @ chunks rounds = out @ bs'"
  using assms
proof (induction rounds arbitrary: s bs)
  case Nil
  then show ?case by (auto simp: chunks_def)
next
  case (Cons x rounds)
  obtain e d ks where x: "x = (e, d, ks)" by (cases x)
  let ?n = "sum_list ks"
  have e: "env_ok e" using Cons.prems(3) x by auto
  from fill_law [OF e Cons.prems(1), of d] Cons.prems(2) x obtain s1 where
    s1: "fill e d s = Some s1" "opened s1 (bs @ d)" "cap s1 = cap s" by auto
  from take_conserves [OF e s1(2), of ks] Cons.prems(2) x obtain s2 where
    s2: "stream_take get e ks s1 = Some (take ?n (bs @ d), s2)"
      "opened s2 (drop ?n (bs @ d))" "cap s2 = cap s1" by auto
  from keep_law [OF e s2(2)] obtain s3 where
    s3: "keep e s2 = Some s3" "ready s3 (drop ?n (bs @ d))" "cap s3 = cap s2" by blast
  have "rounds_fit (cap s3) (length (drop ?n (bs @ d))) rounds"
    using Cons.prems(2) x s1(3) s2(3) s3(3) by (simp only: length_drop length_append) simp
  from Cons.IH [OF s3(2) this] Cons.prems(3) obtain out s' bs' where
    r: "stream_run fill get keep rounds s3 = Some (out, s')" "ready s' bs'"
      "drop ?n (bs @ d) @ chunks rounds = out @ bs'" by force
  have "bs @ chunks (x # rounds) = take ?n (bs @ d) @ (drop ?n (bs @ d) @ chunks rounds)"
    by (simp only: append_take_drop_id append.assoc [symmetric]) (simp add: x chunks_def)
  with r(3) have "bs @ chunks (x # rounds) = (take ?n (bs @ d) @ out) @ bs'" by simp
  with r(1,2) s1 s2 s3 x show ?case by auto
qed

end


section \<open>The receiver as a byte stream\<close>

text \<open>
  \<open>receiver_at h r a blk off n\<close>: the buffer of \<open>r\<close> is the block \<open>blk\<close> at \<open>a\<close>, and \<open>n\<close>
  received bytes start at offset \<open>off\<close>.
\<close>

definition receiver_at :: "heap \<Rightarrow> DltReceiver \<Rightarrow> nat \<Rightarrow> bytes \<Rightarrow> nat \<Rightarrow> nat \<Rightarrow> bool" where
  "receiver_at h r a blk off n \<longleftrightarrow>
     rcv_buffer r = Some a \<and> h a = Some blk \<and> buffersize r = int (length blk)
     \<and> length blk < 2147483648 \<and> rcv_buf r = Some (a, int off) \<and> bytesRcvd r = int n
     \<and> off + n \<le> length blk \<and> finite (dom h)"

text \<open>
  \<open>rcv_opened\<close>: the bytes \<open>bs\<close> can be read at the current position. \<open>rcv_ready\<close>: they will
  be in front of what is received next, because they are set aside or at the beginning of
  the buffer.
\<close>

definition rcv_opened :: "heap \<times> DltReceiver \<Rightarrow> bytes \<Rightarrow> bool" where
  "rcv_opened s bs \<longleftrightarrow> (\<exists>a blk off. receiver_at (fst s) (snd s) a blk off (length bs)
     \<and> backup_buf (snd s) = None \<and> take (length bs) (drop off blk) = bs)"

definition set_aside :: "heap \<Rightarrow> DltReceiver \<Rightarrow> nat \<Rightarrow> bytes \<Rightarrow> bool" where
  "set_aside h r a bs \<longleftrightarrow> (\<exists>b bk. backup_buf r = Some b \<and> b \<noteq> a \<and> h b = Some bk
     \<and> take (length bs) bk = bs \<and> bs \<noteq> [])"

definition rcv_ready :: "heap \<times> DltReceiver \<Rightarrow> bytes \<Rightarrow> bool" where
  "rcv_ready s bs \<longleftrightarrow> (\<exists>a blk off. receiver_at (fst s) (snd s) a blk off (length bs)
     \<and> (set_aside (fst s) (snd s) a bs
        \<or> backup_buf (snd s) = None \<and> (bs = [] \<or> off = 0 \<and> take (length bs) blk = bs)))"

lemma rcv_readyE:
  assumes "rcv_ready (h, r) bs"
  obtains (aside) a blk off b bk where "receiver_at h r a blk off (length bs)"
      "backup_buf r = Some b" "b \<noteq> a" "h b = Some bk" "take (length bs) bk = bs" "bs \<noteq> []"
    | (front) a blk off where "receiver_at h r a blk off (length bs)" "backup_buf r = None"
      "take (length bs) blk = bs"
  using assms by (fastforce simp: rcv_ready_def set_aside_def)

lemma restore_ready:
  assumes "rcv_ready (h, r) bs"
  obtains a blk h' where "rcv_buffer r = Some a" "h' a = Some (bs @ drop (length bs) blk)"
    "length bs \<le> length blk" "length blk < 2147483648" "buffersize r = int (length blk)"
    "bytesRcvd r = int (length bs)"
    "restore_backup h (r\<lparr>rcv_buf := Some (a, 0), lastBytesRcvd := bytesRcvd r\<rparr>) a
       = Some (h', r\<lparr>rcv_buf := Some (a, 0), lastBytesRcvd := bytesRcvd r, backup_buf := None\<rparr>)"
    "\<And>x. x \<noteq> a \<Longrightarrow> backup_buf r \<noteq> Some x \<Longrightarrow> h' x = h x" "finite (dom h')"
  using assms
proof (cases rule: rcv_readyE)
  case (aside a blk off b bk)
  then have n: "length bs \<le> length bk" "length bs \<le> length blk"
    by (auto simp: receiver_at_def) (metis length_take min.cobounded1)
  have "memcpy blk 0 bk 0 (int (length bs)) = Some (bs @ drop (length bs) blk)"
    using aside(5) n by (simp add: memcpy_def)
  with aside n show thesis
    by (intro that [of a "h(a \<mapsto> bs @ drop (length bs) blk, b := None)" blk])
      (simp_all add: receiver_at_def restore_backup_def free_block_def)
next
  case (front a blk off)
  then have "blk = bs @ drop (length bs) blk" by (metis append_take_drop_id)
  with front show thesis
    by (intro that [of a h blk]) (simp_all add: receiver_at_def restore_backup_def)
qed

lemma receive_spec:
  assumes "rcv_ready (h, r) bs" "d \<noteq> []"
    "int (length bs + length d) \<le> buffersize r"
    "recv (rcv_type r) (nat (buffersize r) - length bs) = Some d"
  obtains h' r' where
    "dlt_receiver_receive recv h r = Some (int (length bs + length d), h', r')"
    "rcv_opened (h', r') (bs @ d)" "buffersize r' = buffersize r" "rcv_buffer r' = rcv_buffer r"
    "\<And>x. rcv_buffer r \<noteq> Some x \<Longrightarrow> backup_buf r \<noteq> Some x \<Longrightarrow> h' x = h x"
    "\<And>a. rcv_buffer r = Some a \<Longrightarrow> receiver_at h' r' a (the (h' a)) 0 (length bs + length d)
       \<and> (\<exists>rest. h' a = Some (bs @ d @ rest))" "backup_buf r' = None"
    "rcv_type r' = rcv_type r"
proof -
  from assms(1) obtain a blk h1 where f: "rcv_buffer r = Some a"
    "h1 a = Some (bs @ drop (length bs) blk)" "length bs \<le> length blk" "length blk < 2147483648"
    "buffersize r = int (length blk)" "bytesRcvd r = int (length bs)"
    "restore_backup h (r\<lparr>rcv_buf := Some (a, 0), lastBytesRcvd := bytesRcvd r\<rparr>) a
       = Some (h1, r\<lparr>rcv_buf := Some (a, 0), lastBytesRcvd := bytesRcvd r, backup_buf := None\<rparr>)"
    "\<And>x. x \<noteq> a \<Longrightarrow> backup_buf r \<noteq> Some x \<Longrightarrow> h1 x = h x" "finite (dom h1)"
    by (rule restore_ready) blast
  let ?rest = "drop (length bs + length d) blk" and ?n = "length bs + length d"
  let ?r' = "r\<lparr>rcv_buf := Some (a, 0), lastBytesRcvd := int (length bs), backup_buf := None,
     totalBytesRcvd := i32 (totalBytesRcvd r + int (length d)), bytesRcvd := int ?n\<rparr>"
  have n: "?n \<le> length blk" using assms(3) f(5) by simp
  have room: "nat (u64 (int (length blk) - int (length bs))) = length blk - length bs"
    using f(3,4) by (simp add: c_casts)
  have c: "memcpy (bs @ drop (length bs) blk) (int (length bs)) d 0 (int (length d))
      = Some (bs @ d @ ?rest)"
    using memcpy_append [of "length d" "drop (length bs) blk" d "int (length bs)" bs] n
    by (simp add: add.commute)
  have "i32 (int (length d) + int (length bs)) = int ?n" using n f(4) by (simp add: c_casts)
  then have "dlt_receiver_receive recv h r = Some (int ?n, h1(a \<mapsto> bs @ d @ ?rest), ?r')"
    using f(1,2,5,6,7) assms(2,4) room c n f(4)
    by (simp add: dlt_receiver_receive_def Let_def)
  moreover have at': "receiver_at (h1(a \<mapsto> bs @ d @ ?rest)) ?r' a (bs @ d @ ?rest) 0 (length (bs @ d))"
    using f(1,4,5,9) n by (simp add: receiver_at_def)
  then have "rcv_opened (h1(a \<mapsto> bs @ d @ ?rest), ?r') (bs @ d)"
    unfolding rcv_opened_def by (intro exI conjI) auto
  ultimately show thesis using f(1,8) at'
    by (intro that [of "h1(a \<mapsto> bs @ d @ ?rest)" ?r']) auto
qed

lemma get_bytes_spec:
  assumes "rcv_opened (h, r) (xs @ ys)" "xs \<noteq> []" "length dst = length xs"
  obtains r' where "dlt_receiver_check_and_get h r (Some dst) (length xs) 2
      = Some (int (length xs), Some xs, r')"
    "rcv_opened (h, r') ys" "buffersize r' = buffersize r"
proof -
  from assms(1) obtain a blk off where at: "receiver_at h r a blk off (length (xs @ ys))"
    and nb: "backup_buf r = None" and t: "take (length (xs @ ys)) (drop off blk) = xs @ ys"
    by (auto simp: rcv_opened_def)
  let ?r' = "r\<lparr>rcv_buf := Some (a, int off + int (length xs)), bytesRcvd := int (length ys)\<rparr>"
  have le: "off + (length xs + length ys) \<le> length blk" "length blk < 2147483648"
    using at by (simp_all add: receiver_at_def)
  have c: "i32 (int (length xs)) = int (length xs)" using le by (simp add: c_casts)
  have "take (length xs) (drop off blk) = take (length xs) (take (length (xs @ ys)) (drop off blk))"
    by simp
  also have "\<dots> = xs" unfolding t by simp
  finally have x: "take (length xs) (drop off blk) = xs" .
  then have m: "memcpy dst 0 blk (int off) (int (length xs)) = Some xs"
    using le assms(3) by (simp add: memcpy_def)
  have "drop (length xs) (take (length (xs @ ys)) (drop off blk)) = ys" unfolding t by simp
  then have y: "take (length ys) (drop (off + length xs) blk) = ys"
    by (simp add: drop_take add.commute)
  have "dlt_receiver_check_and_get h r (Some dst) (length xs) 2
      = Some (int (length xs), Some xs, ?r')"
    using at m c assms(2)
    by (simp add: dlt_receiver_check_and_get_def dlt_receiver_remove_def move_buf_def
        receiver_at_def bit_Suc bit_0 numeral_2_eq_2)
  moreover have "receiver_at h ?r' a blk (off + length xs) (length ys)"
    using at by (simp add: receiver_at_def)
  then have "rcv_opened (h, ?r') ys"
    unfolding rcv_opened_def using nb y by (intro exI conjI) auto
  ultimately show thesis by (intro that [of ?r']) simp_all
qed

lemma keep_spec:
  assumes "rcv_opened (h, r) bs" "allocator_ok new" "\<And>n. finite (dom h) \<Longrightarrow> new h n \<noteq> None"
  obtains h' r' where "dlt_receiver_move_to_begin new h r = Some (DLT_RETURN_OK, h', r')"
    "rcv_ready (h', r') bs" "buffersize r' = buffersize r"
proof -
  from assms(1) obtain a blk off where at: "receiver_at h r a blk off (length bs)"
    and nb: "backup_buf r = None" and t: "take (length bs) (drop off blk) = bs"
    by (auto simp: rcv_opened_def)
  show thesis
  proof (cases "off = 0 \<or> bs = []")
    case True
    then have "rcv_ready (h, r) bs" unfolding rcv_ready_def using at nb t
      by (intro exI [of _ a] exI [of _ blk] exI [of _ off]) auto
    with True at show thesis
      by (intro that [of h r]) (auto simp: dlt_receiver_move_to_begin_def receiver_at_def)
  next
    case False
    let ?n = "Suc (length bs)"
    obtain b where b: "new h ?n = Some b" using assms(3) at by (auto simp: receiver_at_def)
    then have hb: "h b = None" using assms(2) by (auto simp: allocator_ok_def)
    have ba: "b \<noteq> a" using hb at by (auto simp: receiver_at_def)
    have n: "nat (u64 (int (length bs) + 1)) = ?n" using at by (simp add: c_casts receiver_at_def)
    have m: "memcpy (replicate ?n 0) 0 blk (int off) (int (length bs)) = Some (bs @ [0])"
      unfolding replicate_Suc replicate_append_same [symmetric]
      using at t by (simp add: memcpy_def receiver_at_def)
    let ?h = "h(b \<mapsto> bs @ [0])" and ?r = "r\<lparr>backup_buf := Some b\<rparr>"
    have "dlt_receiver_move_to_begin new h r = Some (DLT_RETURN_OK, ?h, ?r)"
      using at False b n m by (simp add: dlt_receiver_move_to_begin_def receiver_at_def)
    moreover have "receiver_at ?h ?r a blk off (length bs)"
      using at ba by (simp add: receiver_at_def)
    then have "rcv_ready (?h, ?r) bs"
      unfolding rcv_ready_def set_aside_def using False ba by auto
    ultimately show thesis by (intro that [of ?h ?r]) simp_all
  qed
qed

definition receive_chunk ::
  "allocator \<Rightarrow> bytes \<Rightarrow> heap \<times> DltReceiver \<Rightarrow> (heap \<times> DltReceiver) option" where
  "receive_chunk new d s =
     map_option snd (dlt_receiver_receive (\<lambda>_ _. Some d) (fst s) (snd s))"

definition get_bytes ::
  "allocator \<Rightarrow> nat \<Rightarrow> heap \<times> DltReceiver \<Rightarrow> (bytes \<times> heap \<times> DltReceiver) option" where
  "get_bytes new k s = do {
     (_, d, r) \<leftarrow> dlt_receiver_check_and_get (fst s) (snd s) (Some (replicate k 0)) k 2;
     d \<leftarrow> d;
     Some (d, fst s, r)
   }"

definition keep_rest :: "allocator \<Rightarrow> heap \<times> DltReceiver \<Rightarrow> (heap \<times> DltReceiver) option" where
  "keep_rest new s = map_option snd (dlt_receiver_move_to_begin new (fst s) (snd s))"

definition never_fails :: "allocator \<Rightarrow> bool" where
  "never_fails new \<longleftrightarrow> allocator_ok new \<and> (\<forall>h n. finite (dom h) \<longrightarrow> new h n \<noteq> None)"

definition rcv_cap :: "heap \<times> DltReceiver \<Rightarrow> nat" where
  "rcv_cap s = nat (buffersize (snd s))"

interpretation rs: byte_stream never_fails rcv_cap rcv_ready rcv_opened
  receive_chunk get_bytes keep_rest
proof unfold_locales
  fix e s bs and d :: bytes
  assume a: "rcv_ready s bs" "d \<noteq> []" "length bs + length d \<le> rcv_cap s"
  obtain h r where s: "s = (h, r)" by (cases s)
  have "0 \<le> buffersize r" using a(1) s by (auto simp: rcv_ready_def receiver_at_def)
  then have "int (length bs + length d) \<le> buffersize r" using a(3) s by (simp add: rcv_cap_def)
  from a(1) s a(2) this show "\<exists>s'. receive_chunk e d s = Some s' \<and> rcv_opened s' (bs @ d) \<and> rcv_cap s' = rcv_cap s"
    by (auto simp: receive_chunk_def rcv_cap_def elim!: receive_spec [where recv = "\<lambda>_ _. Some d"])
next
  fix e s and xs ys :: bytes
  assume a: "rcv_opened s (xs @ ys)" "xs \<noteq> []"
  obtain h r where s: "s = (h, r)" by (cases s)
  from a s show "\<exists>s'. get_bytes e (length xs) s = Some (xs, s') \<and> rcv_opened s' ys \<and> rcv_cap s' = rcv_cap s"
    by (auto simp: get_bytes_def rcv_cap_def elim!: get_bytes_spec [where dst = "replicate (length xs) 0"])
next
  fix e s bs
  assume a: "never_fails e" "rcv_opened s bs"
  obtain h r where s: "s = (h, r)" by (cases s)
  from a s show "\<exists>s'. keep_rest e s = Some s' \<and> rcv_ready s' bs \<and> rcv_cap s' = rcv_cap s"
    by (auto simp: keep_rest_def rcv_cap_def never_fails_def elim!: keep_spec [where new = e])
qed


section \<open>Properties\<close>

definition next_block :: allocator where
  "next_block h n = (if finite (dom h) then Some (Suc (Max (insert 0 (dom h)))) else None)"

lemma next_block_ok: "never_fails next_block"
proof -
  have "h a = None" if "next_block h n = Some a" for h n a
  proof (rule ccontr)
    assume "h a \<noteq> None"
    then have "a \<in> insert 0 (dom h)" by blast
    with that have "a \<le> Max (insert 0 (dom h))" by (auto simp: next_block_def split: if_splits)
    with that show False by (simp add: next_block_def split: if_splits)
  qed
  then show ?thesis by (auto simp: never_fails_def allocator_ok_def next_block_def)
qed

definition null_receiver :: DltReceiver where
  "null_receiver = \<lparr>lastBytesRcvd = 0, bytesRcvd = 0, totalBytesRcvd = 0, rcv_buffer = None,
     rcv_buf = None, backup_buf = None, rcv_fd = -1, rcv_type = DLT_RECEIVE_SOCKET,
     buffersize = 0\<rparr>"

definition sample_receiver :: "nat \<Rightarrow> int \<Rightarrow> DltReceiver" where
  "sample_receiver a n = null_receiver\<lparr>rcv_buffer := Some a, rcv_buf := Some (a, 0), buffersize := n\<rparr>"

lemma sample_ready: "rcv_ready ([a \<mapsto> replicate 10 0], sample_receiver a 10) []"
  by (simp add: rcv_ready_def receiver_at_def sample_receiver_def null_receiver_def)

text \<open>
  C2. A receiver with its own buffer hands out the byte stream of its connection: over any
  number of rounds, in each of which it receives a chunk, hands out pieces of any sizes and
  sets the rest aside, no access leaves the buffers, and the bytes handed out followed by those
  still kept are the bytes received, in order. The chunks must fit behind what is kept.
\<close>

theorem receiver_conserves:
  assumes "rcv_ready s bs" "rounds_fit (rcv_cap s) (length bs) rounds"
    "\<And>new d ks. (new, d, ks) \<in> set rounds \<Longrightarrow> never_fails new"
  shows "\<exists>out s' bs'. stream_run receive_chunk get_bytes keep_rest rounds s = Some (out, s')
    \<and> rcv_ready s' bs' \<and> bs @ chunks rounds = out @ bs'"
  using assms by (rule rs.stream_conserves)

theorem receiver_conserves_witness:
  "\<exists>out s' bs'. stream_run receive_chunk get_bytes keep_rest
      [(next_block, [1, 2, 3, 4, 5], [2, 1]), (next_block, [6, 7], [1, 3])]
      ([1 \<mapsto> replicate 10 0], sample_receiver 1 10) = Some (out, s')
    \<and> rcv_ready s' bs'
    \<and> [] @ chunks [(next_block, [1, 2, 3, 4, 5], [2, 1]), (next_block, [6, 7], [1, 3])] = out @ bs'"
  by (rule receiver_conserves [OF sample_ready])
    (auto simp: rcv_cap_def sample_receiver_def next_block_ok)

text \<open>
  Initialisation gives a receiver that has received nothing and is ready for the first
  bytes, with a buffer of the given size of its own.
\<close>

theorem receiver_init_ready:
  assumes "allocator_ok new" "finite (dom h)" "rcv_buffer r = None" "0 \<le> n" "n < 2147483648"
    "new h (nat n) = Some a"
  shows "\<exists>h' r'. dlt_receiver_init new h r fd ty n = Some (DLT_RETURN_OK, h', r')
    \<and> rcv_ready (h', r') [] \<and> int (rcv_cap (h', r')) = n \<and> rcv_fd r' = fd
    \<and> (\<forall>x. x \<noteq> a \<longrightarrow> h' x = h x) \<and> h a = None"
proof -
  have n: "nat (u64 n) = nat n" using assms(4,5) by (simp add: c_casts)
  have "h a = None" using assms(1,6) by (auto simp: allocator_ok_def)
  with n assms show ?thesis
    by (auto simp: dlt_receiver_init_def rcv_ready_def receiver_at_def rcv_cap_def Let_def)
qed

theorem receiver_init_ready_witness:
  "\<exists>h' r'. dlt_receiver_init next_block Map.empty null_receiver 5 DLT_RECEIVE_SOCKET 10024
      = Some (DLT_RETURN_OK, h', r')
    \<and> rcv_ready (h', r') [] \<and> int (rcv_cap (h', r')) = 10024 \<and> rcv_fd r' = 5
    \<and> (\<forall>x. x \<noteq> 1 \<longrightarrow> h' x = Map.empty x) \<and> (Map.empty :: heap) 1 = None"
  by (rule receiver_init_ready)
    (use next_block_ok in \<open>simp_all add: never_fails_def next_block_def null_receiver_def\<close>)

text \<open>
  C28. The receivers of all applications share one buffer. Bytes of an application that were set
  aside, or none at all, are safe from what is received for another one.
\<close>

theorem other_receiver_keeps:
  assumes "rcv_ready (h, r1) bs" "backup_buf r1 \<noteq> None \<or> bs = []"
    "rcv_buffer r2 = rcv_buffer r1" "buffersize r2 = buffersize r1" "backup_buf r2 = None"
    "rcv_ready (h, r2) []" "d \<noteq> []" "int (length d) \<le> buffersize r2"
    "\<And>t n. recv t n = Some d"
  shows "\<exists>h' r2'. dlt_receiver_receive recv h r2 = Some (int (length d), h', r2')
    \<and> rcv_ready (h', r1) bs \<and> rcv_opened (h', r2') d"
proof -
  from assms(6-9) obtain h' r2' where
    r: "dlt_receiver_receive recv h r2 = Some (int (length ([]::bytes) + length d), h', r2')"
    "rcv_opened (h', r2') ([] @ d)"
    and keep: "\<And>x. rcv_buffer r2 \<noteq> Some x \<Longrightarrow> backup_buf r2 \<noteq> Some x \<Longrightarrow> h' x = h x"
    and at': "\<And>a. rcv_buffer r2 = Some a \<Longrightarrow> receiver_at h' r2' a (the (h' a)) 0 (length ([]::bytes) + length d)"
    and sz: "buffersize r2' = buffersize r2"
    by (elim receive_spec [where recv = recv]) auto
  have "receiver_at h' r1 a (the (h' a)) off (length bs)"
    if "receiver_at h r1 a blk off (length bs)" for a blk off
    using that at' [of a] assms(3,4) sz by (auto simp: receiver_at_def)
  moreover have "set_aside h' r1 a bs"
    if "set_aside h r1 a bs" "receiver_at h r1 a blk off (length bs)" for a blk off
    using that keep assms(3,5) by (auto simp: set_aside_def receiver_at_def)
  ultimately have "rcv_ready (h', r1) bs"
    using assms(1,2) unfolding rcv_ready_def by (auto simp: set_aside_def) blast+
  with r show ?thesis by auto
qed

theorem other_receiver_keeps_witness:
  "\<exists>h' r2'. dlt_receiver_receive (\<lambda>_ _. Some [5, 6])
      [1 \<mapsto> replicate 10 0, 2 \<mapsto> [3, 4]] (sample_receiver 1 10) = Some (int (length [5::byte, 6]), h', r2')
    \<and> rcv_ready (h', (sample_receiver 1 10)\<lparr>backup_buf := Some 2, bytesRcvd := 2\<rparr>) [3, 4]
    \<and> rcv_opened (h', r2') [5, 6]"
proof (rule other_receiver_keeps)
  let ?h = "[1 \<mapsto> replicate 10 0, 2 \<mapsto> [3, 4]] :: heap"
  show "rcv_ready (?h, (sample_receiver 1 10)\<lparr>backup_buf := Some 2, bytesRcvd := 2\<rparr>) [3, 4]"
    "rcv_ready (?h, sample_receiver 1 10) []"
    by (auto simp: rcv_ready_def receiver_at_def set_aside_def sample_receiver_def null_receiver_def)
qed (simp_all add: sample_receiver_def null_receiver_def)

text \<open>
  C32. An incomplete message at the very beginning of the shared buffer is not set aside, so the
  next receive for another application overwrites it: the first application's message then
  starts with bytes of the other one.
\<close>

theorem shared_buffer_mixes:
  assumes "rcv_ready (h, r1) []" "rcv_ready (h, r2) []" "rcv_buffer r1 = Some a" "rcv_buffer r2 = Some a"
    "backup_buf r2 = None"
    "d1 \<noteq> []" "length d1 \<le> length d2" "int (length d2) \<le> buffersize r1"
    "d3 \<noteq> []" "int (length d1 + length d3) \<le> buffersize r1"
  shows "\<exists>h1 r1' h2 r2' h3 r1''.
      dlt_receiver_receive (\<lambda>_ _. Some d1) h r1 = Some (int (length d1), h1, r1')
    \<and> dlt_receiver_move_to_begin new h1 r1' = Some (DLT_RETURN_OK, h1, r1')
    \<and> dlt_receiver_receive (\<lambda>_ _. Some d2) h1 r2 = Some (int (length d2), h2, r2')
    \<and> dlt_receiver_receive (\<lambda>_ _. Some d3) h2 r1' = Some (int (length d1 + length d3), h3, r1'')
    \<and> rcv_opened (h3, r1'') (take (length d1) d2 @ d3)"
proof -
  have sz: "buffersize r2 = buffersize r1"
    using assms(1-4) by (auto simp: rcv_ready_def receiver_at_def)
  have l1: "int (length ([]::bytes) + length d1) \<le> buffersize r1" using assms(7,8) by simp
  from assms(1,6) l1 obtain h1 r1' where
    r1: "dlt_receiver_receive (\<lambda>_ _. Some d1) h r1 = Some (int (length ([]::bytes) + length d1), h1, r1')"
    "buffersize r1' = buffersize r1" "rcv_buffer r1' = Some a" "backup_buf r1' = None"
    "receiver_at h1 r1' a (the (h1 a)) 0 (length ([]::bytes) + length d1)"
    by (elim receive_spec [where recv = "\<lambda>_ _. Some d1"]) (auto simp: assms(3))
  have mv: "dlt_receiver_move_to_begin new h1 r1' = Some (DLT_RETURN_OK, h1, r1')"
    using r1(3,5) by (simp add: dlt_receiver_move_to_begin_def receiver_at_def)
  have "receiver_at h1 r2 a (the (h1 a)) off 0" if "receiver_at h r2 a blk off 0" for blk off
    using that r1(2,5) sz by (auto simp: receiver_at_def)
  then have rd2: "rcv_ready (h1, r2) []"
    using assms(2,4,5) unfolding rcv_ready_def by (auto simp: set_aside_def receiver_at_def)
  have l2: "int (length ([]::bytes) + length d2) \<le> buffersize r2" "d2 \<noteq> []" using assms(6-8) sz by auto
  from rd2 l2 obtain h2 r2' rest where
    r2: "dlt_receiver_receive (\<lambda>_ _. Some d2) h1 r2 = Some (int (length ([]::bytes) + length d2), h2, r2')"
    "receiver_at h2 r2' a (the (h2 a)) 0 (length ([]::bytes) + length d2)" "h2 a = Some (d2 @ rest)"
    "buffersize r2' = buffersize r2"
    by (elim receive_spec [where recv = "\<lambda>_ _. Some d2"]) (auto simp: assms(4))
  have "receiver_at h2 r1' a (d2 @ rest) 0 (length (take (length d1) d2))"
    using r1(2,5) r2 sz assms(7) by (simp add: receiver_at_def min_def)
  then have rd3: "rcv_ready (h2, r1') (take (length d1) d2)"
    unfolding rcv_ready_def using r1(4) assms(7)
    by (intro exI [of _ a] exI [of _ "d2 @ rest"] exI [of _ 0]) (simp add: min_def)
  have l3: "int (length (take (length d1) d2) + length d3) \<le> buffersize r1'"
    using assms(7,10) r1(2) by (simp add: min_def)
  from rd3 assms(9) l3 obtain h3 r1'' where
    r3: "dlt_receiver_receive (\<lambda>_ _. Some d3) h2 r1'
           = Some (int (length (take (length d1) d2) + length d3), h3, r1'')"
    "rcv_opened (h3, r1'') (take (length d1) d2 @ d3)"
    by (elim receive_spec [where recv = "\<lambda>_ _. Some d3"]) auto
  show ?thesis using r1(1) mv r2(1) r3 assms(7) by (simp add: min_def)
qed

theorem shared_buffer_mixes_witness:
  "\<exists>h1 r1' h2 r2' h3 r1''.
      dlt_receiver_receive (\<lambda>_ _. Some [1, 2]) [1 \<mapsto> replicate 10 0] (sample_receiver 1 10)
        = Some (int (length [1::byte, 2]), h1, r1')
    \<and> dlt_receiver_move_to_begin next_block h1 r1' = Some (DLT_RETURN_OK, h1, r1')
    \<and> dlt_receiver_receive (\<lambda>_ _. Some [7, 8, 9]) h1 (sample_receiver 1 10)
        = Some (int (length [7::byte, 8, 9]), h2, r2')
    \<and> dlt_receiver_receive (\<lambda>_ _. Some [3, 4]) h2 r1'
        = Some (int (length [1::byte, 2] + length [3::byte, 4]), h3, r1'')
    \<and> rcv_opened (h3, r1'') (take (length [1::byte, 2]) [7, 8, 9] @ [3, 4])"
  by (rule shared_buffer_mixes [OF sample_ready sample_ready])
    (simp_all add: sample_receiver_def null_receiver_def)

text \<open>
  C33. A receive that reads nothing (an error, a timeout or the end of the input) also discards
  the bytes that were kept.
\<close>

theorem receive_nothing_discards:
  assumes "rcv_ready (h, r) bs" "\<And>t n. recv t n = None \<or> recv t n = Some []"
  shows "\<exists>h' r'. dlt_receiver_receive recv h r = Some (0, h', r') \<and> bytesRcvd r' = 0
    \<and> rcv_ready (h', r') []"
proof -
  from assms(1) obtain a blk h1 where f: "rcv_buffer r = Some a"
    "h1 a = Some (bs @ drop (length bs) blk)" "length bs \<le> length blk" "length blk < 2147483648"
    "buffersize r = int (length blk)" "bytesRcvd r = int (length bs)"
    "restore_backup h (r\<lparr>rcv_buf := Some (a, 0), lastBytesRcvd := bytesRcvd r\<rparr>) a
       = Some (h1, r\<lparr>rcv_buf := Some (a, 0), lastBytesRcvd := bytesRcvd r, backup_buf := None\<rparr>)"
    "finite (dom h1)"
    by (rule restore_ready) blast
  let ?m = "bs @ drop (length bs) blk"
  let ?r' = "r\<lparr>rcv_buf := Some (a, 0), lastBytesRcvd := int (length bs), backup_buf := None, bytesRcvd := 0\<rparr>"
  have "memcpy ?m (int (length bs)) [] 0 0 = Some ?m" by (simp add: memcpy_def)
  with assms(2) [of "rcv_type r" "nat (u64 (int (length blk) - int (length bs)))"]
  have "dlt_receiver_receive recv h r = Some (0, h1(a \<mapsto> ?m), ?r')"
    using f(1,2,5,6,7) by (auto simp: dlt_receiver_receive_def Let_def)
  moreover have "receiver_at (h1(a \<mapsto> ?m)) ?r' a ?m 0 0"
    using f(1,3-5,8) by (simp add: receiver_at_def)
  then have "rcv_ready (h1(a \<mapsto> ?m), ?r') []" by (auto simp: rcv_ready_def)
  ultimately show ?thesis by (intro exI conjI) (assumption | simp)+
qed

theorem receive_nothing_discards_witness:
  "\<exists>h' r'. dlt_receiver_receive (\<lambda>_ _. None) [1 \<mapsto> [1, 2, 3, 4]]
       ((sample_receiver 1 4)\<lparr>bytesRcvd := 3\<rparr>) = Some (0, h', r')
    \<and> bytesRcvd r' = 0 \<and> rcv_ready (h', r') []"
proof (rule receive_nothing_discards)
  show "rcv_ready ([1 \<mapsto> [1, 2, 3, 4]], (sample_receiver 1 4)\<lparr>bytesRcvd := 3\<rparr>) [1, 2, 3]"
    by (simp add: rcv_ready_def receiver_at_def sample_receiver_def null_receiver_def)
qed simp

end
