(* ===== verification/Dlt_Queue.thy ===== *)
theory Dlt_Queue
  imports Dlt_Prelude
begin

text \<open>
  The contract of a message store as its users in the library and the daemon rely on it: a
  first-in first-out queue that may refuse a message but never loses, repeats or reorders
  one it took. The operations are partial (\<open>None\<close> is undefined behaviour in C) and take
  an environment (\<^verbatim>\<open>malloc\<close>, the destination a message is copied to).
\<close>

datatype 'm queue_op = Push 'm | Pull | Peek | Remove

text \<open>
  A run of operations on a queue. It returns the messages that were accepted, the messages
  that left the queue (by \<open>Pull\<close>) or were dropped from it (by \<open>Remove\<close>), and the queue.
\<close>

fun queue_run ::
  "('e \<Rightarrow> 'q \<Rightarrow> 'm \<Rightarrow> (bool \<times> 'q) option) \<Rightarrow> ('e \<Rightarrow> 'q \<Rightarrow> ('m option \<times> 'q) option) \<Rightarrow>
   ('e \<Rightarrow> 'q \<Rightarrow> ('m option \<times> 'q) option) \<Rightarrow> ('e \<Rightarrow> 'q \<Rightarrow> 'q option) \<Rightarrow>
   ('e \<times> 'm queue_op) list \<Rightarrow> 'q \<Rightarrow> ('m list \<times> 'm list \<times> 'q) option" where
  "queue_run push pull peek remove [] q = Some ([], [], q)"
| "queue_run push pull peek remove ((e, Push m) # ops) q = do {
     (ok, q1) \<leftarrow> push e q m;
     (ins, outs, q2) \<leftarrow> queue_run push pull peek remove ops q1;
     Some (if ok then m # ins else ins, outs, q2)
   }"
| "queue_run push pull peek remove ((e, Pull) # ops) q = do {
     (r, q1) \<leftarrow> pull e q;
     (ins, outs, q2) \<leftarrow> queue_run push pull peek remove ops q1;
     Some (ins, (case r of None \<Rightarrow> outs | Some m \<Rightarrow> m # outs), q2)
   }"
| "queue_run push pull peek remove ((e, Peek) # ops) q = do {
     (_, q1) \<leftarrow> peek e q;
     queue_run push pull peek remove ops q1
   }"
| "queue_run push pull peek remove ((e, Remove) # ops) q = do {
     (r, _) \<leftarrow> peek e q;
     q1 \<leftarrow> remove e q;
     (ins, outs, q2) \<leftarrow> queue_run push pull peek remove ops q1;
     Some (ins, (case r of None \<Rightarrow> outs | Some m \<Rightarrow> m # outs), q2)
   }"

locale message_queue =
  fixes inv :: "'q \<Rightarrow> bool"
    and msgs :: "'q \<Rightarrow> 'm list"
    and env_ok :: "'e \<Rightarrow> bool"
    and fits :: "'e \<Rightarrow> 'm \<Rightarrow> bool"
    and room :: "'q \<Rightarrow> 'm \<Rightarrow> bool"
    and push :: "'e \<Rightarrow> 'q \<Rightarrow> 'm \<Rightarrow> (bool \<times> 'q) option"
    and pull :: "'e \<Rightarrow> 'q \<Rightarrow> ('m option \<times> 'q) option"
    and peek :: "'e \<Rightarrow> 'q \<Rightarrow> ('m option \<times> 'q) option"
    and remove :: "'e \<Rightarrow> 'q \<Rightarrow> 'q option"
  assumes push_law: "\<lbrakk>env_ok e; inv q; room q m\<rbrakk> \<Longrightarrow>
      \<exists>ok q'. push e q m = Some (ok, q') \<and> inv q'
        \<and> msgs q' = (if ok then msgs q @ [m] else msgs q) \<and> room q' = room q"
    and pull_law: "\<lbrakk>env_ok e; inv q; \<And>m. m \<in> set (msgs q) \<Longrightarrow> fits e m\<rbrakk> \<Longrightarrow>
      \<exists>q'. pull e q = Some (case msgs q of [] \<Rightarrow> None | m # _ \<Rightarrow> Some m, q') \<and> inv q'
        \<and> msgs q' = tl (msgs q) \<and> room q' = room q"
    and peek_law: "\<lbrakk>env_ok e; inv q; \<And>m. m \<in> set (msgs q) \<Longrightarrow> fits e m\<rbrakk> \<Longrightarrow>
      peek e q = Some (case msgs q of [] \<Rightarrow> None | m # _ \<Rightarrow> Some m, q)"
    and remove_law: "\<lbrakk>env_ok e; inv q\<rbrakk> \<Longrightarrow>
      \<exists>q'. remove e q = Some q' \<and> inv q' \<and> msgs q' = tl (msgs q) \<and> room q' = room q"
begin

text \<open>
  No run fails, and nothing is lost, repeated or reordered: what was in the queue followed
  by what was accepted is what left it followed by what is still there.
\<close>

lemma run_conserves:
  assumes "inv q"
    and "\<And>e op. (e, op) \<in> set ops \<Longrightarrow> env_ok e"
    and "\<And>e m. (e, Push m) \<in> set ops \<Longrightarrow> room q m"
    and "\<And>e op m. (e, op) \<in> set ops \<Longrightarrow> m \<in> set (msgs q) \<Longrightarrow> fits e m"
    and "\<And>e op e' m. (e, op) \<in> set ops \<Longrightarrow> (e', Push m) \<in> set ops \<Longrightarrow> fits e m"
  shows "\<exists>ins outs q'. queue_run push pull peek remove ops q = Some (ins, outs, q')
     \<and> inv q' \<and> msgs q @ ins = outs @ msgs q'"
  using assms
proof (induction ops arbitrary: q)
  case Nil
  then show ?case by simp
next
  case (Cons x ops)
  obtain e op where x: "x = (e, op)" by (cases x)
  have e: "env_ok e" using Cons.prems(2) x by auto
  have f: "\<And>m. m \<in> set (msgs q) \<Longrightarrow> fits e m" using Cons.prems(4) x by auto
  have IH: "\<exists>ins outs q'. queue_run push pull peek remove ops q1 = Some (ins, outs, q')
     \<and> inv q' \<and> msgs q1 @ ins = outs @ msgs q'"
    if "inv q1" "room q1 = room q"
      and sub: "\<And>m. m \<in> set (msgs q1) \<Longrightarrow> m \<in> set (msgs q) \<or> (\<exists>e'. (e', Push m) \<in> set (x # ops))"
    for q1
  proof (rule Cons.IH [OF that(1)])
    fix e' op' m assume *: "(e', op') \<in> set ops" "m \<in> set (msgs q1)"
    from sub [OF *(2)] show "fits e' m"
      using Cons.prems(4) [of e' op' m] Cons.prems(5) [of e' op' _ m] *(1) by auto
  next
    fix e' m assume "(e', Push m) \<in> set ops"
    then show "room q1 m" using Cons.prems(3) that(2) by auto
  next
    fix e' op' assume "(e', op') \<in> set ops"
    then show "env_ok e'" using Cons.prems(2) [of e' op'] by simp
  next
    fix e' op' e'' m assume "(e', op') \<in> set ops" "(e'', Push m) \<in> set ops"
    then show "fits e' m" using Cons.prems(5) [of e' op' e'' m] by simp
  qed
  show ?case
  proof (cases op)
    case (Push m)
    then have "room q m" using Cons.prems(3) x by auto
    from push_law [OF e Cons.prems(1) this] obtain ok q1 where
      p: "push e q m = Some (ok, q1)" "inv q1" "msgs q1 = (if ok then msgs q @ [m] else msgs q)"
        "room q1 = room q" by blast
    from IH [OF p(2,4)] p(3) x Push obtain ins outs q' where
      "queue_run push pull peek remove ops q1 = Some (ins, outs, q')" "inv q'"
      "msgs q1 @ ins = outs @ msgs q'" by (auto split: if_splits)
    with p x Push show ?thesis by (auto split: if_splits)
  next
    case Pull
    from pull_law [OF e Cons.prems(1) f] obtain q1 where
      p: "pull e q = Some (case msgs q of [] \<Rightarrow> None | m # _ \<Rightarrow> Some m, q1)" "inv q1"
        "msgs q1 = tl (msgs q)" "room q1 = room q" by blast
    from IH [OF p(2,4)] p(3) obtain ins outs q' where
      "queue_run push pull peek remove ops q1 = Some (ins, outs, q')" "inv q'"
      "msgs q1 @ ins = outs @ msgs q'" by (cases "msgs q") auto
    with p x Pull show ?thesis by (cases "msgs q") auto
  next
    case Peek
    from IH [OF Cons.prems(1) refl] obtain ins outs q' where
      "queue_run push pull peek remove ops q = Some (ins, outs, q')" "inv q'"
      "msgs q @ ins = outs @ msgs q'" by auto
    with peek_law [OF e Cons.prems(1) f] x Peek show ?thesis by auto
  next
    case Remove
    from remove_law [OF e Cons.prems(1)] obtain q1 where
      p: "remove e q = Some q1" "inv q1" "msgs q1 = tl (msgs q)" "room q1 = room q" by blast
    from IH [OF p(2,4)] p(3) obtain ins outs q' where
      "queue_run push pull peek remove ops q1 = Some (ins, outs, q')" "inv q'"
      "msgs q1 @ ins = outs @ msgs q'" by (cases "msgs q") auto
    with peek_law [OF e Cons.prems(1) f] p x Remove show ?thesis by (cases "msgs q") auto
  qed
qed

end

end
