(* ===== verification/Dlt_Buffer.thy ===== *)
theory Dlt_Buffer
  imports Dlt_Queue
begin

text \<open>
  The ring buffer of \<^verbatim>\<open>src/shared/dlt_common.c\<close> (\<open>dlt_buffer_*\<close>), in which the
  library keeps messages while the daemon is away and the daemon keeps messages while no
  client is connected. A buffer is a memory block that starts with a head of three
  \<^verbatim>\<open>int\<close>s (write position, read position, number of messages) and goes on with the
  data area, in which each message is a block: a twelve byte block head (the mark
  \<^verbatim>\<open>SHM\<close>, a status byte, three bytes of padding, the payload size) and the payload,
  either of which may wrap round the end of the area.

  Every operation is the whole C function. The result is \<open>None\<close> exactly where the C code
  would access memory outside a block or through a null pointer. \<open>alloc\<close> is
  \<^verbatim>\<open>malloc\<close>: it may fail, and what it returns has arbitrary content. \<open>pad\<close> is the
  content of the padding of a block head, which the C code leaves uninitialised.
\<close>

section \<open>Data\<close>

record DltBufferHead =
  bh_write :: int
  bh_read :: int
  bh_count :: int

record DltBuffer =
  shm :: "DltBufferHead option"
  mem :: bytes
  bsize :: nat
  min_size :: nat
  max_size :: nat
  step_size :: nat

definition sizeof_DltBufferHead :: nat where
  "sizeof_DltBufferHead = 12"

definition sizeof_DltBufferBlockHead :: nat where
  "sizeof_DltBufferBlockHead = 12"

record DltBufferBlockHead =
  blk_head :: bytes
  blk_status :: byte
  blk_size :: int

text \<open>\<^verbatim>\<open>DLT_BUFFER_HEAD\<close>, the string \<^verbatim>\<open>"SHM"\<close> with its terminating zero.\<close>

definition DLT_BUFFER_HEAD :: bytes where
  "DLT_BUFFER_HEAD = [0x53, 0x48, 0x4D, 0]"

definition block_head_bytes :: "bytes \<Rightarrow> DltBufferBlockHead \<Rightarrow> bytes" where
  "block_head_bytes pad h = blk_head h @ [blk_status h] @ pad @ le_bytes 4 (nat (u32 (blk_size h)))"

definition block_head_of_bytes :: "bytes \<Rightarrow> DltBufferBlockHead" where
  "block_head_of_bytes bs =
     \<lparr>blk_head = take 4 bs, blk_status = bs ! 4,
      blk_size = i32 (int (le_val (take 4 (drop 8 bs))))\<rparr>"


section \<open>Initialisation\<close>

definition dlt_buffer_init_static_server ::
  "DltBuffer \<Rightarrow> bytes \<Rightarrow> (DltReturnValue \<times> DltBuffer) option" where
  "dlt_buffer_init_static_server buf ptr =
     (let sz = length ptr in
      if sz < sizeof_DltBufferHead then None
      else do {
        m \<leftarrow> memset (drop sizeof_DltBufferHead ptr) 0 (sz - sizeof_DltBufferHead);
        Some (DLT_RETURN_OK,
          \<lparr>shm = Some \<lparr>bh_write = 0, bh_read = 0, bh_count = 0\<rparr>, mem = m,
           bsize = sz - sizeof_DltBufferHead,
           min_size = sz, max_size = sz, step_size = 0\<rparr>)
      })"

definition head_of_bytes :: "bytes \<Rightarrow> DltBufferHead" where
  "head_of_bytes p =
     \<lparr>bh_write = i32 (int (le_val (take 4 p))),
      bh_read = i32 (int (le_val (take 4 (drop 4 p)))),
      bh_count = i32 (int (le_val (take 4 (drop 8 p))))\<rparr>"

definition dlt_buffer_init_static_client ::
  "DltBuffer \<Rightarrow> bytes \<Rightarrow> DltReturnValue \<times> DltBuffer" where
  "dlt_buffer_init_static_client buf ptr =
     (DLT_RETURN_OK,
       \<lparr>shm = Some (head_of_bytes ptr), mem = drop sizeof_DltBufferHead ptr,
        bsize = nat (u32 (int (length ptr) - int sizeof_DltBufferHead)),
        min_size = length ptr, max_size = length ptr, step_size = 0\<rparr>)"

definition dlt_buffer_init_dynamic ::
  "malloc \<Rightarrow> DltBuffer \<Rightarrow> nat \<Rightarrow> nat \<Rightarrow> nat \<Rightarrow> (DltReturnValue \<times> DltBuffer) option" where
  "dlt_buffer_init_dynamic alloc buf mn mx st =
     (if mn = 0 \<or> mx = 0 \<or> st = 0 then Some (DLT_RETURN_WRONG_PARAMETER, buf)
      else if mx < mn then Some (DLT_RETURN_WRONG_PARAMETER, buf)
      else if mx < st then Some (DLT_RETURN_WRONG_PARAMETER, buf)
      else
        let buf1 = buf\<lparr>min_size := mn, max_size := mx, step_size := st\<rparr> in
        case alloc mn of
          None \<Rightarrow> Some (DLT_RETURN_ERROR, buf1\<lparr>shm := None\<rparr>)
        | Some p \<Rightarrow>
            if mn < sizeof_DltBufferHead then None \<comment> \<open>the head is written before the check\<close>
            else do {
              m \<leftarrow> memset (drop sizeof_DltBufferHead p) 0 (mn - sizeof_DltBufferHead);
              Some (DLT_RETURN_OK,
                buf1\<lparr>shm := Some \<lparr>bh_write = 0, bh_read = 0, bh_count = 0\<rparr>, mem := m,
                     bsize := mn - sizeof_DltBufferHead\<rparr>)
            })"

text \<open>Of the two releases the first only reports; a null \<^verbatim>\<open>mem\<close> comes with a null \<^verbatim>\<open>shm\<close>.\<close>

definition dlt_buffer_free_static :: "DltBuffer \<Rightarrow> DltReturnValue" where
  "dlt_buffer_free_static buf =
     (case shm buf of None \<Rightarrow> DLT_RETURN_ERROR | Some _ \<Rightarrow> DLT_RETURN_OK)"

definition dlt_buffer_free_dynamic :: "DltBuffer \<Rightarrow> DltReturnValue \<times> DltBuffer" where
  "dlt_buffer_free_dynamic buf =
     (case shm buf of
        None \<Rightarrow> (DLT_RETURN_ERROR, buf)
      | Some _ \<Rightarrow> (DLT_RETURN_OK, buf\<lparr>shm := None, mem := []\<rparr>))"


section \<open>Blocks\<close>

definition dlt_buffer_write_block ::
  "DltBuffer \<Rightarrow> int \<Rightarrow> bytes \<Rightarrow> (DltBuffer \<times> int) option" where
  "dlt_buffer_write_block buf wr data =
     (let n = int (bsize buf); sz = int (length data) in
      if sz \<le> n then
        if u32 (u32 wr + sz) \<le> n then do {
          m \<leftarrow> memcpy (mem buf) wr data 0 sz;
          Some (buf\<lparr>mem := m\<rparr>, wr + i32 sz)
        }
        else if u32 wr \<le> n then do {
          m1 \<leftarrow> memcpy (mem buf) wr data 0 (n - wr);
          m2 \<leftarrow> memcpy m1 0 data (n - wr) (sz - n + wr);
          Some (buf\<lparr>mem := m2\<rparr>, wr + i32 (sz - n))
        }
        else Some (buf, wr)
      else Some (buf, wr))"

definition dlt_buffer_read_block ::
  "DltBuffer \<Rightarrow> int \<Rightarrow> bytes \<Rightarrow> int \<Rightarrow> (bytes \<times> int) option" where
  "dlt_buffer_read_block buf rd data sz =
     (let n = int (bsize buf) in
      if u32 (u32 rd + sz) \<le> n then do {
        d \<leftarrow> memcpy data 0 (mem buf) rd sz;
        Some (d, rd + i32 sz)
      }
      else if u32 rd \<le> n then do {
        d1 \<leftarrow> memcpy data 0 (mem buf) rd (n - rd);
        d2 \<leftarrow> memcpy d1 (n - rd) (mem buf) 0 (sz - n + rd);
        Some (d2, rd + i32 (sz - n))
      }
      else Some (data, rd))"


section \<open>Size and reset\<close>

definition dlt_buffer_check_size :: "DltBuffer \<Rightarrow> nat \<Rightarrow> DltReturnValue" where
  "dlt_buffer_check_size buf needed =
     (if max_size buf < bsize buf + sizeof_DltBufferHead + needed then DLT_RETURN_ERROR
      else DLT_RETURN_OK)"

definition dlt_buffer_increase_size ::
  "malloc \<Rightarrow> DltBuffer \<Rightarrow> (DltReturnValue \<times> DltBuffer) option" where
  "dlt_buffer_increase_size alloc buf =
     (if step_size buf = 0 then Some (DLT_RETURN_ERROR, buf)
      else if max_size buf < bsize buf + sizeof_DltBufferHead + step_size buf
      then Some (DLT_RETURN_ERROR, buf)
      else case alloc (bsize buf + sizeof_DltBufferHead + step_size buf) of
        None \<Rightarrow> Some (DLT_RETURN_ERROR, buf)
      | Some new_ptr \<Rightarrow>
          (case shm buf of
             None \<Rightarrow> None
           | Some head \<Rightarrow>
               if bh_read head < bh_write head then do {
                 m \<leftarrow> memcpy (drop sizeof_DltBufferHead new_ptr) 0 (mem buf) (bh_read head)
                        (bh_write head - bh_read head);
                 Some (DLT_RETURN_OK,
                   buf\<lparr>shm := Some \<lparr>bh_write = bh_write head - bh_read head, bh_read = 0,
                                     bh_count = bh_count head\<rparr>,
                       mem := m, bsize := bsize buf + step_size buf\<rparr>)
               }
               else do {
                 m1 \<leftarrow> memcpy (drop sizeof_DltBufferHead new_ptr) 0 (mem buf) (bh_read head)
                        (int (bsize buf) - bh_read head);
                 m2 \<leftarrow> memcpy m1 (int (bsize buf) - bh_read head) (mem buf) 0 (bh_write head);
                 Some (DLT_RETURN_OK,
                   buf\<lparr>shm := Some \<lparr>bh_write = int (bsize buf) + bh_write head - bh_read head,
                                     bh_read = 0, bh_count = bh_count head\<rparr>,
                       mem := m2, bsize := bsize buf + step_size buf\<rparr>)
               }))"

definition dlt_buffer_minimize_size ::
  "malloc \<Rightarrow> DltBuffer \<Rightarrow> (DltReturnValue \<times> DltBuffer) option" where
  "dlt_buffer_minimize_size alloc buf =
     (if bsize buf + sizeof_DltBufferHead = min_size buf then Some (DLT_RETURN_OK, buf)
      else case alloc (min_size buf) of
        None \<Rightarrow> Some (DLT_RETURN_ERROR, buf)
      | Some new_ptr \<Rightarrow>
          if min_size buf < sizeof_DltBufferHead then None
          else do {
            m \<leftarrow> memset (drop sizeof_DltBufferHead new_ptr) 0 (min_size buf - sizeof_DltBufferHead);
            Some (DLT_RETURN_OK,
              buf\<lparr>shm := Some \<lparr>bh_write = 0, bh_read = 0, bh_count = 0\<rparr>, mem := m,
                  bsize := min_size buf - sizeof_DltBufferHead\<rparr>)
          })"

definition dlt_buffer_reset :: "DltBuffer \<Rightarrow> (DltReturnValue \<times> DltBuffer) option" where
  "dlt_buffer_reset buf =
     (case shm buf of
        None \<Rightarrow> None
      | Some _ \<Rightarrow> do {
          m \<leftarrow> memset (mem buf) 0 (bsize buf);
          Some (DLT_RETURN_OK,
            buf\<lparr>shm := Some \<lparr>bh_write = 0, bh_read = 0, bh_count = 0\<rparr>, mem := m\<rparr>)
        })"


section \<open>Push\<close>

definition buffer_free_size :: "DltBuffer \<Rightarrow> int \<Rightarrow> int \<Rightarrow> int \<Rightarrow> int" where
  "buffer_free_size buf wr rd count =
     (if wr < rd then rd - wr
      else if count \<noteq> 0 \<and> wr = rd then 0
      else i32 (int (bsize buf)) - wr + rd)"

lemma increase_OK:
  assumes "dlt_buffer_increase_size alloc buf = Some (DLT_RETURN_OK, buf')"
  shows "bsize buf' = bsize buf + step_size buf" "0 < step_size buf"
    "max_size buf' = max_size buf" "min_size buf' = min_size buf" "step_size buf' = step_size buf"
    "bsize buf' + sizeof_DltBufferHead \<le> max_size buf"
  using assms
  by (auto simp: dlt_buffer_increase_size_def bind_eq_Some_conv
      split: if_splits option.splits)

text \<open>
  The loop of \<open>dlt_buffer_push3\<close> that enlarges the buffer until the block fits. \<open>count\<close> is
  the local variable of the C function, which is not read again after an enlargement.
\<close>

function push_grow ::
  "malloc \<Rightarrow> int \<Rightarrow> int \<Rightarrow> DltBuffer \<Rightarrow> (DltReturnValue \<times> DltBuffer) option" where
  "push_grow alloc needed count buf =
     (case shm buf of
        None \<Rightarrow> None
      | Some head \<Rightarrow>
          if buffer_free_size buf (bh_write head) (bh_read head) count < needed then
            (case dlt_buffer_increase_size alloc buf of
               None \<Rightarrow> None
             | Some (ret, buf') \<Rightarrow>
                 if ret \<noteq> DLT_RETURN_OK then Some (DLT_RETURN_ERROR, buf')
                 else push_grow alloc needed count buf')
          else Some (DLT_RETURN_OK, buf))"
  by pat_completeness auto
termination
proof (relation "measure (\<lambda>(alloc, needed, count, buf). max_size buf - bsize buf)", goal_cases)
  case 1
  then show ?case by simp
next
  case (2 alloc needed count buf head p ret buf')
  then have "dlt_buffer_increase_size alloc buf = Some (DLT_RETURN_OK, buf')" by simp
  from increase_OK [OF this] show ?case
    by (simp add: sizeof_DltBufferHead_def)
qed

declare push_grow.simps [simp del]

definition dlt_buffer_push3 ::
  "malloc \<Rightarrow> bytes \<Rightarrow> DltBuffer \<Rightarrow> bytes \<Rightarrow> bytes \<Rightarrow> bytes \<Rightarrow>
   (DltReturnValue \<times> DltBuffer) option" where
  "dlt_buffer_push3 alloc pad buf data1 data2 data3 =
     (case shm buf of
        None \<Rightarrow> Some (DLT_RETURN_ERROR, buf)
      | Some h \<Rightarrow>
          if int (bsize buf) < u32 (bh_read h) \<or> int (bsize buf) < u32 (bh_write h) then do {
            (_, buf1) \<leftarrow> dlt_buffer_reset buf;
            Some (DLT_RETURN_ERROR, buf1)
          }
          else do {
            let total = int (length data1) + int (length data2) + int (length data3);
            (ret, buf1) \<leftarrow> push_grow alloc (i32 (int sizeof_DltBufferBlockHead + total))
                              (bh_count h) buf;
            if ret \<noteq> DLT_RETURN_OK then Some (DLT_RETURN_ERROR, buf1)
            else (case shm buf1 of
              None \<Rightarrow> None
            | Some h1 \<Rightarrow> do {
                let head = \<lparr>blk_head = DLT_BUFFER_HEAD, blk_status = 2, blk_size = i32 total\<rparr>;
                (b1, w1) \<leftarrow> dlt_buffer_write_block buf1 (bh_write h1) (block_head_bytes pad head);
                (b2, w2) \<leftarrow> (if data1 \<noteq> [] then dlt_buffer_write_block b1 w1 data1
                              else Some (b1, w1));
                (b3, w3) \<leftarrow> (if data2 \<noteq> [] then dlt_buffer_write_block b2 w2 data2
                              else Some (b2, w2));
                (b4, w4) \<leftarrow> (if data3 \<noteq> [] then dlt_buffer_write_block b3 w3 data3
                              else Some (b3, w3));
                Some (DLT_RETURN_OK,
                  b4\<lparr>shm := Some (h1\<lparr>bh_write := w4, bh_count := i32 (bh_count h1 + 1)\<rparr>)\<rparr>)
              })
          })"

definition dlt_buffer_push ::
  "malloc \<Rightarrow> bytes \<Rightarrow> DltBuffer \<Rightarrow> bytes \<Rightarrow> (DltReturnValue \<times> DltBuffer) option" where
  "dlt_buffer_push alloc pad buf data = dlt_buffer_push3 alloc pad buf data [] []"


section \<open>Get\<close>

text \<open>
  \<open>data\<close> is the caller's destination: \<open>None\<close> for a null pointer, otherwise the block it
  points to. The result is the C return value, the destination afterwards and the buffer.
\<close>

definition get_skip ::
  "DltBuffer \<Rightarrow> DltBufferHead \<Rightarrow> int \<Rightarrow> int \<Rightarrow> bool \<Rightarrow> DltBuffer" where
  "get_skip buf h rd hsize del =
     (if del then
        buf\<lparr>shm := Some (h\<lparr>bh_read :=
          (if u32 (rd + hsize) \<le> int (bsize buf) then rd + hsize
           else rd + hsize - i32 (int (bsize buf)))\<rparr>)\<rparr>
      else buf)"

definition get_advance ::
  "DltBuffer \<Rightarrow> DltBufferHead \<Rightarrow> int \<Rightarrow> int \<Rightarrow> bytes option \<Rightarrow> int \<Rightarrow> bool \<Rightarrow>
   (bytes option \<times> DltBuffer) option" where
  "get_advance buf h rd hsize data max_sz del =
     (case data of
        None \<Rightarrow> Some (data, get_skip buf h rd hsize del)
      | Some d \<Rightarrow>
          if max_sz \<noteq> 0 then do {
            (d', rd') \<leftarrow> dlt_buffer_read_block buf rd d (u32 hsize);
            Some (Some d', if del then buf\<lparr>shm := Some (h\<lparr>bh_read := rd'\<rparr>)\<rparr> else buf)
          }
          else Some (data, get_skip buf h rd hsize del))"

definition get_finish :: "malloc \<Rightarrow> bool \<Rightarrow> DltBuffer \<Rightarrow> DltBuffer option" where
  "get_finish alloc del buf =
     (if del then
        case shm buf of
          None \<Rightarrow> None
        | Some h \<Rightarrow>
            let buf1 = buf\<lparr>shm := Some (h\<lparr>bh_count := bh_count h - 1\<rparr>)\<rparr> in
            if bh_count h - 1 = 0 then map_option snd (dlt_buffer_minimize_size alloc buf1)
            else Some buf1
      else Some buf)"

definition buffer_used_size :: "DltBuffer \<Rightarrow> int \<Rightarrow> int \<Rightarrow> int" where
  "buffer_used_size buf wr rd =
     (if rd < wr then wr - rd else i32 (int (bsize buf)) - rd + wr)"

definition get_fail :: "bytes option \<Rightarrow> DltBuffer \<Rightarrow> (int \<times> bytes option \<times> DltBuffer) option" where
  "get_fail data buf =
     map_option (\<lambda>(_, b). (ret_int DLT_RETURN_ERROR, data, b)) (dlt_buffer_reset buf)"

definition dlt_buffer_get ::
  "malloc \<Rightarrow> DltBuffer \<Rightarrow> bytes option \<Rightarrow> int \<Rightarrow> bool \<Rightarrow> (int \<times> bytes option \<times> DltBuffer) option"
where
  "dlt_buffer_get alloc buf data max_sz del =
     (case shm buf of
        None \<Rightarrow> Some (ret_int DLT_RETURN_ERROR, data, buf)
      | Some h \<Rightarrow>
          if int (bsize buf) < u32 (bh_read h) \<or> int (bsize buf) < u32 (bh_write h)
             \<or> bh_count h < 0
          then get_fail data buf
          else if bh_count h = 0 then
            (if bh_write h \<noteq> bh_read h then get_fail data buf
             else Some (ret_int DLT_RETURN_ERROR, data, buf))
          else
            let used = buffer_used_size buf (bh_write h) (bh_read h) in
            if used < int sizeof_DltBufferBlockHead then get_fail data buf
            else do {
              (hb, rd) \<leftarrow> dlt_buffer_read_block buf (bh_read h)
                            (replicate sizeof_DltBufferBlockHead 0) (int sizeof_DltBufferBlockHead);
              let head = block_head_of_bytes hb;
              if blk_head head \<noteq> DLT_BUFFER_HEAD then get_fail data buf
              else if blk_status head \<noteq> 2 then get_fail data buf
              else if used < int sizeof_DltBufferBlockHead + blk_size head then get_fail data buf
              else do {
                (data', buf1) \<leftarrow> get_advance buf h rd (blk_size head) data max_sz del;
                buf2 \<leftarrow> get_finish alloc del buf1;
                Some (blk_size head, data', buf2)
              }
            })"

definition dlt_buffer_pull ::
  "malloc \<Rightarrow> DltBuffer \<Rightarrow> bytes option \<Rightarrow> int \<Rightarrow> (int \<times> bytes option \<times> DltBuffer) option" where
  "dlt_buffer_pull alloc buf data max_sz = dlt_buffer_get alloc buf data max_sz True"

definition dlt_buffer_copy ::
  "malloc \<Rightarrow> DltBuffer \<Rightarrow> bytes option \<Rightarrow> int \<Rightarrow> (int \<times> bytes option \<times> DltBuffer) option" where
  "dlt_buffer_copy alloc buf data max_sz = dlt_buffer_get alloc buf data max_sz False"

definition dlt_buffer_remove :: "malloc \<Rightarrow> DltBuffer \<Rightarrow> (int \<times> bytes option \<times> DltBuffer) option" where
  "dlt_buffer_remove alloc buf = dlt_buffer_get alloc buf None 0 True"


section \<open>Queries\<close>

definition dlt_buffer_get_total_size :: "DltBuffer \<Rightarrow> nat" where
  "dlt_buffer_get_total_size buf = max_size buf"

definition dlt_buffer_get_used_size :: "DltBuffer \<Rightarrow> int" where
  "dlt_buffer_get_used_size buf =
     (case shm buf of
        None \<Rightarrow> ret_int DLT_RETURN_OK
      | Some h \<Rightarrow>
          if bh_count h = 0 then ret_int DLT_RETURN_OK
          else buffer_used_size buf (bh_write h) (bh_read h))"

definition dlt_buffer_get_message_count :: "DltBuffer \<Rightarrow> int" where
  "dlt_buffer_get_message_count buf =
     (case shm buf of None \<Rightarrow> ret_int DLT_RETURN_OK | Some h \<Rightarrow> bh_count h)"


section \<open>Invariant and abstraction\<close>

text \<open>
  \<open>split_blocks k bs\<close> reads \<open>k\<close> blocks that fill \<open>bs\<close> exactly; the messages of a buffer are
  those of its used bytes, oldest first.
\<close>

definition block_ok :: "bytes \<Rightarrow> bool" where
  "block_ok bs \<longleftrightarrow> 12 \<le> length bs \<and>
     (let h = block_head_of_bytes (take 12 bs) in
      blk_head h = DLT_BUFFER_HEAD \<and> blk_status h = 2 \<and> 0 \<le> blk_size h
      \<and> nat (blk_size h) + 12 \<le> length bs)"

definition block_len :: "bytes \<Rightarrow> nat" where
  "block_len bs = nat (blk_size (block_head_of_bytes (take 12 bs)))"

fun split_blocks :: "nat \<Rightarrow> bytes \<Rightarrow> bytes list option" where
  "split_blocks 0 bs = (if bs = [] then Some [] else None)"
| "split_blocks (Suc k) bs =
     (if block_ok bs
      then map_option ((#) (take (block_len bs) (drop 12 bs)))
             (split_blocks k (drop (12 + block_len bs) bs))
      else None)"

definition used_len :: "DltBuffer \<Rightarrow> nat" where
  "used_len buf = nat (dlt_buffer_get_used_size buf)"

definition used_bytes :: "DltBuffer \<Rightarrow> bytes" where
  "used_bytes buf =
     (case shm buf of
        None \<Rightarrow> []
      | Some h \<Rightarrow> take (used_len buf) (ring (mem buf) (nat (bh_read h))))"

definition buffer_messages :: "DltBuffer \<Rightarrow> bytes list option" where
  "buffer_messages buf = split_blocks (nat (dlt_buffer_get_message_count buf)) (used_bytes buf)"

definition buffer_shape :: "DltBuffer \<Rightarrow> bool" where
  "buffer_shape buf \<longleftrightarrow>
     length (mem buf) = bsize buf \<and> 12 \<le> min_size buf \<and> min_size buf \<le> bsize buf + 12
     \<and> bsize buf + 12 \<le> max_size buf \<and> max_size buf < 2147483648
     \<and> (case shm buf of
          None \<Rightarrow> False
        | Some h \<Rightarrow> 0 \<le> bh_read h \<and> bh_read h \<le> int (bsize buf)
            \<and> 0 \<le> bh_write h \<and> bh_write h \<le> int (bsize buf)
            \<and> 0 \<le> bh_count h \<and> (bh_count h = 0 \<longrightarrow> bh_read h = bh_write h)
            \<and> (0 < bh_count h \<longrightarrow> 0 < bh_write h))"

definition buffer_ok :: "DltBuffer \<Rightarrow> bool" where
  "buffer_ok buf \<longleftrightarrow> buffer_shape buf \<and> buffer_messages buf \<noteq> None"

text \<open>The same shape with the positions as natural numbers.\<close>

definition buffer_at :: "DltBuffer \<Rightarrow> nat \<Rightarrow> nat \<Rightarrow> nat \<Rightarrow> bool" where
  "buffer_at buf w r c \<longleftrightarrow>
     shm buf = Some \<lparr>bh_write = int w, bh_read = int r, bh_count = int c\<rparr>
     \<and> r \<le> bsize buf \<and> w \<le> bsize buf \<and> (c = 0 \<longrightarrow> r = w) \<and> (0 < c \<longrightarrow> 0 < w)
     \<and> length (mem buf) = bsize buf \<and> 12 \<le> min_size buf \<and> min_size buf \<le> bsize buf + 12
     \<and> bsize buf + 12 \<le> max_size buf \<and> max_size buf < 2147483648"

lemma buffer_shape_at: "buffer_shape buf \<longleftrightarrow> (\<exists>w r c. buffer_at buf w r c)"
proof
  assume s: "buffer_shape buf"
  then obtain h where h: "shm buf = Some h"
    by (auto simp: buffer_shape_def split: option.splits)
  with s have "h = \<lparr>bh_write = int (nat (bh_write h)), bh_read = int (nat (bh_read h)),
                   bh_count = int (nat (bh_count h))\<rparr>"
    by (simp add: buffer_shape_def)
  with s h have "buffer_at buf (nat (bh_write h)) (nat (bh_read h)) (nat (bh_count h))"
    by (auto simp: buffer_shape_def buffer_at_def)
  then show "\<exists>w r c. buffer_at buf w r c" by blast
next
  assume "\<exists>w r c. buffer_at buf w r c"
  then show "buffer_shape buf" by (auto simp: buffer_shape_def buffer_at_def)
qed

lemma buffer_at_shape: "buffer_at buf w r c \<Longrightarrow> buffer_shape buf"
  by (auto simp: buffer_shape_at)

lemma buffer_at_bound: "buffer_at buf w r c \<Longrightarrow> bsize buf < 2147483648"
  by (simp add: buffer_at_def)

lemma buffer_at_count [simp]: "buffer_at buf w r c \<Longrightarrow> dlt_buffer_get_message_count buf = int c"
  by (simp add: buffer_at_def dlt_buffer_get_message_count_def)

definition advance :: "nat \<Rightarrow> nat \<Rightarrow> nat \<Rightarrow> nat" where
  "advance n p k = (if p + k \<le> n then p + k else p + k - n)"

lemma advance_le: "p \<le> n \<Longrightarrow> k \<le> n \<Longrightarrow> advance n p k \<le> n"
  unfolding advance_def by auto

lemma advance_mod: "p \<le> n \<Longrightarrow> k \<le> n \<Longrightarrow> advance n p k mod n = (p + k) mod n"
  by (auto simp: advance_def le_mod_geq)

lemma write_block_spec:
  assumes "length (mem buf) = bsize buf" "bsize buf < 2147483648"
    "w \<le> bsize buf" "length d \<le> bsize buf"
  shows "dlt_buffer_write_block buf (int w) d =
    Some (buf\<lparr>mem := overwrite (mem buf) w d\<rparr>, int (advance (bsize buf) w (length d)))"
proof (cases "w + length d \<le> bsize buf")
  case True
  have "u32 (u32 (int w) + int (length d)) = int w + int (length d)"
    using assms True by (simp add: c_casts)
  with True assms show ?thesis
    by (simp add: dlt_buffer_write_block_def Let_def memcpy_def overwrite_one advance_def c_casts
        nat_add_distrib)
next
  case False
  have "u32 (u32 (int w) + int (length d)) = int w + int (length d)"
    using assms by (simp add: c_casts)
  moreover have "overwrite (mem buf) w d = drop (bsize buf - w) d
       @ take (bsize buf - length d) (drop (w + length d - bsize buf) (mem buf))
       @ take (bsize buf - w) d"
    using overwrite_two [of w "mem buf" d] assms False by simp
  moreover have "nat (int (length d) - int (bsize buf) + int w) = w + length d - bsize buf"
    "w - (w + length d - bsize buf) = bsize buf - length d"
    using assms False by simp_all
  ultimately show ?thesis using assms False
    by (simp add: dlt_buffer_write_block_def Let_def memcpy_def advance_def c_casts drop_take)
qed

lemma read_block_spec:
  assumes "length (mem buf) = bsize buf" "bsize buf < 2147483648"
    "r \<le> bsize buf" "k \<le> bsize buf" "k \<le> length d"
  shows "dlt_buffer_read_block buf (int r) d (int k) =
    Some (take k (ring (mem buf) r) @ drop k d, int (advance (bsize buf) r k))"
proof (cases "r + k \<le> bsize buf")
  case True
  have "u32 (u32 (int r) + int k) = int r + int k"
    using assms True by (simp add: c_casts)
  with True assms show ?thesis
    by (simp add: dlt_buffer_read_block_def Let_def memcpy_def ring_split advance_def c_casts
        nat_add_distrib)
next
  case False
  have "u32 (u32 (int r) + int k) = int r + int k"
    using assms by (simp add: c_casts)
  moreover have "nat (int k - int (bsize buf) + int r) = k - (bsize buf - r)"
    "nat (int (bsize buf) - int r + (int k - int (bsize buf) + int r)) = k"
    using assms False by simp_all
  ultimately show ?thesis using assms False
    by (simp add: dlt_buffer_read_block_def Let_def memcpy_def ring_split advance_def c_casts min_def)
qed


section \<open>Blocks are read as they were written\<close>

definition message_head :: "nat \<Rightarrow> DltBufferBlockHead" where
  "message_head k = \<lparr>blk_head = DLT_BUFFER_HEAD, blk_status = 2, blk_size = int k\<rparr>"

lemma message_head_sel [simp]:
  "blk_head (message_head k) = DLT_BUFFER_HEAD" "blk_status (message_head k) = 2"
  "blk_size (message_head k) = int k"
  by (simp_all add: message_head_def)

lemma length_head_bytes [simp]:
  "length pad = 3 \<Longrightarrow> length (block_head_bytes pad (message_head k)) = 12"
  by (simp add: block_head_bytes_def message_head_def DLT_BUFFER_HEAD_def)

lemma head_roundtrip:
  assumes "length pad = 3" "k < 2147483648"
  shows "block_head_of_bytes (block_head_bytes pad (message_head k)) = message_head k"
proof -
  obtain a b c where pad: "pad = [a, b, c]"
    using assms(1) by (auto simp: numeral_3_eq_3 length_Suc_conv)
  have "le_val (le_bytes 4 k) = k"
    using assms(2) by (intro le_val_bytes_id) simp
  with assms show ?thesis
    by (simp add: pad block_head_of_bytes_def block_head_bytes_def message_head_def
        DLT_BUFFER_HEAD_def c_casts)
qed

lemma block_ok_encoded:
  assumes "length pad = 3" "length m < 2147483648"
  shows "block_ok (block_head_bytes pad (message_head (length m)) @ m @ rest)"
    and "block_len (block_head_bytes pad (message_head (length m)) @ m @ rest) = length m"
  using assms head_roundtrip [OF assms]
  by (simp_all add: block_ok_def block_len_def Let_def)

lemma split_blocks_append:
  assumes "length pad = 3" "length m < 2147483648" "split_blocks k bs = Some ms"
  shows "split_blocks (Suc k) (bs @ block_head_bytes pad (message_head (length m)) @ m)
       = Some (ms @ [m])"
  using assms(3)
proof (induction k arbitrary: bs ms)
  case 0
  then have "bs = []" "ms = []" by (simp_all split: if_splits)
  then show ?case
    using block_ok_encoded [OF assms(1,2), of "[]"] assms(1) by simp
next
  case (Suc k)
  then have ok: "block_ok bs" by (simp split: if_splits)
  with Suc.prems obtain ms' where rest: "split_blocks k (drop (12 + block_len bs) bs) = Some ms'"
    and ms: "ms = take (block_len bs) (drop 12 bs) # ms'" by auto
  define e where "e = block_head_bytes pad (message_head (length m)) @ m"
  have len: "12 + block_len bs \<le> length bs" "12 \<le> length bs"
    using ok by (auto simp: block_ok_def block_len_def Let_def)
  then have "take 12 (bs @ e) = take 12 bs" by simp
  then have "block_ok (bs @ e)" and "block_len (bs @ e) = block_len bs"
    using ok by (auto simp: block_ok_def block_len_def Let_def)
  moreover have "drop (12 + block_len bs) (bs @ e) = drop (12 + block_len bs) bs @ e"
    "take (block_len bs) (drop 12 (bs @ e)) = take (block_len bs) (drop 12 bs)"
    using len by simp_all
  ultimately show ?case
    using Suc.IH [OF rest] ms by (simp add: e_def del: split_blocks.simps(2) add: split_blocks.simps(2) [of "Suc k"])
qed

lemma split_blocks_lengths:
  "split_blocks k bs = Some ms \<Longrightarrow>
    length ms = k \<and> length bs = (\<Sum>m\<leftarrow>ms. 12 + length m)"
proof (induction k arbitrary: bs ms)
  case 0
  then show ?case by (simp split: if_splits)
next
  case (Suc k)
  then obtain ms' where ok: "block_ok bs"
    and rest: "split_blocks k (drop (12 + block_len bs) bs) = Some ms'"
    and ms: "ms = take (block_len bs) (drop 12 bs) # ms'" by (auto split: if_splits)
  have "12 + block_len bs \<le> length bs"
    using ok by (auto simp: block_ok_def block_len_def Let_def)
  moreover have "length bs - (12 + block_len bs) = (\<Sum>m\<leftarrow>ms'. 12 + length m)" "length ms' = k"
    using Suc.IH [OF rest] by simp_all
  ultimately show ?case using ms by simp
qed

lemma used_len_eq:
  assumes "buffer_at buf w r c"
  shows "used_len buf = (if c = 0 then 0 else if r < w then w - r else bsize buf - r + w)"
proof -
  have "i32 (int (bsize buf)) = int (bsize buf)"
    using buffer_at_bound [OF assms] by (simp add: c_casts)
  with assms show ?thesis
    by (simp add: buffer_at_def used_len_def dlt_buffer_get_used_size_def buffer_used_size_def)
qed

lemma used_len_le: "buffer_at buf w r c \<Longrightarrow> used_len buf \<le> bsize buf"
  by (simp add: used_len_eq) (auto simp: buffer_at_def)

text \<open>
  \<open>filled b w r bs\<close>: from read position \<open>r\<close> the ring of \<open>b\<close> begins with \<open>bs\<close>, and \<open>w\<close> is
  the position right behind it.
\<close>

definition filled :: "DltBuffer \<Rightarrow> nat \<Rightarrow> nat \<Rightarrow> bytes \<Rightarrow> bool" where
  "filled b w r bs \<longleftrightarrow>
     length (mem b) = bsize b \<and> bsize b < 2147483648 \<and> w \<le> bsize b \<and> r \<le> bsize b
     \<and> length bs \<le> bsize b \<and> take (length bs) (ring (mem b) r) = bs
     \<and> (w = r + length bs \<or> w + bsize b = r + length bs) \<and> (bs \<noteq> [] \<longrightarrow> 0 < w)"

lemma filled_write:
  assumes f: "filled b w r bs" and room: "length bs + length d \<le> bsize b"
  obtains m w' where "dlt_buffer_write_block b (int w) d = Some (b\<lparr>mem := m\<rparr>, int w')"
    "filled (b\<lparr>mem := m\<rparr>) w' r (bs @ d)"
proof -
  let ?m = "overwrite (mem b) w d" and ?w = "advance (bsize b) w (length d)"
  have d: "length d \<le> bsize b" using room by simp
  have "dlt_buffer_write_block b (int w) d = Some (b\<lparr>mem := ?m\<rparr>, int ?w)"
    using f d by (intro write_block_spec) (simp_all add: filled_def)
  moreover have "w mod bsize b = (r + length bs) mod bsize b"
  proof (cases "w = r + length bs")
    case False
    with f have "r + length bs = w + bsize b" by (simp add: filled_def)
    then show ?thesis by simp
  qed simp
  then have "take (length bs + length d) (ring ?m r) = bs @ d"
    using take_ring_overwrite [of r "mem b" w "length bs" d] f room by (simp add: filled_def)
  moreover have "?w \<le> bsize b" using f d by (intro advance_le) (simp_all add: filled_def)
  moreover have "?w = r + length (bs @ d) \<or> ?w + bsize b = r + length (bs @ d)"
    using f room by (auto simp: filled_def advance_def)
  moreover have "bs @ d \<noteq> [] \<longrightarrow> 0 < ?w"
    using f by (cases "d = []") (auto simp: filled_def advance_def)
  ultimately show thesis
    using f room by (intro that [of ?m ?w]) (simp_all add: filled_def)
qed

lemma filled_write_opt:
  assumes "filled b w r bs" "length bs + length d \<le> bsize b"
  obtains m w' where
    "(if d \<noteq> [] then dlt_buffer_write_block b (int w) d else Some (b, int w))
       = Some (b\<lparr>mem := m\<rparr>, int w')"
    "filled (b\<lparr>mem := m\<rparr>) w' r (bs @ d)"
proof (cases "d = []")
  case True
  with assms show thesis by (intro that [of "mem b" w]) simp_all
next
  case False
  from assms obtain m w' where "dlt_buffer_write_block b (int w) d = Some (b\<lparr>mem := m\<rparr>, int w')"
    "filled (b\<lparr>mem := m\<rparr>) w' r (bs @ d)" by (rule filled_write)
  with False show thesis by (intro that [of m w']) simp_all
qed

lemma filled_used:
  assumes "buffer_at b w r c"
  shows "filled b w r (used_bytes b)" "length (used_bytes b) = used_len b"
proof -
  have len: "length (used_bytes b) = used_len b"
    using used_len_le [OF assms] assms by (simp add: used_bytes_def buffer_at_def)
  moreover have "w = r + used_len b \<or> w + bsize b = r + used_len b"
    using used_len_eq [OF assms] assms by (simp add: buffer_at_def)
  moreover have "take (used_len b) (ring (mem b) r) = used_bytes b"
    using assms by (simp add: used_bytes_def buffer_at_def)
  moreover have "used_bytes b \<noteq> [] \<longrightarrow> 0 < w"
    using assms len used_len_eq [OF assms] by (cases "c = 0") (auto simp: buffer_at_def)
  ultimately show "filled b w r (used_bytes b)" "length (used_bytes b) = used_len b"
    using assms used_len_le [OF assms] by (simp_all add: filled_def buffer_at_def)
qed

lemma used_filled:
  assumes f: "filled b w r bs" and "bs \<noteq> []" "0 < c" and a: "buffer_at b w r c"
  shows "used_bytes b = bs"
proof -
  have "0 < length bs" using assms(2) by simp
  then have "used_len b = length bs"
    using used_len_eq [OF a] f assms(3) by (auto simp: filled_def)
  with f a show ?thesis by (simp add: used_bytes_def filled_def buffer_at_def)
qed

lemma free_size_eq:
  assumes "buffer_at b w r c"
  shows "buffer_free_size b (int w) (int r) (int c) = int (bsize b) - int (used_len b)"
proof -
  have "i32 (int (bsize b)) = int (bsize b)"
    using buffer_at_bound [OF assms] by (simp add: c_casts)
  with assms show ?thesis
    by (simp add: buffer_free_size_def used_len_eq) (auto simp: buffer_at_def)
qed

lemma messages_at:
  "buffer_at b w r c \<Longrightarrow> buffer_messages b = split_blocks c (used_bytes b)"
  by (simp add: buffer_messages_def)

lemma nonempty_used:
  assumes a: "buffer_at b w r c" and "buffer_messages b = Some ms" "0 < c"
  shows "12 \<le> used_len b"
proof -
  have "split_blocks c (used_bytes b) = Some ms"
    using assms(2) messages_at [OF a] by simp
  from split_blocks_lengths [OF this] assms(3) have "12 \<le> length (used_bytes b)"
    by (cases ms) auto
  then show ?thesis using filled_used(2) [OF a] by simp
qed


section \<open>Enlarging and pushing\<close>

lemma malloc_okD: "malloc_ok alloc \<Longrightarrow> alloc n = Some p \<Longrightarrow> length p = n"
  by (simp add: malloc_ok_def)

text \<open>A buffer that holds a message keeps its used bytes when it is enlarged.\<close>

lemma increase_spec:
  assumes a: "buffer_at b w r c" and ms: "buffer_messages b = Some ms" and c: "0 < c"
    and al: "malloc_ok alloc"
  obtains (err) "dlt_buffer_increase_size alloc b = Some (DLT_RETURN_ERROR, b)"
      "step_size b = 0 \<or> max_size b < bsize b + 12 + step_size b
         \<or> alloc (bsize b + 12 + step_size b) = None"
    | (ok) b' where "dlt_buffer_increase_size alloc b = Some (DLT_RETURN_OK, b')"
      "buffer_at b' (used_len b) 0 c" "used_bytes b' = used_bytes b"
      "bsize b' = bsize b + step_size b" "max_size b' = max_size b"
      "min_size b' = min_size b" "step_size b' = step_size b"
proof (cases "step_size b = 0 \<or> max_size b < bsize b + 12 + step_size b
            \<or> alloc (bsize b + 12 + step_size b) = None")
  case True
  then have "dlt_buffer_increase_size alloc b = Some (DLT_RETURN_ERROR, b)"
    by (auto simp: dlt_buffer_increase_size_def sizeof_DltBufferHead_def)
  with True show thesis by (intro err)
next
  case False
  then obtain p where p: "alloc (bsize b + 12 + step_size b) = Some p"
    and st: "step_size b \<noteq> 0" "bsize b + 12 + step_size b \<le> max_size b" by auto
  define q where "q = drop 12 p"
  let ?u = "used_len b"
  let ?b' = "b\<lparr>shm := Some \<lparr>bh_write = int ?u, bh_read = 0, bh_count = int c\<rparr>,
      mem := used_bytes b @ drop ?u q, bsize := bsize b + step_size b\<rparr>"
  have q: "length q = bsize b + step_size b" using malloc_okD [OF al p] by (simp add: q_def)
  have u: "12 \<le> ?u" "?u \<le> bsize b" "length (used_bytes b) = ?u"
    using nonempty_used [OF a ms c] used_len_le [OF a] filled_used(2) [OF a] by simp_all
  have ub: "used_bytes b = take ?u (ring (mem b) r)"
    using a by (simp add: used_bytes_def buffer_at_def)
  have sh: "shm b = Some \<lparr>bh_write = int w, bh_read = int r, bh_count = int c\<rparr>"
    and le: "r \<le> bsize b" "w \<le> bsize b" "length (mem b) = bsize b"
    using a by (simp_all add: buffer_at_def)
  have "dlt_buffer_increase_size alloc b = Some (DLT_RETURN_OK, ?b')"
  proof (cases "r < w")
    case True
    then have eu: "?u = w - r" using used_len_eq [OF a] c by simp
    then have iu: "int w - int r = int ?u" using True by simp
    have "used_bytes b = take ?u (drop r (mem b))"
      using ub eu True le by (simp add: ring_def)
    moreover have "r + ?u \<le> bsize b" "?u \<le> bsize b + step_size b" using eu le True by simp_all
    ultimately have "memcpy q 0 (mem b) (int r) (int ?u) = Some (used_bytes b @ drop ?u q)"
      using q le by (simp add: memcpy_def)
    with sh st p True show ?thesis
      by (simp add: dlt_buffer_increase_size_def sizeof_DltBufferHead_def iu flip: q_def)
  next
    case F: False
    then have eu: "?u = bsize b - r + w" using used_len_eq [OF a] c by simp
    have iu: "int (bsize b) + int w - int r = int ?u" using eu le by simp
    have "memcpy q 0 (mem b) (int r) (int (bsize b) - int r)
        = Some (drop r (mem b) @ drop (bsize b - r) q)"
      using q le by (simp add: memcpy_def)
    moreover have "memcpy (drop r (mem b) @ drop (bsize b - r) q) (int (bsize b) - int r)
         (mem b) 0 (int w) = Some (drop r (mem b) @ take w (mem b) @ drop ?u q)"
      using q le eu F by (subst memcpy_append) (simp_all add: add.commute)
    moreover have "used_bytes b = drop r (mem b) @ take w (mem b)"
      using ub eu F le by (simp add: ring_def)
    ultimately show ?thesis using sh st p F
      by (simp add: dlt_buffer_increase_size_def sizeof_DltBufferHead_def iu flip: q_def)
  qed
  moreover have at': "buffer_at ?b' ?u 0 c"
    using a u q st c by (simp add: buffer_at_def)
  moreover have "used_bytes ?b' = used_bytes b"
  proof (rule used_filled [OF _ _ c at'])
    show "filled ?b' ?u 0 (used_bytes b)" using at' u by (simp add: filled_def buffer_at_def)
    show "used_bytes b \<noteq> []" using u by auto
  qed
  ultimately show thesis by (intro ok [of ?b']) simp_all
qed

text \<open>What the enlarging loop leaves: the same messages, and room for the block or the reason why not.\<close>

definition grown :: "malloc \<Rightarrow> nat \<Rightarrow> nat \<Rightarrow> DltBuffer \<Rightarrow> DltReturnValue \<Rightarrow> DltBuffer \<Rightarrow> bool" where
  "grown alloc needed c b ret b' \<longleftrightarrow>
     (\<exists>w r. buffer_at b' w r c) \<and> used_bytes b' = used_bytes b \<and> max_size b' = max_size b
     \<and> min_size b' = min_size b \<and> step_size b' = step_size b \<and> bsize b \<le> bsize b'
     \<and> (ret = DLT_RETURN_OK \<and> used_len b + needed \<le> bsize b'
        \<or> ret = DLT_RETURN_ERROR \<and> bsize b' < used_len b + needed
          \<and> (step_size b = 0 \<or> max_size b < bsize b' + 12 + step_size b
               \<or> alloc (bsize b' + 12 + step_size b) = None))"

lemma grown_step:
  assumes "grown alloc needed c b' ret b''" "used_bytes b' = used_bytes b" "used_len b' = used_len b"
    "bsize b' = bsize b + step_size b" "max_size b' = max_size b"
    "min_size b' = min_size b" "step_size b' = step_size b"
  shows "grown alloc needed c b ret b''"
  using assms unfolding grown_def by simp

lemma push_grow_spec:
  assumes "buffer_at b w r c" "buffer_messages b = Some ms" "malloc_ok alloc"
    "0 < c \<or> used_len b + needed \<le> bsize b"
  shows "\<exists>ret b'. push_grow alloc (int needed) (int c) b = Some (ret, b') \<and> grown alloc needed c b ret b'"
  using assms
proof (induction alloc "int needed" "int c" b arbitrary: w r rule: push_grow.induct)
  case (1 alloc b)
  note at = "1.prems"(1) and ms = "1.prems"(2) and al = "1.prems"(3)
  have sh: "shm b = Some \<lparr>bh_write = int w, bh_read = int r, bh_count = int c\<rparr>"
    using at by (simp add: buffer_at_def)
  note unf = push_grow.simps [of alloc "int needed" "int c" b]
  show ?case
  proof (cases "used_len b + needed \<le> bsize b")
    case True
    then have "push_grow alloc (int needed) (int c) b = Some (DLT_RETURN_OK, b)"
      by (subst unf) (simp add: sh free_size_eq [OF at])
    with True at show ?thesis by (auto simp: grown_def)
  next
    case False
    then have c: "0 < c" using "1.prems"(4) by blast
    have small: "buffer_free_size b (int w) (int r) (int c) < int needed"
      using False by (simp add: free_size_eq [OF at])
    from at ms c al show ?thesis
    proof (cases rule: increase_spec)
      case err
      then have "push_grow alloc (int needed) (int c) b = Some (DLT_RETURN_ERROR, b)"
        using small by (subst unf) (simp add: sh)
      with err(2) False at show ?thesis by (auto simp: grown_def)
    next
      case (ok b')
      have eq: "push_grow alloc (int needed) (int c) b = push_grow alloc (int needed) (int c) b'"
        using small ok(1) by (subst unf) (simp add: sh)
      have ms': "buffer_messages b' = Some ms"
        using ms messages_at [OF at] messages_at [OF ok(2)] ok(3) by simp
      have ul: "used_len b' = used_len b"
        using filled_used(2) [OF at] filled_used(2) [OF ok(2)] ok(3) by simp
      have "\<exists>ret b''. push_grow alloc (int needed) (int c) b' = Some (ret, b'')
              \<and> grown alloc needed c b' ret b''"
        using small ok ms' al c by (intro "1.hyps" [OF sh _ ok(1) refl]) simp_all
      with ok(3-) ul show ?thesis unfolding eq by (blast intro: grown_step)
    qed
  qed
qed

lemma in_range_at:
  assumes "buffer_at b w r c"
  shows "u32 (int r) = int r" "u32 (int w) = int w"
  using assms by (auto simp: buffer_at_def c_casts)

lemma write_message:
  assumes f0: "filled b w r us" and pad: "length pad = 3"
    and room: "length us + 12 + (length d1 + length d2 + length d3) \<le> bsize b"
  obtains m1 w1 m2 w2 m3 w3 m4 w4 where
    "dlt_buffer_write_block b (int w)
       (block_head_bytes pad (message_head (length d1 + length d2 + length d3)))
      = Some (b\<lparr>mem := m1\<rparr>, int w1)"
    "(if d1 \<noteq> [] then dlt_buffer_write_block (b\<lparr>mem := m1\<rparr>) (int w1) d1
      else Some (b\<lparr>mem := m1\<rparr>, int w1)) = Some (b\<lparr>mem := m2\<rparr>, int w2)"
    "(if d2 \<noteq> [] then dlt_buffer_write_block (b\<lparr>mem := m2\<rparr>) (int w2) d2
      else Some (b\<lparr>mem := m2\<rparr>, int w2)) = Some (b\<lparr>mem := m3\<rparr>, int w3)"
    "(if d3 \<noteq> [] then dlt_buffer_write_block (b\<lparr>mem := m3\<rparr>) (int w3) d3
      else Some (b\<lparr>mem := m3\<rparr>, int w3)) = Some (b\<lparr>mem := m4\<rparr>, int w4)"
    "filled (b\<lparr>mem := m4\<rparr>) w4 r (us
       @ block_head_bytes pad (message_head (length (d1 @ d2 @ d3))) @ d1 @ d2 @ d3)"
proof -
  let ?h = "block_head_bytes pad (message_head (length d1 + length d2 + length d3))"
  have lh: "length ?h = 12" using pad by simp
  obtain m1 w1 where 1: "dlt_buffer_write_block b (int w) ?h = Some (b\<lparr>mem := m1\<rparr>, int w1)"
    "filled (b\<lparr>mem := m1\<rparr>) w1 r (us @ ?h)"
    using filled_write [OF f0, of ?h] room lh by auto
  obtain m2 w2 where 2: "(if d1 \<noteq> [] then dlt_buffer_write_block (b\<lparr>mem := m1\<rparr>) (int w1) d1
      else Some (b\<lparr>mem := m1\<rparr>, int w1)) = Some (b\<lparr>mem := m2\<rparr>, int w2)"
    "filled (b\<lparr>mem := m2\<rparr>) w2 r ((us @ ?h) @ d1)"
    using filled_write_opt [OF 1(2), of d1] room lh by auto
  obtain m3 w3 where 3: "(if d2 \<noteq> [] then dlt_buffer_write_block (b\<lparr>mem := m2\<rparr>) (int w2) d2
      else Some (b\<lparr>mem := m2\<rparr>, int w2)) = Some (b\<lparr>mem := m3\<rparr>, int w3)"
    "filled (b\<lparr>mem := m3\<rparr>) w3 r (((us @ ?h) @ d1) @ d2)"
    using filled_write_opt [OF 2(2), of d2] room lh by auto
  obtain m4 w4 where 4: "(if d3 \<noteq> [] then dlt_buffer_write_block (b\<lparr>mem := m3\<rparr>) (int w3) d3
      else Some (b\<lparr>mem := m3\<rparr>, int w3)) = Some (b\<lparr>mem := m4\<rparr>, int w4)"
    "filled (b\<lparr>mem := m4\<rparr>) w4 r ((((us @ ?h) @ d1) @ d2) @ d3)"
    using filled_write_opt [OF 3(2), of d3] room lh by auto
  from 1(1) 2(1) 3(1) 4 show thesis by (intro that) (simp_all add: add.assoc)
qed

definition same_limits :: "DltBuffer \<Rightarrow> DltBuffer \<Rightarrow> bool" where
  "same_limits b b' \<longleftrightarrow>
     min_size b' = min_size b \<and> max_size b' = max_size b \<and> step_size b' = step_size b"

text \<open>There are fewer messages than bytes, so counting one more never overflows.\<close>

lemma count_bound:
  assumes "buffer_at b w r c" "buffer_messages b = Some ms"
  shows "12 * c \<le> used_len b" "i32 (int c + 1) = int (Suc c)"
proof -
  have "12 * length ms \<le> (\<Sum>m\<leftarrow>ms. 12 + length m)" by (induction ms) simp_all
  then show u: "12 * c \<le> used_len b"
    using split_blocks_lengths [of c "used_bytes b" ms] assms(2) messages_at [OF assms(1)]
      filled_used(2) [OF assms(1)] by simp
  show "i32 (int c + 1) = int (Suc c)"
    using u used_len_le [OF assms(1)] buffer_at_bound [OF assms(1)] by (simp add: c_casts)
qed

lemma pushed_message:
  fixes b m w r c msg
  defines "b' \<equiv> b\<lparr>mem := m, shm := Some \<lparr>bh_write = int w, bh_read = int r,
       bh_count = int (Suc c)\<rparr>\<rparr>"
  assumes at: "buffer_at b w0 r c" and ms: "buffer_messages b = Some ms" and pad: "length pad = 3"
    and small: "length msg < 2147483648"
    and f: "filled (b\<lparr>mem := m\<rparr>) w r
        (used_bytes b @ block_head_bytes pad (message_head (length msg)) @ msg)"
  shows "buffer_at b' w r (Suc c)" "buffer_messages b' = Some (ms @ [msg])"
    "used_len b' = used_len b + 12 + length msg"
proof -
  let ?bs = "used_bytes b @ block_head_bytes pad (message_head (length msg)) @ msg"
  have spl: "split_blocks c (used_bytes b) = Some ms" using ms messages_at [OF at] by simp
  have len: "length (block_head_bytes pad (message_head (length msg))) = 12" using pad by simp
  then have ne: "?bs \<noteq> []" by (metis append_is_Nil_conv list.size(3) zero_neq_numeral)
  show at': "buffer_at b' w r (Suc c)"
    using at f ne by (simp add: b'_def buffer_at_def filled_def)
  have us: "used_bytes b' = ?bs"
    using f ne by (intro used_filled [OF _ _ _ at']) (simp_all add: b'_def filled_def)
  show "buffer_messages b' = Some (ms @ [msg])"
    unfolding messages_at [OF at'] us by (rule split_blocks_append [OF pad small spl])
  show "used_len b' = used_len b + 12 + length msg"
    using filled_used(2) [OF at'] filled_used(2) [OF at] us len by simp
qed

lemma push3_spec:
  assumes at: "buffer_at b w r c" and ms: "buffer_messages b = Some ms" and al: "malloc_ok alloc"
    and pad: "length pad = 3"
    and small: "12 + (length d1 + length d2 + length d3) < 2147483648"
    and room: "0 < c \<or> 12 + (length d1 + length d2 + length d3) \<le> bsize b"
  obtains (ok) b' w' r' where "dlt_buffer_push3 alloc pad b d1 d2 d3 = Some (DLT_RETURN_OK, b')"
      "buffer_at b' w' r' (Suc c)" "buffer_messages b' = Some (ms @ [d1 @ d2 @ d3])"
      "used_len b' = used_len b + 12 + (length d1 + length d2 + length d3)" "same_limits b b'"
    | (full) b' w' r' where "dlt_buffer_push3 alloc pad b d1 d2 d3 = Some (DLT_RETURN_ERROR, b')"
      "buffer_at b' w' r' c" "buffer_messages b' = Some ms"
      "bsize b' < used_len b + 12 + (length d1 + length d2 + length d3)" "same_limits b b'"
      "step_size b = 0 \<or> max_size b < bsize b' + 12 + step_size b
         \<or> alloc (bsize b' + 12 + step_size b) = None"
proof -
  let ?t = "length d1 + length d2 + length d3"
  have sh: "shm b = Some \<lparr>bh_write = int w, bh_read = int r, bh_count = int c\<rparr>"
    and le: "r \<le> bsize b" "w \<le> bsize b" using at by (simp_all add: buffer_at_def)
  have u0: "c = 0 \<Longrightarrow> used_len b = 0" using used_len_eq [OF at] by simp
  have casts: "i32 (12 + (int (length d1) + int (length d2) + int (length d3))) = int (12 + ?t)"
    "i32 (int (length d1) + int (length d2) + int (length d3)) = int ?t"
    using small by (simp_all add: c_casts)
  have rm0: "0 < c \<or> used_len b + (12 + ?t) \<le> bsize b"
    using room u0 by (cases "c = 0") simp_all
  obtain ret b1 where g: "push_grow alloc (int (12 + ?t)) (int c) b = Some (ret, b1)"
    "grown alloc (12 + ?t) c b ret b1"
    using push_grow_spec [OF at ms al rm0] by blast
  from g(2) obtain w1 r1 where at1: "buffer_at b1 w1 r1 c" by (auto simp: grown_def)
  have sh1: "shm b1 = Some \<lparr>bh_write = int w1, bh_read = int r1, bh_count = int c\<rparr>"
    using at1 by (simp add: buffer_at_def)
  have ub: "used_bytes b1 = used_bytes b" using g(2) by (simp add: grown_def)
  have ms1: "buffer_messages b1 = Some ms"
    using ms messages_at [OF at] messages_at [OF at1] ub by simp
  have ul: "used_len b1 = used_len b"
    using filled_used(2) [OF at] filled_used(2) [OF at1] ub by simp
  show thesis
  proof (cases "ret = DLT_RETURN_OK")
    case True
    then have rm: "used_len b1 + 12 + ?t \<le> bsize b1" using g(2) ul by (simp add: grown_def)
    then have rm': "length (used_bytes b1) + 12 + ?t \<le> bsize b1"
      using filled_used(2) [OF at1] by simp
    from filled_used(1) [OF at1] pad rm' obtain m1 v1 m2 v2 m3 v3 m4 v4 where wr:
      "dlt_buffer_write_block b1 (int w1) (block_head_bytes pad (message_head ?t))
         = Some (b1\<lparr>mem := m1\<rparr>, int v1)"
      "(if d1 \<noteq> [] then dlt_buffer_write_block (b1\<lparr>mem := m1\<rparr>) (int v1) d1
        else Some (b1\<lparr>mem := m1\<rparr>, int v1)) = Some (b1\<lparr>mem := m2\<rparr>, int v2)"
      "(if d2 \<noteq> [] then dlt_buffer_write_block (b1\<lparr>mem := m2\<rparr>) (int v2) d2
        else Some (b1\<lparr>mem := m2\<rparr>, int v2)) = Some (b1\<lparr>mem := m3\<rparr>, int v3)"
      "(if d3 \<noteq> [] then dlt_buffer_write_block (b1\<lparr>mem := m3\<rparr>) (int v3) d3
        else Some (b1\<lparr>mem := m3\<rparr>, int v3)) = Some (b1\<lparr>mem := m4\<rparr>, int v4)"
      "filled (b1\<lparr>mem := m4\<rparr>) v4 r1 (used_bytes b1
         @ block_head_bytes pad (message_head (length (d1 @ d2 @ d3))) @ d1 @ d2 @ d3)"
      by (rule write_message)
    let ?b' = "b1\<lparr>mem := m4, shm := Some \<lparr>bh_write = int v4, bh_read = int r1,
       bh_count = int (Suc c)\<rparr>\<rparr>"
    note cc = count_bound(2) [OF at1 ms1]
    have hd: "\<lparr>blk_head = DLT_BUFFER_HEAD, blk_status = 2,
        blk_size = int (length d1) + int (length d2) + int (length d3)\<rparr> = message_head ?t"
      by (simp add: message_head_def)
    have "dlt_buffer_push3 alloc pad b d1 d2 d3 = Some (DLT_RETURN_OK, ?b')"
      unfolding dlt_buffer_push3_def
      using sh le in_range_at [OF at] g(1) True sh1 wr(1-4)
      by (simp add: sizeof_DltBufferBlockHead_def Let_def casts hd cc)
    moreover note pushed_message [OF at1 ms1 pad _ wr(5)]
    moreover have "same_limits b ?b'" using g(2) by (simp add: grown_def same_limits_def)
    ultimately show thesis using small ul by (intro ok [of ?b']) simp_all
  next
    case False
    then have "dlt_buffer_push3 alloc pad b d1 d2 d3 = Some (DLT_RETURN_ERROR, b1)"
      unfolding dlt_buffer_push3_def
      using sh le in_range_at [OF at] g(1)
      by (simp add: sizeof_DltBufferBlockHead_def Let_def casts)
    moreover have "bsize b1 < used_len b + 12 + ?t" "same_limits b b1"
      "step_size b = 0 \<or> max_size b < bsize b1 + 12 + step_size b
         \<or> alloc (bsize b1 + 12 + step_size b) = None"
      using False g(2) by (auto simp: grown_def same_limits_def)
    ultimately show thesis using at1 ms1 by (intro full [of b1])
  qed
qed


section \<open>Reading the oldest message\<close>

lemma first_block:
  assumes at: "buffer_at b w r c" and ms: "buffer_messages b = Some (m # ms)"
  shows "0 < c" "block_ok (used_bytes b)" "block_len (used_bytes b) = length m"
    "take (length m) (drop 12 (used_bytes b)) = m"
    "split_blocks (c - 1) (drop (12 + length m) (used_bytes b)) = Some ms"
    "12 + length m \<le> used_len b"
proof -
  have spl: "split_blocks c (used_bytes b) = Some (m # ms)" using ms messages_at [OF at] by simp
  then show c: "0 < c" by (cases c) (auto split: if_splits)
  then obtain k where k: "c = Suc k" by (cases c) auto
  with spl show ok: "block_ok (used_bytes b)" by (simp split: if_splits)
  have "12 + block_len (used_bytes b) \<le> length (used_bytes b)"
    using ok by (auto simp: block_ok_def block_len_def Let_def)
  then show "12 + length m \<le> used_len b" "block_len (used_bytes b) = length m"
    "take (length m) (drop 12 (used_bytes b)) = m"
    "split_blocks (c - 1) (drop (12 + length m) (used_bytes b)) = Some ms"
    using spl ok k filled_used(2) [OF at] by auto
qed

lemma read_head:
  assumes at: "buffer_at b w r c" and "buffer_messages b = Some (m # ms)"
  shows "dlt_buffer_read_block b (int r) (replicate 12 0) 12
       = Some (take 12 (used_bytes b), int (advance (bsize b) r 12))"
proof -
  have u: "12 \<le> used_len b" "used_len b \<le> bsize b"
    using first_block(6) [OF assms] used_len_le [OF at] by simp_all
  have "dlt_buffer_read_block b (int r) (replicate 12 0) (int 12)
       = Some (take 12 (ring (mem b) r) @ drop 12 (replicate 12 0), int (advance (bsize b) r 12))"
    using at u by (intro read_block_spec) (simp_all add: buffer_at_def)
  moreover have "take 12 (used_bytes b) = take 12 (ring (mem b) r)"
    using at u by (simp add: used_bytes_def buffer_at_def min_def)
  ultimately show ?thesis by simp
qed

lemma advance_twice:
  assumes "r \<le> n" "j + k \<le> n"
  shows "advance n (advance n r j) k \<le> n"
    "advance n (advance n r j) k mod n = (r + (j + k)) mod n"
    "advance n (advance n r j) k = r + (j + k) \<or> advance n (advance n r j) k + n = r + (j + k)"
proof -
  have j: "advance n r j \<le> n" "advance n r j mod n = (r + j) mod n"
    using assms by (auto intro: advance_le advance_mod)
  show "advance n (advance n r j) k \<le> n" using assms j by (intro advance_le) simp_all
  have "advance n (advance n r j) k mod n = (advance n r j + k) mod n"
    using assms j by (intro advance_mod) simp_all
  also have "\<dots> = (r + (j + k)) mod n"
    by (metis add.assoc j(2) mod_add_left_eq)
  finally show "advance n (advance n r j) k mod n = (r + (j + k)) mod n" .
  show "advance n (advance n r j) k = r + (j + k) \<or> advance n (advance n r j) k + n = r + (j + k)"
    using assms by (auto simp: advance_def)
qed

text \<open>The buffer after the read position has moved behind the oldest message.\<close>

lemma removed_first:
  fixes b r m w c
  defines "r' \<equiv> advance (bsize b) (advance (bsize b) r 12) (length m)"
  defines "b' \<equiv> b\<lparr>shm := Some \<lparr>bh_write = int w, bh_read = int r', bh_count = int (c - 1)\<rparr>\<rparr>"
  assumes at: "buffer_at b w r c" and ms: "buffer_messages b = Some (m # ms)"
  shows "buffer_at b' w r' (c - 1)" "buffer_messages b' = Some ms"
proof -
  note fb = first_block [OF at ms]
  let ?k = "12 + length m" and ?n = "bsize b"
  have u: "used_len b \<le> ?n" by (rule used_len_le [OF at])
  have k: "?k \<le> ?n" using fb(6) u by simp
  have rn: "r \<le> ?n" "w \<le> ?n" "length (mem b) = ?n" "0 < w"
    using at fb(1) by (simp_all add: buffer_at_def)
  note av = advance_twice [OF rn(1) k, folded r'_def]
  have pos: "w = r + used_len b \<or> w + ?n = r + used_len b"
    using filled_used [OF at] by (simp add: filled_def)
  have last: "r' = w" if "c - 1 = 0"
  proof -
    have "drop ?k (used_bytes b) = []" using fb(5) that by (simp split: if_splits)
    then have "used_len b = ?k" using filled_used(2) [OF at] fb(6) by simp
    then show ?thesis using pos rn(4) k rn(1,2) av(1,3) unfolding r'_def advance_def
      by (auto split: if_splits)
  qed
  show at': "buffer_at b' w r' (c - 1)"
    using at last av(1) rn(4) by (auto simp: b'_def buffer_at_def)
  have "used_bytes b' = drop ?k (used_bytes b)"
  proof (cases "c - 1 = 0")
    case True
    with fb(5) have "drop ?k (used_bytes b) = []" by (simp split: if_splits)
    moreover have "used_bytes b' = []" using filled_used(2) [OF at'] used_len_eq [OF at'] True by simp
    ultimately show ?thesis by simp
  next
    case False
    have "12 \<le> length (drop ?k (used_bytes b))"
      using split_blocks_lengths [OF fb(5)] False by (cases ms) auto
    then have lt: "?k + 12 \<le> used_len b" using filled_used(2) [OF at] by simp
    have "used_len b' = used_len b - ?k"
      using used_len_eq [OF at'] False pos av(3) lt u rn av(1) by (auto simp: b'_def)
    then have "used_bytes b' = take (used_len b - ?k) (ring (mem b) r')"
      by (simp add: used_bytes_def b'_def)
    also have "\<dots> = take (used_len b - ?k) (drop ?k (ring (mem b) r))"
      using rn u lt av by (intro drop_ring [symmetric]) simp_all
    also have "\<dots> = drop ?k (used_bytes b)"
      using at by (simp add: used_bytes_def buffer_at_def drop_take)
    finally show ?thesis .
  qed
  then show "buffer_messages b' = Some ms"
    using messages_at [OF at'] fb(5) by simp
qed

lemma empty_messages: "buffer_at b w r 0 \<Longrightarrow> buffer_messages b = Some []"
  using filled_used(2) [of b w r 0] used_len_eq [of b w r 0] messages_at [of b w r 0] by simp

lemma minimize_spec:
  assumes "buffer_at b w r 0" "malloc_ok alloc"
  obtains ret b' w' r' where "dlt_buffer_minimize_size alloc b = Some (ret, b')"
    "buffer_at b' w' r' 0" "same_limits b b'"
proof (cases "bsize b + 12 = min_size b \<or> alloc (min_size b) = None")
  case True
  with assms show thesis
    by (intro that [of "if bsize b + 12 = min_size b then DLT_RETURN_OK else DLT_RETURN_ERROR" b w r])
      (auto simp: dlt_buffer_minimize_size_def sizeof_DltBufferHead_def same_limits_def)
next
  case False
  then obtain p where p: "alloc (min_size b) = Some p" by auto
  then have "length p = min_size b" by (rule malloc_okD [OF assms(2)])
  with False assms p show thesis
    by (intro that [of DLT_RETURN_OK "b\<lparr>shm := Some \<lparr>bh_write = 0, bh_read = 0, bh_count = 0\<rparr>,
          mem := replicate (min_size b - 12) 0, bsize := min_size b - 12\<rparr>" 0 0])
      (simp_all add: dlt_buffer_minimize_size_def sizeof_DltBufferHead_def buffer_at_def
        same_limits_def)
qed

definition dest_fits :: "bytes option \<Rightarrow> int \<Rightarrow> nat \<Rightarrow> bool" where
  "dest_fits data max_sz k \<longleftrightarrow>
     (case data of None \<Rightarrow> True | Some d \<Rightarrow> max_sz = 0 \<or> k \<le> length d)"

definition dest_after :: "bytes option \<Rightarrow> int \<Rightarrow> bytes \<Rightarrow> bytes option" where
  "dest_after data max_sz m =
     (case data of
        None \<Rightarrow> None
      | Some d \<Rightarrow> Some (if max_sz = 0 then d else m @ drop (length m) d))"

lemma get_advance_spec:
  assumes at: "buffer_at b w r c" and ms: "buffer_messages b = Some (m # ms)"
    and fits: "dest_fits data max_sz (length m)"
    and h: "h = \<lparr>bh_write = int w, bh_read = int r, bh_count = int c\<rparr>"
  shows "get_advance b h (int (advance (bsize b) r 12)) (int (length m)) data max_sz del =
    Some (dest_after data max_sz m,
      if del then b\<lparr>shm := Some (h\<lparr>bh_read :=
          int (advance (bsize b) (advance (bsize b) r 12) (length m))\<rparr>)\<rparr> else b)"
proof -
  note fb = first_block [OF at ms]
  let ?n = "bsize b" and ?p = "advance (bsize b) r 12"
  have k: "12 + length m \<le> ?n" "?n < 2147483648" "r \<le> ?n" "length (mem b) = ?n"
    using fb(6) used_len_le [OF at] buffer_at_bound [OF at] at by (simp_all add: buffer_at_def)
  have p: "?p \<le> ?n" "?p mod ?n = (r + 12) mod ?n"
    using k by (auto intro: advance_le advance_mod)
  have m: "take (length m) (ring (mem b) ?p) = m"
  proof -
    have "take (length m) (ring (mem b) ?p) = take (length m) (drop 12 (ring (mem b) r))"
      using k p by (intro drop_ring [symmetric]) simp_all
    also have "\<dots> = take (length m) (drop 12 (used_bytes b))"
      using at fb(6) by (simp add: used_bytes_def buffer_at_def drop_take min_def)
    finally show ?thesis using fb(4) by simp
  qed
  have rd: "dlt_buffer_read_block b (int ?p) d (int (length m))
      = Some (m @ drop (length m) d, int (advance ?n ?p (length m)))" if "length m \<le> length d" for d
    using read_block_spec [of b ?p "length m" d] k p m that by simp
  have sk: "get_skip b h (int ?p) (int (length m)) del =
      (if del then b\<lparr>shm := Some (h\<lparr>bh_read := int (advance ?n ?p (length m))\<rparr>)\<rparr> else b)"
  proof -
    have "u32 (int ?p + int (length m)) = int ?p + int (length m)" "i32 (int ?n) = int ?n"
      using k p by (simp_all add: c_casts)
    then show ?thesis by (auto simp: get_skip_def advance_def [of ?n ?p "length m"])
  qed
  have u: "u32 (int (length m)) = int (length m)" using k by (simp add: c_casts)
  show ?thesis
    using fits rd sk u
    by (auto simp: get_advance_def dest_fits_def dest_after_def split: option.splits)
qed

lemma get_finish_spec:
  fixes b r m w c
  defines "r' \<equiv> advance (bsize b) (advance (bsize b) r 12) (length m)"
  assumes at: "buffer_at b w r c" and ms: "buffer_messages b = Some (m # ms)"
    and al: "malloc_ok alloc"
  obtains b' w' r'' where "get_finish alloc True (b\<lparr>shm := Some \<lparr>bh_write = int w, bh_read = int r',
       bh_count = int c\<rparr>\<rparr>) = Some b'"
    "buffer_at b' w' r'' (c - 1)" "buffer_messages b' = Some ms" "same_limits b b'"
proof -
  obtain k where k: "c = Suc k" using first_block(1) [OF at ms] by (cases c) auto
  let ?b = "b\<lparr>shm := Some \<lparr>bh_write = int w, bh_read = int r', bh_count = int k\<rparr>\<rparr>"
  have rm: "buffer_at ?b w r' k" "buffer_messages ?b = Some ms"
    using removed_first [OF at ms] by (simp_all add: k r'_def)
  show thesis
  proof (cases k)
    case Suc
    with rm show thesis
      by (intro that [of ?b w r']) (simp_all add: get_finish_def k same_limits_def)
  next
    case 0
    from minimize_spec [OF rm(1) [unfolded 0] al] obtain ret b' w' r'' where
      mn: "dlt_buffer_minimize_size alloc (b\<lparr>shm := Some \<lparr>bh_write = int w, bh_read = int r',
         bh_count = int 0\<rparr>\<rparr>) = Some (ret, b')" "buffer_at b' w' r'' 0"
      "same_limits (b\<lparr>shm := Some \<lparr>bh_write = int w, bh_read = int r', bh_count = int 0\<rparr>\<rparr>) b'" .
    have "ms = []" using empty_messages [OF rm(1) [unfolded 0]] rm(2) by (simp add: 0)
    with mn(1,3) empty_messages [OF mn(2)] mn(2) show thesis
      by (intro that [of b' w' r'']) (simp_all add: get_finish_def k 0 same_limits_def)
  qed
qed

lemma get_reduce:
  assumes at: "buffer_at b w r c" and ms: "buffer_messages b = Some (m # ms)"
  shows "dlt_buffer_get alloc b data max_sz del = do {
    (data', b1) \<leftarrow> get_advance b \<lparr>bh_write = int w, bh_read = int r, bh_count = int c\<rparr>
       (int (advance (bsize b) r 12)) (int (length m)) data max_sz del;
    b2 \<leftarrow> get_finish alloc del b1;
    Some (int (length m), data', b2)
  }"
proof -
  note fb = first_block [OF at ms]
  let ?hb = "block_head_of_bytes (take 12 (used_bytes b))"
  have sh: "shm b = Some \<lparr>bh_write = int w, bh_read = int r, bh_count = int c\<rparr>"
    and le: "r \<le> bsize b" "w \<le> bsize b"
    using at by (simp_all add: buffer_at_def)
  have "i32 (int (bsize b)) = int (bsize b)" using buffer_at_bound [OF at] by (simp add: c_casts)
  then have us: "buffer_used_size b (int w) (int r) = int (used_len b)"
    using used_len_eq [OF at] fb(1) le by (simp add: buffer_used_size_def)
  have "blk_head ?hb = DLT_BUFFER_HEAD" "blk_status ?hb = 2" "blk_size ?hb = int (length m)"
    using fb(2,3) by (auto simp: block_ok_def block_len_def Let_def)
  then show ?thesis
    using sh le in_range_at [OF at] fb(1,6) us read_head [OF at ms]
    by (simp add: dlt_buffer_get_def sizeof_DltBufferBlockHead_def Let_def)
qed

lemma get_spec:
  assumes at: "buffer_at b w r c" and ms: "buffer_messages b = Some (m # ms)"
    and al: "malloc_ok alloc" and fits: "dest_fits data max_sz (length m)"
  obtains b' w' r' c' where "dlt_buffer_get alloc b data max_sz del
      = Some (int (length m), dest_after data max_sz m, b')"
    "buffer_at b' w' r' c'" "buffer_messages b' = Some (if del then ms else m # ms)"
    "same_limits b b'" "del \<or> b' = b"
proof -
  note eq = get_reduce [OF at ms, of alloc data max_sz del]
    get_advance_spec [OF at ms fits refl, where del = del]
  show thesis
  proof (cases del)
    case True
    from get_finish_spec [OF at ms al] obtain b' w' r'' where
      "get_finish alloc True (b\<lparr>shm := Some \<lparr>bh_write = int w,
         bh_read = int (advance (bsize b) (advance (bsize b) r 12) (length m)),
         bh_count = int c\<rparr>\<rparr>) = Some b'"
      "buffer_at b' w' r'' (c - 1)" "buffer_messages b' = Some ms" "same_limits b b'" .
    with True eq show thesis by (intro that [of b' w' r'' "c - 1"]) simp_all
  next
    case False
    with eq at ms show thesis
      by (intro that [of b w r c]) (simp_all add: get_finish_def same_limits_def)
  qed
qed

lemma get_empty:
  assumes at: "buffer_at b w r 0"
  shows "dlt_buffer_get alloc b data max_sz del = Some (-1, data, b)"
  using at in_range_at [OF at] by (simp add: dlt_buffer_get_def buffer_at_def)


section \<open>The buffer is a message queue\<close>

text \<open>
  The operations with their environment: \<^verbatim>\<open>malloc\<close>, the padding of the next block head,
  and the destination for a message that is read.
\<close>

type_synonym buffer_env = "malloc \<times> bytes \<times> bytes"

definition env_ok :: "buffer_env \<Rightarrow> bool" where
  "env_ok = (\<lambda>(alloc, pad, dst). malloc_ok alloc \<and> length pad = 3 \<and> dst \<noteq> [])"

definition fits_dest :: "buffer_env \<Rightarrow> bytes \<Rightarrow> bool" where
  "fits_dest = (\<lambda>(alloc, pad, dst) m. length m \<le> length dst)"

definition fits_minimum :: "DltBuffer \<Rightarrow> bytes \<Rightarrow> bool" where
  "fits_minimum b m \<longleftrightarrow> 24 + length m \<le> min_size b"

definition buffer_list :: "DltBuffer \<Rightarrow> bytes list" where
  "buffer_list b = the (buffer_messages b)"

definition push_msg :: "buffer_env \<Rightarrow> DltBuffer \<Rightarrow> bytes \<Rightarrow> (bool \<times> DltBuffer) option" where
  "push_msg = (\<lambda>(alloc, pad, dst) b m.
     map_option (\<lambda>(ret, b'). (ret = DLT_RETURN_OK, b')) (dlt_buffer_push alloc pad b m))"

definition taken :: "int \<times> bytes option \<times> DltBuffer \<Rightarrow> bytes option \<times> DltBuffer" where
  "taken = (\<lambda>(n, d, b). (if n < 0 then None else map_option (take (nat n)) d, b))"

definition pull_msg :: "buffer_env \<Rightarrow> DltBuffer \<Rightarrow> (bytes option \<times> DltBuffer) option" where
  "pull_msg = (\<lambda>(alloc, pad, dst) b.
     map_option taken (dlt_buffer_pull alloc b (Some dst) (int (length dst))))"

definition copy_msg :: "buffer_env \<Rightarrow> DltBuffer \<Rightarrow> (bytes option \<times> DltBuffer) option" where
  "copy_msg = (\<lambda>(alloc, pad, dst) b.
     map_option taken (dlt_buffer_copy alloc b (Some dst) (int (length dst))))"

definition remove_msg :: "buffer_env \<Rightarrow> DltBuffer \<Rightarrow> DltBuffer option" where
  "remove_msg = (\<lambda>(alloc, pad, dst) b. map_option (\<lambda>(_, _, b'). b') (dlt_buffer_remove alloc b))"

lemma buffer_ok_at:
  "buffer_ok b \<longleftrightarrow> (\<exists>w r c. buffer_at b w r c) \<and> (\<exists>ms. buffer_messages b = Some ms)"
  by (auto simp: buffer_ok_def buffer_shape_at)

lemma get_cases:
  assumes ok: "buffer_ok b" and al: "malloc_ok alloc"
    and f: "\<And>m. m \<in> set (buffer_list b) \<Longrightarrow> dest_fits data max_sz (length m)"
  shows "\<exists>b'. dlt_buffer_get alloc b data max_sz del
      = Some (case buffer_list b of
                [] \<Rightarrow> (-1, data, b')
              | m # _ \<Rightarrow> (int (length m), dest_after data max_sz m, b'))
      \<and> buffer_ok b' \<and> buffer_list b' = (if del then tl (buffer_list b) else buffer_list b)
      \<and> same_limits b b' \<and> (del \<or> b' = b)"
proof -
  from ok obtain w r c ms where at: "buffer_at b w r c" and ms: "buffer_messages b = Some ms"
    by (auto simp: buffer_ok_at)
  show ?thesis
  proof (cases ms)
    case Nil
    then have "c = 0"
      using split_blocks_lengths [of c "used_bytes b" ms] ms messages_at [OF at] by simp
    with get_empty [of b w r alloc data max_sz del] at ms Nil ok show ?thesis
      by (simp add: buffer_list_def same_limits_def)
  next
    case (Cons m ms')
    have "dest_fits data max_sz (length m)" using f ms Cons by (simp add: buffer_list_def)
    from get_spec [OF at ms [unfolded Cons] al this, of del] obtain b' w' r' c' where
      g: "dlt_buffer_get alloc b data max_sz del = Some (int (length m), dest_after data max_sz m, b')"
      "buffer_at b' w' r' c'" "buffer_messages b' = Some (if del then ms' else m # ms')"
      "same_limits b b'" "del \<or> b' = b" .
    then have "buffer_ok b'" by (auto simp: buffer_ok_at)
    with g ms Cons show ?thesis by (auto simp: buffer_list_def)
  qed
qed

lemma same_limits_room: "same_limits b b' \<Longrightarrow> fits_minimum b' = fits_minimum b"
  by (simp add: same_limits_def fits_minimum_def fun_eq_iff)

lemma push_msg_law:
  assumes "env_ok e" "buffer_ok b" "fits_minimum b m"
  shows "\<exists>ok b'. push_msg e b m = Some (ok, b') \<and> buffer_ok b'
    \<and> buffer_list b' = (if ok then buffer_list b @ [m] else buffer_list b)
    \<and> fits_minimum b' = fits_minimum b"
proof -
  obtain alloc pad dst where e: "e = (alloc, pad, dst)" by (cases e)
  from assms(2) obtain w r c ms where at: "buffer_at b w r c" and ms: "buffer_messages b = Some ms"
    by (auto simp: buffer_ok_at)
  have al: "malloc_ok alloc" "length pad = 3" using assms(1) e by (simp_all add: env_ok_def)
  have sz: "12 + (length m + length [] + length []) < 2147483648"
    "0 < c \<or> 12 + (length m + length [] + length []) \<le> bsize b"
    using assms(3) at by (auto simp: fits_minimum_def buffer_at_def)
  from at ms al sz show ?thesis
  proof (cases rule: push3_spec)
    case (ok b' w' r')
    moreover have "buffer_ok b'" using ok(2,3) by (auto simp: buffer_ok_at)
    ultimately show ?thesis using ms e
      by (intro exI [of _ True] exI [of _ b'])
        (simp add: push_msg_def dlt_buffer_push_def buffer_list_def same_limits_room)
  next
    case (full b' w' r')
    moreover have "buffer_ok b'" using full(2,3) by (auto simp: buffer_ok_at)
    ultimately show ?thesis using ms e
      by (intro exI [of _ False] exI [of _ b'])
        (simp add: push_msg_def dlt_buffer_push_def buffer_list_def same_limits_room)
  qed
qed

lemma read_msg_law:
  assumes "env_ok (alloc, pad, dst)" "buffer_ok b"
    "\<And>m. m \<in> set (buffer_list b) \<Longrightarrow> fits_dest (alloc, pad, dst) m"
  shows "\<exists>b'. map_option taken (dlt_buffer_get alloc b (Some dst) (int (length dst)) del)
      = Some (case buffer_list b of [] \<Rightarrow> None | m # _ \<Rightarrow> Some m, b')
    \<and> buffer_ok b' \<and> buffer_list b' = (if del then tl (buffer_list b) else buffer_list b)
    \<and> fits_minimum b' = fits_minimum b \<and> (del \<or> b' = b)"
proof -
  have "malloc_ok alloc" "dst \<noteq> []" using assms(1) by (simp_all add: env_ok_def)
  with get_cases [OF assms(2), of alloc "Some dst" "int (length dst)" del] assms(3)
  obtain b' where g: "dlt_buffer_get alloc b (Some dst) (int (length dst)) del
      = Some (case buffer_list b of
                [] \<Rightarrow> (-1, Some dst, b')
              | m # _ \<Rightarrow> (int (length m), dest_after (Some dst) (int (length dst)) m, b'))"
    "buffer_ok b'" "buffer_list b' = (if del then tl (buffer_list b) else buffer_list b)"
    "same_limits b b'" "del \<or> b' = b"
    by (auto simp: dest_fits_def fits_dest_def)
  show ?thesis
    by (rule exI [of _ b'], cases "buffer_list b")
      (use g \<open>dst \<noteq> []\<close> in \<open>simp_all add: taken_def dest_after_def same_limits_room\<close>)
qed

lemma remove_msg_law:
  assumes "env_ok e" "buffer_ok b"
  shows "\<exists>b'. remove_msg e b = Some b' \<and> buffer_ok b' \<and> buffer_list b' = tl (buffer_list b)
    \<and> fits_minimum b' = fits_minimum b"
proof -
  obtain alloc pad dst where e: "e = (alloc, pad, dst)" by (cases e)
  then have "malloc_ok alloc" using assms(1) by (simp add: env_ok_def)
  with get_cases [OF assms(2), of alloc None 0 True] obtain b' where
    g: "dlt_buffer_get alloc b None 0 True
      = Some (case buffer_list b of
                [] \<Rightarrow> (-1, None, b')
              | m # _ \<Rightarrow> (int (length m), dest_after None 0 m, b'))"
    "buffer_ok b'" "buffer_list b' = tl (buffer_list b)" "same_limits b b'"
    by (auto simp: dest_fits_def)
  show ?thesis
    by (rule exI [of _ b'], cases "buffer_list b")
      (use g e in \<open>simp_all add: remove_msg_def dlt_buffer_remove_def same_limits_room\<close>)
qed

interpretation lq: message_queue buffer_ok buffer_list env_ok fits_dest fits_minimum
  push_msg pull_msg copy_msg remove_msg
proof (unfold_locales, goal_cases)
  case (1 e q m)
  then show ?case by (rule push_msg_law)
next
  case (2 e q)
  then show ?case using read_msg_law [of _ _ _ q True]
    by (cases e) (auto simp: pull_msg_def dlt_buffer_pull_def)
next
  case (3 e q)
  then show ?case using read_msg_law [of _ _ _ q False]
    by (cases e) (auto simp: copy_msg_def dlt_buffer_copy_def)
next
  case (4 e q)
  then show ?case by (rule remove_msg_law)
qed


section \<open>Properties\<close>

definition null_buffer :: DltBuffer where
  "null_buffer = \<lparr>shm = None, mem = [], bsize = 0, min_size = 0, max_size = 0, step_size = 0\<rparr>"

definition sample_buffer :: DltBuffer where
  "sample_buffer = snd (the (dlt_buffer_init_dynamic zero_malloc null_buffer 40 200 40))"

lemma sample_buffer_at: "buffer_at sample_buffer 0 0 0" "bsize sample_buffer = 28"
  "min_size sample_buffer = 40"
  by (simp_all add: sample_buffer_def dlt_buffer_init_dynamic_def zero_malloc_def null_buffer_def
      sizeof_DltBufferHead_def buffer_at_def)

lemmas sample_buffer_empty = empty_messages [OF sample_buffer_at(1)]

lemma sample_buffer_ok: "buffer_ok sample_buffer"
  using sample_buffer_at(1) sample_buffer_empty by (auto simp: buffer_ok_at)

text \<open>
  A dynamic buffer set up with a minimum size that holds its head is an empty, well
  formed buffer; the sizes it was given are its limits.
\<close>

theorem init_dynamic_empty:
  assumes "malloc_ok alloc" "alloc mn \<noteq> None" "12 \<le> mn" "mn \<le> mx" "0 < st" "st \<le> mx"
    "mx < 2147483648"
  shows "\<exists>b. dlt_buffer_init_dynamic alloc buf mn mx st = Some (DLT_RETURN_OK, b)
    \<and> buffer_ok b \<and> buffer_messages b = Some []
    \<and> bsize b = mn - 12 \<and> dlt_buffer_get_total_size b = mx"
proof -
  obtain p where p: "alloc mn = Some p" using assms(2) by auto
  let ?b = "buf\<lparr>min_size := mn, max_size := mx, step_size := st,
     shm := Some \<lparr>bh_write = 0, bh_read = 0, bh_count = 0\<rparr>, mem := replicate (mn - 12) 0,
     bsize := mn - 12\<rparr>"
  have at: "buffer_at ?b 0 0 0" using assms by (simp add: buffer_at_def)
  have "dlt_buffer_init_dynamic alloc buf mn mx st = Some (DLT_RETURN_OK, ?b)"
    using assms p malloc_okD [OF assms(1) p]
    by (simp add: dlt_buffer_init_dynamic_def sizeof_DltBufferHead_def)
  with empty_messages [OF at] at show ?thesis
    by (auto simp: buffer_ok_at dlt_buffer_get_total_size_def)
qed

theorem init_dynamic_empty_witness:
  "\<exists>b. dlt_buffer_init_dynamic zero_malloc null_buffer 40 200 40 = Some (DLT_RETURN_OK, b)
    \<and> buffer_ok b \<and> buffer_messages b = Some []
    \<and> bsize b = 40 - 12 \<and> dlt_buffer_get_total_size b = 200"
  by (rule init_dynamic_empty [OF zero_malloc_ok]) (simp_all add: zero_malloc_def)

text \<open>
  C21. Pushing up to three pieces of data onto a buffer that holds a message, or has room
  for the new one, never touches memory outside the buffer. Either the pieces are appended as one message,
  behind all the others, or the buffer keeps its messages and reports an error; it does
  that only when the message does not fit and the buffer cannot be enlarged any more.
\<close>

theorem push3_appends:
  assumes "buffer_ok b" "buffer_messages b = Some ms" "malloc_ok alloc" "length pad = 3"
    "12 + (length d1 + length d2 + length d3) < 2147483648"
    "ms \<noteq> [] \<or> 12 + (length d1 + length d2 + length d3) \<le> bsize b"
  shows "\<exists>ret b'. dlt_buffer_push3 alloc pad b d1 d2 d3 = Some (ret, b') \<and> buffer_ok b'
    \<and> (ret = DLT_RETURN_OK \<and> buffer_messages b' = Some (ms @ [d1 @ d2 @ d3])
       \<or> ret = DLT_RETURN_ERROR \<and> buffer_messages b' = Some ms
         \<and> bsize b' < used_len b + 12 + (length d1 + length d2 + length d3)
         \<and> (step_size b = 0 \<or> max_size b < bsize b' + 12 + step_size b
              \<or> alloc (bsize b' + 12 + step_size b) = None))"
proof -
  from assms(1) obtain w r c where at: "buffer_at b w r c" by (auto simp: buffer_ok_at)
  have "ms \<noteq> [] \<Longrightarrow> 0 < c"
    using split_blocks_lengths [of c "used_bytes b" ms] assms(2) messages_at [OF at] by auto
  then have room: "0 < c \<or> 12 + (length d1 + length d2 + length d3) \<le> bsize b"
    using assms(6) by blast
  from at assms(2-5) room show ?thesis
  proof (cases rule: push3_spec)
    case (ok b' w' r')
    then have "buffer_ok b'" by (auto simp: buffer_ok_at)
    with ok show ?thesis by (intro exI [of _ DLT_RETURN_OK] exI [of _ b']) simp
  next
    case (full b' w' r')
    then have "buffer_ok b'" by (auto simp: buffer_ok_at)
    with full show ?thesis by (intro exI [of _ DLT_RETURN_ERROR] exI [of _ b']) simp
  qed
qed

theorem push3_appends_witness:
  "\<exists>ret b'. dlt_buffer_push3 zero_malloc [0, 0, 0] sample_buffer [1] [2] [3] = Some (ret, b')
    \<and> buffer_ok b'
    \<and> (ret = DLT_RETURN_OK \<and> buffer_messages b' = Some ([] @ [[1] @ [2] @ [3]])
       \<or> ret = DLT_RETURN_ERROR \<and> buffer_messages b' = Some []
         \<and> bsize b' < used_len sample_buffer + 12 + (length [1::byte] + length [2::byte] + length [3::byte])
         \<and> (step_size sample_buffer = 0 \<or> max_size sample_buffer < bsize b' + 12 + step_size sample_buffer
              \<or> zero_malloc (bsize b' + 12 + step_size sample_buffer) = None))"
  by (rule push3_appends [OF sample_buffer_ok sample_buffer_empty zero_malloc_ok])
    (simp_all add: sample_buffer_at)

text \<open>
  C22. Reading from a well formed buffer into a destination that can hold the oldest message
  returns exactly that message; deleting it leaves the others, in order; not deleting it
  leaves the buffer as it is. An empty buffer reports an error and stays as it is.
\<close>

theorem get_oldest:
  assumes "buffer_ok b" "malloc_ok alloc" "dst \<noteq> []"
    "\<And>m. m \<in> set (buffer_list b) \<Longrightarrow> length m \<le> length dst"
  shows "\<exists>b'. dlt_buffer_get alloc b (Some dst) (int (length dst)) del
      = Some (case buffer_list b of
                [] \<Rightarrow> (-1, Some dst, b')
              | m # _ \<Rightarrow> (int (length m), Some (m @ drop (length m) dst), b'))
      \<and> buffer_ok b' \<and> buffer_list b' = (if del then tl (buffer_list b) else buffer_list b)
      \<and> (del \<or> b' = b)"
proof -
  have f: "dest_fits (Some dst) (int (length dst)) (length m)" if "m \<in> set (buffer_list b)" for m
    using assms(4) [OF that] by (simp add: dest_fits_def)
  have da: "dest_after (Some dst) (int (length dst)) m = Some (m @ drop (length m) dst)" for m
    using assms(3) by (simp add: dest_after_def)
  from get_cases [OF assms(1,2), of "Some dst" "int (length dst)" del] f
  obtain b' where "dlt_buffer_get alloc b (Some dst) (int (length dst)) del
      = Some (case buffer_list b of
                [] \<Rightarrow> (-1, Some dst, b')
              | m # _ \<Rightarrow> (int (length m), dest_after (Some dst) (int (length dst)) m, b'))"
    "buffer_ok b'" "buffer_list b' = (if del then tl (buffer_list b) else buffer_list b)"
    "del \<or> b' = b" by auto
  then show ?thesis unfolding da by (intro exI conjI)
qed

definition sample_filled :: DltBuffer where
  "sample_filled = snd (the (dlt_buffer_push3 zero_malloc [0, 0, 0] sample_buffer [1] [2] [3]))"

lemma sample_filled_ok: "buffer_ok sample_filled" "buffer_list sample_filled = [[1, 2, 3]]"
  "min_size sample_filled = 40"
proof -
  have "buffer_ok sample_filled \<and> buffer_list sample_filled = [[1, 2, 3]] \<and> min_size sample_filled = 40"
  proof (cases rule: push3_spec [OF sample_buffer_at(1) sample_buffer_empty zero_malloc_ok,
        of "[0, 0, 0]" "[1]" "[2]" "[3]", case_names a b c ok full])
    case (ok b' w' r')
    then show ?thesis
      using sample_buffer_at(3)
      by (auto simp: sample_filled_def buffer_ok_at buffer_list_def same_limits_def)
  next
    case (full b' w' r')
    then show ?thesis
      using used_len_eq [OF sample_buffer_at(1)] sample_buffer_at(3)
      by (simp add: buffer_at_def same_limits_def)
  qed (simp_all add: sample_buffer_at)
  then show "buffer_ok sample_filled" "buffer_list sample_filled = [[1, 2, 3]]"
    "min_size sample_filled = 40" by simp_all
qed

theorem get_oldest_witness:
  "\<exists>b'. dlt_buffer_get zero_malloc sample_filled (Some [7, 7, 7, 7]) (int (length [7::byte, 7, 7, 7])) True
      = Some (case buffer_list sample_filled of
                [] \<Rightarrow> (-1, Some [7, 7, 7, 7], b')
              | m # _ \<Rightarrow> (int (length m), Some (m @ drop (length m) [7, 7, 7, 7]), b'))
      \<and> buffer_ok b'
      \<and> buffer_list b' = (if True then tl (buffer_list sample_filled) else buffer_list sample_filled)
      \<and> (True \<or> b' = sample_filled)"
  by (rule get_oldest [OF sample_filled_ok(1) zero_malloc_ok]) (simp_all add: sample_filled_ok)

text \<open>
  C1. In any run of pushes, pulls, copies and removals no operation fails or leaves the
  memory of the buffer, and no message is lost, repeated or reordered: the messages that
  were there followed by those accepted are the messages taken out followed by those
  still there. The messages must fit the minimum size of the buffer, and the destinations
  the messages.
\<close>

theorem buffer_fifo:
  assumes "buffer_ok b"
    and "\<And>e op. (e, op) \<in> set ops \<Longrightarrow> env_ok e"
    and "\<And>e m. (e, Push m) \<in> set ops \<Longrightarrow> fits_minimum b m"
    and "\<And>e op m. (e, op) \<in> set ops \<Longrightarrow> m \<in> set (buffer_list b) \<Longrightarrow> fits_dest e m"
    and "\<And>e op e' m. (e, op) \<in> set ops \<Longrightarrow> (e', Push m) \<in> set ops \<Longrightarrow> fits_dest e m"
  shows "\<exists>ins outs b'. queue_run push_msg pull_msg copy_msg remove_msg ops b = Some (ins, outs, b')
     \<and> buffer_ok b' \<and> buffer_list b @ ins = outs @ buffer_list b'"
  using assms by (rule lq.run_conserves)

definition sample_env :: buffer_env where
  "sample_env = (zero_malloc, [0, 0, 0], [9, 9, 9, 9])"

lemma sample_env_ok: "env_ok sample_env"
  by (simp add: env_ok_def sample_env_def zero_malloc_ok)

lemma sample_fits: "length m \<le> 4 \<Longrightarrow> fits_dest sample_env m"
  by (simp add: fits_dest_def sample_env_def)

theorem buffer_fifo_witness:
  "\<exists>ins outs b'. queue_run push_msg pull_msg copy_msg remove_msg
       [(sample_env, Push [4, 5]), (sample_env, Pull), (sample_env, Peek), (sample_env, Remove)]
       sample_filled = Some (ins, outs, b')
     \<and> buffer_ok b' \<and> buffer_list sample_filled @ ins = outs @ buffer_list b'"
proof (rule buffer_fifo)
  let ?ops = "[(sample_env, Push [4, 5]), (sample_env, Pull), (sample_env, Peek), (sample_env, Remove)]"
  show "buffer_ok sample_filled" by (rule sample_filled_ok)
  show "env_ok e" if "(e, op) \<in> set ?ops" for e op
    using that by (auto simp: sample_env_ok)
  show "fits_minimum sample_filled m" if "(e, Push m) \<in> set ?ops" for e m
    using that by (auto simp: fits_minimum_def sample_filled_ok)
  show "fits_dest e m" if "(e, op) \<in> set ?ops" "m \<in> set (buffer_list sample_filled)" for e op m
    using that by (auto simp: sample_fits sample_filled_ok)
  show "fits_dest e m" if "(e, op) \<in> set ?ops" "(e', Push m) \<in> set ?ops" for e op e' m
    using that by (auto simp: sample_fits)
qed

lemma read_block_overflow:
  assumes "length (mem buf) = bsize buf" "bsize buf < 2147483648"
    "r \<le> bsize buf" "k \<le> bsize buf" "length d < k"
  shows "dlt_buffer_read_block buf (int r) d (int k) = None"
proof (cases "r + k \<le> bsize buf")
  case True
  have "u32 (u32 (int r) + int k) = int r + int k" using assms by (simp add: c_casts)
  with True assms show ?thesis by (simp add: dlt_buffer_read_block_def memcpy_def)
next
  case False
  have "u32 (u32 (int r) + int k) = int r + int k" using assms by (simp add: c_casts)
  moreover have "u32 (int r) = int r" using assms by (simp add: c_casts)
  moreover have "memcpy d1 (int (bsize buf) - int r) (mem buf) 0 (int k - int (bsize buf) + int r) = None"
    if "memcpy d 0 (mem buf) (int r) (int (bsize buf) - int r) = Some d1" for d1
    using memcpy_length [OF that] assms(5) by (simp add: memcpy_def)
  ultimately show ?thesis using False assms(3)
    by (cases "memcpy d 0 (mem buf) (int r) (int (bsize buf) - int r)")
      (simp_all add: dlt_buffer_read_block_def Let_def)
qed

text \<open>
  C26. The size check of \<open>dlt_buffer_get\<close> only logs: a message longer than the destination is
  copied into it all the same, beyond its end, whatever \<open>max_size\<close> says.
\<close>

theorem get_overflows_destination:
  assumes "buffer_ok b" "malloc_ok alloc" "buffer_list b = m # ms" "max_sz \<noteq> 0"
    "length dst < length m"
  shows "dlt_buffer_get alloc b (Some dst) max_sz del = None"
proof -
  from assms(1,3) obtain w r c where at: "buffer_at b w r c"
    and ms: "buffer_messages b = Some (m # ms)" by (auto simp: buffer_ok_at buffer_list_def)
  note fb = first_block [OF at ms]
  let ?p = "advance (bsize b) r 12"
  have k: "12 + length m \<le> bsize b" "bsize b < 2147483648" "r \<le> bsize b"
    "length (mem b) = bsize b"
    using fb(6) used_len_le [OF at] buffer_at_bound [OF at] at by (simp_all add: buffer_at_def)
  have "u32 (int (length m)) = int (length m)" using k by (simp add: c_casts)
  moreover have "?p \<le> bsize b" using k by (intro advance_le) simp_all
  then have "dlt_buffer_read_block b (int ?p) dst (int (length m)) = None"
    using k assms(5) by (intro read_block_overflow) simp_all
  ultimately show ?thesis
    using assms(4) by (simp add: get_reduce [OF at ms] get_advance_def)
qed

theorem get_overflows_destination_witness:
  "dlt_buffer_get zero_malloc sample_filled (Some [7]) 1 False = None"
  by (rule get_overflows_destination [OF sample_filled_ok(1) zero_malloc_ok sample_filled_ok(2)])
    simp_all

lemma increase_empty:
  assumes at: "buffer_at b 0 0 0" and al: "malloc_ok alloc"
    and p: "alloc (bsize b + 12 + step_size b) = Some p"
    and st: "0 < step_size b" "bsize b + 12 + step_size b \<le> max_size b"
  shows "dlt_buffer_increase_size alloc b = Some (DLT_RETURN_OK,
    b\<lparr>shm := Some \<lparr>bh_write = int (bsize b), bh_read = 0, bh_count = 0\<rparr>,
      mem := mem b @ drop (bsize b) (drop 12 p), bsize := bsize b + step_size b\<rparr>)"
proof -
  have "length (drop 12 p) = bsize b + step_size b" using malloc_okD [OF al p] by simp
  moreover have "length (mem b) = bsize b" using at by (simp add: buffer_at_def)
  ultimately show ?thesis using at st p
    by (simp add: dlt_buffer_increase_size_def sizeof_DltBufferHead_def buffer_at_def memcpy_def)
qed

lemma push_grow_empty:
  assumes at: "buffer_at b 0 0 0" and al: "malloc_ok alloc"
    and p: "alloc (bsize b + 12 + step_size b) = Some p"
    and st: "bsize b + 12 + step_size b \<le> max_size b"
    and need: "0 < bsize b" "bsize b < k" "k \<le> step_size b"
  shows "push_grow alloc (int k) 0 b = Some (DLT_RETURN_OK,
    b\<lparr>shm := Some \<lparr>bh_write = int (bsize b), bh_read = 0, bh_count = 0\<rparr>,
      mem := mem b @ drop (bsize b) (drop 12 p), bsize := bsize b + step_size b\<rparr>)" (is "_ = Some (_, ?b1)")
proof -
  have sh: "shm b = Some \<lparr>bh_write = 0, bh_read = 0, bh_count = 0\<rparr>"
    and bd: "max_size b < 2147483648" using at by (simp_all add: buffer_at_def)
  have "buffer_free_size b 0 0 0 < int k" using need bd st
    by (simp add: buffer_free_size_def c_casts)
  moreover have "\<not> buffer_free_size ?b1 (int (bsize b)) 0 0 < int k"
    using need bd st by (simp add: buffer_free_size_def c_casts)
  moreover have "push_grow alloc (int k) 0 ?b1 = Some (DLT_RETURN_OK, ?b1)"
    using calculation(2) by (subst push_grow.simps) simp
  moreover have "0 < step_size b" using need by linarith
  ultimately show ?thesis
    using sh increase_empty [OF at al p _ st] by (subst push_grow.simps) simp
qed

lemma push_empty_grows:
  assumes at: "buffer_at b 0 0 0" and zero: "mem b = replicate (bsize b) 0"
    and al: "malloc_ok alloc" and p: "alloc (bsize b + 12 + step_size b) = Some p"
    and st: "bsize b + 12 + step_size b \<le> max_size b"
    and need: "0 < bsize b" "bsize b < 12 + length m" "12 + length m \<le> step_size b"
    and pad: "length pad = 3"
  obtains b' w where "dlt_buffer_push alloc pad b m = Some (DLT_RETURN_OK, b')"
    "shm b' = Some \<lparr>bh_write = int w, bh_read = 0, bh_count = 1\<rparr>"
    "filled b' w 0 (replicate (bsize b) 0 @ block_head_bytes pad (message_head (length m)) @ m)"
    "bsize b' = bsize b + step_size b"
proof -
  define b1 where "b1 = b\<lparr>shm := Some \<lparr>bh_write = int (bsize b), bh_read = 0, bh_count = 0\<rparr>,
      mem := mem b @ drop (bsize b) (drop 12 p), bsize := bsize b + step_size b\<rparr>"
  have sh: "shm b = Some \<lparr>bh_write = 0, bh_read = 0, bh_count = 0\<rparr>"
    and bd: "max_size b < 2147483648" using at by (simp_all add: buffer_at_def)
  have casts: "i32 (12 + int (length m)) = int (12 + length m)"
    "i32 (int (length m)) = int (length m)"
    using st need bd by (simp_all add: c_casts)
  have hd: "\<lparr>blk_head = DLT_BUFFER_HEAD, blk_status = 2, blk_size = int (length m)\<rparr>
      = message_head (length m)" by (simp add: message_head_def)
  have g: "push_grow alloc (int (12 + length m)) 0 b = Some (DLT_RETURN_OK, b1)"
    unfolding b1_def by (rule push_grow_empty [OF at al p st need])
  have s1: "shm b1 = Some \<lparr>bh_write = int (bsize b), bh_read = 0, bh_count = 0\<rparr>"
    "bsize b1 = bsize b + step_size b" by (simp_all add: b1_def)
  have f1: "filled b1 (bsize b) 0 (replicate (bsize b) 0)"
    using need bd st malloc_okD [OF al p] by (simp add: b1_def filled_def zero ring_def)
  have room: "length (replicate (bsize b) (0::byte)) + 12
      + (length m + length ([]::bytes) + length ([]::bytes)) \<le> bsize b1" using need by (simp add: s1)
  from f1 pad room obtain m1 v1 m2 v2 m3 v3 m4 v4 where wr:
      "dlt_buffer_write_block b1 (int (bsize b)) (block_head_bytes pad (message_head
         (length m + length ([]::bytes) + length ([]::bytes)))) = Some (b1\<lparr>mem := m1\<rparr>, int v1)"
      "(if m \<noteq> [] then dlt_buffer_write_block (b1\<lparr>mem := m1\<rparr>) (int v1) m
        else Some (b1\<lparr>mem := m1\<rparr>, int v1)) = Some (b1\<lparr>mem := m2\<rparr>, int v2)"
      "(if ([]::bytes) \<noteq> [] then dlt_buffer_write_block (b1\<lparr>mem := m2\<rparr>) (int v2) []
        else Some (b1\<lparr>mem := m2\<rparr>, int v2)) = Some (b1\<lparr>mem := m3\<rparr>, int v3)"
      "(if ([]::bytes) \<noteq> [] then dlt_buffer_write_block (b1\<lparr>mem := m3\<rparr>) (int v3) []
        else Some (b1\<lparr>mem := m3\<rparr>, int v3)) = Some (b1\<lparr>mem := m4\<rparr>, int v4)"
      "filled (b1\<lparr>mem := m4\<rparr>) v4 0 (replicate (bsize b) 0
         @ block_head_bytes pad (message_head (length (m @ [] @ []))) @ m @ [] @ [])"
    by (rule write_message)
  let ?b' = "b1\<lparr>mem := m4, shm := Some \<lparr>bh_write = int v4, bh_read = 0, bh_count = 1\<rparr>\<rparr>"
  have "dlt_buffer_push alloc pad b m = Some (DLT_RETURN_OK, ?b')"
    unfolding dlt_buffer_push_def dlt_buffer_push3_def
    using sh s1 g wr(1-4)
    by (simp add: sizeof_DltBufferBlockHead_def Let_def casts hd c_casts)
  moreover have "filled ?b' v4 0 (replicate (bsize b) 0
      @ block_head_bytes pad (message_head (length m)) @ m)" using wr(5) by (simp add: filled_def)
  ultimately show thesis by (intro that [of ?b' v4]) (simp_all add: s1)
qed

lemma get_no_head:
  assumes sh: "shm b = Some \<lparr>bh_write = int w, bh_read = 0, bh_count = 1\<rparr>"
    and f: "filled b w 0 us" and us: "12 \<le> length us" "hd us = 0"
  shows "dlt_buffer_get alloc b data max_sz del = Some (-1, data,
     b\<lparr>shm := Some \<lparr>bh_write = 0, bh_read = 0, bh_count = 0\<rparr>, mem := replicate (bsize b) 0\<rparr>)"
proof -
  have k: "length (mem b) = bsize b" "bsize b < 2147483648" "w \<le> bsize b" "12 \<le> bsize b" "12 \<le> w"
    using f us by (auto simp: filled_def)
  have "take 12 (ring (mem b) 0) = take 12 us"
  proof -
    from f have "take (length us) (ring (mem b) 0) = us" by (simp add: filled_def)
    then have "take 12 (take (length us) (ring (mem b) 0)) = take 12 us" by simp
    with us(1) show ?thesis by (simp add: min_def)
  qed
  moreover have "dlt_buffer_read_block b (int 0) (replicate 12 0) (int 12)
      = Some (take 12 (ring (mem b) 0) @ drop 12 (replicate 12 0), int (advance (bsize b) 0 12))"
    using k by (intro read_block_spec) simp_all
  ultimately have rd: "dlt_buffer_read_block b 0 (replicate 12 0) 12
      = Some (take 12 us, int (advance (bsize b) 0 12))" by simp
  have hd: "blk_head (block_head_of_bytes (take 12 us)) \<noteq> DLT_BUFFER_HEAD"
  proof
    assume "blk_head (block_head_of_bytes (take 12 us)) = DLT_BUFFER_HEAD"
    then have "hd (take 4 us) = hd DLT_BUFFER_HEAD" by (simp add: block_head_of_bytes_def)
    with us show False by (simp add: DLT_BUFFER_HEAD_def)
  qed
  have fail: "get_fail data b = Some (-1, data,
     b\<lparr>shm := Some \<lparr>bh_write = 0, bh_read = 0, bh_count = 0\<rparr>, mem := replicate (bsize b) 0\<rparr>)"
    using k sh by (simp add: get_fail_def dlt_buffer_reset_def)
  have used: "buffer_used_size b (int w) 0 = int w" using k by (simp add: buffer_used_size_def)
  show ?thesis unfolding dlt_buffer_get_def using sh k(2,3,5) hd
    by (simp add: used rd fail sizeof_DltBufferBlockHead_def c_casts)
qed

text \<open>
  C27. A message that does not fit a freshly initialised buffer makes it grow, and growing an
  empty buffer keeps its unused bytes as if they were messages: the push reports success, but
  the next pull finds no block head where it reads, clears the buffer and reports an error.
  The message is lost.
\<close>

theorem large_message_lost:
  assumes al: "malloc_ok alloc" "alloc mn = Some p0" "alloc (mn + st) = Some p1"
    and sizes: "24 \<le> mn" "mn < 24 + length m" "12 + length m \<le> st" "mn + st \<le> mx" "mx < 2147483648"
    and pad: "length pad = 3"
  shows "\<exists>b b' b''. dlt_buffer_init_dynamic alloc buf mn mx st = Some (DLT_RETURN_OK, b)
    \<and> dlt_buffer_push alloc pad b m = Some (DLT_RETURN_OK, b')
    \<and> dlt_buffer_pull alloc b' data max_sz = Some (-1, data, b'')
    \<and> dlt_buffer_get_message_count b'' = 0"
proof -
  let ?b = "buf\<lparr>min_size := mn, max_size := mx, step_size := st,
     shm := Some \<lparr>bh_write = 0, bh_read = 0, bh_count = 0\<rparr>, mem := replicate (mn - 12) 0,
     bsize := mn - 12\<rparr>"
  have at: "buffer_at ?b 0 0 0" using sizes by (simp add: buffer_at_def)
  have init: "dlt_buffer_init_dynamic alloc buf mn mx st = Some (DLT_RETURN_OK, ?b)"
    using sizes al(2) malloc_okD [OF al(1,2)]
    by (simp add: dlt_buffer_init_dynamic_def sizeof_DltBufferHead_def)
  have sum: "mn - 12 + 12 + st = mn + st" using sizes by simp
  obtain b' w where b': "dlt_buffer_push alloc pad ?b m = Some (DLT_RETURN_OK, b')"
    "shm b' = Some \<lparr>bh_write = int w, bh_read = 0, bh_count = 1\<rparr>"
    "filled b' w 0 (replicate (mn - 12) 0 @ block_head_bytes pad (message_head (length m)) @ m)"
    by (rule push_empty_grows [OF at _ al(1), of p1 m pad]) (use al(3) sizes pad sum in simp_all)
  have "hd (replicate (mn - 12) (0::byte) @ us) = 0" for us
    using sizes by (cases "mn - 12") simp_all
  then have "dlt_buffer_pull alloc b' data max_sz = Some (-1, data,
     b'\<lparr>shm := Some \<lparr>bh_write = 0, bh_read = 0, bh_count = 0\<rparr>, mem := replicate (bsize b') 0\<rparr>)"
    unfolding dlt_buffer_pull_def using pad by (intro get_no_head [OF b'(2,3)]) simp_all
  with init b'(1) show ?thesis
    by (intro exI [of _ ?b] exI [of _ b'] exI conjI) (assumption | simp add: dlt_buffer_get_message_count_def)+
qed

theorem large_message_lost_witness:
  "\<exists>b b' b''. dlt_buffer_init_dynamic zero_malloc null_buffer 40 200 60 = Some (DLT_RETURN_OK, b)
    \<and> dlt_buffer_push zero_malloc [0, 0, 0] b (replicate 40 1) = Some (DLT_RETURN_OK, b')
    \<and> dlt_buffer_pull zero_malloc b' (Some [7]) 1 = Some (-1, Some [7], b'')
    \<and> dlt_buffer_get_message_count b'' = 0"
  by (rule large_message_lost [OF zero_malloc_ok]) (simp_all add: zero_malloc_def)

end
