(* ===== verification/Dlt_Event.thy ===== *)
theory Dlt_Event
  imports Dlt_Receiver
begin

text \<open>
  The connections of the daemon and the table of descriptors it polls
  (\<^verbatim>\<open>src/daemon/dlt_daemon_event_handler.c\<close>, \<^verbatim>\<open>src/daemon/dlt_daemon_connection.c\<close>).

  The linked list of connections is a list of records; \<open>con_ptr\<close> is the address of a
  connection, by which the code compares them. The system calls are parameters: what the
  allocators, \<^verbatim>\<open>fstat\<close> and \<^verbatim>\<open>setsockopt\<close> return. Descriptors that were closed are collected in
  \<open>closed\<close>. The model follows the default build, without the systemd watchdog.
\<close>

section \<open>Data\<close>

datatype DltConnectionStatus = UNDEFINED | INACTIVE | ACTIVE | DEACTIVATE | ACTIVATE

datatype DltConnectionType =
    DLT_CONNECTION_NONE
  | DLT_CONNECTION_CLIENT_CONNECT
  | DLT_CONNECTION_CLIENT_MSG_TCP
  | DLT_CONNECTION_CLIENT_MSG_SERIAL
  | DLT_CONNECTION_APP_CONNECT
  | DLT_CONNECTION_APP_MSG
  | DLT_CONNECTION_ONE_S_TIMER
  | DLT_CONNECTION_SIXTY_S_TIMER
  | DLT_CONNECTION_SYSTEMD_TIMER
  | DLT_CONNECTION_CONTROL_CONNECT
  | DLT_CONNECTION_CONTROL_MSG
  | DLT_CONNECTION_GATEWAY
  | DLT_CONNECTION_GATEWAY_TIMER
  | DLT_CONNECTION_TYPE_MAX

fun con_num :: "DltConnectionType \<Rightarrow> nat" where
  "con_num DLT_CONNECTION_NONE = 0"
| "con_num DLT_CONNECTION_CLIENT_CONNECT = 1"
| "con_num DLT_CONNECTION_CLIENT_MSG_TCP = 2"
| "con_num DLT_CONNECTION_CLIENT_MSG_SERIAL = 3"
| "con_num DLT_CONNECTION_APP_CONNECT = 4"
| "con_num DLT_CONNECTION_APP_MSG = 5"
| "con_num DLT_CONNECTION_ONE_S_TIMER = 6"
| "con_num DLT_CONNECTION_SIXTY_S_TIMER = 7"
| "con_num DLT_CONNECTION_SYSTEMD_TIMER = 8"
| "con_num DLT_CONNECTION_CONTROL_CONNECT = 9"
| "con_num DLT_CONNECTION_CONTROL_MSG = 10"
| "con_num DLT_CONNECTION_GATEWAY = 11"
| "con_num DLT_CONNECTION_GATEWAY_TIMER = 12"
| "con_num DLT_CONNECTION_TYPE_MAX = 13"

record DltConnection =
  con_ptr :: nat
  con_id :: nat
  receiver :: "DltReceiver option"
  con_type :: DltConnectionType
  con_status :: DltConnectionStatus
  ev_mask :: int

record pollfd =
  pfd_fd :: int
  pfd_events :: int
  pfd_revents :: int

record DltEventHandler =
  pfd :: "pollfd list"
  nfds :: nat
  max_nfds :: nat
  connections :: "DltConnection list"

text \<open>The event handler with the part of the daemon's state that it changes.\<close>

record event_state =
  pEvent :: DltEventHandler
  client_connections :: int
  connectionId :: nat
  app_recv_buffer :: "nat option"
  mem_heap :: heap
  closed :: "int list"

definition con_fd :: "DltConnection \<Rightarrow> int option" where
  "con_fd c = map_option rcv_fd (receiver c)"

definition is_client :: "DltConnectionType \<Rightarrow> bool" where
  "is_client t \<longleftrightarrow> t = DLT_CONNECTION_CLIENT_MSG_TCP \<or> t = DLT_CONNECTION_CLIENT_MSG_SERIAL"


section \<open>The table of polled descriptors\<close>

definition init_poll_fd :: pollfd where
  "init_poll_fd = \<lparr>pfd_fd = -1, pfd_events = 0, pfd_revents = 0\<rparr>"

definition DLT_EV_BASE_FD :: nat where
  "DLT_EV_BASE_FD = 16"

definition dlt_daemon_prepare_event_handling :: "bool \<Rightarrow> DltEventHandler \<Rightarrow> int \<times> DltEventHandler" where
  "dlt_daemon_prepare_event_handling alloc ev =
     (if \<not> alloc then (-1, ev\<lparr>pfd := []\<rparr>)
      else (0, ev\<lparr>pfd := replicate DLT_EV_BASE_FD init_poll_fd, nfds := 0, max_nfds := DLT_EV_BASE_FD\<rparr>))"

text \<open>\<open>realloc n\<close>: whether a table of \<open>n\<close> entries can be allocated.\<close>

definition dlt_event_handler_enable_fd ::
  "(nat \<Rightarrow> bool) \<Rightarrow> DltEventHandler \<Rightarrow> int \<Rightarrow> int \<Rightarrow> DltEventHandler option" where
  "dlt_event_handler_enable_fd realloc ev fd msk =
     (let m = 2 * max_nfds ev;
          grown = (if max_nfds ev \<le> nfds ev then
                     if \<not> realloc m then None
                     else Some (ev\<lparr>pfd := take (nfds ev) (pfd ev) @ replicate (m - nfds ev) init_poll_fd,
                                   max_nfds := m\<rparr>)
                   else Some ev)
      in case grown of
           None \<Rightarrow> Some ev
         | Some ev \<Rightarrow>
             if nfds ev < length (pfd ev) then
               Some (ev\<lparr>pfd := (pfd ev)[nfds ev := (pfd ev ! nfds ev)\<lparr>pfd_fd := fd, pfd_events := i16 msk\<rparr>],
                        nfds := nfds ev + 1\<rparr>)
             else None)"

text \<open>The loop of \<^verbatim>\<open>dlt_event_handler_disable_fd\<close>; the first argument counts the rounds left.\<close>

fun disable_loop :: "nat \<Rightarrow> nat \<Rightarrow> nat \<Rightarrow> int \<Rightarrow> DltEventHandler \<Rightarrow> DltEventHandler option" where
  "disable_loop 0 i j fd ev = Some ev"
| "disable_loop (Suc k) i j fd ev =
     (if length (pfd ev) \<le> i then None
      else
        let (ev, j) = (if pfd_fd (pfd ev ! i) = fd
                       then (ev\<lparr>pfd := (pfd ev)[i := init_poll_fd], nfds := nfds ev - 1\<rparr>, j + 1)
                       else (ev, j))
        in if i = j then disable_loop k (i + 1) (j + 1) fd ev
           else if i < nfds ev then
             (if length (pfd ev) \<le> j then None
              else disable_loop k (i + 1) (j + 1) fd (ev\<lparr>pfd := (pfd ev)[i := pfd ev ! j]\<rparr>))
           else disable_loop k (i + 1) (j + 1) fd (ev\<lparr>pfd := (pfd ev)[i := init_poll_fd]\<rparr>))"

definition dlt_event_handler_disable_fd :: "DltEventHandler \<Rightarrow> int \<Rightarrow> DltEventHandler option" where
  "dlt_event_handler_disable_fd ev fd = disable_loop (nfds ev) 0 0 fd ev"


section \<open>The list of connections\<close>

definition dlt_event_handler_find_connection :: "DltEventHandler \<Rightarrow> int \<Rightarrow> DltConnection option" where
  "dlt_event_handler_find_connection ev fd = find (\<lambda>c. con_fd c = Some fd) (connections ev)"

definition dlt_daemon_add_connection :: "DltEventHandler \<Rightarrow> DltConnection \<Rightarrow> DltEventHandler" where
  "dlt_daemon_add_connection ev c = ev\<lparr>connections := connections ev @ [c]\<rparr>"

text \<open>A change of the connection at address \<open>p\<close>.\<close>

definition update_con :: "nat \<Rightarrow> (DltConnection \<Rightarrow> DltConnection) \<Rightarrow> DltEventHandler \<Rightarrow> DltEventHandler" where
  "update_con p f ev = ev\<lparr>connections := map (\<lambda>c. if con_ptr c = p then f c else c) (connections ev)\<rparr>"

definition dlt_connection_destroy_receiver :: "heap \<Rightarrow> DltConnection \<Rightarrow> heap option" where
  "dlt_connection_destroy_receiver h c =
     (case receiver c of
        None \<Rightarrow> Some h
      | Some r \<Rightarrow>
          (case con_type c of
             DLT_CONNECTION_GATEWAY \<Rightarrow> Some h
           | DLT_CONNECTION_APP_MSG \<Rightarrow>
               map_option (\<lambda>(_, h, _). h) (dlt_receiver_free_global_buffer h r)
           | _ \<Rightarrow> map_option (\<lambda>(_, h, _). h) (dlt_receiver_free h r)))"

definition dlt_connection_destroy :: "event_state \<Rightarrow> DltConnection \<Rightarrow> event_state option" where
  "dlt_connection_destroy st c =
     (case receiver c of
        None \<Rightarrow> None
      | Some r \<Rightarrow> do {
          h \<leftarrow> dlt_connection_destroy_receiver (mem_heap st) c;
          Some (st\<lparr>mem_heap := h, closed := closed st @ [rcv_fd r]\<rparr>)
        })"

definition dlt_daemon_remove_connection ::
  "event_state \<Rightarrow> nat \<Rightarrow> (int \<times> event_state) option" where
  "dlt_daemon_remove_connection st p =
     (let cs = connections (pEvent st) in
      case find (\<lambda>c. con_ptr c = p) cs of
        None \<Rightarrow> Some (-1, st)
      | Some c \<Rightarrow> do {
          let cs' = takeWhile (\<lambda>c. con_ptr c \<noteq> p) cs @ tl (dropWhile (\<lambda>c. con_ptr c \<noteq> p) cs);
          st \<leftarrow> dlt_connection_destroy (st\<lparr>pEvent := (pEvent st)\<lparr>connections := cs'\<rparr>\<rparr>) c;
          Some (0, st)
        })"

text \<open>The loop that destroys every connection: it ends because each removal shortens the list.\<close>

function cleanup_loop :: "event_state \<Rightarrow> event_state option" where
  "cleanup_loop st =
     (case connections (pEvent st) of
        [] \<Rightarrow> Some st
      | c # _ \<Rightarrow>
          (case dlt_daemon_remove_connection st (con_ptr c) of
             None \<Rightarrow> None
           | Some (_, st') \<Rightarrow> cleanup_loop st'))"
  by pat_completeness auto
termination
  by (relation "measure (\<lambda>st. length (connections (pEvent st)))")
    (auto simp: dlt_daemon_remove_connection_def dlt_connection_destroy_def Let_def
      split: option.splits bind_splits)

declare cleanup_loop.simps [simp del]

definition dlt_event_handler_cleanup_connections :: "event_state \<Rightarrow> event_state option" where
  "dlt_event_handler_cleanup_connections st =
     map_option (\<lambda>st. st\<lparr>pEvent := (pEvent st)\<lparr>pfd := []\<rparr>\<rparr>) (cleanup_loop st)"

definition dlt_connection_get_next :: "DltConnection list \<Rightarrow> nat \<Rightarrow> DltConnection list" where
  "dlt_connection_get_next current msk = dropWhile (\<lambda>c. \<not> bit msk (con_num (con_type c))) current"

definition dlt_connection_check_activate ::
  "(nat \<Rightarrow> bool) \<Rightarrow> DltEventHandler \<Rightarrow> DltConnection \<Rightarrow> DltConnectionStatus \<Rightarrow>
   (int \<times> DltEventHandler) option" where
  "dlt_connection_check_activate realloc ev c activation =
     (case receiver c of
        None \<Rightarrow> Some (-1, ev)
      | Some r \<Rightarrow>
          (case con_status c of
             ACTIVE \<Rightarrow>
               if activation = DEACTIVATE then do {
                 ev \<leftarrow> dlt_event_handler_disable_fd ev (rcv_fd r);
                 let ev = (if con_type c = DLT_CONNECTION_CLIENT_CONNECT
                           then update_con (con_ptr c) (\<lambda>c. c\<lparr>receiver := Some (r\<lparr>rcv_fd := -1\<rparr>)\<rparr>) ev
                           else ev);
                 Some (0, update_con (con_ptr c) (\<lambda>c. c\<lparr>con_status := INACTIVE\<rparr>) ev)
               }
               else Some (0, ev)
           | INACTIVE \<Rightarrow>
               if activation = ACTIVATE then do {
                 ev \<leftarrow> dlt_event_handler_enable_fd realloc ev (rcv_fd r) (ev_mask c);
                 Some (0, update_con (con_ptr c) (\<lambda>c. c\<lparr>con_status := ACTIVE\<rparr>) ev)
               }
               else Some (0, ev)
           | _ \<Rightarrow> Some (-1, ev)))"

definition dlt_event_handler_register_connection ::
  "(nat \<Rightarrow> bool) \<Rightarrow> event_state \<Rightarrow> DltConnection \<Rightarrow> int \<Rightarrow> (int \<times> event_state) option" where
  "dlt_event_handler_register_connection realloc st c msk =
     (case receiver c of
        None \<Rightarrow> Some (-1, st)
      | Some _ \<Rightarrow> do {
          let c' = c\<lparr>con_status := INACTIVE, ev_mask := msk\<rparr>;
          let ev = update_con (con_ptr c) (\<lambda>_. c') (dlt_daemon_add_connection (pEvent st) c);
          (ret, ev) \<leftarrow> dlt_connection_check_activate realloc ev c' ACTIVATE;
          Some (ret, st\<lparr>pEvent := ev,
            client_connections := (if is_client (con_type c) then i32 (client_connections st + 1)
                                   else client_connections st)\<rparr>)
        })"

definition dlt_event_handler_unregister_connection ::
  "event_state \<Rightarrow> int \<Rightarrow> (int \<times> event_state) option" where
  "dlt_event_handler_unregister_connection st fd =
     (case dlt_event_handler_find_connection (pEvent st) fd of
        None \<Rightarrow> Some (-1, st)
      | Some c \<Rightarrow> do {
          let n = client_connections st - 1;
          let st = (if is_client (con_type c)
                    then st\<lparr>client_connections := (if n < 0 then 0 else n)\<rparr> else st);
          (_, ev) \<leftarrow> dlt_connection_check_activate (\<lambda>_. False) (pEvent st) c DEACTIVATE;
          dlt_daemon_remove_connection (st\<lparr>pEvent := ev\<rparr>) (con_ptr c)
        })"


section \<open>Creating connections\<close>

text \<open>The connections of the gateway, as far as the search for a receiver reads them.\<close>

datatype connection_status =
    DLT_GATEWAY_UNINITIALIZED | DLT_GATEWAY_INITIALIZED | DLT_GATEWAY_CONNECTED | DLT_GATEWAY_DISCONNECTED

record DltGatewayConnection =
  gw_status :: connection_status
  gw_sock :: int
  gw_receiver :: DltReceiver

definition dlt_gateway_get_connection_receiver :: "DltGatewayConnection list \<Rightarrow> int \<Rightarrow> DltReceiver option" where
  "dlt_gateway_get_connection_receiver gateway fd =
     map_option gw_receiver (find (\<lambda>c. gw_status c = DLT_GATEWAY_CONNECTED \<and> gw_sock c = fd) gateway)"

text \<open>The connections of the gateway and the answers of the system while a connection is created.\<close>

datatype sockopt = SockoptOk | SockoptNotSocket | SockoptError

record con_env =
  env_new :: allocator
  env_fresh :: bytes
  env_receiver :: bool
  env_connection :: "nat option"
  env_is_socket :: "int \<Rightarrow> bool option"
  env_gateway :: "DltGatewayConnection list"
  env_setsockopt :: "int \<Rightarrow> sockopt"
  env_realloc :: "nat \<Rightarrow> bool"

definition DLT_DAEMON_RCVBUFSIZE :: int where "DLT_DAEMON_RCVBUFSIZE = 10024"
definition DLT_DAEMON_RCVBUFSIZESOCK :: int where "DLT_DAEMON_RCVBUFSIZESOCK = 10024"
definition DLT_DAEMON_RCVBUFSIZESERIAL :: int where "DLT_DAEMON_RCVBUFSIZESERIAL = 10024"

text \<open>What \<^verbatim>\<open>calloc\<close> returns for a receiver.\<close>

definition zero_receiver :: DltReceiver where
  "zero_receiver = \<lparr>lastBytesRcvd = 0, bytesRcvd = 0, totalBytesRcvd = 0, rcv_buffer = None,
     rcv_buf = None, backup_buf = None, rcv_fd = 0, rcv_type = DLT_RECEIVE_SOCKET,
     buffersize = 0\<rparr>"

definition own_receiver ::
  "con_env \<Rightarrow> event_state \<Rightarrow> int \<Rightarrow> DltReceiverType \<Rightarrow> int \<Rightarrow> (DltReceiver option \<times> event_state) option"
where
  "own_receiver env st fd ty n =
     (if \<not> env_receiver env then Some (None, st)
      else map_option (\<lambda>(_, h, r). (Some r, st\<lparr>mem_heap := h\<rparr>))
             (dlt_receiver_init (env_new env) (mem_heap st) zero_receiver fd ty n))"

definition dlt_connection_get_receiver ::
  "con_env \<Rightarrow> event_state \<Rightarrow> DltConnectionType \<Rightarrow> int \<Rightarrow> (DltReceiver option \<times> event_state) option" where
  "dlt_connection_get_receiver env st ty fd =
     (if ty \<in> {DLT_CONNECTION_CONTROL_CONNECT, DLT_CONNECTION_CONTROL_MSG,
               DLT_CONNECTION_CLIENT_CONNECT, DLT_CONNECTION_CLIENT_MSG_TCP} then
        own_receiver env st fd DLT_RECEIVE_SOCKET DLT_DAEMON_RCVBUFSIZESOCK
      else if ty = DLT_CONNECTION_CLIENT_MSG_SERIAL then
        own_receiver env st fd DLT_RECEIVE_FD DLT_DAEMON_RCVBUFSIZESERIAL
      else if ty = DLT_CONNECTION_APP_MSG then
        (if \<not> env_receiver env then Some (None, st)
         else
           let rty = (if env_is_socket env fd = Some True then DLT_RECEIVE_SOCKET else DLT_RECEIVE_FD);
               (_, h, r, g) = dlt_receiver_init_global_buffer (env_new env) (env_fresh env)
                                (mem_heap st) zero_receiver fd rty (app_recv_buffer st)
           in Some (Some r, st\<lparr>mem_heap := h, app_recv_buffer := g\<rparr>))
      else if ty \<in> {DLT_CONNECTION_ONE_S_TIMER, DLT_CONNECTION_SIXTY_S_TIMER,
                    DLT_CONNECTION_GATEWAY_TIMER} then
        own_receiver env st fd DLT_RECEIVE_FD DLT_DAEMON_RCVBUFSIZE
      else if ty = DLT_CONNECTION_GATEWAY then Some (dlt_gateway_get_connection_receiver (env_gateway env) fd, st)
      else Some (None, st))"

text \<open>The counter of connection identifiers is a \<^verbatim>\<open>uintptr_t\<close>; identifier 0 is skipped.\<close>

definition next_connection_id :: "nat \<Rightarrow> nat \<times> nat" where
  "next_connection_id k =
     (let k1 = (k + 1) mod 2 ^ 64 in if k = 0 then (k1, (k1 + 1) mod 2 ^ 64) else (k, k1))"

definition dlt_connection_create ::
  "con_env \<Rightarrow> event_state \<Rightarrow> int \<Rightarrow> int \<Rightarrow> DltConnectionType \<Rightarrow> (int \<times> event_state) option" where
  "dlt_connection_create env st fd msk ty =
     (if fd < 0 then Some (0, st)
      else if dlt_event_handler_find_connection (pEvent st) fd \<noteq> None then Some (0, st)
      else
        case env_connection env of
          None \<Rightarrow> Some (-1, st)
        | Some p \<Rightarrow> do {
            (r, st) \<leftarrow> dlt_connection_get_receiver env st ty fd;
            (case r of
               None \<Rightarrow> Some (-1, st)
             | Some r \<Rightarrow>
                 if env_setsockopt env (rcv_fd r) = SockoptError then Some (-1, st)
                 else
                   let (i, k) = next_connection_id (connectionId st);
                       c = \<lparr>con_ptr = p, con_id = i, receiver = Some r, con_type = ty,
                            con_status = ACTIVE, ev_mask = 0\<rparr>
                   in dlt_event_handler_register_connection (env_realloc env)
                        (st\<lparr>connectionId := k\<rparr>) c msk)
          })"


section \<open>The table of polled descriptors, proofs\<close>

definition polled :: "DltEventHandler \<Rightarrow> int list" where
  "polled ev = map pfd_fd (take (nfds ev) (pfd ev))"

definition table_ok :: "DltEventHandler \<Rightarrow> bool" where
  "table_ok ev \<longleftrightarrow> nfds ev \<le> max_nfds ev \<and> length (pfd ev) = max_nfds ev \<and> 0 < max_nfds ev"

lemma table_connections [simp]:
  "polled (ev\<lparr>connections := cs\<rparr>) = polled ev" "table_ok (ev\<lparr>connections := cs\<rparr>) = table_ok ev"
  by (simp_all add: polled_def table_ok_def)

lemma prepare_table:
  "dlt_daemon_prepare_event_handling True ev = (0, ev') \<Longrightarrow>
     table_ok ev' \<and> polled ev' = [] \<and> connections ev' = connections ev"
  by (auto simp: dlt_daemon_prepare_event_handling_def table_ok_def polled_def DLT_EV_BASE_FD_def)

definition can_grow :: "(nat \<Rightarrow> bool) \<Rightarrow> DltEventHandler \<Rightarrow> bool" where
  "can_grow realloc ev \<longleftrightarrow> nfds ev < max_nfds ev \<or> realloc (2 * max_nfds ev)"

lemma enable_fails: "\<not> can_grow realloc ev \<Longrightarrow> dlt_event_handler_enable_fd realloc ev fd msk = Some ev"
  by (simp add: can_grow_def dlt_event_handler_enable_fd_def)

lemma enable_spec:
  assumes "table_ok ev" "can_grow realloc ev"
  obtains ev' where "dlt_event_handler_enable_fd realloc ev fd msk = Some ev'" "table_ok ev'"
    "polled ev' = polled ev @ [fd]" "connections ev' = connections ev"
proof -
  define ev1 where "ev1 = (if max_nfds ev \<le> nfds ev
    then ev\<lparr>pfd := take (nfds ev) (pfd ev) @ replicate (2 * max_nfds ev - nfds ev) init_poll_fd,
            max_nfds := 2 * max_nfds ev\<rparr> else ev)"
  have 1: "nfds ev1 = nfds ev" "nfds ev1 < length (pfd ev1)" "length (pfd ev1) = max_nfds ev1"
    "take (nfds ev) (pfd ev1) = take (nfds ev) (pfd ev)" "connections ev1 = connections ev"
    using assms(1) by (auto simp: ev1_def table_ok_def)
  let ?p = "(pfd ev1 ! nfds ev)\<lparr>pfd_fd := fd, pfd_events := i16 msk\<rparr>"
  let ?ev = "ev1\<lparr>pfd := (pfd ev1)[nfds ev := ?p], nfds := nfds ev + 1\<rparr>"
  have g: "(if max_nfds ev \<le> nfds ev then
      if \<not> realloc (2 * max_nfds ev) then None
      else Some (ev\<lparr>pfd := take (nfds ev) (pfd ev) @ replicate (2 * max_nfds ev - nfds ev) init_poll_fd,
                    max_nfds := 2 * max_nfds ev\<rparr>) else Some ev) = Some ev1"
    using assms(2) by (auto simp: ev1_def can_grow_def)
  have "dlt_event_handler_enable_fd realloc ev fd msk = Some ?ev"
    unfolding dlt_event_handler_enable_fd_def Let_def g using 1(1,2) by simp
  moreover have "table_ok ?ev" using 1 by (simp add: table_ok_def)
  moreover have "polled ?ev = polled ev @ [fd]"
    using 1 by (simp add: polled_def take_Suc_conv_app_nth)
  ultimately show thesis using 1(5) by (intro that [of ?ev]) simp_all
qed

text \<open>The loop while nothing was found, and after the descriptor was found.\<close>

lemma disable_absent:
  assumes "pfd ev = xs @ ys @ zs" "\<And>p. p \<in> set ys \<Longrightarrow> pfd_fd p \<noteq> fd"
  shows "disable_loop (length ys + k) (length xs) (length xs) fd ev
    = disable_loop k (length xs + length ys) (length xs + length ys) fd ev"
  using assms
proof (induction ys arbitrary: xs)
  case Nil
  then show ?case by simp
next
  case (Cons y ys)
  have "disable_loop (length (y # ys) + k) (length xs) (length xs) fd ev
      = disable_loop (length ys + k) (length (xs @ [y])) (length (xs @ [y])) fd ev"
    using Cons.prems by (simp add: nth_append)
  also have "\<dots> = disable_loop k (length (xs @ [y]) + length ys) (length (xs @ [y]) + length ys) fd ev"
    using Cons.prems by (intro Cons.IH) simp_all
  finally show ?case by simp
qed

lemma disable_shift:
  assumes "pfd ev = xs @ p # ys @ zs" "nfds ev = length xs + length ys"
    "\<And>q. q \<in> set (p # ys) \<Longrightarrow> pfd_fd q \<noteq> fd"
  shows "disable_loop (Suc (length ys)) (length xs) (Suc (length xs)) fd ev
    = Some (ev\<lparr>pfd := xs @ ys @ init_poll_fd # zs\<rparr>)"
  using assms
proof (induction ys arbitrary: xs p ev)
  case Nil
  then show ?case by (simp add: nth_append)
next
  case (Cons y ys)
  let ?ev = "ev\<lparr>pfd := (xs @ [y]) @ y # ys @ zs\<rparr>"
  have "disable_loop (Suc (length (y # ys))) (length xs) (Suc (length xs)) fd ev
      = disable_loop (Suc (length ys)) (length (xs @ [y])) (Suc (length (xs @ [y]))) fd ?ev"
    using Cons.prems by (simp add: nth_append)
  also have "\<dots> = Some (?ev\<lparr>pfd := (xs @ [y]) @ ys @ init_poll_fd # zs\<rparr>)"
    using Cons.prems by (intro Cons.IH) auto
  finally show ?case by simp
qed

lemma disable_spec:
  assumes "table_ok ev" "distinct (polled ev)"
  obtains ev' where "dlt_event_handler_disable_fd ev fd = Some ev'" "table_ok ev'"
    "polled ev' = removeAll fd (polled ev)" "connections ev' = connections ev"
proof (cases "fd \<in> set (polled ev)")
  case False
  let ?ps = "take (nfds ev) (pfd ev)"
  have n: "length ?ps = nfds ev" using assms(1) by (simp add: table_ok_def)
  have "disable_loop (length ?ps + 0) (length ([]::pollfd list)) (length ([]::pollfd list)) fd ev
      = disable_loop 0 (length ([]::pollfd list) + length ?ps) (length ([]::pollfd list) + length ?ps) fd ev"
    using False by (intro disable_absent [of _ _ _ "drop (nfds ev) (pfd ev)"])
      (auto simp: polled_def)
  then have "dlt_event_handler_disable_fd ev fd = Some ev"
    using n by (simp add: dlt_event_handler_disable_fd_def)
  then show thesis using assms(1) False by (intro that [of ev]) simp_all
next
  case True
  then obtain p where p: "p \<in> set (take (nfds ev) (pfd ev))" "pfd_fd p = fd"
    by (auto simp: polled_def)
  then obtain xs ys where ps: "take (nfds ev) (pfd ev) = xs @ p # ys"
    by (auto simp: in_set_conv_decomp)
  define zs where "zs = drop (nfds ev) (pfd ev)"
  have "(xs @ p # ys) @ zs = pfd ev" unfolding ps [symmetric] zs_def by (rule append_take_drop_id)
  then have all: "pfd ev = xs @ p # ys @ zs" by simp
  have "length (take (nfds ev) (pfd ev)) = nfds ev" using assms(1) by (simp add: table_ok_def)
  then have n: "nfds ev = length xs + Suc (length ys)" unfolding ps by simp
  have nf: "fd \<notin> pfd_fd ` set xs" "fd \<notin> pfd_fd ` set ys"
    using assms(2) p(2) by (auto simp: polled_def ps)
  have ne: "\<And>q. q \<in> set xs \<union> set ys \<Longrightarrow> pfd_fd q \<noteq> fd" using nf by force
  let ?ev = "ev\<lparr>pfd := xs @ ys @ init_poll_fd # zs, nfds := length xs + length ys\<rparr>"
  have "dlt_event_handler_disable_fd ev fd = disable_loop (length xs + Suc (length ys))
      (length ([]::pollfd list)) (length ([]::pollfd list)) fd ev"
    by (simp add: dlt_event_handler_disable_fd_def n)
  also have "\<dots> = disable_loop (Suc (length ys)) (length ([]::pollfd list) + length xs)
      (length ([]::pollfd list) + length xs) fd ev"
    using ne all by (intro disable_absent [of _ _ _ "p # ys @ zs"]) auto
  also have "\<dots> = Some ?ev"
  proof (cases ys)
    case Nil
    then show ?thesis using all n p(2) by (simp add: nth_append)
  next
    case (Cons y ys')
    let ?ev1 = "ev\<lparr>pfd := (xs @ [y]) @ y # ys' @ zs, nfds := length xs + length ys\<rparr>"
    have "disable_loop (Suc (length ys)) (length ([]::pollfd list) + length xs)
        (length ([]::pollfd list) + length xs) fd ev
      = disable_loop (Suc (length ys')) (length (xs @ [y])) (Suc (length (xs @ [y]))) fd ?ev1"
      using all n p(2) Cons by (simp add: nth_append)
    also have "\<dots> = Some (?ev1\<lparr>pfd := (xs @ [y]) @ ys' @ init_poll_fd # zs\<rparr>)"
      using Cons ne by (intro disable_shift) auto
    finally show ?thesis using Cons by simp
  qed
  finally have "dlt_event_handler_disable_fd ev fd = Some ?ev" .
  moreover have "table_ok ?ev" using assms(1) all n by (simp add: table_ok_def)
  moreover have "removeAll fd (map pfd_fd xs) = map pfd_fd xs" "removeAll fd (map pfd_fd ys) = map pfd_fd ys"
    using nf by (simp_all add: removeAll_id)
  then have "polled ?ev = removeAll fd (polled ev)" using all n p(2) by (simp add: polled_def ps)
  ultimately show thesis by (intro that [of ?ev]) simp_all
qed


section \<open>The invariant of the event handler\<close>

text \<open>The blocks that belong to a connection alone.\<close>

definition opt_list :: "'a option \<Rightarrow> 'a list" where
  "opt_list x = (case x of None \<Rightarrow> [] | Some a \<Rightarrow> [a])"

definition owned :: "DltConnection \<Rightarrow> nat list" where
  "owned c = (case receiver c of
     None \<Rightarrow> []
   | Some r \<Rightarrow> if con_type c = DLT_CONNECTION_GATEWAY then []
               else if con_type c = DLT_CONNECTION_APP_MSG then opt_list (backup_buf r)
               else opt_list (rcv_buffer r) @ opt_list (backup_buf r))"

definition heap_ok :: "heap \<Rightarrow> nat option \<Rightarrow> DltConnection list \<Rightarrow> bool" where
  "heap_ok h g cs \<longleftrightarrow> distinct (opt_list g @ concat (map owned cs))
     \<and> set (opt_list g @ concat (map owned cs)) \<subseteq> dom h"

text \<open>
  The polled descriptors are those of the connections, in the same order; descriptors and
  addresses are unique; the counter counts the clients; and every connection owns its memory.
\<close>

definition event_inv :: "event_state \<Rightarrow> bool" where
  "event_inv st \<longleftrightarrow>
     (let ev = pEvent st; cs = connections ev in
      table_ok ev \<and> map con_fd cs = map Some (polled ev) \<and> distinct (polled ev)
      \<and> (\<forall>c\<in>set cs. con_status c = ACTIVE) \<and> distinct (map con_ptr cs)
      \<and> client_connections st = int (length (filter (is_client \<circ> con_type) cs))
      \<and> length cs < 2147483647
      \<and> heap_ok (mem_heap st) (app_recv_buffer st) cs)"

lemma opt_list_simps [simp]: "opt_list None = []" "opt_list (Some a) = [a]"
  by (simp_all add: opt_list_def)

lemma free_opt_spec:
  assumes "set (opt_list p) \<subseteq> dom h"
  shows "free_opt h p = Some (\<lambda>x. if x \<in> set (opt_list p) then None else h x)"
  using assms by (auto simp: free_opt_def free_block_def split: option.splits)

lemma destroy_receiver_spec:
  assumes "set (owned c) \<subseteq> dom h" "distinct (owned c)"
  shows "dlt_connection_destroy_receiver h c = Some (\<lambda>x. if x \<in> set (owned c) then None else h x)"
proof (cases "receiver c")
  case None
  then show ?thesis by (simp add: dlt_connection_destroy_receiver_def owned_def)
next
  case (Some r)
  have both: "dlt_receiver_free h r = Some (DLT_RETURN_OK,
        \<lambda>x. if x \<in> set (opt_list (rcv_buffer r) @ opt_list (backup_buf r)) then None else h x,
        r\<lparr>rcv_buffer := None, rcv_buf := None, backup_buf := None\<rparr>)"
    if "set (opt_list (rcv_buffer r) @ opt_list (backup_buf r)) \<subseteq> dom h"
      "distinct (opt_list (rcv_buffer r) @ opt_list (backup_buf r))"
  proof -
    let ?h = "\<lambda>x. if x \<in> set (opt_list (rcv_buffer r)) then None else h x"
    have "free_opt h (rcv_buffer r) = Some ?h" using that by (intro free_opt_spec) simp
    moreover have "set (opt_list (backup_buf r)) \<subseteq> dom ?h"
      using that by (auto simp: dom_def split: if_splits)
    then have "free_opt ?h (backup_buf r)
        = Some (\<lambda>x. if x \<in> set (opt_list (backup_buf r)) then None else ?h x)"
      by (rule free_opt_spec)
    ultimately show ?thesis by (auto simp: dlt_receiver_free_def fun_eq_iff)
  qed
  have one: "dlt_receiver_free_global_buffer h r = Some (DLT_RETURN_OK,
        \<lambda>x. if x \<in> set (opt_list (backup_buf r)) then None else h x,
        r\<lparr>rcv_buffer := None, rcv_buf := None, backup_buf := None\<rparr>)"
    if "set (opt_list (backup_buf r)) \<subseteq> dom h"
    using that by (simp add: dlt_receiver_free_global_buffer_def free_opt_spec)
  show ?thesis
    using assms Some both one
    by (cases "con_type c") (simp_all add: dlt_connection_destroy_receiver_def owned_def)
qed

text \<open>Taking a connection out of the list.\<close>

lemma take_out:
  assumes "distinct (map con_ptr (xs @ c # ys))" "\<And>c. con_ptr (f c) = con_ptr c"
  defines "cs \<equiv> map (\<lambda>d. if con_ptr d = con_ptr c then f d else d) (xs @ c # ys)"
  shows "find (\<lambda>d. con_ptr d = con_ptr c) cs = Some (f c)"
    "takeWhile (\<lambda>d. con_ptr d \<noteq> con_ptr c) cs @ tl (dropWhile (\<lambda>d. con_ptr d \<noteq> con_ptr c) cs) = xs @ ys"
proof -
  have ne: "con_ptr d \<noteq> con_ptr c" if "d \<in> set xs \<union> set ys" for d
    using assms(1) that by (auto simp: rev_image_eqI)
  then have cs: "cs = xs @ f c # ys" unfolding cs_def by (auto intro!: map_idI)
  have "takeWhile (\<lambda>d. con_ptr d \<noteq> con_ptr c) cs = xs"
    "dropWhile (\<lambda>d. con_ptr d \<noteq> con_ptr c) cs = f c # ys"
    unfolding cs using ne assms(2) by (auto simp: takeWhile_append2 dropWhile_append2)
  then show "takeWhile (\<lambda>d. con_ptr d \<noteq> con_ptr c) cs @ tl (dropWhile (\<lambda>d. con_ptr d \<noteq> con_ptr c) cs)
      = xs @ ys" by simp
  have "find (\<lambda>d. con_ptr d = con_ptr c) xs = None" using ne by (auto simp: find_None_iff)
  then show "find (\<lambda>d. con_ptr d = con_ptr c) cs = Some (f c)"
    unfolding cs using assms(2) by (induction xs) (auto split: if_splits)
qed

lemma find_fd:
  assumes "map con_fd (xs @ c # ys) = map Some ps" "distinct ps" "con_fd c = Some fd"
  shows "find (\<lambda>d. con_fd d = Some fd) (xs @ c # ys) = Some c"
proof -
  have "distinct (map con_fd (xs @ c # ys))" unfolding assms(1) using assms(2)
    by (simp add: distinct_map)
  then have "con_fd d \<noteq> Some fd" if "d \<in> set xs" for d
    using that assms(3) by (auto simp: rev_image_eqI)
  then show ?thesis using assms(3) by (induction xs) auto
qed

lemma heap_ok_out:
  assumes "heap_ok h g (xs @ c # ys)"
  shows "heap_ok (\<lambda>x. if x \<in> set (owned c) then None else h x) g (xs @ ys)"
    "set (owned c) \<subseteq> dom h" "distinct (owned c)"
proof -
  have out: "distinct (gs @ as @ bs) \<and> set (gs @ as @ bs) \<subseteq> dom (\<lambda>x. if x \<in> set os then None else h x)
      \<and> set os \<subseteq> dom h \<and> distinct os"
    if "distinct (gs @ as @ os @ bs)" "set (gs @ as @ os @ bs) \<subseteq> dom h" for gs as os bs
    using that by (auto simp: dom_def)
  show "heap_ok (\<lambda>x. if x \<in> set (owned c) then None else h x) g (xs @ ys)"
    "set (owned c) \<subseteq> dom h" "distinct (owned c)"
    using out [of "opt_list g" "concat (map owned xs)" "owned c" "concat (map owned ys)"] assms
    unfolding heap_ok_def map_append concat_append list.map concat.simps append.assoc by blast+
qed

lemma remove_spec:
  assumes cs: "connections (pEvent st) = map (\<lambda>d. if con_ptr d = con_ptr c then f d else d) (xs @ c # ys)"
    and d: "distinct (map con_ptr (xs @ c # ys))" and f: "\<And>c. con_ptr (f c) = con_ptr c"
    and ow: "owned (f c) = owned c" and r: "receiver (f c) = Some r"
    and mh: "mem_heap st = h" and h: "heap_ok h (app_recv_buffer st) (xs @ c # ys)"
  shows "dlt_daemon_remove_connection st (con_ptr c) = Some (0,
    st\<lparr>pEvent := (pEvent st)\<lparr>connections := xs @ ys\<rparr>,
       mem_heap := \<lambda>x. if x \<in> set (owned c) then None else h x,
       closed := closed st @ [rcv_fd r]\<rparr>)"
proof -
  note t = take_out [OF d f, folded cs]
  have "dlt_connection_destroy_receiver h (f c)
      = Some (\<lambda>x. if x \<in> set (owned c) then None else h x)"
    using destroy_receiver_spec [of "f c"] heap_ok_out(2,3) [OF h] ow by simp
  then show ?thesis
    unfolding dlt_daemon_remove_connection_def Let_def t
    by (simp add: dlt_connection_destroy_def r mh)
qed

lemma deactivate_spec:
  assumes "table_ok ev" "distinct (polled ev)" "receiver c = Some r" "con_status c = ACTIVE"
  obtains ev' where "dlt_connection_check_activate realloc ev c DEACTIVATE = Some (0, ev')"
    "table_ok ev'" "polled ev' = removeAll (rcv_fd r) (polled ev)"
    "connections ev' = map (\<lambda>d. if con_ptr d = con_ptr c
        then (if con_type c = DLT_CONNECTION_CLIENT_CONNECT
              then d\<lparr>receiver := Some (r\<lparr>rcv_fd := -1\<rparr>)\<rparr> else d)\<lparr>con_status := INACTIVE\<rparr>
        else d) (connections ev)"
proof -
  obtain ev1 where ev1: "dlt_event_handler_disable_fd ev (rcv_fd r) = Some ev1" "table_ok ev1"
    "polled ev1 = removeAll (rcv_fd r) (polled ev)" "connections ev1 = connections ev"
    by (rule disable_spec [OF assms(1,2)])
  let ?ev = "if con_type c = DLT_CONNECTION_CLIENT_CONNECT
    then update_con (con_ptr c) (\<lambda>c. c\<lparr>receiver := Some (r\<lparr>rcv_fd := -1\<rparr>)\<rparr>) ev1 else ev1"
  show thesis
    by (rule that [of "update_con (con_ptr c) (\<lambda>c. c\<lparr>con_status := INACTIVE\<rparr>) ?ev"])
      (use ev1 assms(3,4) in \<open>auto simp: dlt_connection_check_activate_def update_con_def table_ok_def polled_def\<close>)
qed

lemma event_invD:
  assumes "event_inv st"
  shows "table_ok (pEvent st)" "map con_fd (connections (pEvent st)) = map Some (polled (pEvent st))"
    "distinct (polled (pEvent st))" "\<And>c. c \<in> set (connections (pEvent st)) \<Longrightarrow> con_status c = ACTIVE"
    "distinct (map con_ptr (connections (pEvent st)))"
    "client_connections st = int (length (filter (is_client \<circ> con_type) (connections (pEvent st))))"
    "length (connections (pEvent st)) < 2147483647"
    "heap_ok (mem_heap st) (app_recv_buffer st) (connections (pEvent st))"
  using assms by (auto simp: event_inv_def Let_def)

lemma polled_split:
  assumes "map con_fd (xs @ c # ys) = map Some ps" "distinct ps" "con_fd c = Some fd"
  shows "map con_fd (xs @ ys) = map Some (removeAll fd ps)"
proof -
  from assms(1) obtain ps1 ps2 where ps: "ps = ps1 @ fd # ps2" "map con_fd xs = map Some ps1"
    "map con_fd ys = map Some ps2"
    using assms(3) by (auto simp: map_eq_append_conv map_eq_Cons_conv append_eq_map_conv Cons_eq_map_conv)
  with assms(2) show ?thesis by (simp add: removeAll_id)
qed

lemma unregister_spec:
  assumes inv: "event_inv st" and cs: "connections (pEvent st) = xs @ c # ys" and fd: "con_fd c = Some fd"
  obtains st' where "dlt_event_handler_unregister_connection st fd = Some (0, st')" "event_inv st'"
    "connections (pEvent st') = xs @ ys"
    "closed st' = closed st @ [if con_type c = DLT_CONNECTION_CLIENT_CONNECT then -1 else fd]"
    "client_connections st' = client_connections st - (if is_client (con_type c) then 1 else 0)"
proof -
  note I = event_invD [OF inv, unfolded cs]
  obtain r where r: "receiver c = Some r" "rcv_fd r = fd" using fd by (auto simp: con_fd_def)
  let ?n = "client_connections st - (if is_client (con_type c) then 1 else 0)"
  let ?f = "\<lambda>d. (if con_type c = DLT_CONNECTION_CLIENT_CONNECT
              then d\<lparr>receiver := Some (r\<lparr>rcv_fd := -1\<rparr>)\<rparr> else d)\<lparr>con_status := INACTIVE\<rparr>"
  have n: "0 \<le> ?n" "?n = int (length (filter (is_client \<circ> con_type) (xs @ ys)))" using I(6) by auto
  have st: "(if is_client (con_type c)
      then st\<lparr>client_connections := (if client_connections st - 1 < 0 then 0 else client_connections st - 1)\<rparr>
      else st) = st\<lparr>client_connections := ?n\<rparr>" using n(1) by auto
  obtain ev where ev: "dlt_connection_check_activate (\<lambda>_. False) (pEvent st) c DEACTIVATE = Some (0, ev)"
    "table_ok ev" "polled ev = removeAll fd (polled (pEvent st))"
    "connections ev = map (\<lambda>d. if con_ptr d = con_ptr c then ?f d else d) (xs @ c # ys)"
    using deactivate_spec [OF I(1,3) r(1) I(4) [of c], of "\<lambda>_. False"] r(2) cs by auto
  let ?st = "st\<lparr>client_connections := ?n, pEvent := ev\<rparr>"
  let ?h = "\<lambda>x. if x \<in> set (owned c) then None else mem_heap st x"
  let ?fd = "if con_type c = DLT_CONNECTION_CLIENT_CONNECT then -1 else fd"
  let ?st' = "?st\<lparr>pEvent := ev\<lparr>connections := xs @ ys\<rparr>, mem_heap := ?h, closed := closed st @ [?fd]\<rparr>"
  let ?r = "if con_type c = DLT_CONNECTION_CLIENT_CONNECT then r\<lparr>rcv_fd := -1\<rparr> else r"
  have ow: "owned (?f c) = owned c" "receiver (?f c) = Some ?r" "rcv_fd ?r = ?fd"
    using r by (simp_all add: owned_def)
  have "dlt_daemon_remove_connection ?st (con_ptr c) = Some (0, ?st')"
    using remove_spec [of ?st c ?f xs ys, OF _ I(5) _ ow(1,2), of "mem_heap st"] ev(4) I(8) ow(3)
    by simp
  moreover have "dlt_event_handler_find_connection (pEvent st) fd = Some c"
    unfolding dlt_event_handler_find_connection_def cs by (rule find_fd [OF I(2,3) fd])
  ultimately have "dlt_event_handler_unregister_connection st fd = Some (0, ?st')"
    unfolding dlt_event_handler_unregister_connection_def using st ev(1) by (simp add: Let_def)
  moreover have "event_inv ?st'"
    using ev(2,3) I n(2) polled_split [OF I(2,3) fd] heap_ok_out(1) [OF I(8)]
    by (auto simp: event_inv_def Let_def distinct_removeAll)
  ultimately show thesis by (intro that [of ?st']) simp_all
qed

lemma heap_ok_extend:
  assumes "heap_ok h g cs" "h a = None"
  shows "heap_ok (h(a \<mapsto> blk)) g cs" "a \<notin> set (opt_list g @ concat (map owned cs))"
  using assms unfolding heap_ok_def by (auto simp: dom_def)

definition receiver_given ::
  "event_state \<Rightarrow> DltConnectionType \<Rightarrow> int \<Rightarrow> DltReceiver option \<Rightarrow> event_state \<Rightarrow> bool" where
  "receiver_given st ty fd r st' \<longleftrightarrow>
     st' = st\<lparr>mem_heap := mem_heap st', app_recv_buffer := app_recv_buffer st'\<rparr>
     \<and> heap_ok (mem_heap st') (app_recv_buffer st') (connections (pEvent st))
     \<and> (\<forall>r'. r = Some r' \<longrightarrow> rcv_fd r' = fd
         \<and> (\<forall>c. receiver c = Some r' \<and> con_type c = ty \<longrightarrow>
              heap_ok (mem_heap st') (app_recv_buffer st') (connections (pEvent st) @ [c])))"

lemma own_receiver_spec:
  assumes "heap_ok (mem_heap st) (app_recv_buffer st) (connections (pEvent st))"
    "allocator_ok (env_new env)" "ty \<noteq> DLT_CONNECTION_APP_MSG" "ty \<noteq> DLT_CONNECTION_GATEWAY"
  shows "\<exists>r st'. own_receiver env st fd rty n = Some (r, st') \<and> receiver_given st ty fd r st'"
proof (cases "env_new env (mem_heap st) (nat (u64 n))")
  case None
  then show ?thesis using assms
    by (auto simp: own_receiver_def dlt_receiver_init_def zero_receiver_def Let_def
        receiver_given_def heap_ok_def owned_def)
next
  case (Some a)
  then have a: "mem_heap st a = None" using assms(2) by (auto simp: allocator_ok_def)
  from heap_ok_extend [OF assms(1) a] assms Some show ?thesis
    by (auto simp: own_receiver_def dlt_receiver_init_def zero_receiver_def Let_def
        receiver_given_def heap_ok_def owned_def)
qed

lemma app_receiver_spec:
  assumes "heap_ok (mem_heap st) (app_recv_buffer st) (connections (pEvent st))"
    "allocator_ok (env_new env)"
    "app_recv_buffer st \<noteq> None \<or> env_new env (mem_heap st) DLT_RECEIVE_BUFSIZE \<noteq> None"
  shows "\<exists>r st'. dlt_connection_get_receiver env st DLT_CONNECTION_APP_MSG fd = Some (r, st')
    \<and> receiver_given st DLT_CONNECTION_APP_MSG fd r st'"
proof (cases "app_recv_buffer st")
  case (Some g)
  with assms(1) show ?thesis
    by (auto simp: dlt_connection_get_receiver_def dlt_receiver_init_global_buffer_def
        receiver_given_def heap_ok_def owned_def zero_receiver_def)
next
  case None
  with assms(3) obtain a where a: "env_new env (mem_heap st) DLT_RECEIVE_BUFSIZE = Some a" by auto
  then have "mem_heap st a = None" using assms(2) by (auto simp: allocator_ok_def)
  from heap_ok_extend [OF assms(1) this] assms(1) None a show ?thesis
    by (auto simp: dlt_connection_get_receiver_def dlt_receiver_init_global_buffer_def
        receiver_given_def heap_ok_def owned_def zero_receiver_def)
qed

lemma get_receiver_spec:
  assumes h: "heap_ok (mem_heap st) (app_recv_buffer st) (connections (pEvent st))"
    and al: "allocator_ok (env_new env)"
    and g: "app_recv_buffer st \<noteq> None \<or> env_new env (mem_heap st) DLT_RECEIVE_BUFSIZE \<noteq> None"
    and gw: "\<And>c. c \<in> set (env_gateway env) \<Longrightarrow> rcv_fd (gw_receiver c) = gw_sock c"
  shows "\<exists>r st'. dlt_connection_get_receiver env st ty fd = Some (r, st') \<and> receiver_given st ty fd r st'"
proof (cases "ty = DLT_CONNECTION_APP_MSG")
  case True
  then show ?thesis using app_receiver_spec [OF h al g] by simp
next
  case False
  have own: "\<exists>r st'. own_receiver env st fd rty n = Some (r, st') \<and> receiver_given st ty fd r st'"
    if "ty \<noteq> DLT_CONNECTION_GATEWAY" for rty n by (rule own_receiver_spec [OF h al False that])
  have "rcv_fd r = fd" if "dlt_gateway_get_connection_receiver (env_gateway env) fd = Some r" for r
    using that gw by (auto simp: dlt_gateway_get_connection_receiver_def find_Some_iff)
  then have "receiver_given st ty fd r st"
    if "r = None \<or> ty = DLT_CONNECTION_GATEWAY \<and> r = dlt_gateway_get_connection_receiver (env_gateway env) fd" for r
    using that h by (auto simp: receiver_given_def heap_ok_def owned_def)
  with False own show ?thesis by (cases ty) (auto simp: dlt_connection_get_receiver_def)
qed

text \<open>If the table of polled descriptors cannot grow, the connection is registered all the same.\<close>

lemma register_spec:
  assumes inv: "event_inv st" and h: "heap_ok h g (connections (pEvent st) @ [c])"
    and c: "con_fd c = Some fd" "fd \<notin> set (polled (pEvent st))"
      "con_ptr c \<notin> con_ptr ` set (connections (pEvent st))"
    and len: "length (connections (pEvent st)) < 2147483646"
  obtains st' c' where "dlt_event_handler_register_connection realloc
      (st\<lparr>mem_heap := h, app_recv_buffer := g, connectionId := k\<rparr>) c msk = Some (0, st')"
    "connections (pEvent st') = connections (pEvent st) @ [c']" "con_fd c' = Some fd" "con_type c' = con_type c"
    "if can_grow realloc (pEvent st) then event_inv st' \<and> polled (pEvent st') = polled (pEvent st) @ [fd]
     else polled (pEvent st') = polled (pEvent st)"
proof -
  note I = event_invD [OF inv]
  obtain r where r: "receiver c = Some r" "rcv_fd r = fd" using c(1) by (auto simp: con_fd_def)
  let ?c = "c\<lparr>con_status := INACTIVE, ev_mask := msk\<rparr>" and ?c' = "c\<lparr>con_status := ACTIVE, ev_mask := msk\<rparr>"
  let ?cs = "connections (pEvent st)"
  have id: "map (\<lambda>d. if con_ptr d = con_ptr c then f d else d) ?cs = ?cs" for f
    using c(3) by (auto intro!: map_idI simp: rev_image_eqI)
  let ?ev = "(pEvent st)\<lparr>connections := ?cs @ [?c]\<rparr>"
  have ev: "update_con (con_ptr c) (\<lambda>_. ?c) (dlt_daemon_add_connection (pEvent st) c) = ?ev"
    by (simp add: update_con_def dlt_daemon_add_connection_def id)
  have ok: "table_ok ?ev" "polled ?ev = polled (pEvent st)" "can_grow realloc ?ev = can_grow realloc (pEvent st)"
    using I(1) by (simp_all add: can_grow_def)
  obtain ev' where e: "dlt_event_handler_enable_fd realloc ?ev fd msk = Some ev'" "table_ok ev'"
    "polled ev' = polled (pEvent st) @ (if can_grow realloc (pEvent st) then [fd] else [])" "connections ev' = connections ?ev"
  proof (cases "can_grow realloc ?ev")
    case True
    show thesis by (rule enable_spec [OF ok(1) True, of fd msk]) (rule that; use True ok(2,3) in simp)
  next
    case False
    then show thesis using ok by (intro that [of ?ev] enable_fails) simp_all
  qed
  let ?ev' = "ev'\<lparr>connections := ?cs @ [?c']\<rparr>"
  let ?n = "client_connections st + (if is_client (con_type c) then 1 else 0)"
  let ?st = "st\<lparr>mem_heap := h, app_recv_buffer := g, connectionId := k, pEvent := ?ev',
     client_connections := ?n\<rparr>"
  have "length (filter (is_client \<circ> con_type) ?cs) < 2147483646"
    by (rule le_less_trans [OF length_filter_le len])
  then have "0 \<le> client_connections st" "client_connections st < 2147483646"
    using I(6) by simp_all
  then have n: "i32 (client_connections st + 1) = client_connections st + 1" by (simp add: c_casts)
  have "dlt_event_handler_register_connection realloc
      (st\<lparr>mem_heap := h, app_recv_buffer := g, connectionId := k\<rparr>) c msk = Some (0, ?st)"
    using r ev e(1,4) n
    by (simp add: dlt_event_handler_register_connection_def dlt_connection_check_activate_def
        update_con_def id Let_def)
  moreover have "owned ?c' = owned c" "con_fd ?c' = Some fd" using r by (simp_all add: owned_def con_fd_def)
  then have "event_inv ?st" if "can_grow realloc (pEvent st)"
    using I e(2,3) h c len that
    by (auto simp: event_inv_def Let_def heap_ok_def)
  ultimately show thesis using e(3) c(1) by (intro that [of ?st ?c']) (simp_all add: con_fd_def)
qed

lemma cleanup_spec:
  assumes "distinct (map con_ptr (connections (pEvent st)))"
    "\<And>c. c \<in> set (connections (pEvent st)) \<Longrightarrow> con_fd c \<noteq> None"
    "heap_ok (mem_heap st) (app_recv_buffer st) (connections (pEvent st))"
  shows "\<exists>h. cleanup_loop st = Some (st\<lparr>pEvent := (pEvent st)\<lparr>connections := []\<rparr>, mem_heap := h,
      closed := closed st @ map (the \<circ> con_fd) (connections (pEvent st))\<rparr>)
    \<and> (\<forall>x. h x = (if x \<in> set (concat (map owned (connections (pEvent st)))) then None else mem_heap st x))"
  using assms
proof (induction "connections (pEvent st)" arbitrary: st)
  case Nil
  have "(pEvent st)\<lparr>connections := []\<rparr> = pEvent st" using Nil(1) by (cases "pEvent st") simp
  then have "st = st\<lparr>pEvent := (pEvent st)\<lparr>connections := []\<rparr>, mem_heap := mem_heap st\<rparr>"
    by (cases st) simp
  then show ?case
    by (subst cleanup_loop.simps) (auto simp: Nil(1) [symmetric] intro!: exI [of _ "mem_heap st"])
next
  case (Cons c cs)
  have d: "distinct (map con_ptr ([] @ c # cs))" using Cons.prems(1) Cons.hyps(2) [symmetric] by simp
  have h: "heap_ok (mem_heap st) (app_recv_buffer st) ([] @ c # cs)"
    using Cons.prems(3) Cons.hyps(2) [symmetric] by simp
  obtain r where r: "receiver c = Some r"
    using Cons.prems(2) [of c] Cons.hyps(2) [symmetric] by (auto simp: con_fd_def)
  let ?h = "\<lambda>x. if x \<in> set (owned c) then None else mem_heap st x"
  let ?st = "st\<lparr>pEvent := (pEvent st)\<lparr>connections := cs\<rparr>, mem_heap := ?h, closed := closed st @ [rcv_fd r]\<rparr>"
  have id: "(\<lambda>d. if con_ptr d = con_ptr c then id d else d) = (\<lambda>d. d)" by auto
  have "connections (pEvent st) = map (\<lambda>d. if con_ptr d = con_ptr c then id d else d) ([] @ c # cs)"
    unfolding id using Cons.hyps(2) by simp
  from remove_spec [OF this d _ _ _ refl h] r
  have rm: "dlt_daemon_remove_connection st (con_ptr c) = Some (0, ?st)" by simp
  obtain h where h: "cleanup_loop ?st = Some (?st\<lparr>pEvent := (pEvent ?st)\<lparr>connections := []\<rparr>, mem_heap := h,
      closed := closed ?st @ map (the \<circ> con_fd) (connections (pEvent ?st))\<rparr>)"
    "\<forall>x. h x = (if x \<in> set (concat (map owned (connections (pEvent ?st)))) then None else mem_heap ?st x)"
    using d Cons.prems(2) Cons.hyps(2) [symmetric] heap_ok_out(1) [OF h]
      Cons.hyps(1) [of ?st] by auto
  have m: "mem_heap ?st = ?h" "connections (pEvent ?st) = cs" by simp_all
  have "\<forall>x. h x = (if x \<in> set (concat (map owned (c # cs))) then None else mem_heap st x)"
    using h(2) unfolding m by auto
  moreover have "cleanup_loop st = Some (st\<lparr>pEvent := (pEvent st)\<lparr>connections := []\<rparr>, mem_heap := h,
      closed := closed st @ map (the \<circ> con_fd) (c # cs)\<rparr>)"
    using rm r h(1) by (subst cleanup_loop.simps) (simp add: Cons.hyps(2) [symmetric] con_fd_def)
  ultimately show ?case unfolding Cons.hyps(2) [symmetric] by blast
qed


section \<open>Properties\<close>

definition sample_event :: event_state where
  "sample_event = \<lparr>pEvent = \<lparr>pfd = replicate 16 init_poll_fd, nfds = 0, max_nfds = 16, connections = []\<rparr>,
     client_connections = 0, connectionId = 0, app_recv_buffer = None, mem_heap = Map.empty, closed = []\<rparr>"

lemma sample_event_inv: "event_inv sample_event"
  by (simp add: event_inv_def sample_event_def table_ok_def polled_def heap_ok_def)

definition sample_con_env :: con_env where
  "sample_con_env = \<lparr>env_new = next_block, env_fresh = replicate 65535 0, env_receiver = True,
     env_connection = Some 0, env_is_socket = (\<lambda>_. Some True), env_gateway = [],
     env_setsockopt = (\<lambda>_. SockoptOk), env_realloc = (\<lambda>_. True)\<rparr>"

lemma not_polled_breaks:
  assumes "event_inv st'" "event_inv st" "connections (pEvent st') = connections (pEvent st) @ [c]"
  shows "polled (pEvent st') \<noteq> polled (pEvent st)"
  using event_invD(2) [OF assms(1)] event_invD(2) [OF assms(2)] assms(3) by (auto dest: arg_cong [of _ _ length])

lemma create_spec:
  assumes "event_inv st" "allocator_ok (env_new env)"
    "\<And>p. env_connection env = Some p \<Longrightarrow> p \<notin> con_ptr ` set (connections (pEvent st))"
    "\<And>c. c \<in> set (env_gateway env) \<Longrightarrow> rcv_fd (gw_receiver c) = gw_sock c"
    "app_recv_buffer st \<noteq> None \<or> env_new env (mem_heap st) DLT_RECEIVE_BUFSIZE \<noteq> None"
    "length (connections (pEvent st)) < 2147483646"
  shows "\<exists>ret st'. dlt_connection_create env st fd msk ty = Some (ret, st')
    \<and> (pEvent st' = pEvent st \<and> event_inv st' \<and> (ret = 0 \<longrightarrow> fd < 0 \<or> fd \<in> set (polled (pEvent st)))
       \<or> ret = 0 \<and> (\<exists>c. connections (pEvent st') = connections (pEvent st) @ [c] \<and> con_fd c = Some fd \<and> con_type c = ty)
         \<and> (if can_grow (env_realloc env) (pEvent st)
            then event_inv st' \<and> polled (pEvent st') = polled (pEvent st) @ [fd]
            else \<not> event_inv st' \<and> polled (pEvent st') = polled (pEvent st)))"
proof -
  note I = event_invD [OF assms(1)]
  have "fd \<in> set (polled (pEvent st)) \<longleftrightarrow> Some fd \<in> set (map con_fd (connections (pEvent st)))"
    unfolding I(2) by auto
  also have "\<dots> \<longleftrightarrow> (\<exists>c\<in>set (connections (pEvent st)). con_fd c = Some fd)"
    by (auto simp: image_iff eq_commute [of "Some fd"])
  finally have known: "fd \<in> set (polled (pEvent st)) \<longleftrightarrow> dlt_event_handler_find_connection (pEvent st) fd \<noteq> None"
    by (auto simp: dlt_event_handler_find_connection_def find_None_iff)
  show ?thesis
  proof (cases "fd < 0 \<or> fd \<in> set (polled (pEvent st)) \<or> env_connection env = None")
    case True
    with known have "dlt_connection_create env st fd msk ty
        = Some (if fd < 0 \<or> fd \<in> set (polled (pEvent st)) then 0 else -1, st)"
      by (auto simp: dlt_connection_create_def)
    with assms(1) show ?thesis by auto
  next
    case False
    then obtain p where p: "env_connection env = Some p" by auto
    obtain r st1 where r: "dlt_connection_get_receiver env st ty fd = Some (r, st1)"
      "receiver_given st ty fd r st1" using get_receiver_spec [OF I(8) assms(2,5,4)] by blast
    define h g where "h = mem_heap st1" and "g = app_recv_buffer st1"
    have st1: "st1 = st\<lparr>mem_heap := h, app_recv_buffer := g\<rparr>" "heap_ok h g (connections (pEvent st))"
      using r(2) by (simp_all add: receiver_given_def h_def g_def)
    then have inv1: "event_inv st1" using I by (simp add: event_inv_def Let_def)
    have find: "dlt_event_handler_find_connection (pEvent st) fd = None" using False known by blast
    show ?thesis
    proof (cases "\<exists>r'. r = Some r' \<and> env_setsockopt env (rcv_fd r') \<noteq> SockoptError")
      case False
      then have "dlt_connection_create env st fd msk ty = Some (-1, st1)"
        using \<open>\<not> (fd < 0 \<or> _)\<close> find p r(1)
        by (auto simp: dlt_connection_create_def split: option.splits)
      with inv1 st1(1) show ?thesis by simp
    next
      case True
      then obtain r' where r': "r = Some r'" "env_setsockopt env (rcv_fd r') \<noteq> SockoptError" by blast
      obtain i k where ik: "next_connection_id (connectionId st) = (i, k)" by fastforce
      let ?c = "\<lparr>con_ptr = p, con_id = i, receiver = Some r', con_type = ty, con_status = ACTIVE, ev_mask = 0\<rparr>"
      have fd: "rcv_fd r' = fd" "heap_ok h g (connections (pEvent st) @ [?c])"
        using r(2) r'(1) by (auto simp: receiver_given_def h_def g_def)
      have c: "con_fd ?c = Some fd" "fd \<notin> set (polled (pEvent st))"
        "con_ptr ?c \<notin> con_ptr ` set (connections (pEvent st))"
        using fd(1) False assms(3) [OF p] by (simp_all add: con_fd_def)
      obtain st' c' where reg: "dlt_event_handler_register_connection (env_realloc env)
          (st\<lparr>mem_heap := h, app_recv_buffer := g, connectionId := k\<rparr>) ?c msk = Some (0, st')"
        "connections (pEvent st') = connections (pEvent st) @ [c']" "con_fd c' = Some fd" "con_type c' = con_type ?c"
        "if can_grow (env_realloc env) (pEvent st) then event_inv st' \<and> polled (pEvent st') = polled (pEvent st) @ [fd]
         else polled (pEvent st') = polled (pEvent st)"
        by (rule register_spec [OF assms(1) fd(2) c assms(6)])
      have "dlt_connection_create env st fd msk ty = Some (0, st')"
        using False find p r(1) r' reg(1) ik st1(1) by (simp add: dlt_connection_create_def)
      with reg(2-5) not_polled_breaks [OF _ assms(1) reg(2)] show ?thesis by (auto split: if_splits)
    qed
  qed
qed

text \<open>
  C17. Creating a connection either changes nothing that is registered and keeps the invariant of the event handler:
  the polled descriptors are exactly those of the connections, each once and in order, the client counter is right and
  no two connections share memory. Or it returns success and adds a connection of the given type at the end. Then the
  invariant holds and the descriptor is polled as the last one if the table of polled descriptors has room or could be
  enlarged; if memory for it is missing, the descriptor of the new connection is not polled. Every other answer of the
  system is covered; assumed is that there is memory for the buffer that applications share, once, that blocks of
  memory that are handed out are not in use, and that the receivers of the gateway have the descriptors of their connections.
\<close>

theorem create_keeps_invariant:
  assumes "event_inv st" "allocator_ok (env_new env)"
    "\<And>p. env_connection env = Some p \<Longrightarrow> p \<notin> con_ptr ` set (connections (pEvent st))"
    "\<And>c. c \<in> set (env_gateway env) \<Longrightarrow> rcv_fd (gw_receiver c) = gw_sock c"
    "app_recv_buffer st \<noteq> None \<or> env_new env (mem_heap st) DLT_RECEIVE_BUFSIZE \<noteq> None"
    "length (connections (pEvent st)) < 2147483646"
  shows "\<exists>ret st'. dlt_connection_create env st fd msk ty = Some (ret, st')
    \<and> (pEvent st' = pEvent st \<and> event_inv st' \<and> (ret = 0 \<longrightarrow> fd < 0 \<or> fd \<in> set (polled (pEvent st)))
       \<or> ret = 0 \<and> (\<exists>c. connections (pEvent st') = connections (pEvent st) @ [c] \<and> con_fd c = Some fd \<and> con_type c = ty)
         \<and> (if nfds (pEvent st) < max_nfds (pEvent st) \<or> env_realloc env (2 * max_nfds (pEvent st))
            then event_inv st' \<and> polled (pEvent st') = polled (pEvent st) @ [fd]
            else \<not> event_inv st' \<and> polled (pEvent st') = polled (pEvent st)))"
  by (rule create_spec [OF assms, unfolded can_grow_def])

theorem create_keeps_invariant_witness:
  "\<exists>ret st'. dlt_connection_create sample_con_env sample_event 7 1 DLT_CONNECTION_CLIENT_MSG_TCP = Some (ret, st')
    \<and> (pEvent st' = pEvent sample_event \<and> event_inv st' \<and> (ret = 0 \<longrightarrow> 7 < (0::int))
       \<or> ret = 0 \<and> (\<exists>c. connections (pEvent st') = [c] \<and> con_fd c = Some 7 \<and> con_type c = DLT_CONNECTION_CLIENT_MSG_TCP)
         \<and> event_inv st' \<and> polled (pEvent st') = [7])"
proof -
  have "nfds (pEvent sample_event) < max_nfds (pEvent sample_event)" "connections (pEvent sample_event) = []"
    "polled (pEvent sample_event) = []" by (simp_all add: sample_event_def polled_def)
  moreover have "allocator_ok (env_new sample_con_env)" "env_gateway sample_con_env = []"
    "env_new sample_con_env (mem_heap sample_event) DLT_RECEIVE_BUFSIZE \<noteq> None"
    using next_block_ok by (auto simp: never_fails_def sample_con_env_def sample_event_def next_block_def)
  ultimately show ?thesis
    using create_keeps_invariant [OF sample_event_inv, of sample_con_env 7 1 DLT_CONNECTION_CLIENT_MSG_TCP] by simp
qed

text \<open>
  C24. Closing a connection removes exactly that connection from the list and its descriptor
  from the table, keeps the invariant and frees no memory twice. The descriptor itself is
  closed, except that of a listening socket: the code has replaced it by -1 before it closes
  it, so the socket stays open. An unknown descriptor changes nothing.
\<close>

theorem unregister_removes:
  assumes "event_inv st"
  shows "\<exists>ret st'. dlt_event_handler_unregister_connection st fd = Some (ret, st') \<and> event_inv st'
    \<and> (case dlt_event_handler_find_connection (pEvent st) fd of
         None \<Rightarrow> ret = -1 \<and> st' = st
       | Some c \<Rightarrow> ret = 0 \<and> connections (pEvent st') = filter (\<lambda>d. con_fd d \<noteq> Some fd) (connections (pEvent st))
           \<and> closed st' = closed st @ [if con_type c = DLT_CONNECTION_CLIENT_CONNECT then -1 else fd]
           \<and> client_connections st' = client_connections st - (if is_client (con_type c) then 1 else 0))"
proof (cases "dlt_event_handler_find_connection (pEvent st) fd")
  case None
  with assms show ?thesis by (simp add: dlt_event_handler_unregister_connection_def)
next
  case (Some c)
  then have c: "c \<in> set (connections (pEvent st))" "con_fd c = Some fd"
    by (auto simp: dlt_event_handler_find_connection_def find_Some_iff)
  then obtain xs ys where cs: "connections (pEvent st) = xs @ c # ys" by (auto simp: in_set_conv_decomp)
  have "distinct (map con_fd (connections (pEvent st)))"
    using event_invD(2,3) [OF assms] by (simp add: distinct_map)
  then have "con_fd d \<noteq> Some fd" if "d \<in> set xs \<union> set ys" for d
    using that c(2) cs by (auto simp: rev_image_eqI)
  then have f: "filter (\<lambda>d. con_fd d \<noteq> Some fd) (connections (pEvent st)) = xs @ ys"
    using c(2) cs by (auto intro!: filter_True)
  show ?thesis
    by (rule unregister_spec [OF assms cs c(2)]) (use Some f in auto)
qed

text \<open>\<^verbatim>\<open>sample_clients\<close>: two clients, with the descriptors 7 and 8.\<close>

definition sample_con :: "nat \<Rightarrow> int \<Rightarrow> DltConnectionType \<Rightarrow> DltConnection" where
  "sample_con p fd ty = \<lparr>con_ptr = p, con_id = p, receiver = Some (zero_receiver\<lparr>rcv_fd := fd\<rparr>),
     con_type = ty, con_status = ACTIVE, ev_mask = 1\<rparr>"

definition sample_clients :: event_state where
  "sample_clients = sample_event\<lparr>pEvent := \<lparr>pfd = [init_poll_fd\<lparr>pfd_fd := 7\<rparr>, init_poll_fd\<lparr>pfd_fd := 8\<rparr>],
     nfds = 2, max_nfds = 2, connections = [sample_con 1 7 DLT_CONNECTION_CLIENT_MSG_TCP,
       sample_con 2 8 DLT_CONNECTION_CLIENT_MSG_TCP]\<rparr>, client_connections := 2\<rparr>"

lemma sample_clients_inv: "event_inv sample_clients"
  by (simp add: event_inv_def sample_clients_def sample_event_def sample_con_def table_ok_def
      polled_def heap_ok_def owned_def con_fd_def zero_receiver_def is_client_def)

theorem unregister_removes_witness:
  "\<exists>ret st'. dlt_event_handler_unregister_connection sample_clients 7 = Some (ret, st') \<and> event_inv st'
    \<and> (case dlt_event_handler_find_connection (pEvent sample_clients) 7 of
         None \<Rightarrow> ret = -1 \<and> st' = sample_clients
       | Some c \<Rightarrow> ret = 0
           \<and> connections (pEvent st') = filter (\<lambda>d. con_fd d \<noteq> Some 7) (connections (pEvent sample_clients))
           \<and> closed st' = closed sample_clients @ [if con_type c = DLT_CONNECTION_CLIENT_CONNECT then -1 else 7]
           \<and> client_connections st' = client_connections sample_clients - (if is_client (con_type c) then 1 else 0))"
  by (rule unregister_removes [OF sample_clients_inv])

text \<open>
  C25. The final clean-up ends, closes the descriptor of every connection once and in order,
  and frees exactly the memory the connections own.
\<close>

theorem cleanup_closes_all:
  assumes "event_inv st"
  shows "\<exists>st'. dlt_event_handler_cleanup_connections st = Some st' \<and> connections (pEvent st') = []
    \<and> closed st' = closed st @ polled (pEvent st)
    \<and> (\<forall>x. mem_heap st' x = (if x \<in> set (concat (map owned (connections (pEvent st)))) then None
                              else mem_heap st x))"
proof -
  note I = event_invD [OF assms]
  have some: "con_fd c \<noteq> None" if "c \<in> set (connections (pEvent st))" for c
  proof -
    have "con_fd c \<in> set (map con_fd (connections (pEvent st)))" using that by simp
    then show ?thesis unfolding I(2) by auto
  qed
  have "map (the \<circ> con_fd) (connections (pEvent st)) = map the (map con_fd (connections (pEvent st)))" by simp
  also have "\<dots> = polled (pEvent st)" unfolding I(2) by (simp add: comp_def)
  finally have "map (the \<circ> con_fd) (connections (pEvent st)) = polled (pEvent st)" .
  with cleanup_spec [OF I(5) some I(8)] show ?thesis
    by (auto simp: dlt_event_handler_cleanup_connections_def)
qed

theorem cleanup_closes_all_witness:
  "\<exists>st'. dlt_event_handler_cleanup_connections sample_clients = Some st' \<and> connections (pEvent st') = []
    \<and> closed st' = closed sample_clients @ polled (pEvent sample_clients)
    \<and> (\<forall>x. mem_heap st' x = (if x \<in> set (concat (map owned (connections (pEvent sample_clients)))) then None
                              else mem_heap sample_clients x))"
  by (rule cleanup_closes_all [OF sample_clients_inv])

end
