(* ===== verification/Dlt_Id.thy ===== *)
theory Dlt_Id
  imports Dlt_Prelude
begin

text \<open>
  Identifiers of applications, contexts and control units
  (\<^verbatim>\<open>src/shared/dlt_common.c\<close>): four characters, padded with zeros, in protocol version 1, up
  to 255 characters with a separate length in version 2. A pointer to characters is the list of the
  bytes that may be read there; reading further is undefined and gives \<open>None\<close>.
\<close>

abbreviation (input) DLT_ID_SIZE :: nat where "DLT_ID_SIZE \<equiv> 4"
abbreviation (input) DLT_V2_ID_SIZE :: nat where "DLT_V2_ID_SIZE \<equiv> 255"

text \<open>The bytes of a string literal, without and with the terminating zero.\<close>

definition str :: "string \<Rightarrow> bytes" where
  "str s = map of_char s"

definition cstr :: "string \<Rightarrow> bytes" where
  "cstr s = str s @ [0]"


section \<open>Operations\<close>

fun strnlen_from :: "bytes \<Rightarrow> nat \<Rightarrow> nat \<Rightarrow> nat option" where
  "strnlen_from s i 0 = Some i"
| "strnlen_from s i (Suc k) =
     (if i < length s then if s ! i = 0 then Some i else strnlen_from s (i + 1) k else None)"

definition dlt_strnlen_s :: "bytes \<Rightarrow> nat \<Rightarrow> nat option" where
  "dlt_strnlen_s s maxsize = strnlen_from s 0 maxsize"

definition dlt_print_id :: "bytes \<Rightarrow> bytes \<Rightarrow> bytes option" where
  "dlt_print_id text ident = do {
     text \<leftarrow> memset text 0x2D DLT_ID_SIZE;
     text \<leftarrow> store_at text DLT_ID_SIZE [0];
     n \<leftarrow> dlt_strnlen_s ident DLT_ID_SIZE;
     memcpy text 0 ident 0 (int n)
   }"

definition dlt_print_id_v2 :: "bytes \<Rightarrow> bytes \<Rightarrow> nat \<Rightarrow> bytes option" where
  "dlt_print_id_v2 text ident n =
     (if n = 0 then Some text
      else do {
        text \<leftarrow> memset text 0x2D n;
        text \<leftarrow> store_at text n [0];
        k \<leftarrow> dlt_strnlen_s ident n;
        memcpy text 0 ident 0 (int k)
      })"

text \<open>\<open>set_id_from k i\<close>: the last \<open>k\<close> of the four steps of \<^verbatim>\<open>dlt_set_id\<close>, from index \<open>i\<close>.\<close>

fun set_id_from :: "nat \<Rightarrow> nat \<Rightarrow> bytes \<Rightarrow> bytes \<Rightarrow> bytes option" where
  "set_id_from 0 i ident text = Some ident"
| "set_id_from (Suc k) i ident text =
     (if i < length text then
        if text ! i \<noteq> 0 then set_id_from k (i + 1) (ident[i := text ! i]) text else Some ident
      else None)"

definition dlt_set_id :: "bytes \<Rightarrow> bytes \<Rightarrow> bytes option" where
  "dlt_set_id ident text = do {
     ident \<leftarrow> memset ident 0 DLT_ID_SIZE;
     set_id_from DLT_ID_SIZE 0 ident text
   }"

text \<open>A null pointer as source or destination and length 0 leave the identifier as it is.\<close>

definition dlt_set_id_v2 :: "bytes \<Rightarrow> bytes \<Rightarrow> nat \<Rightarrow> bytes option" where
  "dlt_set_id_v2 ident text n =
     (if n = 0 then Some ident
      else do {
        let n = (if n \<ge> DLT_V2_ID_SIZE then DLT_V2_ID_SIZE else n);
        ident \<leftarrow> memset ident 0 DLT_V2_ID_SIZE;
        k \<leftarrow> dlt_strnlen_s text n;
        if k > 0 then memcpy ident 0 text 0 (int k) else Some ident
      })"

fun dlt_clean_string :: "bytes \<Rightarrow> nat \<Rightarrow> bytes option" where
  "dlt_clean_string text 0 = Some text"
| "dlt_clean_string [] (Suc n) = None"
| "dlt_clean_string (c # text) (Suc n) =
     map_option ((#) (if c = 0x0D \<or> c = 0x0A then 0x20 else c)) (dlt_clean_string text n)"


section \<open>What they compute\<close>

text \<open>The characters before the first zero, at most \<open>n\<close> of them, and whether they can be read.\<close>

definition chars :: "nat \<Rightarrow> bytes \<Rightarrow> bytes" where
  "chars n s = takeWhile (\<lambda>c. c \<noteq> 0) (take n s)"

definition readable :: "nat \<Rightarrow> bytes \<Rightarrow> bool" where
  "readable n s \<longleftrightarrow> n \<le> length s \<or> 0 \<in> set s"

text \<open>An identifier of version 1 as it is stored.\<close>

definition id4 :: "bytes \<Rightarrow> bytes" where
  "id4 s = chars 4 s @ replicate (4 - length (chars 4 s)) 0"

definition is_id :: "bytes \<Rightarrow> bool" where
  "is_id s \<longleftrightarrow> length s = 4 \<and> id4 s = s"

lemma length_chars: "length (chars n s) \<le> n" "length (chars n s) \<le> length s"
  using length_takeWhile_le [of "\<lambda>c. c \<noteq> 0" "take n s"] by (auto simp: chars_def)

lemma length_id4 [simp]: "length (id4 s) = 4"
  using length_chars(1) [of 4 s] by (simp add: id4_def)

lemma chars_take: "take (length (chars n s)) s = chars n s"
proof -
  have "chars n s = take (length (chars n s)) (take n s)"
    unfolding chars_def by (rule takeWhile_eq_take)
  then show ?thesis using length_chars(1) [of n s] by (simp add: min_def split: if_splits)
qed

lemma chars_id4 [simp]: "chars 4 (id4 s) = chars 4 s"
proof -
  have nz: "\<forall>c\<in>set (chars 4 s). c \<noteq> 0" unfolding chars_def by (auto dest: set_takeWhileD)
  have "take 4 (id4 s) = id4 s" by simp
  then show ?thesis using nz unfolding chars_def [of 4 "id4 s"]
    by (simp add: id4_def takeWhile_append2)
qed

lemma id4_id4 [simp]: "id4 (id4 s) = id4 s"
  by (simp only: id4_def [of "id4 s"] chars_id4) (simp only: id4_def)

lemma is_id_id4 [simp]: "is_id (id4 s)"
  by (simp add: is_id_def)

lemma readable_id [simp]: "length s = 4 \<Longrightarrow> readable 4 s"
  by (simp add: readable_def)

text \<open>One character more.\<close>

lemma chars_0 [simp]: "chars 0 s = []"
  by (simp add: chars_def)

lemma chars_Nil [simp]: "chars n [] = []"
  by (simp add: chars_def)

lemma chars_Cons: "chars (Suc n) (c # s) = (if c = 0 then [] else c # chars n s)"
  by (simp add: chars_def)

lemma readable_0 [simp]: "readable 0 s"
  by (simp add: readable_def)

lemma readable_Nil [simp]: "\<not> readable (Suc n) []"
  by (simp add: readable_def)

lemma readable_Cons [simp]: "readable (Suc n) (c # s) \<longleftrightarrow> c = 0 \<or> readable n s"
  by (auto simp: readable_def)

lemma readable_drop: "readable (Suc k) (drop i s) \<Longrightarrow> i < length s"
  by (cases "i < length s") simp_all

lemma strnlen_from_spec:
  "readable k (drop i s) \<Longrightarrow> strnlen_from s i k = Some (i + length (chars k (drop i s)))"
proof (induction k arbitrary: i)
  case (Suc k)
  then have i: "i < length s" using readable_drop by blast
  then have d: "drop i s = s ! i # drop (i + 1) s" by (simp add: Cons_nth_drop_Suc)
  show ?case using Suc i unfolding d by (auto simp: chars_Cons)
qed simp

lemma strnlen_spec: "readable n s \<Longrightarrow> dlt_strnlen_s s n = Some (length (chars n s))"
  using strnlen_from_spec [of n 0 s] by (simp add: dlt_strnlen_s_def)

lemma set_id_from_spec:
  "readable k (drop i s) \<Longrightarrow> i + k \<le> length d \<Longrightarrow>
   set_id_from k i d s
     = Some (take i d @ chars k (drop i s) @ drop (i + length (chars k (drop i s))) d)"
proof (induction k arbitrary: i d)
  case (Suc k)
  then have i: "i < length s" using readable_drop by blast
  then have d: "drop i s = s ! i # drop (i + 1) s" by (simp add: Cons_nth_drop_Suc)
  have "take (Suc i) (d[i := x]) = take i d @ [x]" for x
    using Suc.prems(2) by (simp add: take_Suc_conv_app_nth)
  with Suc i show ?case unfolding d by (auto simp: chars_Cons)
qed simp

lemma set_id_spec:
  assumes "4 \<le> length d" "readable 4 s"
  shows "dlt_set_id d s = Some (id4 s @ drop 4 d)"
  using assms length_chars(1) [of 4 s] set_id_from_spec [of 4 0 s "replicate 4 0 @ drop 4 d"]
  by (simp add: dlt_set_id_def memset_def id4_def)

lemma print_id_spec:
  assumes "5 \<le> length d" "readable 4 s"
  shows "dlt_print_id d s = Some (chars 4 s @ replicate (4 - length (chars 4 s)) 0x2D @ 0 # drop 5 d)"
proof -
  have n: "length (chars 4 s) \<le> 4" "length (chars 4 s) \<le> length s" by (rule length_chars)+
  have "dlt_print_id d s = memcpy (replicate 4 0x2D @ 0 # drop 5 d) 0 s 0 (int (length (chars 4 s)))"
    using assms by (simp add: dlt_print_id_def memset_def store_at_def strnlen_spec)
  also have "\<dots> = Some (chars 4 s @ replicate (4 - length (chars 4 s)) 0x2D @ 0 # drop 5 d)"
    using n assms(1) chars_take [of 4 s] by (simp add: memcpy_def)
  finally show ?thesis .
qed

text \<open>An identifier of version 2 as it is stored.\<close>

definition id255 :: "nat \<Rightarrow> bytes \<Rightarrow> bytes" where
  "id255 n s = chars (min n 255) s @ replicate (255 - length (chars (min n 255) s)) 0"

lemma length_id255 [simp]: "length (id255 n s) = 255"
  using length_chars(1) [of "min n 255" s] by (simp add: id255_def)

lemma set_id_v2_spec:
  assumes "255 \<le> length d" "readable (min n 255) s" "n > 0"
  shows "dlt_set_id_v2 d s n = Some (id255 n s @ drop 255 d)"
proof -
  have m: "(if n \<ge> 255 then 255 else n) = min n 255" by simp
  let ?k = "length (chars (min n 255) s)"
  have k: "?k \<le> 255" "?k \<le> length s" using length_chars [of "min n 255" s] by simp_all
  have "dlt_set_id_v2 d s n = (if ?k > 0 then memcpy (replicate 255 0 @ drop 255 d) 0 s 0 (int ?k)
      else Some (replicate 255 0 @ drop 255 d))"
    using assms unfolding dlt_set_id_v2_def Let_def m by (simp add: memset_def strnlen_spec)
  also have "\<dots> = Some (id255 n s @ drop 255 d)"
    using k assms(1) chars_take [of "min n 255" s] by (auto simp: memcpy_def id255_def)
  finally show ?thesis .
qed

lemma clean_string_spec:
  "n \<le> length s \<Longrightarrow> dlt_clean_string s n
     = Some (map (\<lambda>c. if c = 0x0D \<or> c = 0x0A then 0x20 else c) (take n s) @ drop n s)"
  by (induction s n rule: dlt_clean_string.induct) simp_all

end
