(* ===== verification/Dlt_Message.thy ===== *)
theory Dlt_Message
  imports Dlt_Id
begin

unbundle bit_operations_syntax

text \<open>
  Messages of protocol version 1 (\<^verbatim>\<open>src/shared/dlt_common.c\<close>): how a message is found in a
  buffer of received bytes and taken apart (\<^verbatim>\<open>dlt_message_read\<close>), the optional fields of the
  standard header, the storage header, and how the daemon builds a control message
  (\<^verbatim>\<open>dlt_daemon_client_send_control_message\<close> up to the call that sends it).

  The header pointers of \<open>DltMessage\<close> point into its \<open>headerbuffer\<close>; here they are offsets.
  Numbers in the headers are big endian; the host is little endian. A buffer of received bytes
  is a list, whose length is the length argument of the C function.
\<close>

section \<open>Data\<close>

abbreviation (input) sizeof_DltStorageHeader :: nat where "sizeof_DltStorageHeader \<equiv> 16"
abbreviation (input) sizeof_DltStandardHeader :: nat where "sizeof_DltStandardHeader \<equiv> 4"
abbreviation (input) sizeof_DltStandardHeaderExtra :: nat where "sizeof_DltStandardHeaderExtra \<equiv> 12"
abbreviation (input) sizeof_DltExtendedHeader :: nat where "sizeof_DltExtendedHeader \<equiv> 10"

record DltStandardHeaderExtra =
  ecu :: bytes
  seid :: nat
  tmsp :: nat

record DltMessage =
  found_serialheader :: bool
  resync_offset :: nat
  headersize :: int
  datasize :: int
  headerbuffer :: bytes
  databuffer :: "bytes option"
  databuffersize :: int
  storageheader :: "nat option"
  standardheader :: "nat option"
  headerextra :: DltStandardHeaderExtra
  extendedheader :: "nat option"

definition DLT_MESSAGE_ERROR_OK :: int where "DLT_MESSAGE_ERROR_OK = 0"
definition DLT_MESSAGE_ERROR_UNKNOWN :: int where "DLT_MESSAGE_ERROR_UNKNOWN = -1"
definition DLT_MESSAGE_ERROR_SIZE :: int where "DLT_MESSAGE_ERROR_SIZE = -2"
definition DLT_MESSAGE_ERROR_CONTENT :: int where "DLT_MESSAGE_ERROR_CONTENT = -3"

lemmas message_codes [simp] = DLT_MESSAGE_ERROR_OK_def DLT_MESSAGE_ERROR_UNKNOWN_def
  DLT_MESSAGE_ERROR_SIZE_def DLT_MESSAGE_ERROR_CONTENT_def

definition dltSerialHeader :: bytes where
  "dltSerialHeader = [0x44, 0x4C, 0x53, 1]"

text \<open>The flags of \<^verbatim>\<open>htyp\<close> and the parts of \<^verbatim>\<open>msin\<close>.\<close>

definition DLT_IS_HTYP_UEH :: "byte \<Rightarrow> bool" where "DLT_IS_HTYP_UEH htyp \<longleftrightarrow> htyp AND 0x01 \<noteq> 0"
definition DLT_IS_HTYP_WEID :: "byte \<Rightarrow> bool" where "DLT_IS_HTYP_WEID htyp \<longleftrightarrow> htyp AND 0x04 \<noteq> 0"
definition DLT_IS_HTYP_WSID :: "byte \<Rightarrow> bool" where "DLT_IS_HTYP_WSID htyp \<longleftrightarrow> htyp AND 0x08 \<noteq> 0"
definition DLT_IS_HTYP_WTMS :: "byte \<Rightarrow> bool" where "DLT_IS_HTYP_WTMS htyp \<longleftrightarrow> htyp AND 0x10 \<noteq> 0"

definition DLT_GET_MSIN_MSTP :: "byte \<Rightarrow> nat" where
  "DLT_GET_MSIN_MSTP msin = unat (drop_bit 1 (msin AND 0x0e))"

definition DLT_GET_MSIN_MTIN :: "byte \<Rightarrow> nat" where
  "DLT_GET_MSIN_MTIN msin = unat (drop_bit 4 (msin AND 0xf0))"

definition DLT_STANDARD_HEADER_EXTRA_SIZE :: "byte \<Rightarrow> nat" where
  "DLT_STANDARD_HEADER_EXTRA_SIZE htyp =
     (if DLT_IS_HTYP_WEID htyp then 4 else 0) + (if DLT_IS_HTYP_WSID htyp then 4 else 0)
     + (if DLT_IS_HTYP_WTMS htyp then 4 else 0)"

text \<open>The size of everything behind the standard header.\<close>

definition extra_header_size :: "byte \<Rightarrow> nat" where
  "extra_header_size htyp =
     DLT_STANDARD_HEADER_EXTRA_SIZE htyp + (if DLT_IS_HTYP_UEH htyp then sizeof_DltExtendedHeader else 0)"

text \<open>The type byte of the standard header.\<close>

definition std_htyp :: "DltMessage \<Rightarrow> byte option" where
  "std_htyp msg = do { p \<leftarrow> standardheader msg; byte_at (headerbuffer msg) p }"

text \<open>Reversing the bytes of a 32 bit number, \<^verbatim>\<open>DLT_HTOBE_32\<close>.\<close>

definition swap32 :: "nat \<Rightarrow> nat" where
  "swap32 x = be_val (le_bytes 4 x)"


section \<open>Initialisation and headers\<close>

definition dlt_message_init :: "DltMessage \<Rightarrow> DltReturnValue \<times> DltMessage" where
  "dlt_message_init msg = (DLT_RETURN_OK, msg\<lparr>headersize := 0, datasize := 0, databuffer := None,
     databuffersize := 0, storageheader := None, standardheader := None, extendedheader := None,
     found_serialheader := False\<rparr>)"

definition dlt_message_free :: "DltMessage \<Rightarrow> DltReturnValue \<times> DltMessage" where
  "dlt_message_free msg = (DLT_RETURN_OK,
     case databuffer msg of None \<Rightarrow> msg | Some _ \<Rightarrow> msg\<lparr>databuffer := None, databuffersize := 0\<rparr>)"

text \<open>The offsets of the optional fields.\<close>

definition seid_offset :: "byte \<Rightarrow> nat" where
  "seid_offset h = sizeof_DltStorageHeader + sizeof_DltStandardHeader + (if DLT_IS_HTYP_WEID h then 4 else 0)"

definition tmsp_offset :: "byte \<Rightarrow> nat" where
  "tmsp_offset h = seid_offset h + (if DLT_IS_HTYP_WSID h then 4 else 0)"

definition dlt_message_get_extraparameters :: "DltMessage \<Rightarrow> (DltReturnValue \<times> DltMessage) option" where
  "dlt_message_get_extraparameters msg = do {
     h \<leftarrow> std_htyp msg;
     x \<leftarrow> (if DLT_IS_HTYP_WEID h then do {
             b \<leftarrow> load_at (headerbuffer msg) (sizeof_DltStorageHeader + sizeof_DltStandardHeader) 4;
             Some ((headerextra msg)\<lparr>ecu := b\<rparr>)
           }
           else Some (headerextra msg));
     x \<leftarrow> (if DLT_IS_HTYP_WSID h then do {
             b \<leftarrow> load_at (headerbuffer msg) (seid_offset h) 4;
             Some (x\<lparr>seid := be_val b\<rparr>)
           }
           else Some x);
     x \<leftarrow> (if DLT_IS_HTYP_WTMS h then do {
             b \<leftarrow> load_at (headerbuffer msg) (tmsp_offset h) 4;
             Some (x\<lparr>tmsp := be_val b\<rparr>)
           }
           else Some x);
     Some (DLT_RETURN_OK, msg\<lparr>headerextra := x\<rparr>)
   }"

text \<open>The numbers are swapped in place before they are copied.\<close>

definition dlt_message_set_extraparameters :: "DltMessage \<Rightarrow> (DltReturnValue \<times> DltMessage) option" where
  "dlt_message_set_extraparameters msg = do {
     h \<leftarrow> std_htyp msg;
     let x = headerextra msg;
     b \<leftarrow> (if DLT_IS_HTYP_WEID h
           then store_at (headerbuffer msg) (sizeof_DltStorageHeader + sizeof_DltStandardHeader) (take 4 (ecu x))
           else Some (headerbuffer msg));
     (b, x) \<leftarrow> (if DLT_IS_HTYP_WSID h then do {
                  let x = x\<lparr>seid := swap32 (seid x)\<rparr>;
                  b \<leftarrow> store_at b (seid_offset h) (le_bytes 4 (seid x));
                  Some (b, x)
                }
                else Some (b, x));
     (b, x) \<leftarrow> (if DLT_IS_HTYP_WTMS h then do {
                  let x = x\<lparr>tmsp := swap32 (tmsp x)\<rparr>;
                  b \<leftarrow> store_at b (tmsp_offset h) (le_bytes 4 (tmsp x));
                  Some (b, x)
                }
                else Some (b, x));
     Some (DLT_RETURN_OK, msg\<lparr>headerbuffer := b, headerextra := x\<rparr>)
   }"

text \<open>
  \<open>dlt_set_storageheader\<close> fills the 16 bytes at the beginning of the header buffer; the time is an
  argument. The pattern is \<^verbatim>\<open>DLT\<close> and a 1.
\<close>

definition storage_pattern :: bytes where
  "storage_pattern = [0x44, 0x4C, 0x54, 1]"

definition dlt_set_storageheader ::
  "int \<times> int \<Rightarrow> bytes \<Rightarrow> nat \<Rightarrow> bytes \<Rightarrow> (DltReturnValue \<times> bytes) option" where
  "dlt_set_storageheader tv blk off ecu_id = do {
     blk \<leftarrow> store_at blk off storage_pattern;
     i \<leftarrow> load_at blk (off + 12) 4;
     i \<leftarrow> dlt_set_id i ecu_id;
     blk \<leftarrow> store_at blk (off + 12) i;
     blk \<leftarrow> store_at blk (off + 4) (le_bytes 4 (nat (u32 (fst tv))));
     blk \<leftarrow> store_at blk (off + 8) (le_bytes 4 (nat (u32 (snd tv))));
     Some (DLT_RETURN_OK, blk)
   }"

definition dlt_check_storageheader :: "bytes \<Rightarrow> nat \<Rightarrow> DltReturnValue option" where
  "dlt_check_storageheader blk off = do {
     p \<leftarrow> load_at blk off 4;
     Some (if p = storage_pattern then DLT_RETURN_TRUE else DLT_RETURN_OK)
   }"


section \<open>Reading a message\<close>

text \<open>The loop that looks for the next serial header.\<close>

function resync_scan :: "bytes \<Rightarrow> nat \<Rightarrow> bool \<times> nat" where
  "resync_scan buffer off =
     (if take 4 (drop off buffer) = dltSerialHeader then (True, off)
      else if 4 + (off + 1) \<le> length buffer then resync_scan buffer (off + 1)
      else (False, off + 1))"
  by pat_completeness auto
termination
  by (relation "measure (\<lambda>(b, off). length b - off)") auto

declare resync_scan.simps [simp del]

text \<open>The start of the message, with what is left of the buffer.\<close>

definition read_start :: "DltMessage \<Rightarrow> bytes \<Rightarrow> bool \<Rightarrow> DltMessage \<times> bytes" where
  "read_start msg buffer resync =
     (if take 4 buffer = dltSerialHeader then (msg\<lparr>found_serialheader := True\<rparr>, drop 4 buffer)
      else if resync then
        let (found, off) = resync_scan buffer 0
        in (msg\<lparr>found_serialheader := found, resync_offset := off\<rparr>,
            drop (off + (if found then 4 else 0)) buffer)
      else (msg\<lparr>found_serialheader := False\<rparr>, buffer))"

text \<open>The optional headers.\<close>

definition read_extra :: "DltMessage \<Rightarrow> bytes \<Rightarrow> nat \<Rightarrow> byte \<Rightarrow> DltMessage option" where
  "read_extra msg buffer extra_size h = do {
     d \<leftarrow> load_at buffer sizeof_DltStandardHeader extra_size;
     hb \<leftarrow> store_at (headerbuffer msg) (sizeof_DltStorageHeader + sizeof_DltStandardHeader) d;
     (_, msg) \<leftarrow> dlt_message_get_extraparameters (msg\<lparr>headerbuffer := hb,
        extendedheader := (if DLT_IS_HTYP_UEH h
          then Some (sizeof_DltStorageHeader + sizeof_DltStandardHeader + DLT_STANDARD_HEADER_EXTRA_SIZE h)
          else None)\<rparr>);
     Some msg
   }"

definition read_payload :: "malloc \<Rightarrow> DltMessage \<Rightarrow> bytes \<Rightarrow> (int \<times> DltMessage) option" where
  "read_payload alloc msg buffer =
     (let hs = headersize msg - int sizeof_DltStorageHeader in
      if int (length buffer) < hs + datasize msg then Some (DLT_MESSAGE_ERROR_SIZE, msg)
      else
        let keep = (case databuffer msg of None \<Rightarrow> False | Some _ \<Rightarrow> datasize msg \<le> databuffersize msg);
            msg = (if keep then msg
                   else msg\<lparr>databuffer := alloc (nat (datasize msg)), databuffersize := datasize msg\<rparr>)
        in case databuffer msg of
             None \<Rightarrow> Some (DLT_MESSAGE_ERROR_UNKNOWN, msg)
           | Some d \<Rightarrow> do {
               d \<leftarrow> memcpy d 0 buffer hs (datasize msg);
               Some (DLT_MESSAGE_ERROR_OK, msg\<lparr>databuffer := Some d\<rparr>)
             })"

text \<open>What \<^verbatim>\<open>dlt_message_read\<close> does with the bytes behind the serial header.\<close>

definition read_message :: "malloc \<Rightarrow> DltMessage \<Rightarrow> bytes \<Rightarrow> (int \<times> DltMessage) option" where
  "read_message alloc msg buffer =
     (if length buffer < sizeof_DltStandardHeader then Some (DLT_MESSAGE_ERROR_SIZE, msg)
      else do {
        std \<leftarrow> load_at buffer 0 sizeof_DltStandardHeader;
        hb \<leftarrow> store_at (headerbuffer msg) sizeof_DltStorageHeader std;
        let h = std ! 0;
        let len = be_val (drop 2 std);
        let extra_size = extra_header_size h;
        let hsize = sizeof_DltStorageHeader + sizeof_DltStandardHeader + extra_size;
        let temp_datasize = int len - int hsize + int sizeof_DltStorageHeader;
        let msg = msg\<lparr>headerbuffer := hb, storageheader := Some 0,
          standardheader := Some sizeof_DltStorageHeader, headersize := int hsize,
          datasize := i32 (u32 temp_datasize)\<rparr>;
        if temp_datasize < 0 then Some (DLT_MESSAGE_ERROR_CONTENT, msg)
        else do {
          let msg = msg\<lparr>datasize := temp_datasize\<rparr>;
          if extra_size > 0 then
            (if int (length buffer) < headersize msg - int sizeof_DltStorageHeader
             then Some (DLT_MESSAGE_ERROR_SIZE, msg)
             else do {
               msg \<leftarrow> read_extra msg buffer extra_size h;
               read_payload alloc msg buffer
             })
          else read_payload alloc msg buffer
        }
      })"

definition dlt_message_read :: "malloc \<Rightarrow> DltMessage \<Rightarrow> bytes \<Rightarrow> bool \<Rightarrow> (int \<times> DltMessage) option" where
  "dlt_message_read alloc msg buffer resync =
     (if buffer = [] then Some (DLT_MESSAGE_ERROR_UNKNOWN, msg)
      else
        let msg = msg\<lparr>resync_offset := 0\<rparr> in
        if length buffer < 4 then Some (DLT_MESSAGE_ERROR_SIZE, msg)
        else let (msg, buffer) = read_start msg buffer resync in read_message alloc msg buffer)"


section \<open>The optional fields of the standard header\<close>

text \<open>The fields as they stand one after the other, and how they are taken apart.\<close>

definition extra_bytes :: "byte \<Rightarrow> DltStandardHeaderExtra \<Rightarrow> bytes" where
  "extra_bytes h x =
     (if DLT_IS_HTYP_WEID h then take 4 (ecu x) else []) @
     (if DLT_IS_HTYP_WSID h then be_bytes 4 (seid x) else []) @
     (if DLT_IS_HTYP_WTMS h then be_bytes 4 (tmsp x) else [])"

definition parse_extra :: "byte \<Rightarrow> bytes \<Rightarrow> DltStandardHeaderExtra \<Rightarrow> DltStandardHeaderExtra" where
  "parse_extra h d x =
     \<lparr>ecu = (if DLT_IS_HTYP_WEID h then take 4 d else ecu x),
      seid = (if DLT_IS_HTYP_WSID h then be_val (take 4 (drop (seid_offset h - 20) d)) else seid x),
      tmsp = (if DLT_IS_HTYP_WTMS h then be_val (take 4 (drop (tmsp_offset h - 20) d)) else tmsp x)\<rparr>"

lemmas offsets = seid_offset_def tmsp_offset_def DLT_STANDARD_HEADER_EXTRA_SIZE_def

lemma extra_size_le: "DLT_STANDARD_HEADER_EXTRA_SIZE h \<le> 12"
  by (simp add: DLT_STANDARD_HEADER_EXTRA_SIZE_def)

lemma length_extra_bytes [simp]:
  "4 \<le> length (ecu x) \<Longrightarrow> length (extra_bytes h x) = DLT_STANDARD_HEADER_EXTRA_SIZE h"
  by (simp add: extra_bytes_def DLT_STANDARD_HEADER_EXTRA_SIZE_def)

lemma le_bytes_swap32: "le_bytes 4 (swap32 x) = be_bytes 4 x"
  using be_bytes_val [of "le_bytes 4 x"] le_bytes_val [of "rev (le_bytes 4 x)"]
  by (simp add: swap32_def be_val_def be_bytes_def)

lemma get_extra:
  assumes "standardheader m = Some 16" "length (headerbuffer m) = 42" "headerbuffer m ! 16 = h"
  shows "dlt_message_get_extraparameters m
    = Some (DLT_RETURN_OK, m\<lparr>headerextra := parse_extra h (drop 20 (headerbuffer m)) (headerextra m)\<rparr>)"
proof -
  have "std_htyp m = Some h" using assms by (simp add: std_htyp_def byte_at_def)
  then show ?thesis
    using assms(2) by (cases "headerextra m")
      (simp add: dlt_message_get_extraparameters_def parse_extra_def load_at_def offsets)
qed

definition swapped_extra :: "byte \<Rightarrow> DltStandardHeaderExtra \<Rightarrow> DltStandardHeaderExtra" where
  "swapped_extra h x = \<lparr>ecu = ecu x, seid = (if DLT_IS_HTYP_WSID h then swap32 (seid x) else seid x),
     tmsp = (if DLT_IS_HTYP_WTMS h then swap32 (tmsp x) else tmsp x)\<rparr>"

lemma set_extra:
  assumes "standardheader m = Some 16" "length (headerbuffer m) = 42" "headerbuffer m ! 16 = h"
    "4 \<le> length (ecu (headerextra m))"
  shows "dlt_message_set_extraparameters m = Some (DLT_RETURN_OK,
      m\<lparr>headerbuffer := take 20 (headerbuffer m) @ extra_bytes h (headerextra m)
           @ drop (20 + DLT_STANDARD_HEADER_EXTRA_SIZE h) (headerbuffer m),
        headerextra := swapped_extra h (headerextra m)\<rparr>)"
proof -
  have "std_htyp m = Some h" using assms by (simp add: std_htyp_def byte_at_def)
  then show ?thesis
    using assms(2,4) by (cases "headerextra m")
      (simp add: dlt_message_set_extraparameters_def extra_bytes_def store_at_def offsets le_bytes_swap32
        swapped_extra_def Let_def)
qed

lemma parse_extra_bytes:
  assumes "length (ecu x) = 4" "seid x < 2 ^ 32" "tmsp x < 2 ^ 32"
  shows "parse_extra h (extra_bytes h x @ rest) y =
    \<lparr>ecu = (if DLT_IS_HTYP_WEID h then ecu x else ecu y),
     seid = (if DLT_IS_HTYP_WSID h then seid x else seid y),
     tmsp = (if DLT_IS_HTYP_WTMS h then tmsp x else tmsp y)\<rparr>"
  using assms be_val_bytes_id [of "seid x" 4] be_val_bytes_id [of "tmsp x" 4]
  by (simp add: parse_extra_def extra_bytes_def offsets)

lemma parse_extra_take:
  "DLT_STANDARD_HEADER_EXTRA_SIZE h \<le> n \<Longrightarrow> parse_extra h (take n d) x = parse_extra h d x"
  by (cases "DLT_IS_HTYP_WEID h"; cases "DLT_IS_HTYP_WSID h"; cases "DLT_IS_HTYP_WTMS h")
    (simp_all add: parse_extra_def offsets drop_take min_def)


section \<open>Reading, proofs\<close>

definition msg_ok :: "DltMessage \<Rightarrow> bool" where
  "msg_ok m \<longleftrightarrow> length (headerbuffer m) = 42
     \<and> (\<forall>d. databuffer m = Some d \<longrightarrow> databuffersize m = int (length d))"

text \<open>The size of the headers of a message, and the message as it is sent.\<close>

definition header_len :: "byte \<Rightarrow> nat" where
  "header_len h = 4 + extra_header_size h"

definition msg_payload :: "DltMessage \<Rightarrow> bytes" where
  "msg_payload m = (case databuffer m of None \<Rightarrow> [] | Some d \<Rightarrow> take (nat (datasize m)) d)"

definition msg_headers :: "DltMessage \<Rightarrow> bytes" where
  "msg_headers m = take (nat (headersize m - 16)) (drop 16 (headerbuffer m))"

text \<open>The length a message claims to have.\<close>

definition claimed_len :: "bytes \<Rightarrow> nat" where
  "claimed_len b = be_val (take 2 (drop 2 b))"

lemma header_len_le: "header_len h \<le> 26" "4 \<le> header_len h"
  using extra_size_le [of h] by (simp_all add: header_len_def extra_header_size_def)

lemma scan_step:
  "take 4 (drop off b) \<noteq> dltSerialHeader \<Longrightarrow>
   resync_scan b off = (if off + 5 \<le> length b then resync_scan b (off + 1) else (False, off + 1))"
  by (subst resync_scan.simps) simp

lemma scan_here: "take 4 (drop off b) = dltSerialHeader \<Longrightarrow> resync_scan b off = (True, off)"
  by (subst resync_scan.simps) simp

text \<open>The scan stops at the first serial header; without one, less than a header is left.\<close>

lemma scan_first:
  assumes "take 4 (drop k b) = dltSerialHeader" "off \<le> k" "4 + k \<le> length b"
    "\<And>j. off \<le> j \<Longrightarrow> j < k \<Longrightarrow> take 4 (drop j b) \<noteq> dltSerialHeader"
  shows "resync_scan b off = (True, k)"
  using assms(2,4)
proof (induction "k - off" arbitrary: off)
  case 0
  with assms(1) show ?case by (simp add: scan_here)
next
  case (Suc n)
  then have "take 4 (drop off b) \<noteq> dltSerialHeader" "off + 5 \<le> length b" using assms(3) by auto
  with Suc show ?case by (simp add: scan_step)
qed

lemma scan_none:
  assumes "\<And>j. off \<le> j \<Longrightarrow> j + 4 \<le> length b \<Longrightarrow> take 4 (drop j b) \<noteq> dltSerialHeader" "off + 4 \<le> length b"
  shows "resync_scan b off = (False, length b - 3)"
  using assms
proof (induction "length b - off" arbitrary: off)
  case 0
  then show ?case by simp
next
  case (Suc n)
  then have no: "take 4 (drop off b) \<noteq> dltSerialHeader" by simp
  show ?case
  proof (cases "off + 5 \<le> length b")
    case True
    with Suc have "resync_scan b (off + 1) = (False, length b - 3)" by simp
    with True no show ?thesis by (simp add: scan_step)
  next
    case False
    with Suc.prems(2) no show ?thesis by (simp add: scan_step)
  qed
qed

lemma scan_cases:
  assumes "4 \<le> length b"
  obtains (found) k where "resync_scan b 0 = (True, k)" "4 + k \<le> length b" "take 4 (drop k b) = dltSerialHeader"
      "\<And>j. j < k \<Longrightarrow> take 4 (drop j b) \<noteq> dltSerialHeader"
  | (none) "resync_scan b 0 = (False, length b - 3)"
      "\<And>j. j + 4 \<le> length b \<Longrightarrow> take 4 (drop j b) \<noteq> dltSerialHeader"
proof (cases "\<exists>k. 4 + k \<le> length b \<and> take 4 (drop k b) = dltSerialHeader")
  case True
  define k where "k = (LEAST k. 4 + k \<le> length b \<and> take 4 (drop k b) = dltSerialHeader)"
  have k: "4 + k \<le> length b \<and> take 4 (drop k b) = dltSerialHeader"
    unfolding k_def by (rule LeastI_ex [OF True])
  have "take 4 (drop j b) \<noteq> dltSerialHeader" if "j < k" for j
    using not_less_Least [OF that [unfolded k_def]] that k by auto
  with k show thesis using found [OF scan_first [of k b 0]] by simp
next
  case False
  then have "take 4 (drop j b) \<noteq> dltSerialHeader" if "j + 4 \<le> length b" for j using that by (auto simp: add.commute)
  with assms show thesis using none [OF scan_none [of 0 b]] by simp
qed

lemma read_extra_spec:
  assumes "length (headerbuffer m) = 42" "standardheader m = Some 16" "headerbuffer m ! 16 = h"
    and ex: "ex + 4 = header_len h" and b: "header_len h \<le> length b"
  shows "read_extra m b ex h = Some (m\<lparr>
    headerbuffer := take 20 (headerbuffer m) @ take ex (drop 4 b) @ drop (20 + ex) (headerbuffer m),
    extendedheader := (if DLT_IS_HTYP_UEH h then Some (20 + DLT_STANDARD_HEADER_EXTRA_SIZE h) else None),
    headerextra := parse_extra h (drop 4 b) (headerextra m)\<rparr>)"
proof -
  define hb where "hb = take 20 (headerbuffer m) @ take ex (drop 4 b) @ drop (20 + ex) (headerbuffer m)"
  have ex22: "ex \<le> 22" "DLT_STANDARD_HEADER_EXTRA_SIZE h \<le> ex" "4 + ex \<le> length b"
    using ex b header_len_le(1) [of h] by (simp_all add: header_len_def extra_header_size_def)
  have hb: "length hb = 42" "hb ! 16 = h" "drop 20 hb = take ex (drop 4 b) @ drop (20 + ex) (headerbuffer m)"
    using assms(1,3) ex22 by (simp_all add: hb_def nth_append)
  have "take ex (drop 20 hb) = take ex (drop 4 b)" using hb(3) ex22(3) by simp
  then have "parse_extra h (drop 20 hb) x = parse_extra h (drop 4 b) x" for x
    using parse_extra_take [OF ex22(2), of "drop 20 hb"] parse_extra_take [OF ex22(2), of "drop 4 b"] by simp
  moreover have "store_at (headerbuffer m) 20 (take ex (drop 4 b)) = Some hb"
    using assms(1) ex22 by (simp add: store_at_def hb_def min_absorb2)
  ultimately show ?thesis
    unfolding hb_def [symmetric] read_extra_def using ex22(3) hb(1,2) assms(2)
    by (simp add: load_at_def get_extra [of _ h])
qed

lemma read_payload_spec:
  assumes m: "msg_ok m" "headersize m = 16 + int hl" "datasize m = int n" and alloc: "malloc_ok alloc"
  shows "\<exists>ret m'. read_payload alloc m b = Some (ret, m') \<and> msg_ok m' \<and>
    ret = (if length b < hl + n then DLT_MESSAGE_ERROR_SIZE
           else if (databuffer m = None \<or> databuffersize m < int n) \<and> alloc n = None
           then DLT_MESSAGE_ERROR_UNKNOWN else DLT_MESSAGE_ERROR_OK)
    \<and> m' = m\<lparr>databuffer := databuffer m', databuffersize := databuffersize m'\<rparr>
    \<and> (ret = DLT_MESSAGE_ERROR_OK \<longrightarrow> msg_payload m' = take n (drop hl b))"
proof (cases "length b < hl + n")
  case True
  with m show ?thesis by (simp add: read_payload_def Let_def)
next
  case False
  have cp: "memcpy d 0 b (int hl) (int n) = Some (take n (drop hl b) @ drop n d)" if "n \<le> length d" for d
    using False that by (simp add: memcpy_def)
  show ?thesis
  proof (cases "databuffer m = None \<or> databuffersize m < int n")
    case True
    then have keep: "(case databuffer m of None \<Rightarrow> False | Some _ \<Rightarrow> datasize m \<le> databuffersize m) = False"
      using m(3) by (auto split: option.splits)
    show ?thesis
    proof (cases "alloc n")
      case None
      have "read_payload alloc m b
          = Some (DLT_MESSAGE_ERROR_UNKNOWN, m\<lparr>databuffer := None, databuffersize := int n\<rparr>)"
        unfolding read_payload_def Let_def keep using False m None by simp
      with True None False m(1) show ?thesis by (simp add: msg_ok_def)
    next
      case (Some d)
      then have d: "length d = n" by (rule malloc_length [OF alloc])
      have "read_payload alloc m b = Some (DLT_MESSAGE_ERROR_OK,
          m\<lparr>databuffer := Some (take n (drop hl b) @ drop n d), databuffersize := int n\<rparr>)"
        unfolding read_payload_def Let_def keep using False m Some cp [of d] d by simp
      with Some False m(1,3) d show ?thesis by (simp add: msg_ok_def msg_payload_def)
    qed
  next
    case keep: False
    then obtain d where d: "databuffer m = Some d" "int n \<le> databuffersize m" by auto
    then have dn: "n \<le> length d" using m(1) by (simp add: msg_ok_def)
    have "read_payload alloc m b
        = Some (DLT_MESSAGE_ERROR_OK, m\<lparr>databuffer := Some (take n (drop hl b) @ drop n d)\<rparr>)"
      unfolding read_payload_def Let_def using False m d cp [OF dn] by simp
    with keep d False m(1,3) dn show ?thesis by (simp add: msg_ok_def msg_payload_def)
  qed
qed


text \<open>The result of reading, by the bytes at the start of the message.\<close>

definition read_code :: "malloc \<Rightarrow> DltMessage \<Rightarrow> bytes \<Rightarrow> int" where
  "read_code alloc m b =
     (let hl = header_len (b ! 0); n = claimed_len b - hl in
      if length b < 4 then DLT_MESSAGE_ERROR_SIZE
      else if claimed_len b < hl then DLT_MESSAGE_ERROR_CONTENT
      else if length b < claimed_len b then DLT_MESSAGE_ERROR_SIZE
      else if (databuffer m = None \<or> databuffersize m < int n) \<and> alloc n = None then DLT_MESSAGE_ERROR_UNKNOWN
      else DLT_MESSAGE_ERROR_OK)"

text \<open>What a message that was read holds: headers, payload, and the fields taken from the headers.\<close>

definition holds :: "bytes \<Rightarrow> DltStandardHeaderExtra \<Rightarrow> DltMessage \<Rightarrow> bool" where
  "holds b x m \<longleftrightarrow>
     (let h = b ! 0; hl = header_len h in
      standardheader m = Some 16 \<and> storageheader m = Some 0 \<and> headersize m = int (16 + hl)
      \<and> datasize m = int (claimed_len b - hl) \<and> msg_headers m = take hl b
      \<and> msg_payload m = take (claimed_len b - hl) (drop hl b)
      \<and> headerextra m = parse_extra h (drop 4 b) x
      \<and> (DLT_IS_HTYP_UEH h \<longrightarrow> extendedheader m = Some (20 + DLT_STANDARD_HEADER_EXTRA_SIZE h)))"

text \<open>The state after the headers were read.\<close>

definition with_headers :: "DltMessage \<Rightarrow> bytes \<Rightarrow> DltMessage" where
  "with_headers m b = (let h = b ! 0; hl = header_len h in
     m\<lparr>headerbuffer := take 16 (headerbuffer m) @ take hl b @ drop (16 + hl) (headerbuffer m),
       storageheader := Some 0, standardheader := Some 16, headersize := int (16 + hl),
       datasize := int (claimed_len b - hl),
       extendedheader := (if hl = 4 then extendedheader m
         else if DLT_IS_HTYP_UEH h then Some (20 + DLT_STANDARD_HEADER_EXTRA_SIZE h) else None),
       headerextra := parse_extra h (drop 4 b) (headerextra m)\<rparr>)"

lemma parse_extra_none: "DLT_STANDARD_HEADER_EXTRA_SIZE h = 0 \<Longrightarrow> parse_extra h d x = x"
  by (auto simp: parse_extra_def DLT_STANDARD_HEADER_EXTRA_SIZE_def split: if_splits)

lemma read_message_headers:
  assumes "length (headerbuffer m) = 42" "4 \<le> length b"
    "header_len (b ! 0) \<le> claimed_len b" "header_len (b ! 0) \<le> length b"
  shows "read_message alloc m b = read_payload alloc (with_headers m b) b"
proof -
  define h hl ex where "h = b ! 0" and "hl = header_len h" and "ex = hl - 4"
  have hl: "ex + 4 = hl" "hl \<le> 26" using header_len_le [of h] by (simp_all add: hl_def ex_def)
  have ex: "extra_header_size h = ex"
    by (simp add: ex_def hl_def header_len_def)
  have b4: "take 4 b ! 0 = h" "drop 2 (take 4 b) = take 2 (drop 2 b)" using assms(2) by (simp_all add: h_def drop_take)
  define hb where "hb = take 16 (headerbuffer m) @ take 4 b @ drop 20 (headerbuffer m)"
  have hb: "store_at (headerbuffer m) 16 (take 4 b) = Some hb" "length hb = 42" "hb ! 16 = h"
    "load_at b 0 4 = Some (take 4 b)"
    using assms(1,2) by (simp_all add: store_at_def hb_def h_def nth_append load_at_def)
  let ?m = "m\<lparr>headerbuffer := hb, storageheader := Some 0, standardheader := Some 16,
      headersize := int (16 + hl), datasize := int (claimed_len b - hl)\<rparr>"
  have full: "take 20 hb @ take ex (drop 4 b) @ drop (20 + ex) hb
      = take 16 (headerbuffer m) @ take hl b @ drop (16 + hl) (headerbuffer m)"
    using assms(1,2) take_add [of 4 ex b] hl by (simp add: hb_def add.commute)
  have len: "hl \<le> claimed_len b" "hl \<le> length b" using assms(3,4) by (simp_all add: hl_def h_def)
  have "read_message alloc m b
      = (if ex > 0 then do { m' \<leftarrow> read_extra ?m b ex h; read_payload alloc m' b } else read_payload alloc ?m b)"
    unfolding read_message_def using assms(2) len hb(1,4) hl(1) [symmetric]
    by (simp add: Let_def b4 ex claimed_len_def [symmetric] of_nat_diff algebra_simps)
  also have "\<dots> = read_payload alloc (with_headers m b) b"
  proof (cases "ex > 0")
    case True
    have "hl \<noteq> 4" using True hl(1) by simp
    then have "read_extra ?m b ex h = Some (with_headers m b)"
      using read_extra_spec [of ?m h ex b] hb(2,3) hl(1) len(2) full
      unfolding with_headers_def Let_def h_def [symmetric] hl_def [symmetric] by (cases m) simp
    with True show ?thesis by simp
  next
    case False
    then have "hl = 4" "DLT_STANDARD_HEADER_EXTRA_SIZE h = 0" using hl(1) ex
      by (simp_all add: extra_header_size_def)
    with False show ?thesis
      unfolding with_headers_def Let_def h_def [symmetric] hl_def [symmetric] by (simp add: parse_extra_none hb_def)
  qed
  finally show ?thesis .
qed

lemma with_headers_ok:
  assumes "msg_ok m" "header_len (b ! 0) \<le> length b"
  shows "msg_ok (with_headers m b)"
  using assms header_len_le [of "b ! 0"] by (simp add: msg_ok_def with_headers_def Let_def)

lemma with_headers_headers:
  assumes "msg_ok m" "header_len (b ! 0) \<le> length b"
  shows "msg_headers (with_headers m b) = take (header_len (b ! 0)) b"
  using assms header_len_le [of "b ! 0"] by (simp add: msg_ok_def with_headers_def Let_def msg_headers_def)

lemma read_message_spec:
  assumes "msg_ok m" "malloc_ok alloc"
  shows "\<exists>m'. read_message alloc m b = Some (read_code alloc m b, m') \<and> msg_ok m'
    \<and> found_serialheader m' = found_serialheader m \<and> resync_offset m' = resync_offset m
    \<and> (read_code alloc m b = DLT_MESSAGE_ERROR_OK \<longrightarrow> holds b (headerextra m) m')"
proof (cases "length b < 4")
  case True
  with assms show ?thesis by (simp add: read_message_def read_code_def)
next
  case b4: False
  define h hl where "h = b ! 0" and "hl = header_len h"
  have hb: "length (headerbuffer m) = 42" using assms(1) by (simp add: msg_ok_def)
  have hl26: "4 \<le> hl" "hl \<le> 26" using header_len_le [of h] by (simp_all add: hl_def)
  define f where "f = take 16 (headerbuffer m) @ take 4 b @ drop 20 (headerbuffer m)"
  have pre: "load_at b 0 4 = Some (take 4 b)" "store_at (headerbuffer m) 16 (take 4 b) = Some f"
    "take 4 b ! 0 = h" "drop 2 (take 4 b) = take 2 (drop 2 b)" "length f = 42"
    using b4 hb by (simp_all add: load_at_def store_at_def f_def h_def drop_take)
  have ex: "extra_header_size h = hl - 4" by (simp add: hl_def header_len_def)
  consider "claimed_len b < hl" | "hl \<le> claimed_len b" "length b < hl" | "hl \<le> claimed_len b" "hl \<le> length b"
    by linarith
  then show ?thesis
  proof cases
    case 1
    with b4 pre hl26 assms(1) show ?thesis
      unfolding read_message_def read_code_def Let_def
      by (simp add: ex claimed_len_def [symmetric] h_def [symmetric] hl_def [symmetric] msg_ok_def)
  next
    case 2
    with b4 pre hl26 assms(1) show ?thesis
      unfolding read_message_def read_code_def Let_def
      by (simp add: ex claimed_len_def [symmetric] h_def [symmetric] hl_def [symmetric] msg_ok_def of_nat_diff)
  next
    case 3
    let ?w = "with_headers m b"
    have eq: "read_message alloc m b = read_payload alloc ?w b"
      using read_message_headers [OF hb] b4 3 by (simp add: h_def hl_def)
    have hlb: "header_len (b ! 0) \<le> length b" using 3(2) by (simp add: h_def hl_def)
    have w: "headersize ?w = 16 + int hl" "datasize ?w = int (claimed_len b - hl)"
      by (simp_all add: h_def hl_def with_headers_def Let_def)
    obtain ret m' where r: "read_payload alloc ?w b = Some (ret, m')" "msg_ok m'"
      "ret = (if length b < hl + (claimed_len b - hl) then DLT_MESSAGE_ERROR_SIZE
           else if (databuffer ?w = None \<or> databuffersize ?w < int (claimed_len b - hl)) \<and> alloc (claimed_len b - hl) = None
           then DLT_MESSAGE_ERROR_UNKNOWN else DLT_MESSAGE_ERROR_OK)"
      "m' = ?w\<lparr>databuffer := databuffer m', databuffersize := databuffersize m'\<rparr>"
      "ret = DLT_MESSAGE_ERROR_OK \<Longrightarrow> msg_payload m' = take (claimed_len b - hl) (drop hl b)"
      using read_payload_spec [OF with_headers_ok [OF assms(1) hlb] w assms(2), of b] by blast
    have "databuffer ?w = databuffer m" "databuffersize ?w = databuffersize m" by (simp_all add: with_headers_def Let_def)
    with r(3) b4 3 have ret: "ret = read_code alloc m b"
      by (simp add: read_code_def Let_def h_def [symmetric] hl_def [symmetric])
    have m': "found_serialheader m' = found_serialheader ?w" "resync_offset m' = resync_offset ?w"
      "standardheader m' = standardheader ?w" "storageheader m' = storageheader ?w" "headersize m' = headersize ?w"
      "datasize m' = datasize ?w" "headerbuffer m' = headerbuffer ?w" "headerextra m' = headerextra ?w"
      "extendedheader m' = extendedheader ?w" by (subst r(4), simp)+
    have "holds b (headerextra m) m'" if "ret = DLT_MESSAGE_ERROR_OK"
      using m' r(5) [OF that] with_headers_headers [OF assms(1) hlb] hl26(1) unfolding holds_def Let_def
      by (auto simp: with_headers_def msg_headers_def h_def hl_def Let_def header_len_def extra_header_size_def)
    then show ?thesis using eq r(1,2) ret m'(1,2) by (simp add: with_headers_def Let_def)
  qed
qed


section \<open>Properties\<close>

text \<open>The position of the message in the buffer.\<close>

definition msg_start :: "DltMessage \<Rightarrow> nat" where
  "msg_start m = resync_offset m + (if found_serialheader m then 4 else 0)"

lemma read_start_spec:
  assumes "4 \<le> length b" "msg_ok m"
  shows "\<exists>m'. read_start (m\<lparr>resync_offset := 0\<rparr>) b resync = (m', drop (msg_start m') b) \<and> msg_ok m'
    \<and> headerextra m' = headerextra m \<and> databuffer m' = databuffer m \<and> databuffersize m' = databuffersize m
    \<and> msg_start m' \<le> length b"
proof (cases "take 4 b = dltSerialHeader")
  case True
  with assms show ?thesis by (simp add: read_start_def msg_start_def msg_ok_def)
next
  case no: False
  show ?thesis
  proof (cases resync)
    case True
    from assms(1) show ?thesis
      by (cases rule: scan_cases)
        (use no True assms in \<open>simp_all add: read_start_def msg_start_def msg_ok_def\<close>)
  next
    case False
    with no assms show ?thesis by (simp add: read_start_def msg_start_def msg_ok_def)
  qed
qed

lemma claimed_len_le: "read_code alloc m b = DLT_MESSAGE_ERROR_OK \<Longrightarrow> claimed_len b \<le> length b"
  "read_code alloc m b = DLT_MESSAGE_ERROR_OK \<Longrightarrow> header_len (b ! 0) \<le> claimed_len b"
  by (auto simp: read_code_def Let_def split: if_splits)

lemma holds_bytes:
  assumes "holds b x m" "header_len (b ! 0) \<le> claimed_len b" "claimed_len b \<le> length b"
  shows "msg_headers m @ msg_payload m = take (claimed_len b) b"
proof -
  have "take (claimed_len b) b
      = take (header_len (b ! 0)) b @ take (claimed_len b - header_len (b ! 0)) (drop (header_len (b ! 0)) b)"
    using take_add [of "header_len (b ! 0)" "claimed_len b - header_len (b ! 0)" b] assms(2) by simp
  with assms(1) show ?thesis by (simp add: holds_def Let_def)
qed

lemma message_read_spec:
  assumes "msg_ok m" "malloc_ok alloc"
  shows "\<exists>ret m'. dlt_message_read alloc m b resync = Some (ret, m') \<and> msg_ok m'
    \<and> (ret = DLT_MESSAGE_ERROR_OK \<longrightarrow> holds (drop (msg_start m') b) (headerextra m) m' \<and> msg_start m' \<le> length b
        \<and> header_len (drop (msg_start m') b ! 0) \<le> claimed_len (drop (msg_start m') b)
        \<and> claimed_len (drop (msg_start m') b) \<le> length (drop (msg_start m') b))"
proof -
  consider "b = []" | "b \<noteq> []" "length b < 4" | "4 \<le> length b" by linarith
  then show ?thesis
  proof cases
    case 3
    obtain m1 where m1: "read_start (m\<lparr>resync_offset := 0\<rparr>) b resync = (m1, drop (msg_start m1) b)" "msg_ok m1"
      "msg_start m1 \<le> length b" "headerextra m1 = headerextra m"
      using read_start_spec [OF 3 assms(1), of resync] by blast
    let ?b = "drop (msg_start m1) b"
    obtain m' where m': "read_message alloc m1 ?b = Some (read_code alloc m1 ?b, m')" "msg_ok m'"
      "found_serialheader m' = found_serialheader m1" "resync_offset m' = resync_offset m1"
      "read_code alloc m1 ?b = DLT_MESSAGE_ERROR_OK \<Longrightarrow> holds ?b (headerextra m1) m'"
      using read_message_spec [OF m1(2) assms(2), of ?b] by blast
    have st: "msg_start m' = msg_start m1" using m'(3,4) by (simp add: msg_start_def)
    have "dlt_message_read alloc m b resync = Some (read_code alloc m1 ?b, m')"
      using 3 m1(1) m'(1) by (auto simp: dlt_message_read_def Let_def)
    then show ?thesis using m'(2,5) m1(3,4) claimed_len_le [of alloc m1 ?b] st by auto
  qed (use assms in \<open>simp_all add: dlt_message_read_def msg_ok_def\<close>)
qed

text \<open>
  C7. Whatever bytes arrive, reading a message stays inside the received bytes and the buffers of
  the message, and keeps them well formed. If it succeeds, the message consists of exactly the
  bytes it claims to have, found behind the serial header or at the place where the search for
  a serial header ended.
\<close>

theorem message_read_safe:
  assumes "msg_ok m" "malloc_ok alloc"
  shows "\<exists>ret m'. dlt_message_read alloc m b resync = Some (ret, m') \<and> msg_ok m'
    \<and> (ret = DLT_MESSAGE_ERROR_OK \<longrightarrow>
        msg_start m' + claimed_len (drop (msg_start m') b) \<le> length b
        \<and> msg_headers m' @ msg_payload m' = take (claimed_len (drop (msg_start m') b)) (drop (msg_start m') b))"
  using message_read_spec [OF assms, of b resync] holds_bytes by fastforce

definition empty_message :: DltMessage where
  "empty_message = snd (dlt_message_init \<lparr>found_serialheader = False, resync_offset = 0, headersize = 0,
     datasize = 0, headerbuffer = replicate 42 0, databuffer = None, databuffersize = 0,
     storageheader = None, standardheader = None,
     headerextra = \<lparr>ecu = [0, 0, 0, 0], seid = 0, tmsp = 0\<rparr>, extendedheader = None\<rparr>)"

lemma empty_message_ok: "msg_ok empty_message"
  by (simp add: empty_message_def dlt_message_init_def msg_ok_def)

definition sample_stream :: bytes where
  "sample_stream = [1, 2, 0x44, 0x4C, 0x53, 1, 0x20, 0, 0, 6, 7, 8, 9]"

theorem message_read_safe_witness:
  "\<exists>ret m'. dlt_message_read zero_malloc empty_message sample_stream True = Some (ret, m') \<and> msg_ok m'
    \<and> (ret = DLT_MESSAGE_ERROR_OK \<longrightarrow>
        msg_start m' + claimed_len (drop (msg_start m') sample_stream) \<le> length sample_stream
        \<and> msg_headers m' @ msg_payload m'
          = take (claimed_len (drop (msg_start m') sample_stream)) (drop (msg_start m') sample_stream))"
  by (rule message_read_safe [OF empty_message_ok zero_malloc_ok])

text \<open>A message as it is transmitted.\<close>

definition message_bytes :: "byte \<Rightarrow> byte \<Rightarrow> DltStandardHeaderExtra \<Rightarrow> bytes \<Rightarrow> bytes \<Rightarrow> bytes" where
  "message_bytes h cnt x ext payload =
     [h, cnt] @ be_bytes 2 (header_len h + length payload) @ extra_bytes h x @ ext @ payload"

definition extra_ok :: "DltStandardHeaderExtra \<Rightarrow> bool" where
  "extra_ok x \<longleftrightarrow> length (ecu x) = 4 \<and> seid x < 2 ^ 32 \<and> tmsp x < 2 ^ 32"

definition message_ok :: "byte \<Rightarrow> DltStandardHeaderExtra \<Rightarrow> bytes \<Rightarrow> bytes \<Rightarrow> bool" where
  "message_ok h x ext payload \<longleftrightarrow> extra_ok x \<and> length ext = (if DLT_IS_HTYP_UEH h then 10 else 0)
     \<and> header_len h + length payload < 65536"

lemma message_bytes_fields:
  assumes "message_ok h x ext payload"
    and b_def: "b = message_bytes h cnt x ext payload @ rest"
  shows "b ! 0 = h" "claimed_len b = header_len h + length payload"
    "take (header_len h) b = [h, cnt] @ be_bytes 2 (header_len h + length payload) @ extra_bytes h x @ ext"
    "drop (header_len h) b = payload @ rest" "drop 4 b = extra_bytes h x @ ext @ payload @ rest"
    "header_len h + length payload \<le> length b"
proof -
  define p where "p = [h, cnt] @ be_bytes 2 (header_len h + length payload) @ extra_bytes h x @ ext"
  have p: "length p = header_len h"
    using assms(1) by (simp add: p_def message_ok_def extra_ok_def header_len_def extra_header_size_def)
  have b: "b = p @ payload @ rest" by (simp add: b_def p_def message_bytes_def)
  show "take (header_len h) b = [h, cnt] @ be_bytes 2 (header_len h + length payload) @ extra_bytes h x @ ext"
    "drop (header_len h) b = payload @ rest" "header_len h + length payload \<le> length b"
    using p unfolding b p_def [symmetric] by simp_all
  show "b ! 0 = h" by (simp add: b_def message_bytes_def)
  show "claimed_len b = header_len h + length payload"
    using assms(1) be_val_bytes_id [of "header_len h + length payload" 2]
    by (simp add: b_def message_bytes_def claimed_len_def message_ok_def)
  show "drop 4 b = extra_bytes h x @ ext @ payload @ rest" by (simp add: b_def message_bytes_def)
qed

text \<open>What a reader gets from a transmitted message.\<close>

definition gets :: "byte \<Rightarrow> byte \<Rightarrow> DltStandardHeaderExtra \<Rightarrow> bytes \<Rightarrow> bytes \<Rightarrow> DltStandardHeaderExtra \<Rightarrow> DltMessage \<Rightarrow> bool" where
  "gets h cnt x ext payload y m \<longleftrightarrow> msg_payload m = payload
     \<and> msg_headers m = [h, cnt] @ be_bytes 2 (header_len h + length payload) @ extra_bytes h x @ ext
     \<and> headersize m = int (16 + header_len h) \<and> datasize m = int (length payload)
     \<and> headerextra m = \<lparr>ecu = (if DLT_IS_HTYP_WEID h then ecu x else ecu y),
          seid = (if DLT_IS_HTYP_WSID h then seid x else seid y),
          tmsp = (if DLT_IS_HTYP_WTMS h then tmsp x else tmsp y)\<rparr>
     \<and> (DLT_IS_HTYP_UEH h \<longrightarrow> extendedheader m = Some (20 + DLT_STANDARD_HEADER_EXTRA_SIZE h))"

lemma read_message_gets:
  assumes "msg_ok m" "malloc_ok alloc" "\<And>n. alloc n \<noteq> None" "message_ok h x ext payload"
  shows "\<exists>m'. read_message alloc m (message_bytes h cnt x ext payload @ rest) = Some (DLT_MESSAGE_ERROR_OK, m')
    \<and> msg_ok m' \<and> found_serialheader m' = found_serialheader m \<and> resync_offset m' = resync_offset m
    \<and> gets h cnt x ext payload (headerextra m) m'"
proof -
  let ?b = "message_bytes h cnt x ext payload @ rest"
  note f = message_bytes_fields [OF assms(4) refl, of cnt rest]
  have "4 \<le> length ?b" using f(6) header_len_le(2) [of h] by linarith
  then have ok: "read_code alloc m ?b = DLT_MESSAGE_ERROR_OK"
    using f(1,2,6) assms(3) by (simp add: read_code_def Let_def)
  obtain m' where m': "read_message alloc m ?b = Some (DLT_MESSAGE_ERROR_OK, m')" "msg_ok m'"
    "found_serialheader m' = found_serialheader m" "resync_offset m' = resync_offset m" "holds ?b (headerextra m) m'"
    using read_message_spec [OF assms(1,2), of ?b] ok by auto
  have "gets h cnt x ext payload (headerextra m) m'"
    using m'(5) assms(4) unfolding holds_def Let_def f gets_def message_ok_def extra_ok_def
    by (simp add: parse_extra_bytes)
  with m' show ?thesis by blast
qed

text \<open>
  C5. A message that was sent is read back: behind a serial header, after any bytes that
  contain no serial header (which the search skips), and whatever follows it, the reader finds
  it and gets its headers, its payload and the values of its optional header fields.
\<close>

theorem message_roundtrip:
  assumes "msg_ok m" "malloc_ok alloc" "\<And>n. alloc n \<noteq> None" "message_ok h x ext payload"
    and g: "g = [] \<or> resync" "\<And>j. j < length g \<Longrightarrow> take 4 (drop j (g @ dltSerialHeader)) \<noteq> dltSerialHeader"
  shows "\<exists>m'. dlt_message_read alloc m (g @ dltSerialHeader @ message_bytes h cnt x ext payload @ rest) resync
        = Some (DLT_MESSAGE_ERROR_OK, m')
    \<and> resync_offset m' = length g \<and> found_serialheader m' \<and> gets h cnt x ext payload (headerextra m) m'"
proof -
  let ?t = "message_bytes h cnt x ext payload @ rest"
  let ?b = "g @ dltSerialHeader @ ?t"
  have hdr: "length dltSerialHeader = 4" by (simp add: dltSerialHeader_def)
  have at: "take 4 (drop (length g) ?b) = dltSerialHeader" using hdr by simp
  have before: "take 4 (drop j ?b) \<noteq> dltSerialHeader" if "j < length g" for j
  proof -
    have "4 \<le> length (drop j (g @ dltSerialHeader))" using that hdr by simp
    moreover have "drop j ?b = drop j (g @ dltSerialHeader) @ ?t" using that by simp
    ultimately have "take 4 (drop j ?b) = take 4 (drop j (g @ dltSerialHeader))" by (simp only: take_append) simp
    with g(2) [OF that] show ?thesis by (simp only: not_False_eq_True)
  qed
  have "resync_scan ?b 0 = (True, length g)"
    by (rule scan_first) (use at before hdr in simp_all)
  moreover have "take 4 ?b = dltSerialHeader \<longleftrightarrow> g = []"
    using before [of 0] hdr by (cases g) auto
  ultimately have start: "read_start (m\<lparr>resync_offset := 0\<rparr>) ?b resync
      = (m\<lparr>resync_offset := length g, found_serialheader := True\<rparr>, ?t)"
    using g(1) hdr by (cases m) (auto simp: read_start_def)
  let ?m = "m\<lparr>resync_offset := length g, found_serialheader := True\<rparr>"
  have "msg_ok ?m" using assms(1) by (simp add: msg_ok_def)
  from read_message_gets [OF this assms(2-4), of cnt rest] obtain m' where m':
    "read_message alloc ?m ?t = Some (DLT_MESSAGE_ERROR_OK, m')" "found_serialheader m'" "resync_offset m' = length g"
    "gets h cnt x ext payload (headerextra m) m'" by auto
  moreover have "?b \<noteq> []" "\<not> length ?b < 4" using hdr by auto
  ultimately show ?thesis using start by (simp add: dlt_message_read_def Let_def del: append_assoc)
qed

definition sample_extra :: DltStandardHeaderExtra where
  "sample_extra = \<lparr>ecu = [0x45, 0x43, 0x55, 0x31], seid = 7, tmsp = 123456\<rparr>"

theorem message_roundtrip_witness:
  "\<exists>m'. dlt_message_read zero_malloc empty_message
        ([0x44, 0x4C] @ dltSerialHeader @ message_bytes 0x35 3 sample_extra (replicate 10 1) [5, 6] @ [9]) True
        = Some (DLT_MESSAGE_ERROR_OK, m')
    \<and> resync_offset m' = length [0x44::byte, 0x4C] \<and> found_serialheader m'
    \<and> gets 0x35 3 sample_extra (replicate 10 1) [5, 6] (headerextra empty_message) m'"
proof (rule message_roundtrip [OF empty_message_ok zero_malloc_ok])
  show "message_ok 0x35 sample_extra (replicate 10 1) [5, 6]"
    by (simp add: message_ok_def extra_ok_def sample_extra_def header_len_def extra_header_size_def
        DLT_IS_HTYP_UEH_def DLT_STANDARD_HEADER_EXTRA_SIZE_def)
  show "take 4 (drop j ([0x44, 0x4C] @ dltSerialHeader)) \<noteq> dltSerialHeader" if "j < length [0x44::byte, 0x4C]" for j
    using that by (auto simp: dltSerialHeader_def less_Suc_eq)
qed (simp_all add: zero_malloc_def)

end
