(* ===== verification/Dlt_Send.thy ===== *)
theory Dlt_Send
  imports Dlt_Buffer Dlt_Event Dlt_Message
begin

text \<open>
  How the daemon delivers a message: directly to the clients, or into the ring buffer while
  no client is connected, and from there to the first client that connects
  (\<^verbatim>\<open>dlt_daemon_client_send\<close> and its variant for protocol version 2 in
  \<^verbatim>\<open>src/daemon/dlt_daemon_client.c\<close>, the socket and serial output they use, and
  \<^verbatim>\<open>dlt_daemon_send_ringbuffer_to_client\<close>, \<^verbatim>\<open>dlt_daemon_close_socket\<close> and the state machine in
  \<^verbatim>\<open>src/daemon/dlt-daemon.c\<close> and \<^verbatim>\<open>dlt_daemon_common.c\<close>).

  The system calls \<^verbatim>\<open>send\<close> and \<^verbatim>\<open>write\<close> are functions of the number of calls made so far, the
  descriptor and the data, so they may answer differently every time; \<open>wire\<close> records what they
  accepted. A message that fails to be built, the answer of the log storage and the effect on
  the table of applications are parameters too. Closing a connection sends messages in turn, so
  the functions are recursive; the first argument bounds the depth.
  A null data pointer is the empty list. The model follows the default build, without UDP,
  trace load control and watchdog.
\<close>

section \<open>Data\<close>

datatype DltDaemonState =
    DLT_DAEMON_STATE_INIT
  | DLT_DAEMON_STATE_BUFFER
  | DLT_DAEMON_STATE_BUFFER_FULL
  | DLT_DAEMON_STATE_SEND_BUFFER
  | DLT_DAEMON_STATE_SEND_DIRECT

datatype DltUserLogMode =
    DLT_USER_MODE_UNDEFINED
  | DLT_USER_MODE_OFF
  | DLT_USER_MODE_EXTERNAL
  | DLT_USER_MODE_INTERNAL
  | DLT_USER_MODE_BOTH

datatype protocol = V1 | V2

text \<open>A message as it is handed to the send functions: storage header, header and payload.\<close>

type_synonym parts = "bytes \<times> bytes \<times> bytes"

record net =
  sys_calls :: nat
  wire :: "(int \<times> bytes) list"

record 'u daemon =
  state :: DltDaemonState
  mode :: DltUserLogMode
  overflow_counter :: int
  client_ringbuffer :: DltBuffer
  sendserialheader :: bool
  connectionState :: int
  daemon_version :: nat
  users :: 'u
  offlineTraceDirectory :: bool
  offlineLogstorageMaxDevices :: int
  yvalue :: bool
  ev :: event_state
  sent_message_overflow_cnt :: "protocol \<Rightarrow> int"
  offline_trace :: "parts list"
  logstorage :: "parts list"
  net_state :: net

record 'u send_env =
  sys_send :: "nat \<Rightarrow> int \<Rightarrow> bytes \<Rightarrow> int"
  sys_write :: "nat \<Rightarrow> int \<Rightarrow> bytes \<Rightarrow> int"
  sys_isatty :: "int \<Rightarrow> bool"
  env_malloc :: malloc
  env_pad :: bytes
  env_log_state :: "protocol \<Rightarrow> int \<Rightarrow> 'u \<Rightarrow> 'u"
  env_logstorage :: "nat \<Rightarrow> parts \<Rightarrow> int"
  env_overflow_msg :: "protocol \<Rightarrow> nat \<Rightarrow> int \<Rightarrow> parts option"
  env_info_msg :: "protocol \<Rightarrow> nat \<Rightarrow> parts option"
  env_log_msg :: "protocol \<Rightarrow> nat \<Rightarrow> int \<Rightarrow> int \<Rightarrow> parts option"

definition DLT_DAEMON_ERROR_OK :: int where "DLT_DAEMON_ERROR_OK = 0"
definition DLT_DAEMON_ERROR_UNKNOWN :: int where "DLT_DAEMON_ERROR_UNKNOWN = -1"
definition DLT_DAEMON_ERROR_BUFFER_FULL :: int where "DLT_DAEMON_ERROR_BUFFER_FULL = -2"
definition DLT_DAEMON_ERROR_SEND_FAILED :: int where "DLT_DAEMON_ERROR_SEND_FAILED = -3"
definition DLT_DAEMON_SEND_TO_ALL :: int where "DLT_DAEMON_SEND_TO_ALL = -3"
definition DLT_DAEMON_SEND_FORCE :: int where "DLT_DAEMON_SEND_FORCE = -4"

lemmas daemon_codes [simp] = DLT_DAEMON_ERROR_OK_def DLT_DAEMON_ERROR_UNKNOWN_def
  DLT_DAEMON_ERROR_BUFFER_FULL_def DLT_DAEMON_ERROR_SEND_FAILED_def
  DLT_DAEMON_SEND_TO_ALL_def DLT_DAEMON_SEND_FORCE_def

definition version_of :: "nat \<Rightarrow> protocol option" where
  "version_of n = (if n = 1 then Some V1 else if n = 2 then Some V2 else None)"


section \<open>Output\<close>

definition accepted :: "net \<Rightarrow> int \<Rightarrow> bytes \<Rightarrow> net" where
  "accepted w fd d = w\<lparr>sys_calls := sys_calls w + 1, wire := wire w @ [(fd, d)]\<rparr>"

definition refused :: "net \<Rightarrow> net" where
  "refused w = w\<lparr>sys_calls := sys_calls w + 1\<rparr>"

text \<open>The loop of \<^verbatim>\<open>dlt_daemon_socket_sendreliable\<close> does not end if \<^verbatim>\<open>send\<close> keeps returning 0.\<close>

partial_function (option) send_loop ::
  "'u send_env \<Rightarrow> int \<Rightarrow> bytes \<Rightarrow> int \<Rightarrow> net \<Rightarrow> (int \<times> net) option" where
  "send_loop env sock data data_sent w =
     (if data_sent < int (length data) then
        let rest = drop (nat data_sent) data;
            ret = sys_send env (sys_calls w) sock rest
        in if ret < 0 then Some (DLT_DAEMON_ERROR_SEND_FAILED, refused w)
           else send_loop env sock data (data_sent + ret) (accepted w sock (take (nat ret) rest))
      else Some (DLT_DAEMON_ERROR_OK, w))"

definition dlt_daemon_socket_sendreliable ::
  "'u send_env \<Rightarrow> int \<Rightarrow> bytes \<Rightarrow> net \<Rightarrow> (int \<times> net) option" where
  "dlt_daemon_socket_sendreliable env sock data w = send_loop env sock data 0 w"

text \<open>One \<^verbatim>\<open>write\<close>; a negative result means failure.\<close>

definition write_once :: "'u send_env \<Rightarrow> int \<Rightarrow> bytes \<Rightarrow> net \<Rightarrow> int \<times> net" where
  "write_once env fd d w =
     (let ret = sys_write env (sys_calls w) fd d
      in (ret, if ret < 0 then refused w else accepted w fd (take (nat ret) d)))"

definition dlt_daemon_socket_send ::
  "'u send_env \<Rightarrow> int \<Rightarrow> bytes \<Rightarrow> bytes \<Rightarrow> bool \<Rightarrow> net \<Rightarrow> (int \<times> net) option" where
  "dlt_daemon_socket_send env sock data1 data2 serialheader w = do {
     (ret, w) \<leftarrow> (if serialheader then dlt_daemon_socket_sendreliable env sock dltSerialHeader w
                  else Some (0, w));
     if ret \<noteq> 0 then Some (ret, w)
     else do {
       (ret, w) \<leftarrow> (if data1 \<noteq> [] then dlt_daemon_socket_sendreliable env sock data1 w else Some (ret, w));
       if ret \<noteq> 0 then Some (ret, w)
       else if data2 \<noteq> [] then dlt_daemon_socket_sendreliable env sock data2 w
       else Some (ret, w)
     }
   }"

definition dlt_daemon_serial_send ::
  "'u send_env \<Rightarrow> int \<Rightarrow> bytes \<Rightarrow> bytes \<Rightarrow> bool \<Rightarrow> net \<Rightarrow> int \<times> net" where
  "dlt_daemon_serial_send env sock data1 data2 serialheader w =
     (let (r0, w) = (if serialheader then write_once env sock dltSerialHeader w else (0, w)) in
      if r0 < 0 then (DLT_DAEMON_ERROR_SEND_FAILED, w)
      else
        let (r1, w) = (if data1 \<noteq> [] then write_once env sock data1 w else (0, w)) in
        if r1 < 0 then (DLT_DAEMON_ERROR_SEND_FAILED, w)
        else
          let (r2, w) = (if data2 \<noteq> [] then write_once env sock data2 w else (0, w)) in
          if r2 < 0 then (DLT_DAEMON_ERROR_SEND_FAILED, w) else (DLT_DAEMON_ERROR_OK, w))"

definition dlt_connection_send ::
  "'u send_env \<Rightarrow> DltConnection \<Rightarrow> bytes \<Rightarrow> net \<Rightarrow> (int \<times> net) option" where
  "dlt_connection_send env conn msg w =
     (case receiver conn of
        None \<Rightarrow> Some (DLT_DAEMON_ERROR_UNKNOWN, w)
      | Some r \<Rightarrow>
          if con_type conn = DLT_CONNECTION_CLIENT_MSG_SERIAL then
            (if msg \<noteq> [] \<and> length msg < 2 ^ 63 then
               let (ret, w) = write_once env (rcv_fd r) msg w
               in Some (if ret > 0 then DLT_DAEMON_ERROR_OK else DLT_DAEMON_ERROR_UNKNOWN, w)
             else Some (DLT_DAEMON_ERROR_UNKNOWN, w))
          else if con_type conn = DLT_CONNECTION_CLIENT_MSG_TCP then
            (if length msg \<ge> 2 ^ 31 then Some (DLT_DAEMON_ERROR_UNKNOWN, w)
             else dlt_daemon_socket_sendreliable env (rcv_fd r) msg w)
          else Some (DLT_DAEMON_ERROR_UNKNOWN, w))"

definition dlt_connection_send_multiple ::
  "'u send_env \<Rightarrow> DltConnection \<Rightarrow> bytes \<Rightarrow> bytes \<Rightarrow> bool \<Rightarrow> net \<Rightarrow> (int \<times> net) option" where
  "dlt_connection_send_multiple env con data1 data2 serialheader w = do {
     (ret, w) \<leftarrow> (if serialheader then dlt_connection_send env con dltSerialHeader w else Some (0, w));
     (ret, w) \<leftarrow> (if ret = 0 \<and> data1 \<noteq> [] then dlt_connection_send env con data1 w else Some (ret, w));
     if ret = 0 \<and> data2 \<noteq> [] then dlt_connection_send env con data2 w else Some (ret, w)
   }"


section \<open>Sending a message\<close>

definition dlt_daemon_change_state :: "'u daemon \<Rightarrow> DltDaemonState \<Rightarrow> 'u daemon" where
  "dlt_daemon_change_state s newState = s\<lparr>state := newState\<rparr>"

text \<open>
  The loop over the polled descriptors. Its limit is read again in every round, because closing
  a connection takes an entry out of the table. \<open>close\<close> closes a connection.
\<close>

fun send_all_loop ::
  "(int \<Rightarrow> 'u daemon \<Rightarrow> 'u daemon option) \<Rightarrow> 'u send_env \<Rightarrow> bytes \<Rightarrow> bytes \<Rightarrow> nat \<Rightarrow> nat \<Rightarrow> bool \<Rightarrow>
   'u daemon \<Rightarrow> (bool \<times> 'u daemon) option" where
  "send_all_loop close env data1 data2 0 i sent s =
     (if i < nfds (pEvent (ev s)) then None else Some (sent, s))"
| "send_all_loop close env data1 data2 (Suc k) i sent s =
     (if i < nfds (pEvent (ev s)) then
        if length (pfd (pEvent (ev s))) \<le> i then None
        else
          (case dlt_event_handler_find_connection (pEvent (ev s)) (pfd_fd (pfd (pEvent (ev s)) ! i)) of
             None \<Rightarrow> send_all_loop close env data1 data2 k (i + 1) sent s
           | Some c \<Rightarrow>
               (case receiver c of
                  None \<Rightarrow> send_all_loop close env data1 data2 k (i + 1) sent s
                | Some r \<Rightarrow>
                    if \<not> is_client (con_type c)
                    then send_all_loop close env data1 data2 k (i + 1) sent s
                    else do {
                      (ret, w) \<leftarrow> dlt_connection_send_multiple env c data1 data2 (sendserialheader s)
                                    (net_state s);
                      s \<leftarrow> (let s = s\<lparr>net_state := w\<rparr> in
                            if ret \<noteq> 0 \<and> con_type c = DLT_CONNECTION_CLIENT_MSG_TCP
                            then close (rcv_fd r) s else Some s);
                      send_all_loop close env data1 data2 k (i + 1) (if ret \<noteq> 0 then sent else True) s
                    }))
      else Some (sent, s))"

definition dlt_daemon_client_send_all_multiple ::
  "(int \<Rightarrow> 'u daemon \<Rightarrow> 'u daemon option) \<Rightarrow> 'u send_env \<Rightarrow> bytes \<Rightarrow> bytes \<Rightarrow>
   'u daemon \<Rightarrow> (bool \<times> 'u daemon) option" where
  "dlt_daemon_client_send_all_multiple close env data1 data2 s =
     send_all_loop close env data1 data2 (nfds (pEvent (ev s))) 0 False s"

type_synonym 'u sender = "protocol \<Rightarrow> parts \<Rightarrow> 'u daemon \<Rightarrow> (int \<times> 'u daemon) option"

text \<open>Sending a message that may have failed to be built, to all clients.\<close>

definition send_built :: "'u sender \<Rightarrow> protocol \<Rightarrow> parts option \<Rightarrow> 'u daemon \<Rightarrow> (int \<times> 'u daemon) option" where
  "send_built send v m s =
     (case m of None \<Rightarrow> Some (DLT_DAEMON_ERROR_UNKNOWN, s) | Some p \<Rightarrow> send v p s)"

text \<open>What closing the last client does to the daemon.\<close>

definition last_client_left :: "'u send_env \<Rightarrow> protocol \<Rightarrow> 'u daemon \<Rightarrow> 'u daemon" where
  "last_client_left env v s =
     (if client_connections (ev s) = 0 then
        let s = s\<lparr>connectionState := 0, users := env_log_state env v 0 (users s)\<rparr>
        in if \<not> yvalue s then dlt_daemon_change_state s DLT_DAEMON_STATE_BUFFER else s
      else s)"

definition dlt_daemon_close_socket ::
  "'u sender \<Rightarrow> 'u send_env \<Rightarrow> int \<Rightarrow> 'u daemon \<Rightarrow> (int \<times> 'u daemon) option" where
  "dlt_daemon_close_socket send env sock s = do {
     (_, e) \<leftarrow> dlt_event_handler_unregister_connection (ev s) sock;
     let s = s\<lparr>ev := e\<rparr>;
     (case version_of (daemon_version s) of
        None \<Rightarrow> Some (-1, if client_connections (ev s) = 0 then s\<lparr>connectionState := 0\<rparr> else s)
      | Some v \<Rightarrow> do {
          let s = last_client_left env v s;
          (_, s) \<leftarrow> send_built send v (env_info_msg env v (sys_calls (net_state s))) s;
          (_, s) \<leftarrow> send_built send v (env_log_msg env v (sys_calls (net_state s)) sock
                        (client_connections (ev s))) s;
          Some (0, s)
        })
   }"

definition dlt_daemon_send_message_overflow ::
  "'u sender \<Rightarrow> 'u send_env \<Rightarrow> protocol \<Rightarrow> 'u daemon \<Rightarrow> (int \<times> 'u daemon) option" where
  "dlt_daemon_send_message_overflow send env v s =
     send_built send v (env_overflow_msg env v (sys_calls (net_state s)) (overflow_counter s)) s"

text \<open>Writing to the offline trace and the log storage.\<close>

definition store_offline :: "'u send_env \<Rightarrow> parts \<Rightarrow> 'u daemon \<Rightarrow> int \<times> 'u daemon" where
  "store_offline env p s =
     (let s = (if (mode s = DLT_USER_MODE_INTERNAL \<or> mode s = DLT_USER_MODE_BOTH) \<and> offlineTraceDirectory s
               then s\<lparr>offline_trace := offline_trace s @ [p]\<rparr> else s)
      in if offlineLogstorageMaxDevices s > 0
         then (env_logstorage env (length (logstorage s)) p, s\<lparr>logstorage := logstorage s @ [p]\<rparr>)
         else (0, s))"

text \<open>The last part of \<^verbatim>\<open>dlt_daemon_client_send\<close>: the ring buffer and the overflow report.\<close>

definition buffer_message :: "'u send_env \<Rightarrow> bytes \<Rightarrow> bytes \<Rightarrow> 'u daemon \<Rightarrow> (int \<times> 'u daemon) option" where
  "buffer_message env data1 data2 s = do {
     s \<leftarrow> (if state s \<noteq> DLT_DAEMON_STATE_BUFFER_FULL then do {
             (ret, b) \<leftarrow> dlt_buffer_push3 (env_malloc env) (env_pad env) (client_ringbuffer s) data1 data2 [];
             let s = s\<lparr>client_ringbuffer := b\<rparr>;
             Some (if ret_int ret < 0 then dlt_daemon_change_state s DLT_DAEMON_STATE_BUFFER_FULL else s)
           }
           else Some s);
     if state s = DLT_DAEMON_STATE_BUFFER_FULL
     then Some (DLT_DAEMON_ERROR_BUFFER_FULL, s\<lparr>overflow_counter := u32 (overflow_counter s + 1)\<rparr>)
     else Some (DLT_DAEMON_ERROR_OK, s)
   }"

definition add_cnt :: "protocol \<Rightarrow> int \<Rightarrow> 'u daemon \<Rightarrow> 'u daemon" where
  "add_cnt v k s = s\<lparr>sent_message_overflow_cnt :=
     (sent_message_overflow_cnt s)(v := sent_message_overflow_cnt s v + k)\<rparr>"

definition report_overflow ::
  "'u sender \<Rightarrow> 'u send_env \<Rightarrow> protocol \<Rightarrow> 'u daemon \<Rightarrow> (int \<times> 'u daemon) option" where
  "report_overflow send env v s =
     (if overflow_counter s > 0 \<and> client_connections (ev s) > 0 then
        let s = add_cnt v 1 s in
        if sent_message_overflow_cnt s v \<ge> 2 then Some (DLT_DAEMON_ERROR_OK, add_cnt v (-1) s)
        else do {
          (ret, s) \<leftarrow> dlt_daemon_send_message_overflow send env v s;
          Some (DLT_DAEMON_ERROR_OK,
            if ret = DLT_DAEMON_ERROR_OK then add_cnt v (-1) (s\<lparr>overflow_counter := 0\<rparr>) else s)
        }
      else Some (DLT_DAEMON_ERROR_OK, s))"

definition send_external :: "(int \<Rightarrow> 'u daemon \<Rightarrow> 'u daemon option) \<Rightarrow> 'u send_env \<Rightarrow> int \<Rightarrow> int \<Rightarrow>
  bytes \<Rightarrow> bytes \<Rightarrow> 'u daemon \<Rightarrow> (bool \<times> 'u daemon) option" where
  "send_external close env sock ret_logstorage data1 data2 s =
     (if (mode s = DLT_USER_MODE_EXTERNAL \<or> mode s = DLT_USER_MODE_BOTH)
         \<and> (sock = DLT_DAEMON_SEND_FORCE \<or> state s = DLT_DAEMON_STATE_SEND_DIRECT) \<and> ret_logstorage \<noteq> 1
      then do {
        (sent, s) \<leftarrow> dlt_daemon_client_send_all_multiple close env data1 data2 s;
        Some (sock = DLT_DAEMON_SEND_FORCE \<and> \<not> sent, s)
      }
      else Some (False, s))"

primrec client_send ::
  "nat \<Rightarrow> 'u send_env \<Rightarrow> protocol \<Rightarrow> int \<Rightarrow> parts \<Rightarrow> 'u daemon \<Rightarrow> (int \<times> 'u daemon) option" where
  "client_send 0 env v sock p s = None"
| "client_send (Suc n) env v sock p s =
     (let (storage_header, data1, data2) = p;
          send = (\<lambda>v. client_send n env v DLT_DAEMON_SEND_TO_ALL);
          close = (\<lambda>fd s. map_option snd (dlt_daemon_close_socket send env fd s))
      in if sock \<noteq> DLT_DAEMON_SEND_TO_ALL \<and> sock \<noteq> DLT_DAEMON_SEND_FORCE then do {
           (ret, w) \<leftarrow> (if sys_isatty env sock
                        then Some (dlt_daemon_serial_send env sock data1 data2 (sendserialheader s) (net_state s))
                        else dlt_daemon_socket_send env sock data1 data2 (sendserialheader s) (net_state s));
           Some (ret, s\<lparr>net_state := w\<rparr>)
         }
         else do {
           let (ret_logstorage, s) =
             (if sock \<noteq> DLT_DAEMON_SEND_FORCE \<and> state s \<noteq> DLT_DAEMON_STATE_SEND_BUFFER
              then store_offline env p s else (0, s));
           (failed, s) \<leftarrow> send_external close env sock ret_logstorage data1 data2 s;
           if failed then Some (DLT_DAEMON_ERROR_SEND_FAILED, s)
           else if sock \<noteq> DLT_DAEMON_SEND_FORCE
                   \<and> (state s = DLT_DAEMON_STATE_BUFFER \<or> state s = DLT_DAEMON_STATE_SEND_BUFFER
                      \<or> state s = DLT_DAEMON_STATE_BUFFER_FULL)
           then buffer_message env data1 data2 s
           else report_overflow send env v s
         })"

definition dlt_daemon_client_send ::
  "nat \<Rightarrow> 'u send_env \<Rightarrow> int \<Rightarrow> parts \<Rightarrow> 'u daemon \<Rightarrow> (int \<times> 'u daemon) option" where
  "dlt_daemon_client_send n env sock p s = client_send n env V1 sock p s"

definition dlt_daemon_client_send_v2 ::
  "nat \<Rightarrow> 'u send_env \<Rightarrow> int \<Rightarrow> parts \<Rightarrow> 'u daemon \<Rightarrow> (int \<times> 'u daemon) option" where
  "dlt_daemon_client_send_v2 n env sock p s = client_send n env V2 sock p s"

text \<open>
  Sending the ring buffer. \<open>data\<close> is the static array the messages are copied to; the first
  argument bounds the number of rounds, the second the depth of the sends.
\<close>

fun flush_loop :: "nat \<Rightarrow> nat \<Rightarrow> 'u send_env \<Rightarrow> protocol \<Rightarrow> bytes \<Rightarrow> 'u daemon \<Rightarrow> (int \<times> 'u daemon) option" where
  "flush_loop 0 n env v data s = None"
| "flush_loop (Suc k) n env v data s = do {
     (len, d, b) \<leftarrow> dlt_buffer_copy (env_malloc env) (client_ringbuffer s) (Some data) (int (length data));
     let s = s\<lparr>client_ringbuffer := b\<rparr>;
     data \<leftarrow> d;
     if \<not> len > 0 then Some (DLT_DAEMON_ERROR_OK, s)
     else do {
       (ret, s) \<leftarrow> client_send n env v DLT_DAEMON_SEND_FORCE ([], take (nat len) data, []) s;
       if ret \<noteq> 0 then Some (ret, s)
       else do {
         (_, _, b) \<leftarrow> dlt_buffer_remove (env_malloc env) (client_ringbuffer s);
         let s = s\<lparr>client_ringbuffer := b\<rparr>;
         let s = (if state s \<noteq> DLT_DAEMON_STATE_SEND_BUFFER
                  then dlt_daemon_change_state s DLT_DAEMON_STATE_SEND_BUFFER else s);
         if dlt_buffer_get_message_count (client_ringbuffer s) \<le> 0
         then Some (DLT_DAEMON_ERROR_OK, dlt_daemon_change_state s DLT_DAEMON_STATE_SEND_DIRECT)
         else flush_loop k n env v data s
       }
     }
   }"

definition dlt_daemon_send_ringbuffer_to_client ::
  "nat \<Rightarrow> nat \<Rightarrow> 'u send_env \<Rightarrow> protocol \<Rightarrow> bytes \<Rightarrow> 'u daemon \<Rightarrow> (int \<times> 'u daemon) option" where
  "dlt_daemon_send_ringbuffer_to_client k n env v data s =
     (if dlt_buffer_get_message_count (client_ringbuffer s) \<le> 0
      then Some (DLT_DAEMON_ERROR_OK, dlt_daemon_change_state s DLT_DAEMON_STATE_SEND_DIRECT)
      else flush_loop k n env v data s)"


section \<open>What arrives\<close>

definition received :: "net \<Rightarrow> int \<Rightarrow> bytes" where
  "received w fd = concat (map snd (filter (\<lambda>x. fst x = fd) (wire w)))"

text \<open>\<open>delivers w w' fd bs\<close>: between \<open>w\<close> and \<open>w'\<close> exactly \<open>bs\<close> arrived, at \<open>fd\<close>.\<close>

definition delivers :: "net \<Rightarrow> net \<Rightarrow> int \<Rightarrow> bytes \<Rightarrow> bool" where
  "delivers w w' fd bs \<longleftrightarrow> (\<forall>f. received w' f = received w f @ (if f = fd then bs else []))"

lemma delivers_refl [simp]: "delivers w w fd []"
  by (simp add: delivers_def)

lemma delivers_trans: "delivers w w1 fd xs \<Longrightarrow> delivers w1 w2 fd ys \<Longrightarrow> delivers w w2 fd (xs @ ys)"
  by (auto simp: delivers_def)

lemma delivers_accepted: "delivers w (accepted w fd d) fd d"
  by (simp add: delivers_def received_def accepted_def)

lemma delivers_refused: "delivers w (refused w) fd []"
  by (simp add: delivers_def received_def refused_def)

text \<open>
  What the documentation of \<^verbatim>\<open>send\<close> on a blocking socket promises: an error, or a positive
  number of bytes, at most those given.
\<close>

definition net_ok :: "'u send_env \<Rightarrow> bool" where
  "net_ok env \<longleftrightarrow> (\<forall>n fd d. d \<noteq> [] \<longrightarrow>
     sys_send env n fd d < 0 \<or> 0 < sys_send env n fd d \<and> sys_send env n fd d \<le> int (length d))"

lemma send_loop_spec:
  assumes "net_ok env" "k \<le> length data"
  shows "\<exists>ret w' m. send_loop env fd data (int k) w = Some (ret, w') \<and> m \<le> length data - k
    \<and> delivers w w' fd (take m (drop k data)) \<and> (ret = 0 \<and> m = length data - k
       \<or> ret = DLT_DAEMON_ERROR_SEND_FAILED \<and> (\<exists>n d. d \<noteq> [] \<and> sys_send env n fd d < 0))"
  using assms(2)
proof (induction "length data - k" arbitrary: k w rule: less_induct)
  case less
  show ?case
  proof (cases "k < length data")
    case False
    then have "send_loop env fd data (int k) w = Some (0, w)" using less.prems
      by (subst send_loop.simps) simp
    with False less.prems show ?thesis
      by (intro exI [of _ "0::int"] exI [of _ w] exI [of _ "0::nat"]) simp
  next
    case True
    let ?rest = "drop k data" and ?r = "sys_send env (sys_calls w) fd (drop k data)"
    have ne: "?rest \<noteq> []" using True by simp
    show ?thesis
    proof (cases "?r < 0")
      case neg: True
      have "send_loop env fd data (int k) w = Some (DLT_DAEMON_ERROR_SEND_FAILED, refused w)"
        using neg True by (subst send_loop.simps) (simp add: Let_def)
      moreover have "\<exists>n d. d \<noteq> [] \<and> sys_send env n fd d < 0" using neg ne by blast
      ultimately show ?thesis using delivers_refused
        by (intro exI [of _ DLT_DAEMON_ERROR_SEND_FAILED] exI [of _ "refused w"] exI [of _ 0]) simp
    next
      case pos: False
      obtain r where r: "?r = int r" "0 < r" "r \<le> length data - k"
      proof -
        have "sys_send env (sys_calls w) fd ?rest < 0
            \<or> 0 < sys_send env (sys_calls w) fd ?rest \<and> sys_send env (sys_calls w) fd ?rest \<le> int (length ?rest)"
          using assms(1) ne unfolding net_ok_def by blast
        with pos have "?r = int (nat ?r)" "0 < nat ?r" "nat ?r \<le> length data - k" by auto
        then show thesis by (rule that)
      qed
      let ?w = "accepted w fd (take r ?rest)"
      have eq: "send_loop env fd data (int k) w = send_loop env fd data (int (k + r)) ?w"
        using r True by (subst send_loop.simps) (simp add: Let_def)
      have "length data - (k + r) < length data - k" "k + r \<le> length data" using r True by simp_all
      from less.hyps [OF this, of ?w] obtain ret w' m where ih:
        "send_loop env fd data (int (k + r)) ?w = Some (ret, w')" "m \<le> length data - (k + r)"
        "delivers ?w w' fd (take m (drop (k + r) data))"
        "ret = 0 \<and> m = length data - (k + r)
         \<or> ret = DLT_DAEMON_ERROR_SEND_FAILED \<and> (\<exists>n d. d \<noteq> [] \<and> sys_send env n fd d < 0)" by blast
      have "take (r + m) ?rest = take r ?rest @ take m (drop (k + r) data)"
        unfolding take_add drop_drop by (simp only: add.commute [of r k])
      with delivers_trans [OF delivers_accepted ih(3)]
      have "delivers w w' fd (take (r + m) ?rest)" by simp
      moreover have "send_loop env fd data (int k) w = Some (ret, w')" using eq ih(1) by simp
      moreover have "r + m \<le> length data - k" "m = length data - (k + r) \<Longrightarrow> r + m = length data - k"
        using ih(2) r(3) by linarith+
      ultimately show ?thesis using ih(4)
        by (intro exI [of _ ret] exI [of _ w'] exI [of _ "r + m"]) blast
    qed
  qed
qed

lemma sendreliable_spec:
  assumes "net_ok env"
  obtains (sent) w' where "dlt_daemon_socket_sendreliable env fd data w = Some (0, w')" "delivers w w' fd data"
    | (failed) w' m where "dlt_daemon_socket_sendreliable env fd data w = Some (DLT_DAEMON_ERROR_SEND_FAILED, w')"
      "delivers w w' fd (take m data)" "\<exists>n d. d \<noteq> [] \<and> sys_send env n fd d < 0"
proof -
  from send_loop_spec [OF assms, of 0 data fd w] obtain ret w' m where
    1: "send_loop env fd data (int 0) w = Some (ret, w')" "delivers w w' fd (take m (drop 0 data))"
    "ret = 0 \<and> m = length data - 0 \<or> ret = DLT_DAEMON_ERROR_SEND_FAILED
       \<and> (\<exists>n d. d \<noteq> [] \<and> sys_send env n fd d < 0)"
    by blast
  from 1(3) show thesis
  proof (elim disjE conjE)
    assume "ret = 0" "m = length data - 0"
    with 1(1,2) show thesis by (intro sent [of w']) (simp_all add: dlt_daemon_socket_sendreliable_def)
  next
    assume "ret = DLT_DAEMON_ERROR_SEND_FAILED" "\<exists>n d. d \<noteq> [] \<and> sys_send env n fd d < 0"
    with 1(1,2) show thesis
      by (intro failed [of w' m]) (simp_all add: dlt_daemon_socket_sendreliable_def)
  qed
qed

lemma connection_send_total:
  assumes "net_ok env"
  shows "\<exists>ret w'. dlt_connection_send env c msg w = Some (ret, w')"
proof -
  have "\<exists>ret w'. dlt_daemon_socket_sendreliable env fd msg w = Some (ret, w')" for fd
    by (rule sendreliable_spec [OF assms, of fd msg w]) auto
  then show ?thesis
    by (auto simp: dlt_connection_send_def Let_def split: option.splits prod.splits)
qed

lemma send_multiple_total:
  assumes "net_ok env"
  shows "\<exists>ret w'. dlt_connection_send_multiple env c data1 data2 h w = Some (ret, w')"
proof -
  have t: "\<exists>x. (if b then dlt_connection_send env c d w else Some (ret, w)) = Some x" for b d w and ret :: int
    using connection_send_total [OF assms, of c d w] by auto
  from t [of h dltSerialHeader w 0] obtain r1 w1 where
    1: "(if h then dlt_connection_send env c dltSerialHeader w else Some (0, w)) = Some (r1, w1)" by auto
  from t [of "r1 = 0 \<and> data1 \<noteq> []" data1 w1 r1] obtain r2 w2 where
    2: "(if r1 = 0 \<and> data1 \<noteq> [] then dlt_connection_send env c data1 w1 else Some (r1, w1)) = Some (r2, w2)"
    by auto
  from t [of "r2 = 0 \<and> data2 \<noteq> []" data2 w2 r2] show ?thesis
    unfolding dlt_connection_send_multiple_def 1 by (simp add: 2)
qed

lemma socket_send_total:
  assumes "net_ok env"
  shows "\<exists>ret w'. dlt_daemon_socket_send env fd data1 data2 h w = Some (ret, w')"
proof -
  have t: "\<exists>x. (if b then dlt_daemon_socket_sendreliable env fd d w else Some (ret, w)) = Some x"
    for b d w and ret :: int
    by (rule sendreliable_spec [OF assms, of fd d w]) auto
  from t [of h dltSerialHeader w 0] obtain r1 w1 where
    1: "(if h then dlt_daemon_socket_sendreliable env fd dltSerialHeader w else Some (0, w)) = Some (r1, w1)"
    by auto
  from t [of "data1 \<noteq> []" data1 w1 r1] obtain r2 w2 where
    2: "(if data1 \<noteq> [] then dlt_daemon_socket_sendreliable env fd data1 w1 else Some (r1, w1)) = Some (r2, w2)"
    by auto
  from t [of "data2 \<noteq> []" data2 w2 r2] show ?thesis
    unfolding dlt_daemon_socket_send_def 1 by (auto simp: 2)
qed



section \<open>Every send returns\<close>

definition conns :: "'u daemon \<Rightarrow> nat" where
  "conns s = length (connections (pEvent (ev s)))"

definition daemon_ok :: "nat \<Rightarrow> 'u daemon \<Rightarrow> bool" where
  "daemon_ok mn s \<longleftrightarrow> event_inv (ev s) \<and> buffer_ok (client_ringbuffer s)
     \<and> min_size (client_ringbuffer s) = mn \<and> (\<forall>v. sent_message_overflow_cnt s v \<in> {0, 1})"

text \<open>A message that fits the smallest size of the ring buffer.\<close>

definition parts_fit :: "nat \<Rightarrow> parts \<Rightarrow> bool" where
  "parts_fit mn p \<longleftrightarrow> (case p of (hdr, data1, data2) \<Rightarrow> 24 + length data1 + length data2 \<le> mn)"

definition env_good :: "nat \<Rightarrow> 'u send_env \<Rightarrow> bool" where
  "env_good mn env \<longleftrightarrow> net_ok env \<and> malloc_ok (env_malloc env) \<and> length (env_pad env) = 3
     \<and> (\<forall>v n k p. env_overflow_msg env v n k = Some p \<longrightarrow> parts_fit mn p)
     \<and> (\<forall>v n p. env_info_msg env v n = Some p \<longrightarrow> parts_fit mn p)
     \<and> (\<forall>v n a b p. env_log_msg env v n a b = Some p \<longrightarrow> parts_fit mn p)"

text \<open>
  What a send may do to the state: connections are only closed, and an overflow report that
  is under way stays so.
\<close>

definition progress :: "nat \<Rightarrow> 'u daemon \<Rightarrow> 'u daemon \<Rightarrow> bool" where
  "progress mn s s' \<longleftrightarrow> daemon_ok mn s' \<and> conns s' \<le> conns s
     \<and> (\<forall>v. sent_message_overflow_cnt s v = 1 \<longrightarrow> sent_message_overflow_cnt s' v = 1)"

lemma progress_refl: "daemon_ok mn s \<Longrightarrow> progress mn s s"
  by (simp add: progress_def)

lemma progress_trans: "progress mn s s1 \<Longrightarrow> progress mn s1 s2 \<Longrightarrow> progress mn s s2"
  by (auto simp: progress_def)

lemma progress_ok: "progress mn s s' \<Longrightarrow> daemon_ok mn s'"
  by (simp add: progress_def)

text \<open>
  The depth a send may need: a nested send either has one connection less, or the overflow
  report of its protocol version is under way.
\<close>

definition rank :: "'u daemon \<Rightarrow> nat" where
  "rank s = 3 * conns s + (if sent_message_overflow_cnt s V1 = 0 then 1 else 0)
     + (if sent_message_overflow_cnt s V2 = 0 then 1 else 0)"

lemma rank_progress: "progress mn s s' \<Longrightarrow> daemon_ok mn s \<Longrightarrow> rank s' \<le> rank s"
  by (auto simp: progress_def rank_def daemon_ok_def)

lemma push3_law:
  assumes "buffer_ok b" "malloc_ok alloc" "length pad = 3" "24 + length d1 + length d2 \<le> min_size b"
  obtains (stored) b' where "dlt_buffer_push3 alloc pad b d1 d2 [] = Some (DLT_RETURN_OK, b')"
      "buffer_ok b'" "buffer_list b' = buffer_list b @ [d1 @ d2]" "same_limits b b'"
    | (full) b' where "dlt_buffer_push3 alloc pad b d1 d2 [] = Some (DLT_RETURN_ERROR, b')"
      "buffer_ok b'" "buffer_list b' = buffer_list b" "same_limits b b'"
proof -
  from assms(1) obtain w r c ms where at: "buffer_at b w r c" and ms: "buffer_messages b = Some ms"
    by (auto simp: buffer_ok_at)
  have sz: "12 + (length d1 + length d2 + length ([]::bytes)) < 2147483648"
    "0 < c \<or> 12 + (length d1 + length d2 + length ([]::bytes)) \<le> bsize b"
    using assms(4) at by (auto simp: buffer_at_def)
  from at ms assms(2,3) sz show thesis
  proof (cases rule: push3_spec)
    case (ok b' w' r')
    then have "buffer_ok b'" by (auto simp: buffer_ok_at)
    with ok ms show thesis by (intro stored [of b']) (simp_all add: buffer_list_def)
  next
    case (full b' w' r')
    then have "buffer_ok b'" by (auto simp: buffer_ok_at)
    with full ms show thesis by (intro that(2) [of b']) (simp_all add: buffer_list_def)
  qed
qed

lemma buffer_message_spec:
  assumes "buffer_ok (client_ringbuffer s)" "malloc_ok (env_malloc env)" "length (env_pad env) = 3"
    "24 + length d1 + length d2 \<le> min_size (client_ringbuffer s)"
  obtains (stored) b where "state s \<noteq> DLT_DAEMON_STATE_BUFFER_FULL"
      "buffer_message env d1 d2 s = Some (DLT_DAEMON_ERROR_OK, s\<lparr>client_ringbuffer := b\<rparr>)"
      "buffer_ok b" "buffer_list b = buffer_list (client_ringbuffer s) @ [d1 @ d2]"
      "same_limits (client_ringbuffer s) b"
    | (full) b where "buffer_message env d1 d2 s = Some (DLT_DAEMON_ERROR_BUFFER_FULL,
        s\<lparr>client_ringbuffer := b, state := DLT_DAEMON_STATE_BUFFER_FULL,
          overflow_counter := u32 (overflow_counter s + 1)\<rparr>)"
      "buffer_ok b" "buffer_list b = buffer_list (client_ringbuffer s)"
      "same_limits (client_ringbuffer s) b"
proof (cases "state s = DLT_DAEMON_STATE_BUFFER_FULL")
  case True
  show thesis
    by (rule full [of "client_ringbuffer s"])
      (use True assms(1) in \<open>simp_all add: buffer_message_def same_limits_def\<close>)
next
  case False
  from assms show thesis
  proof (cases rule: push3_law)
    case (stored b')
    with False show thesis by (intro that(1) [of b']) (simp_all add: buffer_message_def)
  next
    case (full b')
    with False show thesis
      by (intro that(2) [of b']) (simp_all add: buffer_message_def dlt_daemon_change_state_def)
  qed
qed

lemma buffer_message_total:
  assumes "daemon_ok mn s" "env_good mn env" "parts_fit mn (h, d1, d2)"
  shows "\<exists>ret s'. buffer_message env d1 d2 s = Some (ret, s') \<and> progress mn s s'"
proof -
  have a: "buffer_ok (client_ringbuffer s)" "malloc_ok (env_malloc env)" "length (env_pad env) = 3"
    "24 + length d1 + length d2 \<le> min_size (client_ringbuffer s)"
    using assms by (auto simp: daemon_ok_def env_good_def parts_fit_def)
  then show ?thesis
  proof (cases rule: buffer_message_spec)
    case (stored b)
    with assms(1) show ?thesis
      by (auto simp: progress_def daemon_ok_def conns_def same_limits_def)
  next
    case (full b)
    with assms(1) show ?thesis
      by (auto simp: progress_def daemon_ok_def conns_def same_limits_def)
  qed
qed

lemma nfds_conns:
  assumes "daemon_ok mn s"
  shows "nfds (pEvent (ev s)) = conns s" "nfds (pEvent (ev s)) \<le> length (pfd (pEvent (ev s)))"
proof -
  have inv: "event_inv (ev s)" using assms by (simp add: daemon_ok_def)
  show le: "nfds (pEvent (ev s)) \<le> length (pfd (pEvent (ev s)))"
    using event_invD(1) [OF inv] by (simp add: table_ok_def)
  have "length (map con_fd (connections (pEvent (ev s)))) = length (polled (pEvent (ev s)))"
    unfolding event_invD(2) [OF inv] by simp
  then show "nfds (pEvent (ev s)) = conns s" using le by (simp add: polled_def conns_def)
qed

lemma net_progress:
  "daemon_ok mn (s\<lparr>net_state := w\<rparr>) = daemon_ok mn s" "conns (s\<lparr>net_state := w\<rparr>) = conns s"
  "progress mn (s\<lparr>net_state := w\<rparr>) s' = progress mn s s'"
  by (simp_all add: daemon_ok_def conns_def progress_def)

lemma send_all_loop_total:
  assumes close: "\<And>fd s. daemon_ok mn s \<Longrightarrow> conns s \<le> N \<Longrightarrow>
      fd \<in> set (polled (pEvent (ev s))) \<Longrightarrow> \<exists>s'. close fd s = Some s' \<and> progress mn s s'"
    and net: "net_ok env"
  shows "daemon_ok mn s \<Longrightarrow> conns s \<le> N \<Longrightarrow> conns s \<le> i + k \<Longrightarrow>
    \<exists>sent' s'. send_all_loop close env d1 d2 k i sent s = Some (sent', s') \<and> progress mn s s'"
proof (induction k arbitrary: i sent s)
  case 0
  then show ?case using nfds_conns(1) [OF 0(1)] by (simp add: progress_refl)
next
  case (Suc k)
  note nf = nfds_conns [OF Suc.prems(1)]
  have skip: "\<exists>sent' s'. send_all_loop close env d1 d2 k (i + 1) b s1 = Some (sent', s') \<and> progress mn s s'"
    if "progress mn s s1" for b s1
  proof -
    have "conns s1 \<le> conns s" "daemon_ok mn s1" using that by (simp_all add: progress_def)
    with Suc.prems have "\<exists>sent' s'. send_all_loop close env d1 d2 k (i + 1) b s1 = Some (sent', s')
        \<and> progress mn s1 s'" by (intro Suc.IH) simp_all
    with that progress_trans show ?thesis by blast
  qed
  show ?case
  proof (cases "i < nfds (pEvent (ev s))")
    case False
    then show ?thesis using Suc.prems(1) by (simp add: progress_refl)
  next
    case True
    let ?fd = "pfd_fd (pfd (pEvent (ev s)) ! i)"
    have len: "i < length (pfd (pEvent (ev s)))" using True nf(2) by simp
    have mem: "?fd \<in> set (polled (pEvent (ev s)))"
      unfolding polled_def set_map
      by (rule imageI) (use True len in \<open>auto simp: in_set_conv_nth intro!: exI [of _ i]\<close>)
    show ?thesis
    proof (cases "\<exists>c r. dlt_event_handler_find_connection (pEvent (ev s)) ?fd = Some c
        \<and> receiver c = Some r \<and> is_client (con_type c)")
      case False
      then have "send_all_loop close env d1 d2 (Suc k) i sent s = send_all_loop close env d1 d2 k (i + 1) sent s"
        using True len by (auto split: option.splits)
      then show ?thesis using skip [OF progress_refl [OF Suc.prems(1)]] by simp
    next
      case client: True
      then obtain c r where c: "dlt_event_handler_find_connection (pEvent (ev s)) ?fd = Some c"
        "receiver c = Some r" "is_client (con_type c)" by blast
      have fd: "rcv_fd r = ?fd" using c(1,2)
        by (auto simp: dlt_event_handler_find_connection_def find_Some_iff con_fd_def)
      obtain ret w where w: "dlt_connection_send_multiple env c d1 d2 (sendserialheader s) (net_state s)
          = Some (ret, w)" using send_multiple_total [OF net] by blast
      let ?s = "s\<lparr>net_state := w\<rparr>"
      have "\<exists>s'. close ?fd ?s = Some s' \<and> progress mn ?s s'"
        using Suc.prems mem by (intro close) (simp_all add: net_progress)
      then obtain s1 where s1: "close ?fd ?s = Some s1" "progress mn s s1" by (auto simp: net_progress)
      let ?close = "ret \<noteq> 0 \<and> con_type c = DLT_CONNECTION_CLIENT_MSG_TCP"
      have "send_all_loop close env d1 d2 (Suc k) i sent s
          = send_all_loop close env d1 d2 k (i + 1) (if ret \<noteq> 0 then sent else True) (if ?close then s1 else ?s)"
        using True len c w s1(1) fd by (simp add: Let_def)
      moreover have "progress mn s (if ?close then s1 else ?s)"
        using s1(2) Suc.prems(1) by (simp add: progress_def net_progress)
      ultimately show ?thesis using skip by simp
    qed
  qed
qed

definition sends_ok :: "nat \<Rightarrow> nat \<Rightarrow> 'u sender \<Rightarrow> bool" where
  "sends_ok mn n send \<longleftrightarrow> (\<forall>v p s. daemon_ok mn s \<and> rank s < n \<and> parts_fit mn p \<longrightarrow>
     (\<exists>ret s'. send v p s = Some (ret, s') \<and> progress mn s s'))"

lemma send_built_total:
  assumes "sends_ok mn n send" "daemon_ok mn s" "rank s < n" "\<And>p. m = Some p \<Longrightarrow> parts_fit mn p"
  shows "\<exists>ret s'. send_built send v m s = Some (ret, s') \<and> progress mn s s'"
  using assms progress_refl [OF assms(2)] by (cases m) (auto simp: send_built_def sends_ok_def)

lemma close_total:
  assumes s: "daemon_ok mn s" and send: "sends_ok mn n send" and rk: "rank s < n + 3"
    and env: "env_good mn env" and fd: "sock \<in> set (polled (pEvent (ev s)))"
  shows "\<exists>ret s'. dlt_daemon_close_socket send env sock s = Some (ret, s') \<and> progress mn s s'"
proof -
  have inv: "event_inv (ev s)" using s by (simp add: daemon_ok_def)
  have "Some sock \<in> set (map con_fd (connections (pEvent (ev s))))"
    unfolding event_invD(2) [OF inv] using fd by simp
  then obtain c where "c \<in> set (connections (pEvent (ev s)))" and c: "con_fd c = Some sock" by auto
  then obtain xs ys where cs: "connections (pEvent (ev s)) = xs @ c # ys" by (auto simp: in_set_conv_decomp)
  obtain e where e: "dlt_event_handler_unregister_connection (ev s) sock = Some (0, e)" "event_inv e"
    "connections (pEvent e) = xs @ ys" by (rule unregister_spec [OF inv cs c])
  define s1 where "s1 = (if client_connections e = 0 then s\<lparr>ev := e, connectionState := 0\<rparr> else s\<lparr>ev := e\<rparr>)"
  define s2 where "s2 = (\<lambda>v. last_client_left env v (s\<lparr>ev := e\<rparr>))"
  have fields: "ev s1 = e" "client_ringbuffer s1 = client_ringbuffer s"
    "sent_message_overflow_cnt s1 = sent_message_overflow_cnt s"
    "ev (s2 v) = e" "client_ringbuffer (s2 v) = client_ringbuffer s"
    "sent_message_overflow_cnt (s2 v) = sent_message_overflow_cnt s" for v
    by (simp_all add: s1_def s2_def last_client_left_def Let_def dlt_daemon_change_state_def)
  have conns: "conns s = Suc (conns s1)" "conns (s2 v) = conns s1" for v
    using cs e(3) fields by (simp_all add: conns_def)
  have p1: "progress mn s s1" "progress mn s (s2 v)" for v
    using s e(2) fields conns by (simp_all add: progress_def daemon_ok_def)
  have r2: "rank (s2 v) < n" for v using rk conns fields by (simp add: rank_def)
  show ?thesis
  proof (cases "version_of (daemon_version s)")
    case None
    then have "dlt_daemon_close_socket send env sock s = Some (-1, s1)"
      using e(1) by (simp add: dlt_daemon_close_socket_def s1_def)
    with p1 show ?thesis by blast
  next
    case (Some v)
    have ok2: "daemon_ok mn (s2 v)" using p1(2) by (rule progress_ok)
    have "\<exists>ret s'. send_built send v (env_info_msg env v (sys_calls (net_state (s2 v)))) (s2 v) = Some (ret, s')
        \<and> progress mn (s2 v) s'"
      using env by (intro send_built_total [OF send ok2 r2]) (auto simp: env_good_def)
    then obtain r3 s3 where
      s3: "send_built send v (env_info_msg env v (sys_calls (net_state (s2 v)))) (s2 v) = Some (r3, s3)"
      "progress mn (s2 v) s3" by blast
    have ok3: "daemon_ok mn s3" and r3: "rank s3 < n"
      using progress_ok [OF s3(2)] rank_progress [OF s3(2) ok2] r2 [of v] by simp_all
    have "\<exists>ret s'. send_built send v (env_log_msg env v (sys_calls (net_state s3)) sock
        (client_connections (ev s3))) s3 = Some (ret, s') \<and> progress mn s3 s'"
      using env by (intro send_built_total [OF send ok3 r3]) (auto simp: env_good_def)
    then obtain r4 s4 where s4: "send_built send v (env_log_msg env v (sys_calls (net_state s3)) sock
        (client_connections (ev s3))) s3 = Some (r4, s4)" "progress mn s3 s4" by blast
    have "dlt_daemon_close_socket send env sock s = Some (0, s4)"
      using e(1) Some s3(1) s4(1)
      by (simp add: dlt_daemon_close_socket_def s2_def)
    with progress_trans [OF p1(2) progress_trans [OF s3(2) s4(2)]] show ?thesis by blast
  qed
qed

lemma add_cnt_sel [simp]:
  "sent_message_overflow_cnt (add_cnt v k s) v' = sent_message_overflow_cnt s v' + (if v' = v then k else 0)"
  "ev (add_cnt v k s) = ev s" "state (add_cnt v k s) = state s" "net_state (add_cnt v k s) = net_state s"
  "overflow_counter (add_cnt v k s) = overflow_counter s"
  "client_ringbuffer (add_cnt v k s) = client_ringbuffer s"
  by (simp_all add: add_cnt_def)

lemma add_cnt_undo: "add_cnt v (-1) (add_cnt v 1 s) = s"
  by (cases s) (simp add: add_cnt_def)

lemma report_total:
  assumes s: "daemon_ok mn s" and send: "sends_ok mn n send" and rk: "rank s \<le> n" and env: "env_good mn env"
  shows "\<exists>ret s'. report_overflow send env v s = Some (ret, s') \<and> progress mn s s'"
proof (cases "overflow_counter s > 0 \<and> client_connections (ev s) > 0")
  case False
  then show ?thesis using s by (auto simp: report_overflow_def progress_refl)
next
  case True
  note c = s [unfolded daemon_ok_def]
  show ?thesis
  proof (cases "sent_message_overflow_cnt s v = 0")
    case False
    then have "sent_message_overflow_cnt s v = 1" using c by auto
    then have "report_overflow send env v s = Some (DLT_DAEMON_ERROR_OK, s)"
      using True by (simp add: report_overflow_def add_cnt_undo)
    then show ?thesis using s progress_refl by auto
  next
    case zero: True
    let ?s1 = "add_cnt v 1 s"
    have ok1: "daemon_ok mn ?s1" using s zero by (auto simp: daemon_ok_def add_cnt_def)
    have cn: "conns ?s1 = conns s" by (simp add: conns_def add_cnt_def)
    have "rank ?s1 < n" using rk zero cn by (cases v) (auto simp: rank_def add_cnt_def)
    then have "\<exists>ret s'. dlt_daemon_send_message_overflow send env v ?s1 = Some (ret, s') \<and> progress mn ?s1 s'"
      unfolding dlt_daemon_send_message_overflow_def
      using env by (intro send_built_total [OF send ok1]) (auto simp: env_good_def)
    then obtain ret s2 where s2: "dlt_daemon_send_message_overflow send env v ?s1 = Some (ret, s2)"
      "progress mn ?s1 s2" by blast
    have v2: "sent_message_overflow_cnt s2 v = 1" and ok2: "daemon_ok mn s2" and c2: "conns s2 \<le> conns s"
      and keep: "\<And>v'. sent_message_overflow_cnt s v' = 1 \<Longrightarrow> sent_message_overflow_cnt s2 v' = 1"
      using s2(2) zero cn by (auto simp: progress_def add_cnt_def)
    let ?s3 = "if ret = DLT_DAEMON_ERROR_OK then add_cnt v (-1) (s2\<lparr>overflow_counter := 0\<rparr>) else s2"
    have "report_overflow send env v s = Some (DLT_DAEMON_ERROR_OK, ?s3)"
      using True zero s2(1) by (simp add: report_overflow_def)
    moreover have "progress mn s ?s3"
      using ok2 c2 keep v2 zero by (auto simp: progress_def daemon_ok_def add_cnt_def conns_def)
    ultimately show ?thesis by blast
  qed
qed

lemma store_offline_fields:
  "daemon_ok mn (snd (store_offline env p s)) = daemon_ok mn s"
  "progress mn (snd (store_offline env p s)) s' = progress mn s s'"
  "rank (snd (store_offline env p s)) = rank s"
  by (simp_all add: store_offline_def Let_def daemon_ok_def progress_def conns_def rank_def)

lemma client_send_total:
  assumes env: "env_good mn env"
  shows "daemon_ok mn s \<Longrightarrow> parts_fit mn p \<Longrightarrow> rank s < n \<Longrightarrow>
    \<exists>ret s'. client_send n env v sock p s = Some (ret, s') \<and> progress mn s s'"
proof (induction n arbitrary: v sock p s)
  case 0
  then show ?case by simp
next
  case (Suc n)
  obtain h d1 d2 where p: "p = (h, d1, d2)" by (cases p)
  have net: "net_ok env" using env by (simp add: env_good_def)
  let ?send = "\<lambda>v. client_send n env v DLT_DAEMON_SEND_TO_ALL"
  let ?close = "\<lambda>fd s. map_option snd (dlt_daemon_close_socket ?send env fd s)"
  have send: "sends_ok mn n ?send" unfolding sends_ok_def using Suc.IH by blast
  show ?case
  proof (cases "sock = DLT_DAEMON_SEND_TO_ALL \<or> sock = DLT_DAEMON_SEND_FORCE")
    case False
    obtain r w where w: "dlt_daemon_socket_send env sock d1 d2 (sendserialheader s) (net_state s) = Some (r, w)"
      using socket_send_total [OF net] by blast
    obtain r' w' where w': "dlt_daemon_serial_send env sock d1 d2 (sendserialheader s) (net_state s) = (r', w')"
      by fastforce
    have "progress mn s (s\<lparr>net_state := x\<rparr>)" for x
      using Suc.prems(1) by (simp add: progress_def net_progress)
    with False w w' p show ?thesis by auto
  next
    case True
    define x where "x = (if sock \<noteq> DLT_DAEMON_SEND_FORCE \<and> state s \<noteq> DLT_DAEMON_STATE_SEND_BUFFER
      then store_offline env p s else (0, s))"
    have x: "daemon_ok mn (snd x)" "\<And>s'. progress mn (snd x) s' = progress mn s s'" "rank (snd x) = rank s"
      using Suc.prems(1) by (simp_all add: x_def store_offline_fields)
    have cl: "\<exists>s'. ?close fd s1 = Some s' \<and> progress mn s1 s'"
      if a: "daemon_ok mn s1" "conns s1 \<le> conns (snd x)" "fd \<in> set (polled (pEvent (ev s1)))" for fd s1
    proof -
      have "rank s1 \<le> 3 * conns s1 + 2" "3 * conns (snd x) \<le> rank (snd x)" by (simp_all add: rank_def)
      then have "rank s1 < n + 3" using a(2) x(3) Suc.prems(3) by linarith
      from close_total [OF a(1) send this env a(3)] show ?thesis by auto
    qed
    have nf: "conns (snd x) \<le> 0 + nfds (pEvent (ev (snd x)))" using nfds_conns(1) [OF x(1)] by simp
    have "\<exists>b s1. send_external ?close env sock (fst x) d1 d2 (snd x) = Some (b, s1) \<and> progress mn (snd x) s1"
    proof -
      have "\<exists>sent' s'. send_all_loop ?close env d1 d2 (nfds (pEvent (ev (snd x)))) 0 False (snd x)
          = Some (sent', s') \<and> progress mn (snd x) s'"
        using cl net x(1) order_refl nf
        by (rule send_all_loop_total [where mn = mn and N = "conns (snd x)"])
      with x(1) progress_refl show ?thesis
        by (auto simp: send_external_def dlt_daemon_client_send_all_multiple_def)
    qed
    then obtain b s1 where s1: "send_external ?close env sock (fst x) d1 d2 (snd x) = Some (b, s1)"
      "progress mn s s1" using x(2) by blast
    have ok1: "daemon_ok mn s1" and r1: "rank s1 \<le> n"
      using progress_ok [OF s1(2)] rank_progress [OF s1(2) Suc.prems(1)] Suc.prems(3) by simp_all
    from buffer_message_total [OF ok1 env Suc.prems(2) [unfolded p]] obtain r2 s2 where
      s2: "buffer_message env d1 d2 s1 = Some (r2, s2)" "progress mn s s2"
      using progress_trans [OF s1(2)] by blast
    from report_total [OF ok1 send r1 env, of v] obtain r3 s3 where
      s3: "report_overflow ?send env v s1 = Some (r3, s3)" "progress mn s s3"
      using progress_trans [OF s1(2)] by blast
    have "client_send (Suc n) env v sock p s = (if b then Some (DLT_DAEMON_ERROR_SEND_FAILED, s1)
        else if sock \<noteq> DLT_DAEMON_SEND_FORCE \<and> (state s1 = DLT_DAEMON_STATE_BUFFER
           \<or> state s1 = DLT_DAEMON_STATE_SEND_BUFFER \<or> state s1 = DLT_DAEMON_STATE_BUFFER_FULL)
        then buffer_message env d1 d2 s1 else report_overflow ?send env v s1)"
      using True s1(1) p by (auto simp: x_def Let_def split: prod.splits)
    then show ?thesis using s1(2) s2 s3 by auto
  qed
qed



section \<open>Sending to clients that accept everything\<close>

definition accepting :: "'u send_env \<Rightarrow> DltConnection \<Rightarrow> bool" where
  "accepting env c \<longleftrightarrow> (\<forall>fd. con_fd c = Some fd \<longrightarrow>
     (if con_type c = DLT_CONNECTION_CLIENT_MSG_TCP
      then \<forall>n d. d \<noteq> [] \<longrightarrow> \<not> sys_send env n fd d < 0
      else \<forall>n d. sys_write env n fd d = int (length d)))"

definition frame :: "bool \<Rightarrow> bytes \<Rightarrow> bytes \<Rightarrow> bytes" where
  "frame h d1 d2 = (if h then dltSerialHeader else []) @ d1 @ d2"

lemma connection_send_accept:
  assumes "net_ok env" "accepting env c" "con_fd c = Some fd" "is_client (con_type c)"
    "msg \<noteq> []" "length msg < 2 ^ 31"
  obtains w' where "dlt_connection_send env c msg w = Some (0, w')" "delivers w w' fd msg"
proof -
  obtain r where r: "receiver c = Some r" "rcv_fd r = fd" using assms(3) by (auto simp: con_fd_def)
  show thesis
  proof (cases "con_type c = DLT_CONNECTION_CLIENT_MSG_TCP")
    case True
    then have acc: "\<not> sys_send env n fd d < 0" if "d \<noteq> []" for n d
      using assms(2,3) that by (auto simp: accepting_def)
    show thesis
    proof (rule sendreliable_spec [OF assms(1), of fd msg w])
      fix w' assume "dlt_daemon_socket_sendreliable env fd msg w = Some (0, w')" "delivers w w' fd msg"
      with True r assms(6) show thesis by (intro that [of w']) (simp_all add: dlt_connection_send_def)
    next
      assume "\<exists>n d. d \<noteq> [] \<and> sys_send env n fd d < 0"
      with acc show thesis by blast
    qed
  next
    case False
    then have ser: "con_type c = DLT_CONNECTION_CLIENT_MSG_SERIAL" using assms(4) by (auto simp: is_client_def)
    have wr: "sys_write env n fd d = int (length d)" for n d
      using False assms(2,3) by (auto simp: accepting_def)
    have "length msg < 2 ^ 63" using assms(6) by simp
    with ser r wr assms(5) show thesis
      by (intro that [OF _ delivers_accepted]) (simp add: dlt_connection_send_def write_once_def)
  qed
qed

lemma send_multiple_accept:
  assumes "net_ok env" "accepting env c" "con_fd c = Some fd" "is_client (con_type c)"
    "length d1 < 2 ^ 31" "length d2 < 2 ^ 31"
  obtains w' where "dlt_connection_send_multiple env c d1 d2 h w = Some (0, w')"
    "delivers w w' fd (frame h d1 d2)"
proof -
  note acc = connection_send_accept [OF assms(1-4)]
  obtain w1 where 1: "(if h then dlt_connection_send env c dltSerialHeader w else Some (0, w)) = Some (0, w1)"
    "delivers w w1 fd (if h then dltSerialHeader else [])"
  proof (cases h)
    case True
    have "dltSerialHeader \<noteq> []" "length dltSerialHeader < 2 ^ 31" by (simp_all add: dltSerialHeader_def)
    from acc [OF this, of w] True that show thesis by auto
  qed (use that in auto)
  obtain w2 where 2: "(if d1 \<noteq> [] then dlt_connection_send env c d1 w1 else Some (0, w1)) = Some (0, w2)"
    "delivers w1 w2 fd d1"
    by (cases "d1 = []") (use acc [of d1 w1] assms(5) in auto)
  obtain w3 where 3: "(if d2 \<noteq> [] then dlt_connection_send env c d2 w2 else Some (0, w2)) = Some (0, w3)"
    "delivers w2 w3 fd d2"
    by (cases "d2 = []") (use acc [of d2 w2] assms(6) in auto)
  have "dlt_connection_send_multiple env c d1 d2 h w = Some (0, w3)"
    unfolding dlt_connection_send_multiple_def 1(1) using 2(1) 3(1) by simp
  moreover have "delivers w w3 fd (frame h d1 d2)"
    using delivers_trans [OF 1(2) delivers_trans [OF 2(2) 3(2)]] by (simp add: frame_def)
  ultimately show thesis by (rule that)
qed

definition client_fds :: "DltConnection list \<Rightarrow> int set" where
  "client_fds cs = {fd. \<exists>c\<in>set cs. is_client (con_type c) \<and> con_fd c = Some fd}"

text \<open>\<open>delivers_all w w' F bs\<close>: between \<open>w\<close> and \<open>w'\<close> exactly \<open>bs\<close> arrived at each descriptor in \<open>F\<close>.\<close>

definition delivers_all :: "net \<Rightarrow> net \<Rightarrow> int set \<Rightarrow> bytes \<Rightarrow> bool" where
  "delivers_all w w' F bs \<longleftrightarrow> (\<forall>f. received w' f = received w f @ (if f \<in> F then bs else []))"

lemma polled_nth:
  assumes "event_inv e" "i < nfds (pEvent e)"
  shows "i < length (pfd (pEvent e))" "i < length (connections (pEvent e))"
    "con_fd (connections (pEvent e) ! i) = Some (pfd_fd (pfd (pEvent e) ! i))"
    "dlt_event_handler_find_connection (pEvent e) (pfd_fd (pfd (pEvent e) ! i)) = Some (connections (pEvent e) ! i)"
proof -
  note I = event_invD [OF assms(1)]
  show 1: "i < length (pfd (pEvent e))" using I(1) assms(2) by (simp add: table_ok_def)
  have "length (map con_fd (connections (pEvent e))) = length (polled (pEvent e))" unfolding I(2) by simp
  then show 2: "i < length (connections (pEvent e))" using assms(2) 1 by (simp add: polled_def)
  have "map con_fd (connections (pEvent e)) ! i = map Some (polled (pEvent e)) ! i" unfolding I(2) ..
  then show 3: "con_fd (connections (pEvent e) ! i) = Some (pfd_fd (pfd (pEvent e) ! i))"
    using assms(2) 1 2 by (simp add: polled_def)
  have cs: "connections (pEvent e) = take i (connections (pEvent e)) @ connections (pEvent e) ! i
      # drop (Suc i) (connections (pEvent e))" using 2 by (rule id_take_nth_drop)
  show "dlt_event_handler_find_connection (pEvent e) (pfd_fd (pfd (pEvent e) ! i)) = Some (connections (pEvent e) ! i)"
    unfolding dlt_event_handler_find_connection_def
    by (subst cs, rule find_fd [OF _ I(3) 3]) (use I(2) cs in simp)
qed

lemma send_all_loop_accept:
  assumes inv: "event_inv (ev s)" and net: "net_ok env"
    and acc: "\<And>c. c \<in> set (connections (pEvent (ev s))) \<Longrightarrow> is_client (con_type c) \<Longrightarrow> accepting env c"
    and len: "length d1 < 2 ^ 31" "length d2 < 2 ^ 31"
  shows "i + k = nfds (pEvent (ev s)) \<Longrightarrow> \<exists>w'.
    send_all_loop close env d1 d2 k i sent (s\<lparr>net_state := w\<rparr>)
      = Some (sent \<or> client_fds (drop i (connections (pEvent (ev s)))) \<noteq> {}, s\<lparr>net_state := w'\<rparr>)
    \<and> delivers_all w w' (client_fds (drop i (connections (pEvent (ev s))))) (frame (sendserialheader s) d1 d2)"
proof (induction k arbitrary: i sent w)
  case 0
  have "length (map con_fd (connections (pEvent (ev s)))) = length (polled (pEvent (ev s)))"
    unfolding event_invD(2) [OF inv] by simp
  then have "drop i (connections (pEvent (ev s))) = []"
    using 0 event_invD(1) [OF inv] by (simp add: polled_def table_ok_def)
  with 0 show ?case by (auto simp: client_fds_def delivers_all_def)
next
  case (Suc k)
  let ?cs = "connections (pEvent (ev s))"
  have i: "i < nfds (pEvent (ev s))" using Suc.prems by simp
  note n = polled_nth [OF inv i]
  define c where "c = ?cs ! i"
  define fd where "fd = pfd_fd (pfd (pEvent (ev s)) ! i)"
  have c: "con_fd c = Some fd" using n(3) by (simp add: c_def fd_def)
  obtain r where r: "receiver c = Some r" "rcv_fd r = fd" using c by (auto simp: con_fd_def)
  have dr: "drop i ?cs = c # drop (Suc i) ?cs" using n(2) by (simp add: c_def Cons_nth_drop_Suc)
  have cin: "c \<in> set ?cs" using n(2) by (simp add: c_def)
  have "distinct (map con_fd ?cs)" unfolding event_invD(2) [OF inv]
    using event_invD(3) [OF inv] by (simp add: distinct_map)
  then have "distinct (map con_fd (drop i ?cs))" by (metis distinct_drop drop_map)
  then have fresh: "fd \<notin> client_fds (drop (Suc i) ?cs)"
    unfolding dr using c by (auto simp: client_fds_def) (metis image_eqI)
  show ?case
  proof (cases "is_client (con_type c)")
    case False
    then have F: "client_fds (drop i ?cs) = client_fds (drop (Suc i) ?cs)"
      unfolding dr by (auto simp: client_fds_def)
    from Suc.IH [of "Suc i" sent w] Suc.prems obtain w' where
      "send_all_loop close env d1 d2 k (Suc i) sent (s\<lparr>net_state := w\<rparr>)
         = Some (sent \<or> client_fds (drop (Suc i) ?cs) \<noteq> {}, s\<lparr>net_state := w'\<rparr>)"
      "delivers_all w w' (client_fds (drop (Suc i) ?cs)) (frame (sendserialheader s) d1 d2)" by auto
    with i n(1) n(4) [folded c_def fd_def] r False F show ?thesis
      by (intro exI [of _ w']) (simp add: fd_def [symmetric])
  next
    case True
    then have F: "client_fds (drop i ?cs) = insert fd (client_fds (drop (Suc i) ?cs))"
      unfolding dr using c by (auto simp: client_fds_def)
    obtain w1 where w1: "dlt_connection_send_multiple env c d1 d2 (sendserialheader s) w = Some (0, w1)"
      "delivers w w1 fd (frame (sendserialheader s) d1 d2)"
      by (rule send_multiple_accept [OF net acc [OF cin True] c True len])
    from Suc.IH [of "Suc i" True w1] Suc.prems obtain w' where
      w': "send_all_loop close env d1 d2 k (Suc i) True (s\<lparr>net_state := w1\<rparr>) = Some (True, s\<lparr>net_state := w'\<rparr>)"
      "delivers_all w1 w' (client_fds (drop (Suc i) ?cs)) (frame (sendserialheader s) d1 d2)" by auto
    have "delivers_all w w' (client_fds (drop i ?cs)) (frame (sendserialheader s) d1 d2)"
      using w1(2) w'(2) fresh unfolding F delivers_all_def delivers_def by simp
    with i n(1) n(4) [folded c_def fd_def] r True F w1(1) w'(1) show ?thesis
      by (intro exI [of _ w']) (simp add: fd_def [symmetric])
  qed
qed

definition all_accept :: "'u send_env \<Rightarrow> 'u daemon \<Rightarrow> bool" where
  "all_accept env s \<longleftrightarrow> net_ok env \<and> (\<forall>c\<in>set (connections (pEvent (ev s))).
     is_client (con_type c) \<longrightarrow> accepting env c)"

definition clients :: "'u daemon \<Rightarrow> int set" where
  "clients s = client_fds (connections (pEvent (ev s)))"

lemma send_all_accept:
  assumes "event_inv (ev s)" "all_accept env s" "length d1 < 2 ^ 31" "length d2 < 2 ^ 31"
  obtains w' where "dlt_daemon_client_send_all_multiple close env d1 d2 s
      = Some (clients s \<noteq> {}, s\<lparr>net_state := w'\<rparr>)"
    "delivers_all (net_state s) w' (clients s) (frame (sendserialheader s) d1 d2)"
proof -
  have "\<exists>w'. send_all_loop close env d1 d2 (nfds (pEvent (ev s))) 0 False (s\<lparr>net_state := net_state s\<rparr>)
      = Some (False \<or> client_fds (drop 0 (connections (pEvent (ev s)))) \<noteq> {}, s\<lparr>net_state := w'\<rparr>)
    \<and> delivers_all (net_state s) w' (client_fds (drop 0 (connections (pEvent (ev s)))))
        (frame (sendserialheader s) d1 d2)"
    using assms by (intro send_all_loop_accept) (auto simp: all_accept_def)
  with that show thesis by (auto simp: dlt_daemon_client_send_all_multiple_def clients_def)
qed

text \<open>The overflow report is skipped: nothing overflowed, or a report is under way.\<close>

definition no_report :: "protocol \<Rightarrow> 'u daemon \<Rightarrow> bool" where
  "no_report v s \<longleftrightarrow> overflow_counter s \<le> 0 \<or> sent_message_overflow_cnt s v \<ge> 1"

lemma report_skipped:
  "no_report v s \<Longrightarrow> report_overflow send env v s = Some (DLT_DAEMON_ERROR_OK, s)"
  by (auto simp: no_report_def report_overflow_def add_cnt_undo)

definition external :: "'u daemon \<Rightarrow> bool" where
  "external s \<longleftrightarrow> mode s = DLT_USER_MODE_EXTERNAL \<or> mode s = DLT_USER_MODE_BOTH"

lemma force_send_accept:
  assumes "event_inv (ev s)" "all_accept env s" "external s" "clients s \<noteq> {}" "length m < 2 ^ 31"
  obtains w' where "client_send (Suc n) env v DLT_DAEMON_SEND_FORCE (h, m, []) s
      = report_overflow (\<lambda>v. client_send n env v DLT_DAEMON_SEND_TO_ALL) env v (s\<lparr>net_state := w'\<rparr>)"
    "delivers_all (net_state s) w' (clients s) (frame (sendserialheader s) m [])"
proof -
  have z: "length ([]::bytes) < 2 ^ 31" by simp
  obtain w' where w': "dlt_daemon_client_send_all_multiple (\<lambda>fd s. map_option snd
      (dlt_daemon_close_socket (\<lambda>v. client_send n env v DLT_DAEMON_SEND_TO_ALL) env fd s)) env m [] s
      = Some (clients s \<noteq> {}, s\<lparr>net_state := w'\<rparr>)"
    "delivers_all (net_state s) w' (clients s) (frame (sendserialheader s) m [])"
    by (rule send_all_accept [OF assms(1,2,5) z])
  with assms(3,4) show thesis by (intro that [of w']) (simp_all add: send_external_def external_def)
qed

lemma direct_send_accept:
  assumes "event_inv (ev s)" "all_accept env s" "mode s = DLT_USER_MODE_EXTERNAL"
    "state s = DLT_DAEMON_STATE_SEND_DIRECT" "offlineLogstorageMaxDevices s \<le> 0" "no_report v s"
    "length d1 < 2 ^ 31" "length d2 < 2 ^ 31"
  obtains w' where "client_send (Suc n) env v DLT_DAEMON_SEND_TO_ALL (h, d1, d2) s = Some (0, s\<lparr>net_state := w'\<rparr>)"
    "delivers_all (net_state s) w' (clients s) (frame (sendserialheader s) d1 d2)"
proof -
  obtain w' where w': "dlt_daemon_client_send_all_multiple (\<lambda>fd s. map_option snd
      (dlt_daemon_close_socket (\<lambda>v. client_send n env v DLT_DAEMON_SEND_TO_ALL) env fd s)) env d1 d2 s
      = Some (clients s \<noteq> {}, s\<lparr>net_state := w'\<rparr>)"
    "delivers_all (net_state s) w' (clients s) (frame (sendserialheader s) d1 d2)"
    by (rule send_all_accept [OF assms(1,2,7,8)])
  have st: "store_offline env (h, d1, d2) s = (0, s)" using assms(3,5) by (simp add: store_offline_def)
  have "no_report v (s\<lparr>net_state := w'\<rparr>)" using assms(6) by (simp add: no_report_def)
  from report_skipped [OF this] w' st assms(3,4) show thesis
    by (intro that [of w']) (simp_all add: send_external_def)
qed

lemma copy_first:
  assumes "buffer_ok b" "malloc_ok alloc" "buffer_list b = m # ms" "m \<noteq> []" "length m \<le> length data"
  shows "dlt_buffer_copy alloc b (Some data) (int (length data))
    = Some (int (length m), Some (m @ drop (length m) data), b)"
proof -
  from assms(1,3) obtain w r c where at: "buffer_at b w r c" and ms: "buffer_messages b = Some (m # ms)"
    by (auto simp: buffer_ok_at buffer_list_def)
  have fits: "dest_fits (Some data) (int (length data)) (length m)" using assms(5) by (simp add: dest_fits_def)
  have "data \<noteq> []" using assms(4,5) by auto
  then show ?thesis
    using get_spec [OF at ms assms(2) fits, of False] by (auto simp: dlt_buffer_copy_def dest_after_def)
qed

lemma remove_first:
  assumes "buffer_ok b" "malloc_ok alloc" "buffer_list b = m # ms"
  obtains b' where "dlt_buffer_remove alloc b = Some (int (length m), None, b')" "buffer_ok b'"
    "buffer_list b' = ms" "same_limits b b'"
proof -
  from assms(1,3) obtain w r c where at: "buffer_at b w r c" and ms: "buffer_messages b = Some (m # ms)"
    by (auto simp: buffer_ok_at buffer_list_def)
  have fits: "dest_fits None 0 (length m)" by (simp add: dest_fits_def)
  obtain b' w' r' c' where g: "dlt_buffer_get alloc b None 0 True = Some (int (length m), dest_after None 0 m, b')"
    "buffer_at b' w' r' c'" "buffer_messages b' = Some (if True then ms else m # ms)" "same_limits b b'"
    by (rule get_spec [OF at ms assms(2) fits, of True])
  then have "buffer_ok b'" by (auto simp: buffer_ok_at)
  with g show thesis
    by (intro that [of b']) (simp_all add: dlt_buffer_remove_def dest_after_def buffer_list_def)
qed

lemma count_list:
  assumes "buffer_ok b"
  shows "dlt_buffer_get_message_count b = int (length (buffer_list b))"
proof -
  from assms obtain w r c ms where at: "buffer_at b w r c" and ms: "buffer_messages b = Some ms"
    by (auto simp: buffer_ok_at)
  have "length ms = c" using split_blocks_lengths [of c "used_bytes b" ms] ms messages_at [OF at] by simp
  with at ms show ?thesis by (simp add: buffer_list_def)
qed

lemma flush_accept:
  assumes "buffer_list (client_ringbuffer s) = ms" "ms \<noteq> []" "event_inv (ev s)" "all_accept env s" "external s"
    "clients s \<noteq> {}" "buffer_ok (client_ringbuffer s)" "malloc_ok (env_malloc env)" "no_report v s"
    "\<And>m. m \<in> set ms \<Longrightarrow> m \<noteq> [] \<and> length m \<le> length data" "length data < 2 ^ 31" "length ms \<le> k"
  shows "\<exists>s'. flush_loop k (Suc n) env v data s = Some (0, s')
    \<and> state s' = DLT_DAEMON_STATE_SEND_DIRECT \<and> buffer_ok (client_ringbuffer s')
    \<and> buffer_list (client_ringbuffer s') = [] \<and> ev s' = ev s
    \<and> delivers_all (net_state s) (net_state s') (clients s)
        (concat (map (\<lambda>m. frame (sendserialheader s) m []) ms))"
  using assms
proof (induction ms arbitrary: s data k)
  case Nil
  then show ?case by simp
next
  case (Cons m ms)
  obtain k' where k: "k = Suc k'" using Cons.prems(12) by (cases k) auto
  have m: "m \<noteq> []" "length m \<le> length data" using Cons.prems(10) by auto
  then have lm: "length m < 2 ^ 31" using Cons.prems(11) by simp
  let ?data = "m @ drop (length m) data"
  obtain w where w: "client_send (Suc n) env v DLT_DAEMON_SEND_FORCE ([], m, []) s
      = report_overflow (\<lambda>v. client_send n env v DLT_DAEMON_SEND_TO_ALL) env v (s\<lparr>net_state := w\<rparr>)"
    "delivers_all (net_state s) w (clients s) (frame (sendserialheader s) m [])"
    by (rule force_send_accept [OF Cons.prems(3-6) lm])
  have "no_report v (s\<lparr>net_state := w\<rparr>)" using Cons.prems(9) by (simp add: no_report_def)
  note send = w(1) [unfolded report_skipped [OF this]]
  note cp = copy_first [OF Cons.prems(7,8,1) m]
  obtain b' where b': "dlt_buffer_remove (env_malloc env) (client_ringbuffer s) = Some (int (length m), None, b')"
    "buffer_ok b'" "buffer_list b' = ms"
    using remove_first [OF Cons.prems(7,8,1)] by blast
  let ?s = "s\<lparr>net_state := w, client_ringbuffer := b', state := DLT_DAEMON_STATE_SEND_BUFFER\<rparr>"
  have sb: "(if state (s\<lparr>net_state := w, client_ringbuffer := b'\<rparr>) \<noteq> DLT_DAEMON_STATE_SEND_BUFFER
      then dlt_daemon_change_state (s\<lparr>net_state := w, client_ringbuffer := b'\<rparr>) DLT_DAEMON_STATE_SEND_BUFFER
      else s\<lparr>net_state := w, client_ringbuffer := b'\<rparr>) = ?s"
    by (cases s) (simp add: dlt_daemon_change_state_def)
  have same: "s\<lparr>net_state := w, client_ringbuffer := b'\<rparr> = ?s" if "state s = DLT_DAEMON_STATE_SEND_BUFFER"
    using that by (cases s) simp
  have crs: "s\<lparr>client_ringbuffer := client_ringbuffer s\<rparr> = s" by (cases s) simp
  have step: "flush_loop k (Suc n) env v data s = (if ms = []
      then Some (0, ?s\<lparr>state := DLT_DAEMON_STATE_SEND_DIRECT\<rparr>)
      else flush_loop k' (Suc n) env v ?data ?s)"
    unfolding k flush_loop.simps cp Let_def bind.simps option.case prod.case crs
    using m(1) send b' sb count_list [OF b'(2)]
    by (simp add: Let_def dlt_daemon_change_state_def same [symmetric])
  show ?case
  proof (cases "ms = []")
    case True
    with step w(2) b' show ?thesis by simp
  next
    case False
    have len: "length ?data = length data" using m(2) by simp
    have "\<exists>s'. flush_loop k' (Suc n) env v ?data ?s = Some (0, s')
      \<and> state s' = DLT_DAEMON_STATE_SEND_DIRECT \<and> buffer_ok (client_ringbuffer s')
      \<and> buffer_list (client_ringbuffer s') = [] \<and> ev s' = ev ?s
      \<and> delivers_all (net_state ?s) (net_state s') (clients ?s)
          (concat (map (\<lambda>m. frame (sendserialheader ?s) m []) ms))"
    proof (rule Cons.IH)
      show "buffer_list (client_ringbuffer ?s) = ms" "buffer_ok (client_ringbuffer ?s)"
        using b' by simp_all
      show "event_inv (ev ?s)" "all_accept env ?s" "external ?s" "clients ?s \<noteq> {}" "no_report v ?s"
        using Cons.prems(3-6,9) by (simp_all add: all_accept_def external_def clients_def no_report_def)
      show "length ?data < 2 ^ 31" "length ms \<le> k'" using Cons.prems(11,12) len k by simp_all
      show "m' \<noteq> [] \<and> length m' \<le> length ?data" if "m' \<in> set ms" for m'
        using Cons.prems(10) [of m'] that len by simp
    qed (use False Cons.prems(8) in simp_all)
    then obtain s' where s': "flush_loop k' (Suc n) env v ?data ?s = Some (0, s')"
      "state s' = DLT_DAEMON_STATE_SEND_DIRECT" "buffer_ok (client_ringbuffer s')"
      "buffer_list (client_ringbuffer s') = []" "ev s' = ev s"
      "delivers_all w (net_state s') (clients s) (concat (map (\<lambda>m. frame (sendserialheader s) m []) ms))"
      by (auto simp: clients_def)
    have "delivers_all (net_state s) (net_state s') (clients s)
        (concat (map (\<lambda>m. frame (sendserialheader s) m []) (m # ms)))"
      using w(2) s'(6) by (auto simp: delivers_all_def)
    with step False s' show ?thesis by auto
  qed
qed



section \<open>Properties\<close>

definition sample_send_env :: "unit send_env" where
  "sample_send_env = \<lparr>sys_send = (\<lambda>n fd d. if fd = 7 then -1 else int (length d)),
     sys_write = (\<lambda>n fd d. int (length d)), sys_isatty = (\<lambda>_. False), env_malloc = zero_malloc,
     env_pad = [0, 0, 0], env_log_state = (\<lambda>_ _ u. u), env_logstorage = (\<lambda>_ _. 0),
     env_overflow_msg = (\<lambda>_ _ _. Some ([], [1], [2])), env_info_msg = (\<lambda>_ _. Some ([], [3], [4])),
     env_log_msg = (\<lambda>_ _ _ _. Some ([], [5], [6]))\<rparr>"

definition good_send_env :: "unit send_env" where
  "good_send_env = sample_send_env\<lparr>sys_send := (\<lambda>n fd d. int (length d))\<rparr>"

definition sample_daemon :: "DltDaemonState \<Rightarrow> unit daemon" where
  "sample_daemon st = \<lparr>state = st, mode = DLT_USER_MODE_EXTERNAL, overflow_counter = 0,
     client_ringbuffer = sample_filled, sendserialheader = False, connectionState = 1,
     daemon_version = 1, users = (), offlineTraceDirectory = False, offlineLogstorageMaxDevices = 0,
     yvalue = False, ev = sample_clients, sent_message_overflow_cnt = (\<lambda>_. 0),
     offline_trace = [], logstorage = [], net_state = \<lparr>sys_calls = 0, wire = []\<rparr>\<rparr>"

lemma sample_env_good: "env_good 40 sample_send_env" "env_good 40 good_send_env"
  by (auto simp: env_good_def net_ok_def sample_send_env_def good_send_env_def zero_malloc_ok parts_fit_def)

lemma sample_daemon_ok: "daemon_ok 40 (sample_daemon st)"
  by (simp add: daemon_ok_def sample_daemon_def sample_clients_inv sample_filled_ok)

lemma sample_conns: "conns (sample_daemon st) = 2"
  by (simp add: conns_def sample_daemon_def sample_clients_def)

text \<open>
  C4. Every send returns, however many connections fail while it runs, and however deep the
  messages about closed connections and discarded messages nest: three nested sends for every
  connection and three more are enough. The connections and the ring buffer stay well formed and no
  connection is added.
\<close>

theorem client_send_returns:
  assumes "env_good mn env" "daemon_ok mn s" "parts_fit mn p" "3 * conns s + 2 < n"
  shows "(\<exists>ret s'. dlt_daemon_client_send n env sock p s = Some (ret, s') \<and> daemon_ok mn s' \<and> conns s' \<le> conns s)
    \<and> (\<exists>ret s'. dlt_daemon_client_send_v2 n env sock p s = Some (ret, s') \<and> daemon_ok mn s' \<and> conns s' \<le> conns s)"
proof -
  have "rank s < n" using assms(4) by (simp add: rank_def)
  from client_send_total [OF assms(1-3) this, of V1 sock] client_send_total [OF assms(1-3) this, of V2 sock]
  show ?thesis
    by (auto simp: dlt_daemon_client_send_def dlt_daemon_client_send_v2_def progress_def)
qed

theorem client_send_returns_witness:
  "\<exists>ret s'. dlt_daemon_client_send 9 sample_send_env DLT_DAEMON_SEND_TO_ALL ([], [1, 2], [3])
      (sample_daemon DLT_DAEMON_STATE_SEND_DIRECT) = Some (ret, s')
    \<and> daemon_ok 40 s' \<and> conns s' \<le> conns (sample_daemon DLT_DAEMON_STATE_SEND_DIRECT)"
  by (rule conjunct1 [OF client_send_returns [OF sample_env_good(1) sample_daemon_ok]])
    (simp_all add: parts_fit_def sample_conns)

text \<open>
  C23. While no client takes messages, a message for all clients goes to the end of the ring
  buffer, or it is discarded, counted and reported, and the daemon enters the state in which it
  discards every further message. Nothing is sent.
\<close>

theorem buffered_send:
  assumes "daemon_ok mn s" "env_good mn env" "parts_fit mn (h, d1, d2)"
    "state s \<in> {DLT_DAEMON_STATE_BUFFER, DLT_DAEMON_STATE_SEND_BUFFER, DLT_DAEMON_STATE_BUFFER_FULL}"
  shows "\<exists>ret s'. dlt_daemon_client_send (Suc n) env DLT_DAEMON_SEND_TO_ALL (h, d1, d2) s = Some (ret, s')
    \<and> net_state s' = net_state s \<and> ev s' = ev s
    \<and> (ret = DLT_DAEMON_ERROR_OK \<and> state s \<noteq> DLT_DAEMON_STATE_BUFFER_FULL \<and> state s' = state s
         \<and> overflow_counter s' = overflow_counter s
         \<and> buffer_list (client_ringbuffer s') = buffer_list (client_ringbuffer s) @ [d1 @ d2]
       \<or> ret = DLT_DAEMON_ERROR_BUFFER_FULL \<and> state s' = DLT_DAEMON_STATE_BUFFER_FULL
         \<and> overflow_counter s' = u32 (overflow_counter s + 1)
         \<and> buffer_list (client_ringbuffer s') = buffer_list (client_ringbuffer s))"
proof -
  define x where "x = (if state s \<noteq> DLT_DAEMON_STATE_SEND_BUFFER then store_offline env (h, d1, d2) s else (0, s))"
  have x: "net_state (snd x) = net_state s" "ev (snd x) = ev s" "state (snd x) = state s"
    "overflow_counter (snd x) = overflow_counter s" "client_ringbuffer (snd x) = client_ringbuffer s"
    by (simp_all add: x_def store_offline_def Let_def)
  have eq: "dlt_daemon_client_send (Suc n) env DLT_DAEMON_SEND_TO_ALL (h, d1, d2) s
      = buffer_message env d1 d2 (snd x)"
    using assms(4) x(3)
    by (auto simp: dlt_daemon_client_send_def send_external_def x_def Let_def split: prod.splits)
  have a: "buffer_ok (client_ringbuffer (snd x))" "malloc_ok (env_malloc env)" "length (env_pad env) = 3"
    "24 + length d1 + length d2 \<le> min_size (client_ringbuffer (snd x))"
    using assms x(5) by (auto simp: daemon_ok_def env_good_def parts_fit_def)
  then show ?thesis
  proof (cases rule: buffer_message_spec)
    case (stored b)
    with eq x show ?thesis by simp
  next
    case (full b)
    with eq x show ?thesis by simp
  qed
qed

theorem buffered_send_witness:
  "\<exists>ret s'. dlt_daemon_client_send (Suc 0) good_send_env DLT_DAEMON_SEND_TO_ALL ([], [1, 2], [3])
        (sample_daemon DLT_DAEMON_STATE_BUFFER) = Some (ret, s')
    \<and> net_state s' = net_state (sample_daemon DLT_DAEMON_STATE_BUFFER)
    \<and> ev s' = ev (sample_daemon DLT_DAEMON_STATE_BUFFER)
    \<and> (ret = DLT_DAEMON_ERROR_OK \<and> state (sample_daemon DLT_DAEMON_STATE_BUFFER) \<noteq> DLT_DAEMON_STATE_BUFFER_FULL
         \<and> state s' = state (sample_daemon DLT_DAEMON_STATE_BUFFER)
         \<and> overflow_counter s' = overflow_counter (sample_daemon DLT_DAEMON_STATE_BUFFER)
         \<and> buffer_list (client_ringbuffer s')
             = buffer_list (client_ringbuffer (sample_daemon DLT_DAEMON_STATE_BUFFER)) @ [[1, 2] @ [3]]
       \<or> ret = DLT_DAEMON_ERROR_BUFFER_FULL \<and> state s' = DLT_DAEMON_STATE_BUFFER_FULL
         \<and> overflow_counter s' = u32 (overflow_counter (sample_daemon DLT_DAEMON_STATE_BUFFER) + 1)
         \<and> buffer_list (client_ringbuffer s')
             = buffer_list (client_ringbuffer (sample_daemon DLT_DAEMON_STATE_BUFFER)))"
  by (rule buffered_send [OF sample_daemon_ok sample_env_good(2)])
    (simp_all add: parts_fit_def sample_daemon_def)

text \<open>
  C3. When clients are connected and accept everything, sending the ring buffer delivers every
  buffered message to every client, completely and in the order in which the messages were
  buffered, empties the buffer and switches to direct sending.
\<close>

theorem ringbuffer_delivered:
  assumes "event_inv (ev s)" "all_accept env s" "external s" "clients s \<noteq> {}"
    "buffer_ok (client_ringbuffer s)" "malloc_ok (env_malloc env)" "overflow_counter s \<le> 0"
    "\<And>m. m \<in> set (buffer_list (client_ringbuffer s)) \<Longrightarrow> m \<noteq> [] \<and> length m \<le> length data"
    "length data < 2 ^ 31" "length (buffer_list (client_ringbuffer s)) \<le> k"
  shows "\<exists>s'. dlt_daemon_send_ringbuffer_to_client k (Suc n) env v data s = Some (DLT_DAEMON_ERROR_OK, s')
    \<and> state s' = DLT_DAEMON_STATE_SEND_DIRECT \<and> buffer_list (client_ringbuffer s') = [] \<and> ev s' = ev s
    \<and> delivers_all (net_state s) (net_state s') (clients s)
        (concat (map (\<lambda>m. frame (sendserialheader s) m []) (buffer_list (client_ringbuffer s))))"
proof (cases "buffer_list (client_ringbuffer s) = []")
  case True
  with count_list [OF assms(5)] show ?thesis
    by (simp add: dlt_daemon_send_ringbuffer_to_client_def dlt_daemon_change_state_def delivers_all_def)
next
  case False
  have "no_report v s" using assms(7) by (simp add: no_report_def)
  from flush_accept [OF refl False assms(1-6) this assms(8-10), of n] False count_list [OF assms(5)]
  show ?thesis by (auto simp: dlt_daemon_send_ringbuffer_to_client_def)
qed

lemma good_accept: "all_accept good_send_env s"
proof -
  have "net_ok good_send_env" using sample_env_good(2) by (simp add: env_good_def)
  then show ?thesis
    by (auto simp: all_accept_def accepting_def good_send_env_def sample_send_env_def)
qed

lemma sample_clients_fds: "clients (sample_daemon st) = {7, 8}"
  by (auto simp: clients_def client_fds_def sample_daemon_def sample_clients_def sample_con_def
      is_client_def con_fd_def)

theorem ringbuffer_delivered_witness:
  "\<exists>s'. dlt_daemon_send_ringbuffer_to_client 1 (Suc 0) good_send_env V1 [0, 0, 0, 0]
        (sample_daemon DLT_DAEMON_STATE_SEND_BUFFER) = Some (DLT_DAEMON_ERROR_OK, s')
    \<and> state s' = DLT_DAEMON_STATE_SEND_DIRECT \<and> buffer_list (client_ringbuffer s') = []
    \<and> ev s' = ev (sample_daemon DLT_DAEMON_STATE_SEND_BUFFER)
    \<and> delivers_all (net_state (sample_daemon DLT_DAEMON_STATE_SEND_BUFFER)) (net_state s')
        (clients (sample_daemon DLT_DAEMON_STATE_SEND_BUFFER))
        (concat (map (\<lambda>m. frame (sendserialheader (sample_daemon DLT_DAEMON_STATE_SEND_BUFFER)) m [])
          (buffer_list (client_ringbuffer (sample_daemon DLT_DAEMON_STATE_SEND_BUFFER)))))"
  by (rule ringbuffer_delivered)
    (simp_all add: good_accept sample_clients_fds, simp_all add: sample_daemon_def external_def
      sample_clients_inv sample_filled_ok good_send_env_def sample_send_env_def zero_malloc_ok)

lemma send_refused:
  assumes "con_fd c = Some fd" "con_type c = DLT_CONNECTION_CLIENT_MSG_TCP"
    "\<And>n d. d \<noteq> [] \<Longrightarrow> sys_send env n fd d < 0" "d1 \<noteq> []" "length d1 < 2 ^ 31"
  shows "dlt_connection_send_multiple env c d1 d2 h w = Some (DLT_DAEMON_ERROR_SEND_FAILED, refused w)"
proof -
  have rel: "dlt_daemon_socket_sendreliable env fd d w = Some (DLT_DAEMON_ERROR_SEND_FAILED, refused w)"
    if "d \<noteq> []" for d w
    unfolding dlt_daemon_socket_sendreliable_def
    using that assms(3) [OF that] by (subst send_loop.simps) (simp add: Let_def)
  have "dlt_connection_send env c d w = Some (DLT_DAEMON_ERROR_SEND_FAILED, refused w)"
    if "d \<noteq> []" "length d < 2 ^ 31" for d w
    using that assms(1,2) rel by (auto simp: dlt_connection_send_def con_fd_def)
  from this [of dltSerialHeader w] this [of d1 w] assms(4,5) show ?thesis
    by (simp add: dlt_connection_send_multiple_def dltSerialHeader_def)
qed

lemma received_refused [simp]: "received (refused w) f = received w f"
  by (simp add: received_def refused_def)

text \<open>
  Closing one of several clients while the others accept everything: they get the messages
  about it.
\<close>

lemma close_direct:
  assumes inv: "event_inv (ev s)" and cs: "connections (pEvent (ev s)) = xs @ c # ys" "con_fd c = Some fd"
    and acc: "net_ok env" "\<And>d. d \<in> set (xs @ ys) \<Longrightarrow> is_client (con_type d) \<Longrightarrow> accepting env d"
      "client_fds (xs @ ys) \<noteq> {}"
    and s: "mode s = DLT_USER_MODE_EXTERNAL" "state s = DLT_DAEMON_STATE_SEND_DIRECT"
      "offlineLogstorageMaxDevices s \<le> 0" "overflow_counter s \<le> 0" "daemon_version s = 1"
    and env: "\<And>n. env_info_msg env V1 n = Some (h1, i1, i2)" "\<And>n k. env_log_msg env V1 n fd k = Some (h2, l1, l2)"
    and len: "length i1 < 2 ^ 31" "length i2 < 2 ^ 31" "length l1 < 2 ^ 31" "length l2 < 2 ^ 31"
  obtains e w where "dlt_daemon_close_socket (\<lambda>v. client_send (Suc n) env v DLT_DAEMON_SEND_TO_ALL) env fd s
      = Some (0, s\<lparr>ev := e, net_state := w\<rparr>)"
    "event_inv e" "connections (pEvent e) = xs @ ys"
    "delivers_all (net_state s) w (client_fds (xs @ ys))
       (frame (sendserialheader s) i1 i2 @ frame (sendserialheader s) l1 l2)"
proof -
  obtain e where e: "dlt_event_handler_unregister_connection (ev s) fd = Some (0, e)" "event_inv e"
    "connections (pEvent e) = xs @ ys" by (rule unregister_spec [OF inv cs])
  define F where "F = client_fds (xs @ ys)"
  have "filter (is_client \<circ> con_type) (xs @ ys) \<noteq> []" using acc(3) by (auto simp: client_fds_def filter_empty_conv)
  then have cc: "client_connections e \<noteq> 0"
    unfolding event_invD(6) [OF e(2)] e(3) of_nat_eq_0_iff length_0_conv .
  define s1 where "s1 w = s\<lparr>ev := e, net_state := w\<rparr>" for w
  have ready: "event_inv (ev (s1 w))" "all_accept env (s1 w)" "no_report V1 (s1 w)" "clients (s1 w) = F"
    "mode (s1 w) = DLT_USER_MODE_EXTERNAL" "state (s1 w) = DLT_DAEMON_STATE_SEND_DIRECT"
    "offlineLogstorageMaxDevices (s1 w) \<le> 0" "sendserialheader (s1 w) = sendserialheader s"
    "net_state (s1 w) = w" "(s1 w)\<lparr>net_state := w'\<rparr> = s1 w'" for w w'
    using e(2,3) acc s by (auto simp: s1_def all_accept_def no_report_def clients_def F_def)
  let ?send = "\<lambda>v. client_send (Suc n) env v DLT_DAEMON_SEND_TO_ALL"
  have one: "\<exists>w'. ?send V1 (h, d1, d2) (s1 w) = Some (0, s1 w') \<and> delivers_all w w' F (frame (sendserialheader s) d1 d2)"
    if "length d1 < 2 ^ 31" "length d2 < 2 ^ 31" for h d1 d2 w
    using direct_send_accept [OF ready(1,2,5-7,3) that, where n = n and h = h] unfolding ready(4,8-10) by blast
  obtain w2 where w2: "?send V1 (h1, i1, i2) (s1 (net_state s)) = Some (0, s1 w2)"
    "delivers_all (net_state s) w2 F (frame (sendserialheader s) i1 i2)" using one [OF len(1,2)] by blast
  obtain w3 where w3: "?send V1 (h2, l1, l2) (s1 w2) = Some (0, s1 w3)"
    "delivers_all w2 w3 F (frame (sendserialheader s) l1 l2)" using one [OF len(3,4)] by blast
  have lc: "last_client_left env V1 (s\<lparr>ev := e\<rparr>) = s1 (net_state s)"
    using cc by (cases s) (simp add: last_client_left_def s1_def)
  have "dlt_daemon_close_socket ?send env fd s = Some (0, s1 w3)"
    using e(1) s(5) lc w2(1) w3(1) env
    by (simp add: dlt_daemon_close_socket_def version_of_def send_built_def del: client_send.simps)
  moreover have "delivers_all (net_state s) w3 F
      (frame (sendserialheader s) i1 i2 @ frame (sendserialheader s) l1 l2)"
    using w2(2) w3(2) by (auto simp: delivers_all_def)
  ultimately show thesis using e(2,3) by (intro that [of w3 e]) (simp_all add: s1_def F_def)
qed

text \<open>
  C29. With two clients, a message whose transfer to the first one fails does not reach the
  second one either: closing the first connection moves the second one to the place in the
  table that the loop has just handled, so the loop misses it. The message is not buffered
  either, and the send reports success; the second client only gets the messages about the
  closed connection.
\<close>

theorem message_skips_next_client:
  assumes inv: "event_inv (ev s)" and cs: "connections (pEvent (ev s)) = [A, B]"
    and A: "con_type A = DLT_CONNECTION_CLIENT_MSG_TCP" "con_fd A = Some a"
      "\<And>n d. d \<noteq> [] \<Longrightarrow> sys_send env n a d < 0"
    and B: "con_type B = DLT_CONNECTION_CLIENT_MSG_TCP" "con_fd B = Some b" "accepting env B"
    and s: "mode s = DLT_USER_MODE_EXTERNAL" "state s = DLT_DAEMON_STATE_SEND_DIRECT"
      "offlineLogstorageMaxDevices s \<le> 0" "overflow_counter s \<le> 0" "daemon_version s = 1"
    and env: "net_ok env" "\<And>n. env_info_msg env V1 n = Some (h1, i1, i2)"
      "\<And>n k. env_log_msg env V1 n a k = Some (h2, l1, l2)"
    and len: "length i1 < 2 ^ 31" "length i2 < 2 ^ 31" "length l1 < 2 ^ 31" "length l2 < 2 ^ 31"
      "d1 \<noteq> []" "length d1 < 2 ^ 31"
  shows "\<exists>s'. dlt_daemon_client_send (Suc (Suc n)) env DLT_DAEMON_SEND_TO_ALL (h, d1, d2) s
        = Some (DLT_DAEMON_ERROR_OK, s')
    \<and> polled (pEvent (ev s')) = [b] \<and> client_ringbuffer s' = client_ringbuffer s
    \<and> received (net_state s') b = received (net_state s) b
        @ frame (sendserialheader s) i1 i2 @ frame (sendserialheader s) l1 l2"
proof -
  let ?s = "s\<lparr>net_state := refused (net_state s)\<rparr>"
  let ?send = "\<lambda>v. client_send (Suc n) env v DLT_DAEMON_SEND_TO_ALL"
  let ?cl = "\<lambda>fd s. map_option snd (dlt_daemon_close_socket ?send env fd s)"
  have F: "client_fds ([] @ [B]) = {b}" using B(1,2) by (auto simp: client_fds_def is_client_def)
  have pre: "event_inv (ev ?s)" "connections (pEvent (ev ?s)) = [] @ A # [B]" using inv cs by simp_all
  have acc: "\<And>d. d \<in> set ([] @ [B]) \<Longrightarrow> is_client (con_type d) \<Longrightarrow> accepting env d"
    "client_fds ([] @ [B]) \<noteq> {}" using B(3) F by simp_all
  have st: "mode ?s = DLT_USER_MODE_EXTERNAL" "state ?s = DLT_DAEMON_STATE_SEND_DIRECT"
    "offlineLogstorageMaxDevices ?s \<le> 0" "overflow_counter ?s \<le> 0" "daemon_version ?s = 1"
    using s by simp_all
  obtain e w where e: "dlt_daemon_close_socket ?send env a ?s = Some (0, ?s\<lparr>ev := e, net_state := w\<rparr>)"
    "event_inv e" "connections (pEvent e) = [] @ [B]"
    "delivers_all (net_state ?s) w (client_fds ([] @ [B]))
       (frame (sendserialheader ?s) i1 i2 @ frame (sendserialheader ?s) l1 l2)"
    by (rule close_direct [OF pre A(2) env(1) acc st env(2,3) len(1-4)])
  have pe: "polled (pEvent e) = [b]"
    using event_invD(2) [OF e(2)] e(3) B(2) by (auto simp: map_eq_Cons_conv Cons_eq_map_conv)
  have nf: "nfds (pEvent (ev s)) = 2" "nfds (pEvent e) = 1"
    using arg_cong [OF event_invD(2) [OF inv], of length] event_invD(1) [OF inv] cs
      arg_cong [OF event_invD(2) [OF e(2)], of length] event_invD(1) [OF e(2)] e(3)
    by (simp_all add: polled_def table_ok_def)
  then have 0: "0 < nfds (pEvent (ev s))" by simp
  note n0 = polled_nth [OF inv 0]
  have fd0: "pfd_fd (pfd (pEvent (ev s)) ! 0) = a" using n0(3) cs A(2) by simp
  obtain r where r: "receiver A = Some r" "rcv_fd r = a" using A(2) by (auto simp: con_fd_def)
  let ?s' = "s\<lparr>ev := e, net_state := w\<rparr>"
  have "dlt_daemon_client_send_all_multiple ?cl env d1 d2 s = Some (False, ?s')"
    using nf n0 fd0 cs r A(1) send_refused [OF A(2,1,3) len(5,6)] e(1)
    by (simp add: dlt_daemon_client_send_all_multiple_def numeral_2_eq_2 is_client_def del: client_send.simps)
  then have "dlt_daemon_client_send (Suc (Suc n)) env DLT_DAEMON_SEND_TO_ALL (h, d1, d2) s
      = report_overflow ?send env V1 ?s'"
    unfolding dlt_daemon_client_send_def client_send.simps(2) [of "Suc n"] using s
    by (simp add: send_external_def store_offline_def del: client_send.simps)
  also have "\<dots> = Some (DLT_DAEMON_ERROR_OK, ?s')"
    by (rule report_skipped) (use s(4) in \<open>simp add: no_report_def\<close>)
  finally show ?thesis using pe e(4) F by (simp add: delivers_all_def del: client_send.simps)
qed

theorem message_skips_next_client_witness:
  "\<exists>s'. dlt_daemon_client_send (Suc (Suc 0)) sample_send_env DLT_DAEMON_SEND_TO_ALL ([], [1], [2])
          (sample_daemon DLT_DAEMON_STATE_SEND_DIRECT) = Some (DLT_DAEMON_ERROR_OK, s')
    \<and> polled (pEvent (ev s')) = [8]
    \<and> client_ringbuffer s' = client_ringbuffer (sample_daemon DLT_DAEMON_STATE_SEND_DIRECT)
    \<and> received (net_state s') 8 = received (net_state (sample_daemon DLT_DAEMON_STATE_SEND_DIRECT)) 8
        @ frame (sendserialheader (sample_daemon DLT_DAEMON_STATE_SEND_DIRECT)) [3] [4]
        @ frame (sendserialheader (sample_daemon DLT_DAEMON_STATE_SEND_DIRECT)) [5] [6]"
  by (rule message_skips_next_client [where A = "sample_con 1 7 DLT_CONNECTION_CLIENT_MSG_TCP"
        and B = "sample_con 2 8 DLT_CONNECTION_CLIENT_MSG_TCP" and a = 7])
    (use sample_env_good(1) in \<open>simp_all add: env_good_def sample_daemon_def sample_clients_inv,
     simp_all add: sample_clients_def sample_con_def con_fd_def accepting_def sample_send_env_def\<close>)

text \<open>
  C30. If the report about discarded messages does not fit the full ring buffer while the buffer
  is being sent to a client, the counter that guards the report keeps its value: the report
  is taken to be under way from then on.
\<close>

theorem overflow_report_stuck:
  assumes inv: "event_inv (ev s)" and acc: "all_accept env s" "external s" "clients s \<noteq> {}" "length m < 2 ^ 31"
    and s: "state s = DLT_DAEMON_STATE_SEND_BUFFER" "overflow_counter s > 0" "sent_message_overflow_cnt s v = 0"
    and o: "\<And>n k. env_overflow_msg env v n k = Some (h, o1, o2)"
    and full: "dlt_buffer_push3 (env_malloc env) (env_pad env) (client_ringbuffer s) o1 o2 [] = Some (DLT_RETURN_ERROR, b)"
  shows "\<exists>s'. client_send (Suc (Suc n)) env v DLT_DAEMON_SEND_FORCE (h0, m, []) s = Some (DLT_DAEMON_ERROR_OK, s')
    \<and> sent_message_overflow_cnt s' v = 1 \<and> overflow_counter s' = u32 (overflow_counter s + 1)"
proof -
  obtain w where w: "client_send (Suc (Suc n)) env v DLT_DAEMON_SEND_FORCE (h0, m, []) s
      = report_overflow (\<lambda>v. client_send (Suc n) env v DLT_DAEMON_SEND_TO_ALL) env v (s\<lparr>net_state := w\<rparr>)"
    by (rule force_send_accept [OF inv acc])
  let ?s = "add_cnt v 1 (s\<lparr>net_state := w\<rparr>)"
  let ?s' = "?s\<lparr>client_ringbuffer := b, state := DLT_DAEMON_STATE_BUFFER_FULL,
     overflow_counter := u32 (overflow_counter s + 1)\<rparr>"
  have "filter (is_client \<circ> con_type) (connections (pEvent (ev s))) \<noteq> []"
    using acc(3) by (auto simp: clients_def client_fds_def filter_empty_conv)
  then have cc: "client_connections (ev s) > 0" unfolding event_invD(6) [OF inv] by simp
  have "client_send (Suc n) env v DLT_DAEMON_SEND_TO_ALL (h, o1, o2) ?s
      = Some (DLT_DAEMON_ERROR_BUFFER_FULL, ?s')"
    using s(1) full
    by (simp add: send_external_def buffer_message_def dlt_daemon_change_state_def add_cnt_def)
  then have "dlt_daemon_send_message_overflow (\<lambda>v. client_send (Suc n) env v DLT_DAEMON_SEND_TO_ALL) env v ?s
      = Some (DLT_DAEMON_ERROR_BUFFER_FULL, ?s')"
    unfolding dlt_daemon_send_message_overflow_def send_built_def o by simp
  then have "report_overflow (\<lambda>v. client_send (Suc n) env v DLT_DAEMON_SEND_TO_ALL) env v (s\<lparr>net_state := w\<rparr>)
      = Some (DLT_DAEMON_ERROR_OK, ?s')"
    unfolding report_overflow_def using s(2,3) cc by (simp del: client_send.simps)
  with w s(3) show ?thesis by simp
qed

definition sample_tight :: DltBuffer where
  "sample_tight = snd (the (dlt_buffer_push3 zero_malloc [0, 0, 0]
     (snd (the (dlt_buffer_init_dynamic zero_malloc null_buffer 40 40 40))) [1] [2] [3]))"

lemma sample_tight_full:
  "dlt_buffer_push3 zero_malloc [0, 0, 0] sample_tight [1] [2] [] = Some (DLT_RETURN_ERROR, sample_tight)"
  by code_simp

theorem overflow_report_stuck_witness:
  "\<exists>s'. client_send (Suc (Suc 0)) good_send_env V1 DLT_DAEMON_SEND_FORCE ([], [9], [])
      ((sample_daemon DLT_DAEMON_STATE_SEND_BUFFER)\<lparr>overflow_counter := 5, client_ringbuffer := sample_tight\<rparr>)
      = Some (DLT_DAEMON_ERROR_OK, s')
    \<and> sent_message_overflow_cnt s' V1 = 1 \<and> overflow_counter s' = u32 (5 + 1)"
proof -
  let ?s = "(sample_daemon DLT_DAEMON_STATE_SEND_BUFFER)\<lparr>overflow_counter := 5, client_ringbuffer := sample_tight\<rparr>"
  have cl: "clients ?s = {7, 8}" using sample_clients_fds by (simp add: clients_def)
  have env: "env_malloc good_send_env = zero_malloc" "env_pad good_send_env = [0, 0, 0]"
    "env_overflow_msg good_send_env V1 n k = Some ([], [1], [2])" for n k
    by (simp_all add: good_send_env_def sample_send_env_def)
  have "\<exists>s'. client_send (Suc (Suc 0)) good_send_env V1 DLT_DAEMON_SEND_FORCE ([], [9], []) ?s
      = Some (DLT_DAEMON_ERROR_OK, s')
    \<and> sent_message_overflow_cnt s' V1 = 1 \<and> overflow_counter s' = u32 (overflow_counter ?s + 1)"
    by (rule overflow_report_stuck [OF _ good_accept _ _ _ _ _ _ env(3)])
      (simp_all add: cl env sample_tight_full del: client_send.simps,
       simp_all add: sample_daemon_def sample_clients_inv external_def)
  then show ?thesis by (simp del: client_send.simps)
qed

text \<open>Sends one after the other, with what they return.\<close>

fun send_messages :: "nat \<Rightarrow> 'u send_env \<Rightarrow> protocol \<Rightarrow> parts list \<Rightarrow> 'u daemon \<Rightarrow> (int list \<times> 'u daemon) option" where
  "send_messages n env v [] s = Some ([], s)"
| "send_messages n env v (p # ps) s = do {
     (ret, s) \<leftarrow> client_send n env v DLT_DAEMON_SEND_TO_ALL p s;
     (rets, s) \<leftarrow> send_messages n env v ps s;
     Some (ret # rets, s)
   }"

lemma direct_sends_accept:
  assumes "event_inv (ev s)" "all_accept env s" "mode s = DLT_USER_MODE_EXTERNAL"
    "state s = DLT_DAEMON_STATE_SEND_DIRECT" "offlineLogstorageMaxDevices s \<le> 0" "no_report v s"
    "\<forall>(h, d1, d2)\<in>set ps. length d1 < 2 ^ 31 \<and> length d2 < 2 ^ 31"
  shows "\<exists>w. send_messages (Suc n) env v ps s = Some (replicate (length ps) DLT_DAEMON_ERROR_OK, s\<lparr>net_state := w\<rparr>)
    \<and> delivers_all (net_state s) w (clients s) (concat (map (\<lambda>(h, d1, d2). frame (sendserialheader s) d1 d2) ps))"
  using assms
proof (induction ps arbitrary: s)
  case Nil
  then show ?case by (auto simp: delivers_all_def intro!: exI [of _ "net_state s"])
next
  case (Cons p ps)
  obtain h d1 d2 where p: "p = (h, d1, d2)" by (cases p)
  have len: "length d1 < 2 ^ 31" "length d2 < 2 ^ 31" using Cons.prems(7) by (auto simp: p)
  obtain w1 where w1: "client_send (Suc n) env v DLT_DAEMON_SEND_TO_ALL (h, d1, d2) s = Some (0, s\<lparr>net_state := w1\<rparr>)"
    "delivers_all (net_state s) w1 (clients s) (frame (sendserialheader s) d1 d2)"
    by (rule direct_send_accept [OF Cons.prems(1-6) len, where n = n and h = h])
  let ?s = "s\<lparr>net_state := w1\<rparr>"
  have same: "clients ?s = clients s" "all_accept env ?s" "no_report v ?s"
    using Cons.prems(2,6) by (simp_all add: clients_def all_accept_def no_report_def)
  obtain w where w: "send_messages (Suc n) env v ps ?s = Some (replicate (length ps) DLT_DAEMON_ERROR_OK, s\<lparr>net_state := w\<rparr>)"
    "delivers_all w1 w (clients s) (concat (map (\<lambda>(h, d1, d2). frame (sendserialheader s) d1 d2) ps))"
    using Cons.IH [of ?s] Cons.prems same by auto
  then show ?case using w1
    by (intro exI [of _ w]) (auto simp: p delivers_all_def DLT_DAEMON_ERROR_OK_def simp del: client_send.simps)
qed

text \<open>
  C31. While that counter is set, sending never tells the clients that messages were discarded, although they
  are connected and take every message: any number of messages of that protocol version are delivered to every client
  one after the other, and nothing else is; the number of discarded messages and the counter stay as they are.
\<close>

theorem overflow_never_reported:
  assumes "event_inv (ev s)" "all_accept env s" "mode s = DLT_USER_MODE_EXTERNAL"
    "state s = DLT_DAEMON_STATE_SEND_DIRECT" "offlineLogstorageMaxDevices s \<le> 0"
    "sent_message_overflow_cnt s v = 1" "\<forall>(h, d1, d2)\<in>set ps. length d1 < 2 ^ 31 \<and> length d2 < 2 ^ 31"
  shows "\<exists>s'. send_messages (Suc n) env v ps s = Some (replicate (length ps) DLT_DAEMON_ERROR_OK, s')
    \<and> delivers_all (net_state s) (net_state s') (clients s) (concat (map (\<lambda>(h, d1, d2). frame (sendserialheader s) d1 d2) ps))
    \<and> overflow_counter s' = overflow_counter s \<and> sent_message_overflow_cnt s' v = 1
    \<and> client_ringbuffer s' = client_ringbuffer s"
proof -
  have no: "no_report v s" using assms(6) by (simp add: no_report_def)
  obtain w where "send_messages (Suc n) env v ps s = Some (replicate (length ps) DLT_DAEMON_ERROR_OK, s\<lparr>net_state := w\<rparr>)"
    "delivers_all (net_state s) w (clients s) (concat (map (\<lambda>(h, d1, d2). frame (sendserialheader s) d1 d2) ps))"
    using direct_sends_accept [OF assms(1-5) no assms(7), of n] by blast
  then show ?thesis by (intro exI [of _ "s\<lparr>net_state := w\<rparr>"]) (simp add: assms(6))
qed

theorem overflow_never_reported_witness:
  "\<exists>s'. send_messages (Suc 0) good_send_env V1 [([], [1], [2]), ([], [3], [])]
      ((sample_daemon DLT_DAEMON_STATE_SEND_DIRECT)\<lparr>overflow_counter := 5, sent_message_overflow_cnt := \<lambda>_. 1\<rparr>)
      = Some ([DLT_DAEMON_ERROR_OK, DLT_DAEMON_ERROR_OK], s')
    \<and> delivers_all (net_state (sample_daemon DLT_DAEMON_STATE_SEND_DIRECT)) (net_state s') {7, 8} (frame False [1] [2] @ frame False [3] [])
    \<and> overflow_counter s' = 5 \<and> sent_message_overflow_cnt s' V1 = 1 \<and> client_ringbuffer s' = sample_filled"
proof -
  let ?s = "(sample_daemon DLT_DAEMON_STATE_SEND_DIRECT)\<lparr>overflow_counter := 5, sent_message_overflow_cnt := \<lambda>_. 1\<rparr>"
  let ?ps = "[([], [1], [2]), ([], [3], [])] :: parts list"
  have cl: "clients ?s = {7, 8}" using sample_clients_fds by (simp add: clients_def)
  have "\<exists>s'. send_messages (Suc 0) good_send_env V1 ?ps ?s = Some (replicate (length ?ps) DLT_DAEMON_ERROR_OK, s')
    \<and> delivers_all (net_state ?s) (net_state s') (clients ?s) (concat (map (\<lambda>(h, d1, d2). frame (sendserialheader ?s) d1 d2) ?ps))
    \<and> overflow_counter s' = overflow_counter ?s \<and> sent_message_overflow_cnt s' V1 = 1
    \<and> client_ringbuffer s' = client_ringbuffer ?s"
    by (rule overflow_never_reported) (simp_all add: good_accept sample_daemon_def sample_clients_inv)
  moreover have "replicate (length ?ps) x = [x, x]" for x by (simp add: numeral_2_eq_2)
  ultimately show ?thesis unfolding cl by (simp add: sample_daemon_def del: send_messages.simps)
qed

end
