(* ===== verification/Dlt_Control.thy ===== *)
theory Dlt_Control
  imports Dlt_Send
begin

text \<open>
  Messages the daemon builds itself or forwards (\<^verbatim>\<open>src/daemon/dlt_daemon_client.c\<close>): control
  messages, and messages of applications on their way to the clients. The time of day, the time
  since start-up and the identifier of the control unit are arguments.
\<close>

section \<open>Operations\<close>

text \<open>Writing an identifier into a block.\<close>

definition store_id :: "bytes \<Rightarrow> nat \<Rightarrow> bytes \<Rightarrow> bytes option" where
  "store_id blk off text = do {
     i \<leftarrow> load_at blk off DLT_ID_SIZE;
     i \<leftarrow> dlt_set_id i text;
     store_at blk off i
   }"

definition or_default :: "bytes \<Rightarrow> string \<Rightarrow> bytes option" where
  "or_default text dflt = do { c \<leftarrow> byte_at text 0; Some (if c = 0 then cstr dflt else text) }"

text \<open>The payload of a message as it is handed to the send function.\<close>

definition payload_arg :: "DltMessage \<Rightarrow> bytes option" where
  "payload_arg msg = (case databuffer msg of None \<Rightarrow> Some [] | Some d \<Rightarrow> load_at d 0 (nat (datasize msg)))"

definition message_parts :: "DltMessage \<Rightarrow> parts option" where
  "message_parts msg = do {
     sh \<leftarrow> load_at (headerbuffer msg) 0 sizeof_DltStorageHeader;
     hd \<leftarrow> load_at (headerbuffer msg) sizeof_DltStorageHeader (nat (headersize msg - int sizeof_DltStorageHeader));
     d \<leftarrow> payload_arg msg;
     Some (sh, hd, d)
   }"

text \<open>
  The headers of a control response: \<open>0x35\<close> stands for an extended header, control unit,
  timestamp and version 1, \<open>0x26\<close> for a control response.
\<close>

definition control_headers ::
  "int \<times> int \<Rightarrow> nat \<Rightarrow> bytes \<Rightarrow> bytes \<Rightarrow> bytes \<Rightarrow> DltMessage \<Rightarrow> DltMessage option" where
  "control_headers tv uptime ecuid apid ctid msg = do {
     (_, hb) \<leftarrow> dlt_set_storageheader tv (headerbuffer msg) 0 ecuid;
     hb \<leftarrow> store_at hb sizeof_DltStorageHeader [0x35, 0];
     e \<leftarrow> dlt_set_id (ecu (headerextra msg)) ecuid;
     (_, msg) \<leftarrow> dlt_message_set_extraparameters (msg\<lparr>headerbuffer := hb, storageheader := Some 0,
        standardheader := Some sizeof_DltStorageHeader,
        headerextra := (headerextra msg)\<lparr>ecu := e, tmsp := uptime\<rparr>\<rparr>);
     let p = sizeof_DltStorageHeader + sizeof_DltStandardHeader + DLT_STANDARD_HEADER_EXTRA_SIZE 0x35;
     hb \<leftarrow> store_at (headerbuffer msg) p [0x26, 1];
     a \<leftarrow> or_default apid ''DA1'';
     hb \<leftarrow> store_id hb (p + 2) a;
     c \<leftarrow> or_default ctid ''DC1'';
     hb \<leftarrow> store_id hb (p + 6) c;
     Some (msg\<lparr>headerbuffer := hb, extendedheader := Some p,
       headersize := int (sizeof_DltStorageHeader + sizeof_DltStandardHeader + sizeof_DltExtendedHeader
         + DLT_STANDARD_HEADER_EXTRA_SIZE 0x35)\<rparr>)
   }"

text \<open>The result is an error code or the message to send.\<close>

definition control_message ::
  "int \<times> int \<Rightarrow> nat \<Rightarrow> bytes \<Rightarrow> bytes \<Rightarrow> bytes \<Rightarrow> DltMessage \<Rightarrow> (int + parts) option" where
  "control_message tv uptime ecuid apid ctid msg = do {
     msg \<leftarrow> control_headers tv uptime ecuid apid ctid msg;
     let len = i32 (headersize msg - int sizeof_DltStorageHeader + datasize msg);
     if len > 65535 then Some (Inl DLT_DAEMON_ERROR_UNKNOWN)
     else do {
       hb \<leftarrow> store_at (headerbuffer msg) (sizeof_DltStorageHeader + 2) (be_bytes 2 (nat (u16 len)));
       map_option Inr (message_parts (msg\<lparr>headerbuffer := hb\<rparr>))
     }
   }"

definition dlt_daemon_client_send_control_message ::
  "nat \<Rightarrow> 'u send_env \<Rightarrow> int \<times> int \<Rightarrow> nat \<Rightarrow> bytes \<Rightarrow> int \<Rightarrow> DltMessage \<Rightarrow> bytes \<Rightarrow> bytes \<Rightarrow>
   'u daemon \<Rightarrow> (int \<times> 'u daemon) option" where
  "dlt_daemon_client_send_control_message n env tv uptime ecuid sock msg apid ctid s = do {
     r \<leftarrow> control_message tv uptime ecuid apid ctid msg;
     (case r of
        Inl e \<Rightarrow> Some (e, s)
      | Inr p \<Rightarrow> dlt_daemon_client_send n env sock p s)
   }"

text \<open>Filling the storage header and sending.\<close>

definition forward_message ::
  "nat \<Rightarrow> 'u send_env \<Rightarrow> int \<times> int \<Rightarrow> bytes \<Rightarrow> DltMessage \<Rightarrow> 'u daemon \<Rightarrow> (int \<times> DltMessage \<times> 'u daemon) option"
where
  "forward_message n env tv ecuid msg s = do {
     h \<leftarrow> std_htyp msg;
     off \<leftarrow> storageheader msg;
     (_, hb) \<leftarrow> dlt_set_storageheader tv (headerbuffer msg) off
                  (if DLT_IS_HTYP_WEID h then ecu (headerextra msg) else ecuid);
     let msg = msg\<lparr>headerbuffer := hb\<rparr>;
     p \<leftarrow> message_parts msg;
     (ret, s) \<leftarrow> dlt_daemon_client_send n env DLT_DAEMON_SEND_TO_ALL p s;
     Some (ret, msg, s)
   }"

text \<open>
  Forwarding a message: if the daemon was started with an identifier of its own (\<open>evalue\<close>),
  messages that carry the default identifier get it.
\<close>

definition dlt_daemon_client_send_message_to_all_client ::
  "nat \<Rightarrow> 'u send_env \<Rightarrow> int \<times> int \<Rightarrow> bool \<Rightarrow> bytes \<Rightarrow> DltMessage \<Rightarrow> 'u daemon \<Rightarrow>
   (int \<times> DltMessage \<times> 'u daemon) option" where
  "dlt_daemon_client_send_message_to_all_client n env tv evalue ecuid msg s = do {
     msg \<leftarrow> (if evalue \<and> chars 4 (ecu (headerextra msg)) = str ''ECU1'' then do {
               e \<leftarrow> dlt_set_id (ecu (headerextra msg)) ecuid;
               (_, msg) \<leftarrow> dlt_message_set_extraparameters (msg\<lparr>headerextra := (headerextra msg)\<lparr>ecu := e\<rparr>\<rparr>);
               Some (msg\<lparr>headerextra := (headerextra msg)\<lparr>tmsp := swap32 (tmsp (headerextra msg))\<rparr>\<rparr>)
             }
             else Some msg);
     forward_message n env tv ecuid msg s
   }"


section \<open>Control messages\<close>

text \<open>The parts of a header buffer: storage header, standard header, ids and timestamp, extended header.\<close>

lemma headerbuffer_parts:
  assumes "length (hb :: bytes) = 42"
  obtains sh f l x e r where "hb = sh @ f @ l @ x @ e @ r" "length sh = 16" "length f = 2" "length l = 2"
    "length x = 8" "length e = 10" "length r = 4"
proof
  show "hb = take 16 hb @ take 2 (drop 16 hb) @ take 2 (drop 18 hb) @ take 8 (drop 20 hb)
      @ take 10 (drop 28 hb) @ drop 38 hb"
    by (simp add: take_drop_join)
qed (use assms in simp_all)

definition storage_bytes :: "int \<times> int \<Rightarrow> bytes \<Rightarrow> bytes" where
  "storage_bytes tv ecuid = storage_pattern @ le_bytes 4 (nat (u32 (fst tv)))
     @ le_bytes 4 (nat (u32 (snd tv))) @ id4 ecuid"

lemma length_storage_pattern [simp]: "length storage_pattern = 4"
  by (simp add: storage_pattern_def)

lemma length_storage_bytes [simp]: "length (storage_bytes tv ecuid) = 16"
  by (simp add: storage_bytes_def)

lemma set_storageheader_spec:
  assumes "16 \<le> length blk" "readable 4 ecuid"
  shows "dlt_set_storageheader tv blk 0 ecuid = Some (DLT_RETURN_OK, storage_bytes tv ecuid @ drop 16 blk)"
proof -
  define p u v e where "p = take 4 blk" and "u = take 4 (drop 4 blk)" and "v = take 4 (drop 8 blk)"
    and "e = take 4 (drop 12 blk)"
  have l: "length p = 4" "length u = 4" "length v = 4" "length e = 4"
    using assms(1) by (simp_all add: p_def u_def v_def e_def)
  have blk: "blk = p @ u @ v @ e @ drop 16 blk"
    by (simp add: p_def u_def v_def e_def take_drop_join)
  have "dlt_set_id e ecuid = Some (id4 ecuid)" using l(4) assms(2) by (simp add: set_id_spec)
  with l have "dlt_set_storageheader tv (p @ u @ v @ e @ r) 0 ecuid = Some (DLT_RETURN_OK, storage_bytes tv ecuid @ r)" for r
    by (simp add: dlt_set_storageheader_def mem_simps storage_bytes_def)
  from this [of "drop 16 blk"] show ?thesis unfolding blk [symmetric] .
qed

lemma store_id_spec:
  assumes "off + 4 \<le> length blk" "readable 4 text"
  shows "store_id blk off text = Some (take off blk @ id4 text @ drop (off + 4) blk)"
  using assms by (simp add: store_id_def load_at_def set_id_spec store_at_def)

lemma size_35: "DLT_STANDARD_HEADER_EXTRA_SIZE 0x35 = 8" "header_len 0x35 = 22" "DLT_IS_HTYP_UEH 0x35"
  "DLT_IS_HTYP_WEID 0x35" "\<not> DLT_IS_HTYP_WSID 0x35" "DLT_IS_HTYP_WTMS 0x35"
  by (simp_all add: header_len_def extra_header_size_def DLT_STANDARD_HEADER_EXTRA_SIZE_def
      DLT_IS_HTYP_UEH_def DLT_IS_HTYP_WEID_def DLT_IS_HTYP_WSID_def DLT_IS_HTYP_WTMS_def)

definition id_readable :: "bytes \<Rightarrow> bool" where
  "id_readable t \<longleftrightarrow> t \<noteq> [] \<and> readable 4 t"

definition named_id :: "bytes \<Rightarrow> string \<Rightarrow> bytes" where
  "named_id t dflt = id4 (if t ! 0 = 0 then cstr dflt else t)"

lemma or_default_spec:
  assumes "id_readable t" "length dflt \<le> 3"
  obtains t' where "or_default t dflt = Some t'" "readable 4 t'" "id4 t' = named_id t dflt"
  using assms by (cases "t ! 0 = 0")
    (auto simp: or_default_def byte_at_def id_readable_def named_id_def cstr_def readable_def)

definition control_extra :: "bytes \<Rightarrow> nat \<Rightarrow> DltMessage \<Rightarrow> DltStandardHeaderExtra" where
  "control_extra ecuid uptime msg = \<lparr>ecu = id4 ecuid, seid = seid (headerextra msg), tmsp = uptime\<rparr>"

definition control_ext :: "bytes \<Rightarrow> bytes \<Rightarrow> bytes" where
  "control_ext apid ctid = [0x26, 1] @ named_id apid ''DA1'' @ named_id ctid ''DC1''"

lemma length_control_ext [simp]: "length (control_ext apid ctid) = 10"
  by (simp add: control_ext_def named_id_def)

lemma control_headers_spec:
  assumes m: "length (headerbuffer msg) = 42" "length (ecu (headerextra msg)) = 4"
    and ids: "readable 4 ecuid" "id_readable apid" "id_readable ctid"
  shows "\<exists>m' l r. control_headers tv uptime ecuid apid ctid msg = Some m' \<and> headersize m' = 38
    \<and> datasize m' = datasize msg \<and> databuffer m' = databuffer msg \<and> length l = 2
    \<and> headerbuffer m' = storage_bytes tv ecuid @ [0x35, 0] @ l
        @ extra_bytes 0x35 (control_extra ecuid uptime msg) @ control_ext apid ctid @ r"
proof -
  obtain sh f l x e r where hb: "headerbuffer msg = sh @ f @ l @ x @ e @ r" and len: "length sh = 16" "length f = 2"
    "length l = 2" "length x = 8" "length e = 10" "length r = 4" by (rule headerbuffer_parts [OF m(1)])
  define g k where "g = [0x35, 0 :: byte]" and "k = [0x26, 1 :: byte]"
  have gk: "length g = 2" "length k = 2" by (simp_all add: g_def k_def)
  let ?S = "storage_bytes tv ecuid"
  define X where "X = extra_bytes 0x35 (control_extra ecuid uptime msg)"
  have X: "length X = 8" by (simp add: X_def control_extra_def size_35)
  define m1 where "m1 = msg\<lparr>headerbuffer := ?S @ g @ l @ x @ e @ r, storageheader := Some 0,
      standardheader := Some 16, headerextra := (headerextra msg)\<lparr>ecu := id4 ecuid, tmsp := uptime\<rparr>\<rparr>"
  have "(?S @ g @ l @ x @ e @ r) ! 16 = 0x35" by (simp add: nth_append g_def)
  then have "dlt_message_set_extraparameters m1 = Some (DLT_RETURN_OK, m1\<lparr>
      headerbuffer := take 20 (headerbuffer m1) @ extra_bytes 0x35 (headerextra m1) @ drop 28 (headerbuffer m1),
      headerextra := swapped_extra 0x35 (headerextra m1)\<rparr>)"
    using set_extra [where m = m1 and h = "0x35"] len gk size_35(1) by (simp add: m1_def)
  moreover have "headerextra m1 = control_extra ecuid uptime msg"
    by (cases "headerextra msg") (simp add: m1_def control_extra_def)
  moreover have "take 20 (headerbuffer m1) = ?S @ g @ l" "drop 28 (headerbuffer m1) = e @ r"
    using len gk by (simp_all add: m1_def)
  ultimately have ex: "dlt_message_set_extraparameters m1 = Some (DLT_RETURN_OK, m1\<lparr>
      headerbuffer := ?S @ g @ l @ X @ e @ r, headerextra := swapped_extra 0x35 (headerextra m1)\<rparr>)"
    by (simp add: X_def)
  obtain a where a: "or_default apid ''DA1'' = Some a" "readable 4 a" "id4 a = named_id apid ''DA1''"
    using or_default_spec [OF ids(2), of "''DA1''"] by auto
  obtain c where c: "or_default ctid ''DC1'' = Some c" "readable 4 c" "id4 c = named_id ctid ''DC1''"
    using or_default_spec [OF ids(3), of "''DC1''"] by auto
  have st: "dlt_set_storageheader tv (headerbuffer msg) 0 ecuid = Some (DLT_RETURN_OK, ?S @ f @ l @ x @ e @ r)"
    using set_storageheader_spec [where blk = "headerbuffer msg" and tv = tv, OF _ ids(1)] m(1) len(1) by (simp add: hb)
  have id: "dlt_set_id (ecu (headerextra msg)) ecuid = Some (id4 ecuid)" using m(2) ids(1) by (simp add: set_id_spec)
  have f: "store_at (?S @ f @ l @ x @ e @ r) 16 g = Some (?S @ g @ l @ x @ e @ r)" using len gk by (simp add: mem_simps)
  define A where "A = ?S @ g @ l @ X"
  have A: "length A = 28" "length (k @ id4 a) = 6" using len gk X by (simp_all add: A_def)
  have e1: "store_at (A @ e @ r) 28 k = Some (A @ k @ drop 2 e @ r)"
    using A len gk by (simp add: store_at_def)
  have e2: "store_id (A @ k @ drop 2 e @ r) 30 a = Some (A @ k @ id4 a @ drop 6 e @ r)"
    using A len gk a(2) by (simp add: store_id_spec)
  have e3: "store_id (A @ k @ id4 a @ drop 6 e @ r) 34 c = Some (A @ k @ id4 a @ id4 c @ r)"
    using A len gk c(2) by (simp add: store_id_spec)
  let ?m = "m1\<lparr>headerbuffer := A @ k @ id4 a @ id4 c @ r, headerextra := swapped_extra 0x35 (headerextra m1),
      extendedheader := Some 28, headersize := 38\<rparr>"
  have "control_headers tv uptime ecuid apid ctid msg = Some ?m"
    unfolding control_headers_def g_def [symmetric] k_def [symmetric] Let_def size_35(1)
    using st id f ex a(1) c(1) e1 e2 e3 by (simp add: m1_def [symmetric] A_def)
  then show ?thesis using len(3)
    by (intro exI [of _ ?m] exI [of _ l] exI [of _ r])
      (simp add: A_def X_def g_def k_def control_ext_def a(3) c(3) m1_def)
qed


lemma control_message_fits:
  assumes "length (headerbuffer msg) = 42" "length (ecu (headerextra msg)) = 4" "seid (headerextra msg) < 2 ^ 32"
    "readable 4 ecuid" "id_readable apid" "id_readable ctid" "uptime < 2 ^ 32"
    "databuffer msg = Some d" "datasize msg = int n" "n \<le> length d" "n < 65514"
  shows "\<exists>hd. control_message tv uptime ecuid apid ctid msg = Some (Inr (storage_bytes tv ecuid, hd, take n d))
    \<and> hd @ take n d = message_bytes 0x35 0 (control_extra ecuid uptime msg) (control_ext apid ctid) (take n d)
    \<and> message_ok 0x35 (control_extra ecuid uptime msg) (control_ext apid ctid) (take n d)"
proof -
  define X E where "X = extra_bytes 0x35 (control_extra ecuid uptime msg)" and "E = control_ext apid ctid"
  obtain m' l r where m': "control_headers tv uptime ecuid apid ctid msg = Some m'" "headersize m' = 38"
    "datasize m' = datasize msg" "databuffer m' = databuffer msg" "length l = 2"
    "headerbuffer m' = storage_bytes tv ecuid @ [0x35, 0] @ l @ X @ E @ r"
    unfolding X_def E_def using control_headers_spec [OF assms(1,2,4-6)] by blast
  have len: "length X = 8" "length E = 10" by (simp_all add: X_def E_def control_extra_def size_35)
  define g where "g = [0x35, 0 :: byte]"
  let ?hd = "g @ be_bytes 2 (22 + n) @ X @ E"
  have l: "length g = 2" "length ?hd = 22" using len by (simp_all add: g_def)
  have u: "i32 (int (22 + n)) = int (22 + n)" "u16 (int (22 + n)) = int (22 + n)" "nat (22 + int n) = 22 + n"
    using assms(11) by (simp_all add: c_casts nat_add_distrib)
  have st: "store_at (headerbuffer m') 18 (be_bytes 2 (22 + n)) = Some (storage_bytes tv ecuid @ ?hd @ r)"
    using m'(5,6) l(1) by (simp add: g_def [symmetric] mem_simps)
  have ld: "load_at (storage_bytes tv ecuid @ ?hd @ r) 16 22 = Some ?hd"
    "load_at (storage_bytes tv ecuid @ ?hd @ r) 0 16 = Some (storage_bytes tv ecuid)"
    using l(2) by (simp_all only: mem_simps length_storage_bytes diff_self_eq_0 order_refl)
  have "control_message tv uptime ecuid apid ctid msg = Some (Inr (storage_bytes tv ecuid, ?hd, take n d))"
    unfolding control_message_def Let_def using m' assms(8-11) u st ld
    by (simp add: message_parts_def payload_arg_def load_at_def [of d] del: append_assoc)
  moreover have "?hd @ take n d
      = message_bytes 0x35 0 (control_extra ecuid uptime msg) (control_ext apid ctid) (take n d)"
    using assms(10) by (simp add: message_bytes_def X_def E_def g_def size_35 min_def)
  moreover have "message_ok 0x35 (control_extra ecuid uptime msg) (control_ext apid ctid) (take n d)"
    using assms(3,7,10,11) by (simp add: message_ok_def extra_ok_def control_extra_def size_35)
  ultimately show ?thesis by blast
qed

lemma control_message_too_long:
  assumes "length (headerbuffer msg) = 42" "length (ecu (headerextra msg)) = 4"
    "readable 4 ecuid" "id_readable apid" "id_readable ctid" "datasize msg = int n" "65514 \<le> n" "n < 2 ^ 31 - 22"
  shows "control_message tv uptime ecuid apid ctid msg = Some (Inl DLT_DAEMON_ERROR_UNKNOWN)"
proof -
  obtain m' where m': "control_headers tv uptime ecuid apid ctid msg = Some m'" "headersize m' = 38" "datasize m' = datasize msg"
    using control_headers_spec [OF assms(1-5)] by blast
  moreover have "i32 (22 + int n) = 22 + int n" using assms(8) by (simp add: c_casts)
  ultimately show ?thesis using assms(6,7) by (simp add: control_message_def Let_def)
qed

text \<open>
  C20. A control message the daemon sends can be read by every client: it is a well formed message with
  the identifier of the control unit, the time since start-up, the flags of a control response, the
  application and context identifiers that were asked for or the default ones, and the payload. A payload with which the
  message would be longer than its length field can say is refused with an error, and nothing is sent.
\<close>

theorem control_message_wellformed:
  assumes "length (headerbuffer msg) = 42" "length (ecu (headerextra msg)) = 4" "seid (headerextra msg) < 2 ^ 32"
    "readable 4 ecuid" "id_readable apid" "id_readable ctid" "uptime < 2 ^ 32"
    "databuffer msg = Some d" "datasize msg = int n" "n \<le> length d" "n < 2 ^ 31 - 22"
  shows "if n < 65514
    then \<exists>hd. control_message tv uptime ecuid apid ctid msg = Some (Inr (storage_bytes tv ecuid, hd, take n d))
      \<and> hd @ take n d = message_bytes 0x35 0 (control_extra ecuid uptime msg) (control_ext apid ctid) (take n d)
      \<and> message_ok 0x35 (control_extra ecuid uptime msg) (control_ext apid ctid) (take n d)
    else dlt_daemon_client_send_control_message k env tv uptime ecuid sock msg apid ctid s = Some (DLT_DAEMON_ERROR_UNKNOWN, s)"
  using control_message_fits [OF assms(1-10)] control_message_too_long [OF assms(1,2,4-6,9) _ assms(11)]
  by (simp add: dlt_daemon_client_send_control_message_def)

definition sample_control :: DltMessage where
  "sample_control = empty_message\<lparr>databuffer := Some [1, 2, 3], databuffersize := 3, datasize := 3\<rparr>"

theorem control_message_wellformed_witness:
  "\<exists>hd. control_message (1, 2) 5 [0x45, 0x43, 0x55, 0x31] [0] (cstr ''CTX'') sample_control
      = Some (Inr (storage_bytes (1, 2) [0x45, 0x43, 0x55, 0x31], hd, take 3 [1, 2, 3]))
    \<and> hd @ take 3 [1, 2, 3] = message_bytes 0x35 0 (control_extra [0x45, 0x43, 0x55, 0x31] 5 sample_control)
        (control_ext [0] (cstr ''CTX'')) (take 3 [1, 2, 3])
    \<and> message_ok 0x35 (control_extra [0x45, 0x43, 0x55, 0x31] 5 sample_control)
        (control_ext [0] (cstr ''CTX'')) (take 3 [1, 2, 3])"
  using control_message_wellformed [of sample_control "[0x45, 0x43, 0x55, 0x31]" "[0]" "cstr ''CTX''" 5 "[1, 2, 3]" 3 "(1, 2)"]
  by (simp add: sample_control_def empty_message_def dlt_message_init_def id_readable_def readable_def cstr_def str_def)


section \<open>Forwarding\<close>

text \<open>The header fields of a message that was read are the bytes they were read from.\<close>

lemma extra_bytes_parse:
  assumes "DLT_STANDARD_HEADER_EXTRA_SIZE h \<le> length d"
  shows "extra_bytes h (parse_extra h d x) = take (DLT_STANDARD_HEADER_EXTRA_SIZE h) d"
proof -
  have be: "be_bytes 4 (be_val (take 4 (drop k d))) = take 4 (drop k d)" if "k + 4 \<le> length d" for k
    using be_bytes_val [of "take 4 (drop k d)"] that by simp
  have j: "take a d @ take b (drop a d) = take (a + b) d" for a b by (simp add: take_add)
  have j3: "take 4 d @ take 4 (drop 4 d) @ take 4 (drop 8 d) = take 12 d"
    using take_add [of 4 8 d] take_add [of 4 4 "drop 4 d"] by simp
  show ?thesis
    using assms be [of 0] be [of 4] be [of 8] j [of 4 4] j3
    by (cases "DLT_IS_HTYP_WEID h"; cases "DLT_IS_HTYP_WSID h"; cases "DLT_IS_HTYP_WTMS h")
      (simp_all add: extra_bytes_def parse_extra_def offsets)
qed

lemma extra_bytes_ecu:
  "length (ecu x) = 4 \<Longrightarrow> length i = 4 \<Longrightarrow> extra_bytes h (x\<lparr>ecu := i\<rparr>)
     = (if DLT_IS_HTYP_WEID h then i @ drop 4 (extra_bytes h x) else extra_bytes h x)"
  by (simp add: extra_bytes_def)

text \<open>Replacing the first four bytes of a field in the middle of a message.\<close>

lemma replace_field:
  assumes "4 + sz \<le> k" "k \<le> length b" "length i = 4" "4 \<le> sz"
    and t: "t = take k b @ p"
  shows "take 4 b @ (i @ drop 4 (take sz (drop 4 b))) @ drop (4 + sz) (take k b) @ p = take 4 t @ i @ drop 8 t"
proof -
  define a c r where "a = take 4 b" and "c = take sz (drop 4 b)" and "r = drop (4 + sz) (take k b)"
  have l: "length a = 4" "length c = sz" using assms(1,2) by (simp_all add: a_def c_def)
  have "take k b = a @ c @ r"
    using assms(1) take_add [of 4 sz b] append_take_drop_id [of "4 + sz" "take k b"]
    by (simp add: a_def c_def r_def min_def)
  then have "t = a @ c @ r @ p" by (simp add: t)
  with l assms(4) show ?thesis unfolding a_def [symmetric] c_def [symmetric] r_def [symmetric] by simp
qed

lemma holds_facts:
  assumes "holds b x m" "msg_ok m" "header_len (b ! 0) \<le> claimed_len b" "claimed_len b \<le> length b"
    "length (ecu x) = 4"
  shows "headerbuffer m ! 16 = b ! 0" "std_htyp m = Some (b ! 0)" "length (ecu (headerextra m)) = 4"
    "payload_arg m = Some (msg_payload m)"
    "load_at (headerbuffer m) 16 (nat (headersize m - 16)) = Some (msg_headers m)"
proof -
  let ?hl = "header_len (b ! 0)"
  have hb: "length (headerbuffer m) = 42" using assms(2) by (simp add: msg_ok_def)
  have hl: "4 \<le> ?hl" "?hl \<le> 26" using header_len_le by simp_all
  have hd: "take ?hl (drop 16 (headerbuffer m)) = take ?hl b" "headersize m = int (16 + ?hl)"
    using assms(1) by (auto simp: holds_def Let_def msg_headers_def)
  have "take ?hl (drop 16 (headerbuffer m)) ! 0 = take ?hl b ! 0" using hd(1) by simp
  then show n: "headerbuffer m ! 16 = b ! 0" using hl(1) hb by simp
  then show "std_htyp m = Some (b ! 0)"
    using assms(1) hb by (simp add: std_htyp_def byte_at_def holds_def Let_def)
  show "length (ecu (headerextra m)) = 4"
    using assms hl(1)
    by (auto simp: holds_def Let_def parse_extra_def header_len_def extra_header_size_def DLT_STANDARD_HEADER_EXTRA_SIZE_def)
  show "load_at (headerbuffer m) 16 (nat (headersize m - 16)) = Some (msg_headers m)"
    using hd(2) hl hb by (simp add: load_at_def msg_headers_def)
  define n where "n = claimed_len b - ?hl"
  have "msg_payload m = take n (drop ?hl b)" and n: "datasize m = int n"
    using assms(1) by (simp_all add: holds_def Let_def n_def)
  then have "length (msg_payload m) = n" using assms(3,4) by (simp add: n_def)
  then show "payload_arg m = Some (msg_payload m)"
    using n by (cases "databuffer m") (auto simp: payload_arg_def msg_payload_def load_at_def)
qed

definition sending :: "'u send_env \<Rightarrow> 'u daemon \<Rightarrow> bool" where
  "sending env s \<longleftrightarrow> event_inv (ev s) \<and> all_accept env s \<and> mode s = DLT_USER_MODE_EXTERNAL
     \<and> state s = DLT_DAEMON_STATE_SEND_DIRECT \<and> offlineLogstorageMaxDevices s \<le> 0 \<and> no_report V1 s"

lemma forward_delivers:
  assumes m: "length (headerbuffer m) = 42" "storageheader m = Some 0" "std_htyp m = Some h"
      "length (ecu (headerextra m)) = 4" "payload_arg m = Some d"
      "load_at (headerbuffer m) 16 (nat (headersize m - 16)) = Some H"
    and len: "length H < 2 ^ 31" "length d < 2 ^ 31" and "readable 4 ecuid" "sending env s"
  shows "\<exists>m2 s'. forward_message (Suc n) env tv ecuid m s = Some (DLT_DAEMON_ERROR_OK, m2, s')
    \<and> delivers_all (net_state s) (net_state s') (clients s) (frame (sendserialheader s) H d)"
proof -
  let ?e = "if DLT_IS_HTYP_WEID h then ecu (headerextra m) else ecuid"
  have e: "readable 4 ?e" using m(4) assms(9) by simp
  have st: "dlt_set_storageheader tv (headerbuffer m) 0 ?e
      = Some (DLT_RETURN_OK, storage_bytes tv ?e @ drop 16 (headerbuffer m))"
    using set_storageheader_spec [OF _ e] m(1) by simp
  let ?m2 = "m\<lparr>headerbuffer := storage_bytes tv ?e @ drop 16 (headerbuffer m)\<rparr>"
  have "load_at (headerbuffer ?m2) 16 k = load_at (headerbuffer m) 16 k" for k using m(1) by (simp add: load_at_def)
  moreover have "payload_arg ?m2 = payload_arg m" by (cases "databuffer m") (simp_all add: payload_arg_def)
  ultimately have parts: "message_parts ?m2 = Some (storage_bytes tv ?e, H, d)"
    using m(5,6) by (simp add: message_parts_def mem_simps del: if_split)
  have s: "event_inv (ev s)" "all_accept env s" "mode s = DLT_USER_MODE_EXTERNAL"
      "state s = DLT_DAEMON_STATE_SEND_DIRECT" "offlineLogstorageMaxDevices s \<le> 0" "no_report V1 s"
    using assms(10) by (simp_all add: sending_def)
  obtain w where w: "client_send (Suc n) env V1 DLT_DAEMON_SEND_TO_ALL (storage_bytes tv ?e, H, d) s
      = Some (0, s\<lparr>net_state := w\<rparr>)"
    "delivers_all (net_state s) w (clients s) (frame (sendserialheader s) H d)"
    by (rule direct_send_accept [OF s len, where n = n and h = "storage_bytes tv ?e"])
  have "forward_message (Suc n) env tv ecuid m s = Some (DLT_DAEMON_ERROR_OK, ?m2, s\<lparr>net_state := w\<rparr>)"
    unfolding forward_message_def dlt_daemon_client_send_def
    using m(2,3) st parts w(1) by (simp del: client_send.simps)
  with w(2) show ?thesis by auto
qed

lemma claimed_len_bound: "claimed_len b < 65536"
  using be_val_less [of "take 2 (drop 2 b)"] power_increasing [of "min (length b - 2) 2" 2 "256::nat"]
  by (simp add: claimed_len_def min.commute)

text \<open>
  C16. Messages pass the daemon unchanged: when the daemon has read a message from an application
  and clients are connected, every client gets exactly the bytes of the message, and nothing else.
\<close>

theorem forward_unchanged:
  assumes "msg_ok m" "malloc_ok alloc" "length (ecu (headerextra m)) = 4"
      "dlt_message_read alloc m b resync = Some (DLT_MESSAGE_ERROR_OK, m1)" "readable 4 ecuid" "sending env s"
  shows "\<exists>m2 s'. dlt_daemon_client_send_message_to_all_client (Suc n) env tv False ecuid m1 s
        = Some (DLT_DAEMON_ERROR_OK, m2, s')
    \<and> delivers_all (net_state s) (net_state s') (clients s)
        ((if sendserialheader s then dltSerialHeader else [])
         @ take (claimed_len (drop (msg_start m1) b)) (drop (msg_start m1) b))"
proof -
  let ?b = "drop (msg_start m1) b"
  have r: "msg_ok m1" "holds ?b (headerextra m) m1" "header_len (?b ! 0) \<le> claimed_len ?b" "claimed_len ?b \<le> length ?b"
    using message_read_spec [OF assms(1,2), of b resync] assms(4) by auto
  note f = holds_facts [OF r(2,1,3,4) assms(3)]
  have hb: "length (headerbuffer m1) = 42" "storageheader m1 = Some 0"
    using r(1,2) by (simp_all add: msg_ok_def holds_def Let_def)
  have "length (msg_headers m1 @ msg_payload m1) \<le> claimed_len ?b" unfolding holds_bytes [OF r(2-4)] by simp
  then have len: "length (msg_headers m1) < 2 ^ 31" "length (msg_payload m1) < 2 ^ 31"
    using claimed_len_bound [of ?b] by simp_all
  from forward_delivers [OF hb f(2-5) len assms(5,6), of n tv] holds_bytes [OF r(2-4)] show ?thesis
    by (simp add: dlt_daemon_client_send_message_to_all_client_def frame_def)
qed

lemma sample_read:
  "\<exists>m1. dlt_message_read zero_malloc empty_message
      (dltSerialHeader @ message_bytes 0x35 3 sample_extra (replicate 10 1) [5, 6] @ [9]) True
      = Some (DLT_MESSAGE_ERROR_OK, m1)
    \<and> gets 0x35 3 sample_extra (replicate 10 1) [5, 6] (headerextra empty_message) m1"
proof -
  let ?t = "message_bytes 0x35 3 sample_extra (replicate 10 1) [5, 6] @ [9]"
  let ?m = "empty_message\<lparr>resync_offset := 0, found_serialheader := True\<rparr>"
  have ok: "message_ok 0x35 sample_extra (replicate 10 1) [5, 6]"
    by (simp add: message_ok_def extra_ok_def sample_extra_def size_35)
  have "read_start (empty_message\<lparr>resync_offset := 0\<rparr>) (dltSerialHeader @ ?t) True = (?m, ?t)"
    by (simp add: read_start_def dltSerialHeader_def)
  moreover have "msg_ok ?m" using empty_message_ok by (simp add: msg_ok_def)
  from read_message_gets [OF this zero_malloc_ok _ ok, of 3 "[9]"] obtain m1 where
    "read_message zero_malloc ?m ?t = Some (DLT_MESSAGE_ERROR_OK, m1)"
    "gets 0x35 3 sample_extra (replicate 10 1) [5, 6] (headerextra empty_message) m1"
    by (auto simp: zero_malloc_def)
  moreover have "\<not> length (dltSerialHeader @ ?t) < 4" by (simp add: dltSerialHeader_def)
  ultimately show ?thesis by (simp add: dlt_message_read_def Let_def)
qed

theorem forward_unchanged_witness:
  "\<exists>m1. dlt_message_read zero_malloc empty_message
        (dltSerialHeader @ message_bytes 0x35 3 sample_extra (replicate 10 1) [5, 6] @ [9]) True
      = Some (DLT_MESSAGE_ERROR_OK, m1)
    \<and> (\<exists>m2 s'. dlt_daemon_client_send_message_to_all_client (Suc 0) good_send_env (1, 2) False [0x45, 0x43, 0x55, 0x31] m1
          (sample_daemon DLT_DAEMON_STATE_SEND_DIRECT) = Some (DLT_DAEMON_ERROR_OK, m2, s')
      \<and> delivers_all (net_state (sample_daemon DLT_DAEMON_STATE_SEND_DIRECT)) (net_state s')
          (clients (sample_daemon DLT_DAEMON_STATE_SEND_DIRECT))
          ((if sendserialheader (sample_daemon DLT_DAEMON_STATE_SEND_DIRECT) then dltSerialHeader else [])
           @ take (claimed_len (drop (msg_start m1)
                 (dltSerialHeader @ message_bytes 0x35 3 sample_extra (replicate 10 1) [5, 6] @ [9])))
               (drop (msg_start m1)
                 (dltSerialHeader @ message_bytes 0x35 3 sample_extra (replicate 10 1) [5, 6] @ [9]))))"
proof -
  obtain m1 where rd: "dlt_message_read zero_malloc empty_message
      (dltSerialHeader @ message_bytes 0x35 3 sample_extra (replicate 10 1) [5, 6] @ [9]) True
      = Some (DLT_MESSAGE_ERROR_OK, m1)" using sample_read by blast
  have x: "length (ecu (headerextra empty_message)) = 4" "readable 4 [0x45, 0x43, 0x55, 0x31::byte]"
    by (simp_all add: empty_message_def dlt_message_init_def)
  show ?thesis
    by (rule exI, rule conjI [OF rd], rule forward_unchanged [OF empty_message_ok zero_malloc_ok x(1) rd x(2)])
      (simp add: sending_def good_accept, simp add: sample_daemon_def sample_clients_inv no_report_def)
qed

text \<open>
  C34. With an identifier of its own, the daemon puts it in place of the default identifier; the rest of
  the message stays as it is.
\<close>

theorem forward_renames:
  assumes "msg_ok m" "malloc_ok alloc" "length (ecu (headerextra m)) = 4"
      "dlt_message_read alloc m b resync = Some (DLT_MESSAGE_ERROR_OK, m1)" "readable 4 ecuid" "sending env s"
      "chars 4 (ecu (headerextra m1)) = str ''ECU1''"
  shows "\<exists>m2 s'. dlt_daemon_client_send_message_to_all_client (Suc n) env tv True ecuid m1 s
        = Some (DLT_DAEMON_ERROR_OK, m2, s')
    \<and> delivers_all (net_state s) (net_state s') (clients s)
        ((if sendserialheader s then dltSerialHeader else [])
         @ (let t = take (claimed_len (drop (msg_start m1) b)) (drop (msg_start m1) b) in
            if DLT_IS_HTYP_WEID (t ! 0) then take 4 t @ id4 ecuid @ drop 8 t else t))"
proof -
  define b' h hl x where "b' = drop (msg_start m1) b" and "h = b' ! 0" and "hl = header_len h"
    and "x = headerextra m1"
  have r: "msg_ok m1" "holds b' (headerextra m) m1" "hl \<le> claimed_len b'" "claimed_len b' \<le> length b'"
    using message_read_spec [OF assms(1,2), of b resync] assms(4) by (auto simp: b'_def h_def hl_def)
  note f = holds_facts [OF r(2,1) r(3) [unfolded hl_def h_def] r(4) assms(3)]
  have hb: "length (headerbuffer m1) = 42" "storageheader m1 = Some 0" "standardheader m1 = Some 16"
    "headersize m1 = int (16 + hl)" "take hl (drop 16 (headerbuffer m1)) = take hl b'"
    "x = parse_extra h (drop 4 b') (headerextra m)"
    using r(1,2) by (auto simp: msg_ok_def holds_def Let_def hl_def h_def x_def msg_headers_def)
  define sz where "sz = DLT_STANDARD_HEADER_EXTRA_SIZE h"
  have sz: "4 + sz \<le> hl" "hl \<le> 26" using header_len_le [of h] by (simp_all add: sz_def hl_def header_len_def extra_header_size_def)
  define x' where "x' = x\<lparr>ecu := id4 ecuid\<rparr>"
  define X where "X = extra_bytes h x'"
  have X: "length X = sz" by (simp add: X_def sz_def x'_def)
  have "extra_bytes h x = take sz (drop 4 b')"
    unfolding hb(6) sz_def by (rule extra_bytes_parse) (use sz r(3,4) in \<open>simp add: sz_def\<close>)
  then have Xb: "X = (if DLT_IS_HTYP_WEID h then id4 ecuid @ drop 4 (take sz (drop 4 b')) else take sz (drop 4 b'))"
    using extra_bytes_ecu [of x "id4 ecuid" h] f(3) by (simp add: X_def x'_def x_def)
  let ?m = "m1\<lparr>headerextra := x'\<rparr>"
  have "dlt_message_set_extraparameters ?m = Some (DLT_RETURN_OK,
      ?m\<lparr>headerbuffer := take 20 (headerbuffer m1) @ X @ drop (20 + sz) (headerbuffer m1),
         headerextra := swapped_extra h x'\<rparr>)"
    using set_extra [where m = ?m and h = h] hb f(1) by (simp add: X_def sz_def x'_def h_def)
  moreover have "dlt_set_id (ecu x) ecuid = Some (id4 ecuid)" using f(3) assms(5) by (simp add: set_id_spec x_def)
  ultimately obtain m2 where m2: "dlt_daemon_client_send_message_to_all_client (Suc n) env tv True ecuid m1 s
      = forward_message (Suc n) env tv ecuid m2 s"
    "headerbuffer m2 = take 20 (headerbuffer m1) @ X @ drop (20 + sz) (headerbuffer m1)"
    "storageheader m2 = Some 0" "standardheader m2 = Some 16" "ecu (headerextra m2) = id4 ecuid"
    "databuffer m2 = databuffer m1" "datasize m2 = datasize m1" "headersize m2 = headersize m1"
    using hb assms(7)
    by (simp add: dlt_daemon_client_send_message_to_all_client_def x_def [symmetric] x'_def [symmetric] swapped_extra_def)
      (simp add: x'_def)
  define H where "H = take 4 b' @ X @ drop (4 + sz) (take hl b')"
  have t4: "take 4 (drop 16 (headerbuffer m1)) = take 4 b'"
    using arg_cong [OF hb(5), of "take 4"] sz by (simp add: min_def)
  have dr: "drop (4 + sz) (take hl (drop 16 (headerbuffer m1))) = drop (4 + sz) (take hl b')" using hb(5) by simp
  have "load_at (headerbuffer m2) 16 hl = Some H"
    using hb(1) sz X t4 dr r(3,4) by (simp add: m2(2) load_at_def H_def drop_take min_absorb1 min_absorb2)
  moreover have "std_htyp m2 = Some h" using m2(2,4) hb(1) X f(1) by (simp add: std_htyp_def byte_at_def nth_append h_def)
  moreover have "payload_arg m2 = payload_arg m1" using m2(6,7) by (cases "databuffer m1") (simp_all add: payload_arg_def)
  moreover have "length (msg_headers m1 @ msg_payload m1) \<le> claimed_len b'"
    unfolding holds_bytes [OF r(2) r(3) [unfolded hl_def h_def] r(4)] by simp
  moreover have "length (headerbuffer m2) = 42" using hb(1) X sz by (simp add: m2(2))
  moreover have "length H \<le> claimed_len b'" using X sz r(3,4) by (simp add: H_def)
  ultimately have "\<exists>m3 s'. forward_message (Suc n) env tv ecuid m2 s = Some (DLT_DAEMON_ERROR_OK, m3, s')
      \<and> delivers_all (net_state s) (net_state s') (clients s) (frame (sendserialheader s) H (msg_payload m1))"
    using claimed_len_bound [of b'] m2(3,5,8) hb(4) f(4) by (intro forward_delivers [OF _ _ _ _ _ _ _ _ assms(5,6)]) simp_all
  moreover have "H @ msg_payload m1 = (let t = take (claimed_len b') b' in
      if DLT_IS_HTYP_WEID (t ! 0) then take 4 t @ id4 ecuid @ drop 8 t else t)"
  proof -
    have t: "take (claimed_len b') b' = take hl b' @ msg_payload m1"
      using holds_bytes [OF r(2) r(3) [unfolded hl_def h_def] r(4)] hb(4,5) by (simp add: msg_headers_def)
    have t0: "take (claimed_len b') b' ! 0 = h" using r(3) header_len_le(2) [of h] by (simp add: h_def hl_def)
    show ?thesis
    proof (cases "DLT_IS_HTYP_WEID h")
      case True
      then have "4 \<le> sz" by (simp add: sz_def DLT_STANDARD_HEADER_EXTRA_SIZE_def)
      from replace_field [OF sz(1) _ _ this t, of "id4 ecuid"] True r(3,4) show ?thesis
        by (simp add: Let_def t0 H_def Xb)
    next
      case False
      have "take hl b' = take 4 b' @ take sz (drop 4 b') @ drop (4 + sz) (take hl b')"
        using sz(1) take_add [of 4 sz b'] append_take_drop_id [of "4 + sz" "take hl b'"] by (simp add: min_def)
      with False t have "H @ msg_payload m1 = take (claimed_len b') b'" by (simp add: H_def Xb)
      with False show ?thesis by (simp add: Let_def t0)
    qed
  qed
  ultimately show ?thesis using m2(1) unfolding b'_def by (simp add: frame_def del: append_assoc)
qed

definition renamed_bytes :: bytes where
  "renamed_bytes = dltSerialHeader @ message_bytes 0x35 3 sample_extra (replicate 10 1) [5, 6] @ [9]"

theorem forward_renames_witness:
  "\<exists>m1. dlt_message_read zero_malloc empty_message renamed_bytes True = Some (DLT_MESSAGE_ERROR_OK, m1)
    \<and> (\<exists>m2 s'. dlt_daemon_client_send_message_to_all_client (Suc 0) good_send_env (1, 2) True [0x41, 0x42, 0, 0] m1
          (sample_daemon DLT_DAEMON_STATE_SEND_DIRECT) = Some (DLT_DAEMON_ERROR_OK, m2, s')
      \<and> delivers_all (net_state (sample_daemon DLT_DAEMON_STATE_SEND_DIRECT)) (net_state s')
          (clients (sample_daemon DLT_DAEMON_STATE_SEND_DIRECT))
          ((if sendserialheader (sample_daemon DLT_DAEMON_STATE_SEND_DIRECT) then dltSerialHeader else [])
           @ (let t = take (claimed_len (drop (msg_start m1) renamed_bytes)) (drop (msg_start m1) renamed_bytes) in
              if DLT_IS_HTYP_WEID (t ! 0) then take 4 t @ id4 [0x41, 0x42, 0, 0] @ drop 8 t else t)))"
proof -
  obtain m1 where rd: "dlt_message_read zero_malloc empty_message renamed_bytes True = Some (DLT_MESSAGE_ERROR_OK, m1)"
    "gets 0x35 3 sample_extra (replicate 10 1) [5, 6] (headerextra empty_message) m1"
    using sample_read unfolding renamed_bytes_def by blast
  have x: "length (ecu (headerextra empty_message)) = 4" "readable 4 [0x41, 0x42, 0, 0::byte]"
    by (simp_all add: empty_message_def dlt_message_init_def)
  have e: "chars 4 (ecu (headerextra m1)) = str ''ECU1''"
    using rd(2) by (simp add: gets_def size_35 sample_extra_def chars_def str_def of_char_def)
  show ?thesis
    by (rule exI, rule conjI [OF rd(1)],
        rule forward_renames [OF empty_message_ok zero_malloc_ok x(1) rd(1) x(2) _ e])
      (simp add: sending_def good_accept, simp add: sample_daemon_def sample_clients_inv no_report_def)
qed

end
