(* ===== verification/Dlt_MessageV2.thy ===== *)
theory Dlt_MessageV2
  imports Dlt_Message
begin

unbundle bit_operations_syntax

text \<open>
  Messages of protocol version 2 (\<^verbatim>\<open>src/shared/dlt_common.c\<close>): the base header with its fields
  that depend on the kind of message, the extended header with its optional fields of variable
  length, the storage header, and how a message is taken from a buffer of received bytes.

  Pointers of the extended header lead into the header buffer (an offset) or to other memory (the
  bytes that can be read there); so does the pointer to the base header. \<open>sgmtdetails\<close> is a pointer in
  the C code that the functions copy like the data it should point to; here it is the eight bytes of
  the pointer. Sizes and counters of type \<^verbatim>\<open>uint8_t\<close> and \<^verbatim>\<open>uint32_t\<close> are natural numbers.
\<close>

section \<open>Data\<close>

abbreviation (input) STORAGE_HEADER_V2_FIXED_SIZE :: nat where "STORAGE_HEADER_V2_FIXED_SIZE \<equiv> 14"
abbreviation (input) BASE_HEADER_V2_FIXED_SIZE :: nat where "BASE_HEADER_V2_FIXED_SIZE \<equiv> 7"

datatype cptr = Hdr nat | Ext bytes

fun deref :: "bytes \<Rightarrow> cptr \<Rightarrow> bytes" where
  "deref hb (Hdr off) = drop off hb"
| "deref hb (Ext b) = b"

record DltTag =
  taglen :: nat
  tagname :: bytes

record DltStorageHeaderV2 =
  sh_pattern :: bytes
  sh_seconds :: bytes
  sh_nanoseconds :: int
  sh_ecidlen :: nat
  sh_ecid :: bytes

record DltBaseHeaderExtraV2 =
  hx_msin :: byte
  hx_noar :: byte
  hx_nanoseconds :: nat
  hx_seconds :: bytes
  hx_msid :: nat

record DltExtendedHeaderV2 =
  x2_ecidlen :: nat
  x2_ecid :: "cptr option"
  x2_apidlen :: nat
  x2_apid :: "cptr option"
  x2_ctidlen :: nat
  x2_ctid :: "cptr option"
  x2_seid :: nat
  x2_finalen :: nat
  x2_fina :: "cptr option"
  x2_linr :: nat
  x2_notg :: nat
  x2_tag :: "DltTag list option"
  x2_prlv :: byte
  x2_sgmtinfo :: byte
  x2_frametype :: byte
  x2_sgmtdetails :: bytes

record DltMessageV2 =
  found_serialheaderv2 :: bool
  resync_offsetv2 :: nat
  headersizev2 :: int
  datasizev2 :: int
  headerbufferv2 :: "bytes option"
  databufferv2 :: "bytes option"
  databuffersizev2 :: int
  storageheadersizev2 :: nat
  baseheadersizev2 :: nat
  baseheaderextrasizev2 :: nat
  extendedheadersizev2 :: nat
  storageheaderv2 :: DltStorageHeaderV2
  baseheaderv2 :: "cptr option"
  headerextrav2 :: DltBaseHeaderExtraV2
  extendedheaderv2 :: DltExtendedHeaderV2

datatype DltHtyp2ContentType =
    DLT_VERBOSE_DATA_MSG
  | DLT_NON_VERBOSE_DATA_MSG
  | DLT_CONTROL_MSG
  | DLT_RESERVED

text \<open>\<^verbatim>\<open>htyp2\<close> is a 32 bit number in host byte order.\<close>

definition msgcontent :: "nat \<Rightarrow> DltHtyp2ContentType" where
  "msgcontent htyp2 =
     [DLT_VERBOSE_DATA_MSG, DLT_NON_VERBOSE_DATA_MSG, DLT_CONTROL_MSG, DLT_RESERVED] ! (htyp2 AND 0x03)"

definition DLT_IS_HTYP2_WEID :: "nat \<Rightarrow> bool" where "DLT_IS_HTYP2_WEID h \<longleftrightarrow> h AND 0x04 \<noteq> 0"
definition DLT_IS_HTYP2_WACID :: "nat \<Rightarrow> bool" where "DLT_IS_HTYP2_WACID h \<longleftrightarrow> h AND 0x08 \<noteq> 0"
definition DLT_IS_HTYP2_WSID :: "nat \<Rightarrow> bool" where "DLT_IS_HTYP2_WSID h \<longleftrightarrow> h AND 0x10 \<noteq> 0"
definition DLT_IS_HTYP2_WSFLN :: "nat \<Rightarrow> bool" where "DLT_IS_HTYP2_WSFLN h \<longleftrightarrow> h AND 0x100 \<noteq> 0"
definition DLT_IS_HTYP2_WTGS :: "nat \<Rightarrow> bool" where "DLT_IS_HTYP2_WTGS h \<longleftrightarrow> h AND 0x200 \<noteq> 0"
definition DLT_IS_HTYP2_WPVL :: "nat \<Rightarrow> bool" where "DLT_IS_HTYP2_WPVL h \<longleftrightarrow> h AND 0x400 \<noteq> 0"
definition DLT_IS_HTYP2_WSGM :: "nat \<Rightarrow> bool" where "DLT_IS_HTYP2_WSGM h \<longleftrightarrow> h AND 0x800 \<noteq> 0"
definition DLT_IS_HTYP2_EH :: "nat \<Rightarrow> bool" where "DLT_IS_HTYP2_EH h \<longleftrightarrow> h AND 0xF1C \<noteq> 0"

text \<open>The fields of the base header.\<close>

definition base_bytes :: "DltMessageV2 \<Rightarrow> bytes option" where
  "base_bytes msg = do {
     p \<leftarrow> baseheaderv2 msg;
     load_at (deref (case headerbufferv2 msg of None \<Rightarrow> [] | Some hb \<Rightarrow> hb) p) 0 BASE_HEADER_V2_FIXED_SIZE
   }"

definition htyp2 :: "DltMessageV2 \<Rightarrow> nat option" where
  "htyp2 msg = do { b \<leftarrow> base_bytes msg; Some (le_val (take 4 b)) }"

definition base_len :: "DltMessageV2 \<Rightarrow> nat option" where
  "base_len msg = do { b \<leftarrow> base_bytes msg; Some (be_val (take 2 (drop 5 b))) }"


section \<open>Initialisation\<close>

definition zero_storageheader :: DltStorageHeaderV2 where
  "zero_storageheader = \<lparr>sh_pattern = replicate 4 0, sh_seconds = replicate 5 0, sh_nanoseconds = 0,
     sh_ecidlen = 0, sh_ecid = replicate 255 0\<rparr>"

definition zero_extendedheader :: DltExtendedHeaderV2 where
  "zero_extendedheader = \<lparr>x2_ecidlen = 0, x2_ecid = None, x2_apidlen = 0, x2_apid = None, x2_ctidlen = 0,
     x2_ctid = None, x2_seid = 0, x2_finalen = 0, x2_fina = None, x2_linr = 0, x2_notg = 0, x2_tag = None,
     x2_prlv = 0, x2_sgmtinfo = 0, x2_frametype = 0, x2_sgmtdetails = replicate 8 0\<rparr>"

definition dlt_message_init_v2 :: "DltMessageV2 \<Rightarrow> DltReturnValue \<times> DltMessageV2" where
  "dlt_message_init_v2 msg = (DLT_RETURN_OK, msg\<lparr>headerbufferv2 := None, headersizev2 := 0, datasizev2 := 0,
     databufferv2 := None, databuffersizev2 := 0, storageheaderv2 := zero_storageheader,
     extendedheaderv2 := zero_extendedheader, baseheaderv2 := None, found_serialheaderv2 := False\<rparr>)"

text \<open>The second test of the tags never succeeds, so \<^verbatim>\<open>notg\<close> keeps its value.\<close>

definition dlt_message_free_v2 :: "DltMessageV2 \<Rightarrow> DltReturnValue \<times> DltMessageV2" where
  "dlt_message_free_v2 msg =
     (let msg = (if headerbufferv2 msg \<noteq> None then msg\<lparr>headerbufferv2 := None, headersizev2 := 0\<rparr> else msg);
          msg = (if x2_tag (extendedheaderv2 msg) \<noteq> None
                 then msg\<lparr>extendedheaderv2 := (extendedheaderv2 msg)\<lparr>x2_tag := None\<rparr>\<rparr> else msg);
          msg = (if databufferv2 msg \<noteq> None then msg\<lparr>databufferv2 := None, databuffersizev2 := 0\<rparr> else msg);
          msg = (if x2_tag (extendedheaderv2 msg) \<noteq> None
                 then msg\<lparr>extendedheaderv2 := (extendedheaderv2 msg)\<lparr>x2_tag := None, x2_notg := 0\<rparr>\<rparr> else msg)
      in (DLT_RETURN_OK, msg))"


section \<open>Storage header\<close>

definition dlt_set_storageheader_v2 ::
  "int \<times> int \<Rightarrow> DltStorageHeaderV2 \<Rightarrow> nat \<Rightarrow> bytes \<Rightarrow> (DltReturnValue \<times> DltStorageHeaderV2) option" where
  "dlt_set_storageheader_v2 ts sh ecuIDlen ecu_id = do {
     let sh = sh\<lparr>sh_pattern := [0x44, 0x4C, 0x54, 2],
                 sh_seconds := be_bytes 5 (nat (fst ts mod 2 ^ 40)), sh_nanoseconds := i32 (snd ts)\<rparr>;
     if ecuIDlen = 0 then Some (DLT_RETURN_ERROR, sh)
     else do {
       e \<leftarrow> dlt_set_id_v2 (sh_ecid sh) ecu_id ecuIDlen;
       Some (DLT_RETURN_OK, sh\<lparr>sh_ecidlen := ecuIDlen, sh_ecid := e\<rparr>)
     }
   }"

definition dlt_check_storageheader_v2 :: "DltStorageHeaderV2 \<Rightarrow> DltReturnValue" where
  "dlt_check_storageheader_v2 sh =
     (if sh_pattern sh = [0x44, 0x4C, 0x54, 2] then DLT_RETURN_TRUE else DLT_RETURN_OK)"

definition dlt_message_get_storageparameters_v2 :: "DltMessageV2 \<Rightarrow> (DltReturnValue \<times> DltMessageV2) option" where
  "dlt_message_get_storageparameters_v2 msg = do {
     hb \<leftarrow> headerbufferv2 msg;
     p \<leftarrow> load_at hb 0 4;
     s \<leftarrow> load_at hb 4 5;
     n \<leftarrow> load_at hb 9 4;
     k \<leftarrow> byte_at hb 13;
     d \<leftarrow> load_at hb 14 (unat k);
     e \<leftarrow> store_at (sh_ecid (storageheaderv2 msg)) 0 d;
     e \<leftarrow> store_at e (unat k) [0];
     Some (DLT_RETURN_OK, msg\<lparr>storageheaderv2 := \<lparr>sh_pattern = p, sh_seconds = s,
       sh_nanoseconds = i32 (int (be_val n)), sh_ecidlen = unat k, sh_ecid = e\<rparr>\<rparr>)
   }"

definition dlt_message_set_storageparameters_v2 :: "DltMessageV2 \<Rightarrow> (DltReturnValue \<times> DltMessageV2) option" where
  "dlt_message_set_storageparameters_v2 msg = do {
     hb \<leftarrow> headerbufferv2 msg;
     let sh = storageheaderv2 msg;
     hb \<leftarrow> store_at hb 0 (sh_pattern sh);
     hb \<leftarrow> store_at hb 4 (sh_seconds sh);
     hb \<leftarrow> store_at hb 9 (le_bytes 4 (nat (u32 (sh_nanoseconds sh))));
     hb \<leftarrow> store_at hb 13 [of_nat (sh_ecidlen sh)];
     d \<leftarrow> load_at (sh_ecid sh) 0 (sh_ecidlen sh);
     hb \<leftarrow> store_at hb 14 d;
     Some (DLT_RETURN_OK, msg\<lparr>headerbufferv2 := Some hb\<rparr>)
   }"


section \<open>Fields that depend on the kind of message\<close>

definition dlt_message_get_extraparameters_size_v2 :: "DltHtyp2ContentType \<Rightarrow> nat" where
  "dlt_message_get_extraparameters_size_v2 c =
     (case c of DLT_VERBOSE_DATA_MSG \<Rightarrow> 11 | DLT_NON_VERBOSE_DATA_MSG \<Rightarrow> 13 | DLT_CONTROL_MSG \<Rightarrow> 2
      | DLT_RESERVED \<Rightarrow> 0)"

text \<open>Reading and writing the fields at an offset of a block.\<close>

definition get_extra_v2 ::
  "bytes \<Rightarrow> nat \<Rightarrow> DltHtyp2ContentType \<Rightarrow> DltBaseHeaderExtraV2 \<Rightarrow> DltBaseHeaderExtraV2 option" where
  "get_extra_v2 b off c x =
     (case c of
        DLT_VERBOSE_DATA_MSG \<Rightarrow> do {
          i \<leftarrow> byte_at b off;
          n \<leftarrow> byte_at b (off + 1);
          ns \<leftarrow> load_at b (off + 2) 4;
          s \<leftarrow> load_at b (off + 6) 5;
          Some (x\<lparr>hx_msin := i, hx_noar := n, hx_nanoseconds := be_val ns, hx_seconds := s\<rparr>)
        }
      | DLT_NON_VERBOSE_DATA_MSG \<Rightarrow> do {
          ns \<leftarrow> load_at b off 4;
          s \<leftarrow> load_at b (off + 4) 5;
          i \<leftarrow> load_at b (off + 9) 4;
          Some (x\<lparr>hx_nanoseconds := be_val ns, hx_seconds := s, hx_msid := be_val i\<rparr>)
        }
      | DLT_CONTROL_MSG \<Rightarrow> do {
          i \<leftarrow> byte_at b off;
          n \<leftarrow> byte_at b (off + 1);
          Some (x\<lparr>hx_msin := i, hx_noar := n\<rparr>)
        }
      | DLT_RESERVED \<Rightarrow> Some x)"

definition set_extra_v2 :: "bytes \<Rightarrow> nat \<Rightarrow> DltHtyp2ContentType \<Rightarrow> DltBaseHeaderExtraV2 \<Rightarrow> bytes option" where
  "set_extra_v2 b off c x =
     (case c of
        DLT_VERBOSE_DATA_MSG \<Rightarrow> do {
          b \<leftarrow> store_at b off [hx_msin x];
          b \<leftarrow> store_at b (off + 1) [hx_noar x];
          b \<leftarrow> store_at b (off + 2) (be_bytes 4 (hx_nanoseconds x));
          store_at b (off + 6) (hx_seconds x)
        }
      | DLT_NON_VERBOSE_DATA_MSG \<Rightarrow> do {
          b \<leftarrow> store_at b off (be_bytes 4 (hx_nanoseconds x));
          b \<leftarrow> store_at b (off + 4) (hx_seconds x);
          store_at b (off + 9) (be_bytes 4 (hx_msid x))
        }
      | DLT_CONTROL_MSG \<Rightarrow> do {
          b \<leftarrow> store_at b off [hx_msin x];
          store_at b (off + 1) [hx_noar x]
        }
      | DLT_RESERVED \<Rightarrow> Some b)"

text \<open>The kind of message is taken from the first byte of the base header.\<close>

definition dlt_message_get_extraparameters_v2 :: "DltMessageV2 \<Rightarrow> (DltReturnValue \<times> DltMessageV2) option" where
  "dlt_message_get_extraparameters_v2 msg = do {
     hb \<leftarrow> headerbufferv2 msg;
     h \<leftarrow> byte_at hb (storageheadersizev2 msg);
     x \<leftarrow> get_extra_v2 hb (storageheadersizev2 msg + baseheadersizev2 msg) (msgcontent (unat h)) (headerextrav2 msg);
     Some (DLT_RETURN_OK, msg\<lparr>headerextrav2 := x\<rparr>)
   }"

definition dlt_message_get_extraparameters_from_recievedbuffer_v2 ::
  "DltMessageV2 \<Rightarrow> bytes \<Rightarrow> DltHtyp2ContentType \<Rightarrow> (DltReturnValue \<times> DltMessageV2) option" where
  "dlt_message_get_extraparameters_from_recievedbuffer_v2 msg buffer c = do {
     x \<leftarrow> get_extra_v2 buffer BASE_HEADER_V2_FIXED_SIZE c (headerextrav2 msg);
     Some (DLT_RETURN_OK, msg\<lparr>headerextrav2 := x\<rparr>)
   }"

definition dlt_message_set_extraparameters_v2 :: "DltMessageV2 \<Rightarrow> (DltReturnValue \<times> DltMessageV2) option" where
  "dlt_message_set_extraparameters_v2 msg = do {
     h \<leftarrow> htyp2 msg;
     hb \<leftarrow> headerbufferv2 msg;
     hb \<leftarrow> set_extra_v2 hb (storageheadersizev2 msg + baseheadersizev2 msg) (msgcontent h) (headerextrav2 msg);
     Some (DLT_RETURN_OK, msg\<lparr>headerbufferv2 := Some hb\<rparr>)
   }"


section \<open>The extended header\<close>

definition sgmtLength :: "byte \<Rightarrow> nat" where
  "sgmtLength frametype = (if frametype = 0 then 8 else if frametype = 1 then 4 else if frametype = 2 then 0
     else if frametype = 3 then 1 else 0)"

text \<open>The size of the tags; reading past the array is undefined.\<close>

fun tags_size :: "nat \<Rightarrow> DltTag list \<Rightarrow> nat option" where
  "tags_size 0 ts = Some 0"
| "tags_size (Suc k) [] = None"
| "tags_size (Suc k) (t # ts) = do { n \<leftarrow> tags_size k ts; Some (taglen t + 1 + n) }"

definition dlt_message_get_extendedparameters_size_v2 :: "DltMessageV2 \<Rightarrow> nat option" where
  "dlt_message_get_extendedparameters_size_v2 msg = do {
     h \<leftarrow> htyp2 msg;
     let x = extendedheaderv2 msg;
     tags \<leftarrow> (if DLT_IS_HTYP2_WTGS h then do {
                n \<leftarrow> tags_size (x2_notg x) (case x2_tag x of None \<Rightarrow> [] | Some ts \<Rightarrow> ts);
                Some (1 + n)
              }
              else Some 0);
     Some ((if DLT_IS_HTYP2_WEID h then x2_ecidlen x + 1 else 0)
       + (if DLT_IS_HTYP2_WACID h then x2_apidlen x + 1 + (x2_ctidlen x + 1) else 0)
       + (if DLT_IS_HTYP2_WSID h then 4 else 0)
       + (if DLT_IS_HTYP2_WSFLN h then x2_finalen x + 1 + 4 else 0)
       + tags
       + (if DLT_IS_HTYP2_WPVL h then 1 else 0)
       + (if DLT_IS_HTYP2_WSGM h then sgmtLength (x2_frametype x) + 2 else 0))
   }"

text \<open>
  Writing the extended header. The state is the header buffer, the offset and the extended header,
  whose pointers are moved into the buffer. A step may end the function with an error, which is
  \<open>Inl\<close> of the buffer and the header.
\<close>

type_synonym ext_state = "bytes \<times> nat \<times> DltExtendedHeaderV2"
type_synonym ext_result = "((bytes \<times> DltExtendedHeaderV2) + ext_state) option"

definition and_then :: "ext_result \<Rightarrow> (ext_state \<Rightarrow> ext_result) \<Rightarrow> ext_result" where
  "and_then r f = (case r of None \<Rightarrow> None | Some (Inl e) \<Rightarrow> Some (Inl e) | Some (Inr s) \<Rightarrow> f s)"

definition put_id ::
  "(DltExtendedHeaderV2 \<Rightarrow> nat) \<Rightarrow> (DltExtendedHeaderV2 \<Rightarrow> cptr option)
   \<Rightarrow> ((cptr option \<Rightarrow> cptr option) \<Rightarrow> DltExtendedHeaderV2 \<Rightarrow> DltExtendedHeaderV2) \<Rightarrow> ext_state \<Rightarrow> ext_result" where
  "put_id lenf ptr_of upd s = (case s of (hb, off, x) \<Rightarrow> do {
     let n = lenf x;
     hb \<leftarrow> store_at hb off [of_nat n];
     if n > 0 then
       (case ptr_of x of
          None \<Rightarrow> Some (Inl (hb, x))
        | Some p \<Rightarrow> do {
            d \<leftarrow> load_at (deref hb p) 0 n;
            hb \<leftarrow> store_at hb (off + 1) d;
            Some (Inr (hb, off + n + 1, upd (\<lambda>_. Some (Hdr (off + 1))) x))
          })
     else Some (Inr (hb, off + n + 1, x))
   })"

definition put_session :: "ext_state \<Rightarrow> ext_result" where
  "put_session s = (case s of (hb, off, x) \<Rightarrow> do {
     hb \<leftarrow> store_at hb off (be_bytes 4 (x2_seid x));
     Some (Inr (hb, off + 4, x))
   })"

text \<open>The file name is left out if its pointer is null; its length is written all the same.\<close>

definition put_file :: "ext_state \<Rightarrow> ext_result" where
  "put_file s = (case s of (hb, off, x) \<Rightarrow> do {
     let n = x2_finalen x;
     hb \<leftarrow> store_at hb off [of_nat n];
     (hb, x) \<leftarrow> (case x2_fina x of
        Some p \<Rightarrow>
          if n > 0 then do {
            d \<leftarrow> load_at (deref hb p) 0 n;
            hb \<leftarrow> store_at hb (off + 1) d;
            Some (hb, x\<lparr>x2_fina := Some (Hdr (off + 1))\<rparr>)
          }
          else Some (hb, x)
      | None \<Rightarrow> Some (hb, x));
     hb \<leftarrow> store_at hb (off + n + 1) (be_bytes 4 (x2_linr x));
     Some (Inr (hb, off + n + 1 + 4, x))
   })"

text \<open>Each tag is followed by a zero, which the next field overwrites.\<close>

fun put_tags :: "nat \<Rightarrow> DltTag list \<Rightarrow> bytes \<Rightarrow> nat \<Rightarrow> (bytes \<times> nat) option" where
  "put_tags 0 ts hb off = Some (hb, off)"
| "put_tags (Suc k) [] hb off = None"
| "put_tags (Suc k) (t # ts) hb off = do {
     hb \<leftarrow> store_at hb off [of_nat (taglen t)];
     d \<leftarrow> load_at (tagname t) 0 (taglen t);
     hb \<leftarrow> store_at hb (off + 1) d;
     hb \<leftarrow> store_at hb (off + 1 + taglen t) [0];
     put_tags k ts hb (off + taglen t + 1)
   }"

definition put_segment :: "ext_state \<Rightarrow> ext_result" where
  "put_segment s = (case s of (hb, off, x) \<Rightarrow> do {
     let n = sgmtLength (x2_frametype x);
     hb \<leftarrow> store_at hb off [x2_sgmtinfo x];
     hb \<leftarrow> store_at hb (off + 1) [x2_frametype x];
     d \<leftarrow> load_at (x2_sgmtdetails x) 0 n;
     hb \<leftarrow> store_at hb (off + 2) d;
     Some (Inr (hb, off + n + 2, x))
   })"

definition when_flag :: "bool \<Rightarrow> (ext_state \<Rightarrow> ext_result) \<Rightarrow> ext_state \<Rightarrow> ext_result" where
  "when_flag b f s = (if b then f s else Some (Inr s))"

definition put_tag_list :: "ext_state \<Rightarrow> ext_result" where
  "put_tag_list s = (case s of (hb, off, x) \<Rightarrow> do {
     hb \<leftarrow> store_at hb off [of_nat (x2_notg x)];
     (hb, off) \<leftarrow> put_tags (x2_notg x) (case x2_tag x of None \<Rightarrow> [] | Some ts \<Rightarrow> ts) hb (off + 1);
     Some (Inr (hb, off, x))
   })"

text \<open>The fields behind the tags.\<close>

definition put_tail :: "nat \<Rightarrow> ext_state \<Rightarrow> ext_result" where
  "put_tail h s =
     and_then (when_flag (DLT_IS_HTYP2_WPVL h) (\<lambda>(hb, off, x). do {
         hb \<leftarrow> store_at hb off [x2_prlv x];
         Some (Inr (hb, off + 1, x))
       }) s) (\<lambda>s. when_flag (DLT_IS_HTYP2_WSGM h) put_segment s)"

definition put_head :: "nat \<Rightarrow> ext_state \<Rightarrow> ext_result" where
  "put_head h s =
     and_then (when_flag (DLT_IS_HTYP2_WEID h) (put_id x2_ecidlen x2_ecid x2_ecid_update) s) (\<lambda>s.
     and_then (when_flag (DLT_IS_HTYP2_WACID h) (put_id x2_apidlen x2_apid x2_apid_update) s) (\<lambda>s.
     and_then (when_flag (DLT_IS_HTYP2_WACID h) (put_id x2_ctidlen x2_ctid x2_ctid_update) s) (\<lambda>s.
     and_then (when_flag (DLT_IS_HTYP2_WSID h) put_session s) (\<lambda>s.
     when_flag (DLT_IS_HTYP2_WSFLN h) put_file s))))"

definition put_extended :: "nat \<Rightarrow> ext_state \<Rightarrow> ext_result" where
  "put_extended h s =
     and_then (put_head h s) (\<lambda>s. and_then (when_flag (DLT_IS_HTYP2_WTGS h) put_tag_list s) (put_tail h))"

definition dlt_message_set_extendedparameters_v2 :: "DltMessageV2 \<Rightarrow> (DltReturnValue \<times> DltMessageV2) option" where
  "dlt_message_set_extendedparameters_v2 msg = do {
     h \<leftarrow> htyp2 msg;
     hb \<leftarrow> headerbufferv2 msg;
     r \<leftarrow> put_extended h (hb, storageheadersizev2 msg + baseheadersizev2 msg + baseheaderextrasizev2 msg,
            extendedheaderv2 msg);
     (case r of
        Inl (hb, x) \<Rightarrow> Some (DLT_RETURN_ERROR, msg\<lparr>headerbufferv2 := Some hb, extendedheaderv2 := x\<rparr>)
      | Inr (hb, off, x) \<Rightarrow> Some (DLT_RETURN_OK, msg\<lparr>headerbufferv2 := Some hb, extendedheaderv2 := x\<rparr>))
   }"

text \<open>
  Taking the extended header from received bytes. The pointers point into the received bytes.
\<close>

definition take_id :: "bytes \<Rightarrow> nat \<Rightarrow> (nat \<times> cptr \<times> nat) option" where
  "take_id b off = do {
     n \<leftarrow> byte_at b off;
     Some (unat n, Ext (drop (off + 1) b), off + unat n + 1)
   }"

text \<open>A name of 255 characters is cut to 254 for the terminating zero; \<open>raw\<close> is what the name held
  before.\<close>

fun take_tags :: "bytes \<Rightarrow> bytes \<Rightarrow> nat \<Rightarrow> nat \<Rightarrow> (DltTag list \<times> nat) option" where
  "take_tags raw b off 0 = Some ([], off)"
| "take_tags raw b off (Suc k) = do {
     n \<leftarrow> byte_at b off;
     let c = (if unat n \<ge> DLT_V2_ID_SIZE then DLT_V2_ID_SIZE - 1 else unat n);
     d \<leftarrow> load_at b (off + 1) c;
     name \<leftarrow> store_at raw 0 d;
     name \<leftarrow> store_at name c [0];
     (ts, off') \<leftarrow> take_tags raw b (off + unat n + 1) k;
     Some (\<lparr>taglen = unat n, tagname = name\<rparr> # ts, off')
   }"

definition take_when :: "bool \<Rightarrow> (nat \<times> DltExtendedHeaderV2 \<Rightarrow> (nat \<times> DltExtendedHeaderV2) option)
  \<Rightarrow> nat \<times> DltExtendedHeaderV2 \<Rightarrow> (nat \<times> DltExtendedHeaderV2) option" where
  "take_when b f s = (if b then f s else Some s)"

definition take_ecid :: "bytes \<Rightarrow> nat \<times> DltExtendedHeaderV2 \<Rightarrow> (nat \<times> DltExtendedHeaderV2) option" where
  "take_ecid b s = (case s of (off, x) \<Rightarrow> do {
     (n, p, off) \<leftarrow> take_id b off;
     Some (off, x\<lparr>x2_ecidlen := n, x2_ecid := Some p\<rparr>)
   })"

definition take_acid :: "bytes \<Rightarrow> nat \<times> DltExtendedHeaderV2 \<Rightarrow> (nat \<times> DltExtendedHeaderV2) option" where
  "take_acid b s = (case s of (off, x) \<Rightarrow> do {
     (n, p, off) \<leftarrow> take_id b off;
     (k, q, off) \<leftarrow> take_id b off;
     Some (off, x\<lparr>x2_apidlen := n, x2_apid := Some p, x2_ctidlen := k, x2_ctid := Some q\<rparr>)
   })"

definition take_session :: "bytes \<Rightarrow> nat \<times> DltExtendedHeaderV2 \<Rightarrow> (nat \<times> DltExtendedHeaderV2) option" where
  "take_session b s = (case s of (off, x) \<Rightarrow> do {
     d \<leftarrow> load_at b off 4;
     Some (off + 4, x\<lparr>x2_seid := be_val d\<rparr>)
   })"

definition take_file :: "bytes \<Rightarrow> nat \<times> DltExtendedHeaderV2 \<Rightarrow> (nat \<times> DltExtendedHeaderV2) option" where
  "take_file b s = (case s of (off, x) \<Rightarrow> do {
     (n, p, off) \<leftarrow> take_id b off;
     d \<leftarrow> load_at b off 4;
     Some (off + 4, x\<lparr>x2_finalen := n, x2_fina := Some p, x2_linr := be_val d\<rparr>)
   })"

text \<open>
  \<open>raw\<close> is what the allocator returns for the array of tags, \<open>None\<close> if it fails; the other way
  to fail is to read past the received bytes. A failed allocation makes the function return
  an error with what it has read up to there, which is \<open>Inl\<close> here.
\<close>

definition take_tag_list ::
  "bytes option \<Rightarrow> nat \<Rightarrow> bytes \<Rightarrow> nat \<Rightarrow> DltExtendedHeaderV2 \<Rightarrow> (DltExtendedHeaderV2 + nat \<times> DltExtendedHeaderV2) option" where
  "take_tag_list raw h buffer off x =
     (if DLT_IS_HTYP2_WTGS h then do {
        n \<leftarrow> byte_at buffer off;
        let x = x\<lparr>x2_notg := unat n\<rparr>;
        (case raw of
           None \<Rightarrow> Some (Inl (x\<lparr>x2_tag := None\<rparr>))
         | Some m \<Rightarrow> do {
             (ts, off) \<leftarrow> take_tags m buffer (off + 1) (unat n);
             Some (Inr (off, x\<lparr>x2_tag := Some ts\<rparr>))
           })
      }
      else Some (Inr (off, x)))"

definition take_head :: "nat \<Rightarrow> bytes \<Rightarrow> nat \<times> DltExtendedHeaderV2 \<Rightarrow> (nat \<times> DltExtendedHeaderV2) option" where
  "take_head h b s = do {
     s \<leftarrow> take_when (DLT_IS_HTYP2_WEID h) (take_ecid b) s;
     s \<leftarrow> take_when (DLT_IS_HTYP2_WACID h) (take_acid b) s;
     s \<leftarrow> take_when (DLT_IS_HTYP2_WSID h) (take_session b) s;
     take_when (DLT_IS_HTYP2_WSFLN h) (take_file b) s
   }"

definition take_priority :: "bytes \<Rightarrow> nat \<times> DltExtendedHeaderV2 \<Rightarrow> (nat \<times> DltExtendedHeaderV2) option" where
  "take_priority b s = (case s of (off, x) \<Rightarrow> do {
     p \<leftarrow> byte_at b off;
     Some (off + 1, x\<lparr>x2_prlv := p\<rparr>)
   })"

definition take_segment :: "bytes \<Rightarrow> nat \<times> DltExtendedHeaderV2 \<Rightarrow> (nat \<times> DltExtendedHeaderV2) option" where
  "take_segment b s = (case s of (off, x) \<Rightarrow> do {
     i \<leftarrow> byte_at b off;
     f \<leftarrow> byte_at b (off + 1);
     d \<leftarrow> load_at b (off + 2) (sgmtLength f);
     g \<leftarrow> store_at (x2_sgmtdetails x) 0 d;
     Some (off + sgmtLength f + 2, x\<lparr>x2_sgmtinfo := i, x2_frametype := f, x2_sgmtdetails := g\<rparr>)
   })"

definition take_tail :: "nat \<Rightarrow> bytes \<Rightarrow> nat \<times> DltExtendedHeaderV2 \<Rightarrow> (nat \<times> DltExtendedHeaderV2) option" where
  "take_tail h b s = do {
     s \<leftarrow> take_when (DLT_IS_HTYP2_WPVL h) (take_priority b) s;
     take_when (DLT_IS_HTYP2_WSGM h) (take_segment b) s
   }"

definition dlt_message_get_extendedparameters_from_recievedbuffer_v2 ::
  "bytes option \<Rightarrow> DltMessageV2 \<Rightarrow> bytes \<Rightarrow> DltHtyp2ContentType \<Rightarrow> (DltReturnValue \<times> DltMessageV2) option" where
  "dlt_message_get_extendedparameters_from_recievedbuffer_v2 raw msg buffer c = do {
     let start = BASE_HEADER_V2_FIXED_SIZE + dlt_message_get_extraparameters_size_v2 c;
     let msg = msg\<lparr>baseheaderv2 := Some (Ext buffer)\<rparr>;
     h \<leftarrow> htyp2 msg;
     (off, x) \<leftarrow> take_head h buffer (start, extendedheaderv2 msg);
     r \<leftarrow> take_tag_list raw h buffer off x;
     (case r of
        Inl x \<Rightarrow> Some (DLT_RETURN_ERROR, msg\<lparr>extendedheaderv2 := x\<rparr>)
      | Inr s \<Rightarrow> do {
          (off, x) \<leftarrow> take_tail h buffer s;
          Some (DLT_RETURN_OK, msg\<lparr>extendedheaderv2 := x, extendedheadersizev2 := off - start\<rparr>)
        })
   }"


section \<open>Reading a message\<close>

text \<open>A storage header at the beginning of the buffer is skipped.\<close>

definition skip_storage :: "bytes \<Rightarrow> bytes option" where
  "skip_storage buffer =
     (if length buffer \<ge> STORAGE_HEADER_V2_FIXED_SIZE \<and> take 4 buffer = [0x44, 0x4C, 0x54, 2] then
        let n = STORAGE_HEADER_V2_FIXED_SIZE + unat (buffer ! 13)
        in if length buffer < n then None else Some (drop n buffer)
      else Some buffer)"

definition read_start_v2 :: "DltMessageV2 \<Rightarrow> bytes \<Rightarrow> bool \<Rightarrow> DltMessageV2 \<times> bytes" where
  "read_start_v2 msg buffer resync =
     (if take 4 buffer = dltSerialHeader then (msg\<lparr>found_serialheaderv2 := True\<rparr>, drop 4 buffer)
      else if resync then
        let (found, off) = resync_scan buffer 0
        in (msg\<lparr>found_serialheaderv2 := found, resync_offsetv2 := off\<rparr>,
            drop (off + (if found then 4 else 0)) buffer)
      else (msg\<lparr>found_serialheaderv2 := False\<rparr>, buffer))"

text \<open>
  The bytes from the base header on. \<open>alloc\<close> is used for the header buffer and the payload, \<open>raw\<close>
  stands for the array of tags.
\<close>

definition read_payload_v2 :: "malloc \<Rightarrow> DltMessageV2 \<Rightarrow> bytes \<Rightarrow> (int \<times> DltMessageV2) option" where
  "read_payload_v2 alloc msg buffer = do {
     len \<leftarrow> base_len msg;
     let temp_datasize = int len - headersizev2 msg;
     if temp_datasize < 0 then Some (DLT_MESSAGE_ERROR_CONTENT, msg)
     else do {
       let msg = msg\<lparr>datasizev2 := temp_datasize\<rparr>;
       if int (length buffer) < headersizev2 msg + datasizev2 msg then Some (DLT_MESSAGE_ERROR_SIZE, msg)
       else
         let msg = msg\<lparr>databufferv2 := alloc (nat (datasizev2 msg)), databuffersizev2 := datasizev2 msg\<rparr>
         in case databufferv2 msg of
              None \<Rightarrow> Some (DLT_MESSAGE_ERROR_UNKNOWN, msg)
            | Some d \<Rightarrow> do {
                d \<leftarrow> memcpy d 0 buffer (headersizev2 msg) (datasizev2 msg);
                Some (DLT_MESSAGE_ERROR_OK, msg\<lparr>databufferv2 := Some d\<rparr>)
              }
     }
   }"

definition read_headers_v2 ::
  "bytes option \<Rightarrow> DltMessageV2 \<Rightarrow> bytes \<Rightarrow> (DltReturnValue \<times> DltMessageV2) option" where
  "read_headers_v2 raw msg buffer = do {
     let msg = msg\<lparr>baseheaderv2 := Some (Ext buffer)\<rparr>;
     h \<leftarrow> htyp2 msg;
     let c = msgcontent h;
     let msg = msg\<lparr>storageheadersizev2 := 0, baseheadersizev2 := BASE_HEADER_V2_FIXED_SIZE,
                   baseheaderextrasizev2 := dlt_message_get_extraparameters_size_v2 c\<rparr>;
     (_, msg) \<leftarrow> dlt_message_get_extraparameters_from_recievedbuffer_v2 msg buffer c;
     dlt_message_get_extendedparameters_from_recievedbuffer_v2 raw msg buffer c
   }"

definition read_message_v2 :: "malloc \<Rightarrow> bytes option \<Rightarrow> DltMessageV2 \<Rightarrow> bytes \<Rightarrow> (int \<times> DltMessageV2) option" where
  "read_message_v2 alloc raw msg buffer =
     (if length buffer < BASE_HEADER_V2_FIXED_SIZE then Some (DLT_MESSAGE_ERROR_SIZE, msg)
      else do {
        (ret, msg) \<leftarrow> read_headers_v2 raw msg buffer;
        if ret \<noteq> DLT_RETURN_OK then Some (ret_int DLT_RETURN_ERROR, msg)
        else do {
          let hs = baseheadersizev2 msg + baseheaderextrasizev2 msg + extendedheadersizev2 msg;
          let msg = msg\<lparr>headersizev2 := int hs\<rparr>;
          (case alloc hs of
             None \<Rightarrow> Some (ret_int DLT_RETURN_ERROR, msg)
           | Some b \<Rightarrow> do {
               b \<leftarrow> memcpy b 0 buffer 0 (int hs);
               read_payload_v2 alloc (msg\<lparr>headerbufferv2 := Some b\<rparr>) buffer
             })
        }
      })"

definition dlt_message_read_v2 ::
  "malloc \<Rightarrow> bytes option \<Rightarrow> DltMessageV2 \<Rightarrow> bytes \<Rightarrow> bool \<Rightarrow> (int \<times> DltMessageV2) option" where
  "dlt_message_read_v2 alloc raw msg buffer resync =
     (if buffer = [] then Some (DLT_MESSAGE_ERROR_UNKNOWN, msg)
      else
        let msg = msg\<lparr>headerbufferv2 := None, databufferv2 := None, headersizev2 := 0, datasizev2 := 0,
              databuffersizev2 := 0, storageheaderv2 := zero_storageheader,
              extendedheaderv2 := zero_extendedheader, baseheaderv2 := None,
              found_serialheaderv2 := False, resync_offsetv2 := 0\<rparr>
        in case skip_storage buffer of
             None \<Rightarrow> Some (DLT_MESSAGE_ERROR_SIZE, msg\<lparr>storageheadersizev2 := 14 + unat (buffer ! 13),
               storageheaderv2 := zero_storageheader\<lparr>sh_ecidlen := unat (buffer ! 13)\<rparr>\<rparr>)
           | Some rest \<Rightarrow>
               let msg = (if rest = buffer then msg\<lparr>storageheadersizev2 := 0\<rparr>
                          else msg\<lparr>storageheadersizev2 := 14 + unat (buffer ! 13),
                                   storageheaderv2 := zero_storageheader\<lparr>sh_ecidlen := unat (buffer ! 13)\<rparr>\<rparr>)
               in if length rest < 4 then Some (DLT_MESSAGE_ERROR_SIZE, msg)
                  else
                    let (msg, rest) = read_start_v2 msg rest resync
                    in read_message_v2 alloc raw msg rest)"


section \<open>The format of the extended header\<close>

text \<open>What a pointer of a header that is being built points to.\<close>

definition text_at :: "cptr option \<Rightarrow> bytes" where
  "text_at p = (case p of Some (Ext b) \<Rightarrow> b | _ \<Rightarrow> [])"

definition field :: "nat \<Rightarrow> cptr option \<Rightarrow> bytes" where
  "field n p = of_nat n # take n (text_at p)"

definition field_ok :: "nat \<Rightarrow> cptr option \<Rightarrow> bool" where
  "field_ok n p \<longleftrightarrow> n < 256 \<and> n \<le> length (text_at p) \<and> (\<forall>k. p \<noteq> Some (Hdr k))"

definition tag_bytes :: "DltTag \<Rightarrow> bytes" where
  "tag_bytes t = of_nat (taglen t) # take (taglen t) (tagname t)"

definition tag_ok :: "DltTag \<Rightarrow> bool" where
  "tag_ok t \<longleftrightarrow> taglen t < 255 \<and> taglen t \<le> length (tagname t)"

definition tags_of :: "DltExtendedHeaderV2 \<Rightarrow> DltTag list" where
  "tags_of x = (case x2_tag x of None \<Rightarrow> [] | Some ts \<Rightarrow> ts)"

definition segment_bytes :: "DltExtendedHeaderV2 \<Rightarrow> bytes" where
  "segment_bytes x = [x2_sgmtinfo x, x2_frametype x] @ take (sgmtLength (x2_frametype x)) (x2_sgmtdetails x)"

definition head_bytes :: "nat \<Rightarrow> DltExtendedHeaderV2 \<Rightarrow> bytes" where
  "head_bytes h x =
     (if DLT_IS_HTYP2_WEID h then field (x2_ecidlen x) (x2_ecid x) else []) @
     (if DLT_IS_HTYP2_WACID h then field (x2_apidlen x) (x2_apid x) @ field (x2_ctidlen x) (x2_ctid x) else []) @
     (if DLT_IS_HTYP2_WSID h then be_bytes 4 (x2_seid x) else []) @
     (if DLT_IS_HTYP2_WSFLN h then field (x2_finalen x) (x2_fina x) @ be_bytes 4 (x2_linr x) else [])"

definition tail_bytes :: "nat \<Rightarrow> DltExtendedHeaderV2 \<Rightarrow> bytes" where
  "tail_bytes h x =
     (if DLT_IS_HTYP2_WPVL h then [x2_prlv x] else []) @ (if DLT_IS_HTYP2_WSGM h then segment_bytes x else [])"

definition tags_bytes :: "nat \<Rightarrow> DltExtendedHeaderV2 \<Rightarrow> bytes" where
  "tags_bytes h x = (if DLT_IS_HTYP2_WTGS h then of_nat (x2_notg x) # concat (map tag_bytes (tags_of x)) else [])"

definition ext_bytes :: "nat \<Rightarrow> DltExtendedHeaderV2 \<Rightarrow> bytes" where
  "ext_bytes h x = head_bytes h x @ tags_bytes h x @ tail_bytes h x"

definition ext_ok :: "DltExtendedHeaderV2 \<Rightarrow> bool" where
  "ext_ok x \<longleftrightarrow> field_ok (x2_ecidlen x) (x2_ecid x) \<and> field_ok (x2_apidlen x) (x2_apid x)
     \<and> field_ok (x2_ctidlen x) (x2_ctid x) \<and> field_ok (x2_finalen x) (x2_fina x)
     \<and> x2_seid x < 2 ^ 32 \<and> x2_linr x < 2 ^ 32 \<and> length (tags_of x) = x2_notg x \<and> x2_notg x < 256
     \<and> (\<forall>t\<in>set (tags_of x). tag_ok t) \<and> length (x2_sgmtdetails x) = 8"

lemma sgmtLength_le: "sgmtLength f \<le> 8"
  by (simp add: sgmtLength_def)

lemma length_field: "field_ok n p \<Longrightarrow> length (field n p) = n + 1"
  by (simp add: field_def field_ok_def)

lemma tags_size_spec: "n = length ts \<Longrightarrow> (\<forall>t\<in>set ts. tag_ok t) \<Longrightarrow> tags_size n ts = Some (length (concat (map tag_bytes ts)))"
  by (induction ts arbitrary: n) (auto simp: tag_bytes_def tag_ok_def)

text \<open>The size function computes the length of the extended header.\<close>

lemma extended_size:
  assumes "ext_ok (extendedheaderv2 m)" "htyp2 m = Some h"
  shows "dlt_message_get_extendedparameters_size_v2 m = Some (length (ext_bytes h (extendedheaderv2 m)))"
  using assms tags_size_spec [of "x2_notg (extendedheaderv2 m)" "tags_of (extendedheaderv2 m)"]
    sgmtLength_le [of "x2_frametype (extendedheaderv2 m)"]
  by (auto simp: dlt_message_get_extendedparameters_size_v2_def ext_bytes_def head_bytes_def tags_bytes_def
      tail_bytes_def segment_bytes_def length_field ext_ok_def tags_of_def Let_def)


section \<open>Writing the extended header\<close>

text \<open>
  \<open>c\<close> was written at \<open>off0\<close>, and what is in front of it is as before; the bytes behind it may
  have changed.
\<close>

definition wrote :: "bytes \<Rightarrow> nat \<Rightarrow> bytes \<Rightarrow> bytes \<Rightarrow> nat \<Rightarrow> bool" where
  "wrote hb0 off0 c hb off \<longleftrightarrow> length hb = length hb0 \<and> off = off0 + length c \<and> off \<le> length hb
     \<and> take off hb = take off0 hb0 @ c"

lemma wrote_nothing [simp]: "off \<le> length hb \<Longrightarrow> wrote hb off [] hb off"
  by (simp add: wrote_def)

lemma wrote_trans: "wrote a i c b j \<Longrightarrow> wrote b j d e k \<Longrightarrow> wrote a i (c @ d) e k"
  by (auto simp: wrote_def)

lemma wrote_store: "off + length c \<le> length hb \<Longrightarrow> \<exists>hb'. store_at hb off c = Some hb' \<and> wrote hb off c hb' (off + length c)"
  by (simp add: store_at_def wrote_def)

lemma wrote_before:
  assumes "wrote a i c b j"
  shows "take i b = take i a" "length b = length a"
proof -
  have j: "j = i + length c" "j \<le> length b" "length b = length a" "take j b = take i a @ c"
    using assms unfolding wrote_def by blast+
  have "take i b = take i (take j b)" using j(1) by (simp add: min_absorb1)
  also have "\<dots> = take i (take i a @ c)" by (simp only: j(4))
  also have "\<dots> = take i a" using j(1-3) by simp
  finally show "take i b = take i a" .
  show "length b = length a" by (rule j(3))
qed

text \<open>Writing two pieces one after the other.\<close>

lemma store_two:
  assumes "off + 1 + length d \<le> length hb"
  shows "\<exists>hb1 hb2. store_at hb off [c] = Some hb1 \<and> store_at hb1 (off + 1) d = Some hb2
    \<and> wrote hb off (c # d) hb2 (off + length d + 1) \<and> length hb1 = length hb"
proof -
  obtain hb1 where 1: "store_at hb off [c] = Some hb1" "wrote hb off [c] hb1 (off + 1)"
    using wrote_store [of off "[c]" hb] assms by auto
  have l: "length hb1 = length hb" using 1(2) by (simp add: wrote_def)
  obtain hb2 where 2: "store_at hb1 (off + 1) d = Some hb2" "wrote hb1 (off + 1) d hb2 (off + 1 + length d)"
    using wrote_store [of "off + 1" d hb1] assms l by auto
  from wrote_trans [OF 1(2) 2(2)] have "wrote hb off (c # d) hb2 (off + length d + 1)" by (simp add: add.commute add.left_commute)
  with 1 2 l show ?thesis by auto
qed

lemma put_id_spec:
  assumes "field_ok (lenf x) (ptr_of x)" "off + lenf x + 1 \<le> length hb" "upd (\<lambda>_. ptr_of x) x = x"
  shows "\<exists>hb' p. put_id lenf ptr_of upd (hb, off, x) = Some (Inr (hb', off + lenf x + 1, upd (\<lambda>_. p) x))
    \<and> wrote hb off (field (lenf x) (ptr_of x)) hb' (off + lenf x + 1)"
proof (cases "lenf x = 0")
  case True
  then obtain hb1 where h: "store_at hb off [0] = Some hb1" "wrote hb off [0] hb1 (off + 1)"
    using assms(2) wrote_store [of off "[0]" hb] by auto
  show ?thesis using True h assms(3)
    by (intro exI [of _ hb1] exI [of _ "ptr_of x"]) (simp add: put_id_def field_def)
next
  case False
  then obtain b where b: "ptr_of x = Some (Ext b)" "lenf x \<le> length b"
    using assms(1) by (cases "ptr_of x") (auto simp: field_ok_def text_at_def split: cptr.splits)
  obtain hb1 hb2 where h: "store_at hb off [of_nat (lenf x)] = Some hb1" "store_at hb1 (off + 1) (take (lenf x) b) = Some hb2"
    "wrote hb off (of_nat (lenf x) # take (lenf x) b) hb2 (off + lenf x + 1)"
    using store_two [of off "take (lenf x) b" hb "of_nat (lenf x)"] assms(2) b(2) by (auto simp: min_absorb2)
  with False b show ?thesis by (auto simp: put_id_def field_def text_at_def load_at_def Let_def)
qed

lemma put_id_flag:
  assumes "field_ok (lenf x) (ptr_of x)" "off + (if b then length (field (lenf x) (ptr_of x)) else 0) \<le> length hb"
    "upd (\<lambda>_. ptr_of x) x = x"
  shows "\<exists>hb' p. when_flag b (put_id lenf ptr_of upd) (hb, off, x)
      = Some (Inr (hb', off + (if b then length (field (lenf x) (ptr_of x)) else 0), upd (\<lambda>_. p) x))
    \<and> wrote hb off (if b then field (lenf x) (ptr_of x) else []) hb'
        (off + (if b then length (field (lenf x) (ptr_of x)) else 0))"
proof (cases b)
  case True
  then show ?thesis using put_id_spec [of lenf x ptr_of off hb upd] assms by (simp add: when_flag_def length_field)
next
  case False
  then show ?thesis using assms
    by (intro exI [of _ hb] exI [of _ "ptr_of x"]) (simp add: when_flag_def)
qed

lemma put_file_spec:
  assumes "field_ok (x2_finalen x) (x2_fina x)" "off + x2_finalen x + 5 \<le> length hb"
  shows "\<exists>hb' p. put_file (hb, off, x) = Some (Inr (hb', off + x2_finalen x + 5, x\<lparr>x2_fina := p\<rparr>))
    \<and> wrote hb off (field (x2_finalen x) (x2_fina x) @ be_bytes 4 (x2_linr x)) hb' (off + x2_finalen x + 5)"
proof -
  obtain hb1 p where 1: "put_id x2_finalen x2_fina x2_fina_update (hb, off, x)
      = Some (Inr (hb1, off + x2_finalen x + 1, x\<lparr>x2_fina := p\<rparr>))"
    "wrote hb off (field (x2_finalen x) (x2_fina x)) hb1 (off + x2_finalen x + 1)"
    using put_id_spec [of x2_finalen x x2_fina off hb x2_fina_update] assms by auto
  have l: "length hb1 = length hb" using 1(2) by (simp add: wrote_def)
  obtain hb2 where 2: "store_at hb1 (off + x2_finalen x + 1) (be_bytes 4 (x2_linr x)) = Some hb2"
    "wrote hb1 (off + x2_finalen x + 1) (be_bytes 4 (x2_linr x)) hb2 (off + x2_finalen x + 5)"
    using wrote_store [of "off + x2_finalen x + 1" "be_bytes 4 (x2_linr x)" hb1] l assms(2) by (auto simp: add.commute)
  have "put_file (hb, off, x) = Some (Inr (hb2, off + x2_finalen x + 5, x\<lparr>x2_fina := p\<rparr>))"
    using 1(1) 2(1) by (auto simp: put_file_def put_id_def Let_def split: if_splits option.splits bind_splits)
  with wrote_trans [OF 1(2) 2(2)] show ?thesis by blast
qed

lemma put_tag_spec:
  assumes "tag_ok t" "off + taglen t + 2 \<le> length hb"
  shows "\<exists>hb1 hb2 hb3. store_at hb off [of_nat (taglen t)] = Some hb1
    \<and> load_at (tagname t) 0 (taglen t) = Some (take (taglen t) (tagname t))
    \<and> store_at hb1 (off + 1) (take (taglen t) (tagname t)) = Some hb2
    \<and> store_at hb2 (off + 1 + taglen t) [0] = Some hb3
    \<and> wrote hb off (tag_bytes t) hb3 (off + taglen t + 1) \<and> length hb3 = length hb"
proof -
  have n: "min (length (tagname t)) (taglen t) = taglen t" using assms(1) by (simp add: tag_ok_def)
  obtain hb1 hb2 where h: "store_at hb off [of_nat (taglen t)] = Some hb1"
    "store_at hb1 (off + 1) (take (taglen t) (tagname t)) = Some hb2"
    "wrote hb off (tag_bytes t) hb2 (off + taglen t + 1)"
    using store_two [of off "take (taglen t) (tagname t)" hb "of_nat (taglen t)"] assms(2) n by (auto simp: tag_bytes_def)
  have l: "length hb2 = length hb" using h(3) by (simp add: wrote_def)
  obtain hb3 where 3: "store_at hb2 (off + 1 + taglen t) [0] = Some hb3"
    "take (off + 1 + taglen t) hb3 = take (off + 1 + taglen t) hb2" "length hb3 = length hb2"
    using wrote_store [of "off + 1 + taglen t" "[0]" hb2] l assms(2)
    by (auto simp: store_at_def)
  have "wrote hb off (tag_bytes t) hb3 (off + taglen t + 1)" using h(3) 3(2,3) by (simp add: wrote_def)
  with h 3 l assms(1) show ?thesis by (auto simp: load_at_def tag_ok_def)
qed

lemma put_tags_spec:
  "n = length ts \<Longrightarrow> (\<forall>t\<in>set ts. tag_ok t) \<Longrightarrow> off + length (concat (map tag_bytes ts)) + (if ts = [] then 0 else 1) \<le> length hb
   \<Longrightarrow> \<exists>hb'. put_tags n ts hb off = Some (hb', off + length (concat (map tag_bytes ts)))
      \<and> wrote hb off (concat (map tag_bytes ts)) hb' (off + length (concat (map tag_bytes ts)))"
proof (induction ts arbitrary: n hb off)
  case Nil
  then show ?case by simp
next
  case (Cons t ts)
  have l: "length (tag_bytes t) = taglen t + 1" using Cons.prems(2) by (simp add: tag_bytes_def tag_ok_def)
  obtain hb1 hb2 hb3 where h: "store_at hb off [of_nat (taglen t)] = Some hb1"
    "load_at (tagname t) 0 (taglen t) = Some (take (taglen t) (tagname t))"
    "store_at hb1 (off + 1) (take (taglen t) (tagname t)) = Some hb2"
    "store_at hb2 (off + 1 + taglen t) [0] = Some hb3"
    "wrote hb off (tag_bytes t) hb3 (off + taglen t + 1)" "length hb3 = length hb"
    using put_tag_spec [of t off hb] Cons.prems(2,3) l by auto
  have r: "off + taglen t + 1 + length (concat (map tag_bytes ts)) + (if ts = [] then 0 else 1) \<le> length hb3"
    using Cons.prems(3) h(6) l by simp
  obtain hb' where i: "put_tags (length ts) ts hb3 (off + taglen t + 1)
      = Some (hb', off + taglen t + 1 + length (concat (map tag_bytes ts)))"
    "wrote hb3 (off + taglen t + 1) (concat (map tag_bytes ts)) hb' (off + taglen t + 1 + length (concat (map tag_bytes ts)))"
    using Cons.IH [OF refl _ r] Cons.prems(2) by auto
  show ?case using h i wrote_trans [OF h(5) i(2)] l Cons.prems(1) by (simp add: add.assoc)
qed

lemma put_tags_overflow:
  "n = length ts \<Longrightarrow> ts \<noteq> [] \<Longrightarrow> (\<forall>t\<in>set ts. tag_ok t) \<Longrightarrow> off + length (concat (map tag_bytes ts)) = length hb
   \<Longrightarrow> put_tags n ts hb off = None"
proof (induction ts arbitrary: n hb off)
  case Nil
  then show ?case by simp
next
  case (Cons t ts)
  have l: "length (tag_bytes t) = taglen t + 1" using Cons.prems(3) by (simp add: tag_bytes_def tag_ok_def)
  show ?case
  proof (cases "ts = []")
    case True
    then show ?thesis using Cons.prems l by (auto simp: store_at_def load_at_def bind_eq_None_conv)
  next
    case False
    then have "concat (map tag_bytes ts) \<noteq> []" by (cases ts) (auto simp: tag_bytes_def)
    then obtain k where "length (concat (map tag_bytes ts)) = Suc k" by (cases "concat (map tag_bytes ts)") simp_all
    then have "off + taglen t + 2 \<le> length hb" using Cons.prems(4) l by simp
    then obtain hb1 hb2 hb3 where h: "store_at hb off [of_nat (taglen t)] = Some hb1"
      "load_at (tagname t) 0 (taglen t) = Some (take (taglen t) (tagname t))"
      "store_at hb1 (off + 1) (take (taglen t) (tagname t)) = Some hb2"
      "store_at hb2 (off + 1 + taglen t) [0] = Some hb3" "length hb3 = length hb"
      using put_tag_spec [of t off hb] Cons.prems(3) by auto
    show ?thesis using h Cons.prems l False Cons.IH [of "length ts" "off + taglen t + 1" hb3] by simp
  qed
qed

lemma put_segment_spec:
  assumes "length (x2_sgmtdetails x) = 8" "off + length (segment_bytes x) \<le> length hb"
  shows "\<exists>hb'. put_segment (hb, off, x) = Some (Inr (hb', off + length (segment_bytes x), x))
    \<and> wrote hb off (segment_bytes x) hb' (off + length (segment_bytes x))"
proof -
  let ?d = "take (sgmtLength (x2_frametype x)) (x2_sgmtdetails x)"
  have n: "length ?d = sgmtLength (x2_frametype x)" using assms(1) sgmtLength_le [of "x2_frametype x"] by simp
  have l: "length (segment_bytes x) = sgmtLength (x2_frametype x) + 2" using n by (simp add: segment_bytes_def)
  obtain hb1 hb2 where h: "store_at hb off [x2_sgmtinfo x] = Some hb1" "store_at hb1 (off + 1) [x2_frametype x] = Some hb2"
    "wrote hb off [x2_sgmtinfo x, x2_frametype x] hb2 (off + 2)"
    using store_two [of off "[x2_frametype x]" hb "x2_sgmtinfo x"] assms(2) l by auto
  have l2: "length hb2 = length hb" using h(3) by (simp add: wrote_def)
  obtain hb3 where 3: "store_at hb2 (off + 2) ?d = Some hb3" "wrote hb2 (off + 2) ?d hb3 (off + 2 + length ?d)"
    using wrote_store [of "off + 2" ?d hb2] assms(2) l l2 n by auto
  have "put_segment (hb, off, x) = Some (Inr (hb3, off + length (segment_bytes x), x))"
    using h 3 assms(1) n l by (simp add: put_segment_def load_at_def Let_def)
  moreover have "wrote hb off (segment_bytes x) hb3 (off + length (segment_bytes x))"
    using wrote_trans [OF h(3) 3(2)] l n by (simp add: segment_bytes_def)
  ultimately show ?thesis by blast
qed

lemma put_tail_spec:
  assumes "length (x2_sgmtdetails x) = 8" "off + length (tail_bytes h x) \<le> length hb"
  shows "\<exists>hb'. put_tail h (hb, off, x) = Some (Inr (hb', off + length (tail_bytes h x), x))
    \<and> wrote hb off (tail_bytes h x) hb' (off + length (tail_bytes h x))"
proof -
  let ?p = "if DLT_IS_HTYP2_WPVL h then [x2_prlv x] else []"
  obtain hb1 where 1: "when_flag (DLT_IS_HTYP2_WPVL h) (\<lambda>(hb, off, x). do {
         hb \<leftarrow> store_at hb off [x2_prlv x];
         Some (Inr (hb, off + 1, x))
       }) (hb, off, x) = Some (Inr (hb1, off + length ?p, x))" "wrote hb off ?p hb1 (off + length ?p)"
    using assms(2) wrote_store [of off "[x2_prlv x]" hb]
    by (cases "DLT_IS_HTYP2_WPVL h") (auto simp: when_flag_def tail_bytes_def)
  have l1: "length hb1 = length hb" using 1(2) by (simp add: wrote_def)
  let ?s = "if DLT_IS_HTYP2_WSGM h then segment_bytes x else []"
  obtain hb2 where 2: "when_flag (DLT_IS_HTYP2_WSGM h) put_segment (hb1, off + length ?p, x)
      = Some (Inr (hb2, off + length ?p + length ?s, x))" "wrote hb1 (off + length ?p) ?s hb2 (off + length ?p + length ?s)"
    using put_segment_spec [OF assms(1), of "off + length ?p" hb1] assms(2) l1
    by (cases "DLT_IS_HTYP2_WSGM h") (auto simp: when_flag_def tail_bytes_def wrote_def)
  have "put_tail h (hb, off, x) = Some (Inr (hb2, off + length ?p + length ?s, x))"
    unfolding put_tail_def 1(1) and_then_def by (simp only: option.case sum.case 2(1))
  then show ?thesis using wrote_trans [OF 1(2) 2(2)] by (simp add: tail_bytes_def add.assoc)
qed

lemma put_tag_list_spec:
  assumes "length (tags_of x) = x2_notg x" "\<forall>t\<in>set (tags_of x). tag_ok t"
    "off + 1 + length (concat (map tag_bytes (tags_of x))) + (if x2_notg x = 0 then 0 else 1) \<le> length hb"
  shows "\<exists>hb'. put_tag_list (hb, off, x) = Some (Inr (hb', off + 1 + length (concat (map tag_bytes (tags_of x))), x))
    \<and> wrote hb off (of_nat (x2_notg x) # concat (map tag_bytes (tags_of x))) hb'
        (off + 1 + length (concat (map tag_bytes (tags_of x))))"
proof -
  obtain hb1 where 1: "store_at hb off [of_nat (x2_notg x)] = Some hb1" "wrote hb off [of_nat (x2_notg x)] hb1 (off + 1)"
    using wrote_store [of off "[of_nat (x2_notg x)]" hb] assms(3) by auto
  have l: "length hb1 = length hb" using 1(2) by (simp add: wrote_def)
  have t: "x2_notg x = length (tags_of x)" "\<forall>t\<in>set (tags_of x). tag_ok t" using assms(1,2) by simp_all
  have r: "off + 1 + length (concat (map tag_bytes (tags_of x))) + (if tags_of x = [] then 0 else 1) \<le> length hb1"
    using assms(3) l t(1) by simp
  obtain hb2 where 2: "put_tags (x2_notg x) (tags_of x) hb1 (off + 1)
      = Some (hb2, off + 1 + length (concat (map tag_bytes (tags_of x))))"
    "wrote hb1 (off + 1) (concat (map tag_bytes (tags_of x))) hb2 (off + 1 + length (concat (map tag_bytes (tags_of x))))"
    using put_tags_spec [OF t(1,2) r] by auto
  have "put_tag_list (hb, off, x) = Some (Inr (hb2, off + 1 + length (concat (map tag_bytes (tags_of x))), x))"
    using 1(1) 2(1) by (simp add: put_tag_list_def tags_of_def)
  with wrote_trans [OF 1(2) 2(2)] show ?thesis by auto
qed

text \<open>The room that the zero behind the last tag takes up.\<close>

definition nul_room :: "nat \<Rightarrow> DltExtendedHeaderV2 \<Rightarrow> nat" where
  "nul_room h x = (if DLT_IS_HTYP2_WTGS h \<and> x2_notg x > 0 \<and> tail_bytes h x = [] then 1 else 0)"

lemma and_then_Inr [simp]: "and_then (Some (Inr s)) f = f s"
  by (simp add: and_then_def)

lemma put_session_flag:
  assumes "off + length (if b then be_bytes 4 (x2_seid x) else []) \<le> length hb"
  shows "\<exists>hb'. when_flag b put_session (hb, off, x) = Some (Inr (hb', off + length (if b then be_bytes 4 (x2_seid x) else []), x))
    \<and> wrote hb off (if b then be_bytes 4 (x2_seid x) else []) hb' (off + length (if b then be_bytes 4 (x2_seid x) else []))"
  using assms wrote_store [of off "be_bytes 4 (x2_seid x)" hb] by (cases b) (auto simp: when_flag_def put_session_def)

lemma put_file_flag:
  assumes "field_ok (x2_finalen x) (x2_fina x)"
    "off + length (if b then field (x2_finalen x) (x2_fina x) @ be_bytes 4 (x2_linr x) else []) \<le> length hb"
  shows "\<exists>hb' p. when_flag b put_file (hb, off, x)
      = Some (Inr (hb', off + length (if b then field (x2_finalen x) (x2_fina x) @ be_bytes 4 (x2_linr x) else []), x\<lparr>x2_fina := p\<rparr>))
    \<and> wrote hb off (if b then field (x2_finalen x) (x2_fina x) @ be_bytes 4 (x2_linr x) else []) hb'
        (off + length (if b then field (x2_finalen x) (x2_fina x) @ be_bytes 4 (x2_linr x) else []))"
proof (cases b)
  case True
  then show ?thesis using put_file_spec [of x off hb] assms by (simp add: when_flag_def length_field ac_simps)
next
  case False
  then show ?thesis using assms by (intro exI [of _ hb] exI [of _ "x2_fina x"]) (simp add: when_flag_def)
qed

lemma put_head_spec:
  assumes "ext_ok x" "off + length (head_bytes h x) \<le> length hb"
  shows "\<exists>hb' e a c f. put_head h (hb, off, x) = Some (Inr (hb', off + length (head_bytes h x),
      x\<lparr>x2_ecid := e, x2_apid := a, x2_ctid := c, x2_fina := f\<rparr>)) \<and> wrote hb off (head_bytes h x) hb' (off + length (head_bytes h x))"
proof -
  have ok: "field_ok (x2_ecidlen x) (x2_ecid x)" "field_ok (x2_apidlen x) (x2_apid x)"
    "field_ok (x2_ctidlen x) (x2_ctid x)" "field_ok (x2_finalen x) (x2_fina x)" using assms(1) by (simp_all add: ext_ok_def)
  let ?E = "if DLT_IS_HTYP2_WEID h then field (x2_ecidlen x) (x2_ecid x) else []"
  let ?A = "if DLT_IS_HTYP2_WACID h then field (x2_apidlen x) (x2_apid x) else []"
  let ?C = "if DLT_IS_HTYP2_WACID h then field (x2_ctidlen x) (x2_ctid x) else []"
  let ?S = "if DLT_IS_HTYP2_WSID h then be_bytes 4 (x2_seid x) else []"
  let ?F = "if DLT_IS_HTYP2_WSFLN h then field (x2_finalen x) (x2_fina x) @ be_bytes 4 (x2_linr x) else []"
  define o1 o2 o3 o4 where o: "o1 = off + length ?E" "o2 = o1 + length ?A" "o3 = o2 + length ?C" "o4 = o3 + length ?S"
  have hb: "head_bytes h x = ?E @ ?A @ ?C @ ?S @ ?F" by (simp add: head_bytes_def)
  then have fin: "off + length (head_bytes h x) = o4 + length ?F" using o by simp
  have r: "o1 \<le> length hb" "o2 \<le> length hb" "o3 \<le> length hb" "o4 \<le> length hb" "o4 + length ?F \<le> length hb"
    using assms(2) fin o by linarith+
  obtain h1 e where 1: "when_flag (DLT_IS_HTYP2_WEID h) (put_id x2_ecidlen x2_ecid x2_ecid_update) (hb, off, x)
      = Some (Inr (h1, o1, x\<lparr>x2_ecid := e\<rparr>))" "wrote hb off ?E h1 o1"
    using put_id_flag [of x2_ecidlen x x2_ecid off "DLT_IS_HTYP2_WEID h" hb x2_ecid_update] ok(1) r(1) o(1) by (auto split: if_splits)
  have l1: "length h1 = length hb" using 1(2) by (simp add: wrote_def)
  obtain h2 a where 2: "when_flag (DLT_IS_HTYP2_WACID h) (put_id x2_apidlen x2_apid x2_apid_update) (h1, o1, x\<lparr>x2_ecid := e\<rparr>)
      = Some (Inr (h2, o2, x\<lparr>x2_ecid := e, x2_apid := a\<rparr>))" "wrote h1 o1 ?A h2 o2"
    using put_id_flag [of x2_apidlen "x\<lparr>x2_ecid := e\<rparr>" x2_apid o1 "DLT_IS_HTYP2_WACID h" h1 x2_apid_update] ok(2) r(2) l1 o(2)
    by (auto split: if_splits)
  have l2: "length h2 = length hb" using 2(2) l1 by (simp add: wrote_def)
  obtain h3 c where 3: "when_flag (DLT_IS_HTYP2_WACID h) (put_id x2_ctidlen x2_ctid x2_ctid_update)
      (h2, o2, x\<lparr>x2_ecid := e, x2_apid := a\<rparr>) = Some (Inr (h3, o3, x\<lparr>x2_ecid := e, x2_apid := a, x2_ctid := c\<rparr>))"
    "wrote h2 o2 ?C h3 o3"
    using put_id_flag [of x2_ctidlen "x\<lparr>x2_ecid := e, x2_apid := a\<rparr>" x2_ctid o2 "DLT_IS_HTYP2_WACID h" h2 x2_ctid_update]
      ok(3) r(3) l2 o(3) by (auto split: if_splits)
  have l3: "length h3 = length hb" using 3(2) l2 by (simp add: wrote_def)
  let ?x = "x\<lparr>x2_ecid := e, x2_apid := a, x2_ctid := c\<rparr>"
  obtain h4 where 4: "when_flag (DLT_IS_HTYP2_WSID h) put_session (h3, o3, ?x) = Some (Inr (h4, o4, ?x))" "wrote h3 o3 ?S h4 o4"
    using put_session_flag [of o3 "DLT_IS_HTYP2_WSID h" ?x h3] r(4) l3 o(4) by (auto split: if_splits)
  have l4: "length h4 = length hb" using 4(2) l3 by (simp add: wrote_def)
  obtain h5 f where 5: "when_flag (DLT_IS_HTYP2_WSFLN h) put_file (h4, o4, ?x) = Some (Inr (h5, o4 + length ?F, ?x\<lparr>x2_fina := f\<rparr>))"
    "wrote h4 o4 ?F h5 (o4 + length ?F)"
    using put_file_flag [of ?x o4 "DLT_IS_HTYP2_WSFLN h" h4] ok(4) r(5) l4 by (auto split: if_splits)
  have "put_head h (hb, off, x) = Some (Inr (h5, o4 + length ?F, ?x\<lparr>x2_fina := f\<rparr>))"
    unfolding put_head_def 1(1) and_then_Inr 2(1) 3(1) 4(1) by (rule 5(1))
  moreover have "wrote hb off (head_bytes h x) h5 (o4 + length ?F)"
    unfolding hb by (intro wrote_trans [OF 1(2)] wrote_trans [OF 2(2)] wrote_trans [OF 3(2)] wrote_trans [OF 4(2)] 5(2))
  ultimately show ?thesis unfolding fin by (intro exI conjI) auto
qed

lemma ext_unchanged:
  "tags_bytes h (x\<lparr>x2_ecid := e, x2_apid := a, x2_ctid := c, x2_fina := f\<rparr>) = tags_bytes h x"
  "tail_bytes h (x\<lparr>x2_ecid := e, x2_apid := a, x2_ctid := c, x2_fina := f\<rparr>) = tail_bytes h x"
  by (simp_all add: tags_bytes_def tail_bytes_def tags_of_def segment_bytes_def)

lemma put_tag_list_flag:
  assumes "length (tags_of x) = x2_notg x" "\<forall>t\<in>set (tags_of x). tag_ok t" "off + length (tags_bytes h x) + nul_room h x + length (tail_bytes h x) \<le> length hb"
  shows "\<exists>hb'. when_flag (DLT_IS_HTYP2_WTGS h) put_tag_list (hb, off, x) = Some (Inr (hb', off + length (tags_bytes h x), x))
    \<and> wrote hb off (tags_bytes h x) hb' (off + length (tags_bytes h x))"
proof (cases "DLT_IS_HTYP2_WTGS h")
  case True
  then have "off + 1 + length (concat (map tag_bytes (tags_of x))) + (if x2_notg x = 0 then 0 else 1) \<le> length hb"
    using assms(3) by (cases "tail_bytes h x") (auto simp: tags_bytes_def nul_room_def split: if_splits)
  then show ?thesis using put_tag_list_spec [OF assms(1,2)] True by (simp add: when_flag_def tags_bytes_def)
qed (use assms in \<open>simp add: when_flag_def tags_bytes_def\<close>)

lemma put_extended_spec:
  assumes "ext_ok x" "off + length (ext_bytes h x) + nul_room h x \<le> length hb"
  shows "\<exists>hb' e a c f. put_extended h (hb, off, x) = Some (Inr (hb', off + length (ext_bytes h x),
      x\<lparr>x2_ecid := e, x2_apid := a, x2_ctid := c, x2_fina := f\<rparr>)) \<and> wrote hb off (ext_bytes h x) hb' (off + length (ext_bytes h x))"
proof -
  let ?x = "\<lambda>e a c f. x\<lparr>x2_ecid := e, x2_apid := a, x2_ctid := c, x2_fina := f\<rparr>"
  obtain h1 e a c f where 1: "put_head h (hb, off, x) = Some (Inr (h1, off + length (head_bytes h x), ?x e a c f))"
    "wrote hb off (head_bytes h x) h1 (off + length (head_bytes h x))"
    using put_head_spec [OF assms(1), of off h hb] assms(2) by (auto simp: ext_bytes_def)
  have l1: "length h1 = length hb" using 1(2) by (simp add: wrote_def)
  let ?X = "?x e a c f"
  let ?o = "off + length (head_bytes h x)"
  have t: "length (tags_of ?X) = x2_notg ?X" "\<forall>t\<in>set (tags_of ?X). tag_ok t" "length (x2_sgmtdetails ?X) = 8"
    using assms(1) by (simp_all add: ext_ok_def tags_of_def)
  have n: "nul_room h ?X = nul_room h x" by (simp add: nul_room_def ext_unchanged)
  have "?o + length (tags_bytes h ?X) + nul_room h ?X + length (tail_bytes h ?X) \<le> length h1"
    using assms(2) l1 unfolding ext_unchanged n by (simp add: ext_bytes_def)
  then obtain h2 where 2: "when_flag (DLT_IS_HTYP2_WTGS h) put_tag_list (h1, ?o, ?X) = Some (Inr (h2, ?o + length (tags_bytes h x), ?X))"
    "wrote h1 ?o (tags_bytes h x) h2 (?o + length (tags_bytes h x))"
    using put_tag_list_flag [OF t(1,2), of ?o h h1] unfolding ext_unchanged by blast
  let ?p = "?o + length (tags_bytes h x)"
  have "?p + length (tail_bytes h ?X) \<le> length h2"
    using assms(2) l1 2(2) unfolding ext_unchanged by (simp add: ext_bytes_def wrote_def)
  then obtain h3 where 3: "put_tail h (h2, ?p, ?X) = Some (Inr (h3, ?p + length (tail_bytes h x), ?X))"
    "wrote h2 ?p (tail_bytes h x) h3 (?p + length (tail_bytes h x))"
    using put_tail_spec [OF t(3), of ?p h h2] unfolding ext_unchanged by blast
  have fin: "off + length (ext_bytes h x) = ?p + length (tail_bytes h x)" by (simp add: ext_bytes_def)
  have "put_extended h (hb, off, x) = Some (Inr (h3, off + length (ext_bytes h x), ?X))"
    unfolding put_extended_def 1(1) and_then_Inr 2(1) 3(1) fin by (rule refl)
  moreover have "wrote hb off (ext_bytes h x) h3 (off + length (ext_bytes h x))"
    using wrote_trans [OF 1(2) wrote_trans [OF 2(2) 3(2)]] by (simp add: ext_bytes_def add.assoc)
  ultimately show ?thesis by blast
qed

text \<open>
  C18. The extended header is written where the sizes of the parts in front of it put it, byte for byte
  as the format demands, and takes up as many bytes as the size function reports; nothing in front
  of it changes. The buffer needs room for one more byte if the header ends with the tags.
\<close>

theorem extended_written:
  assumes "ext_ok (extendedheaderv2 m)" "htyp2 m = Some h" "headerbufferv2 m = Some hb"
    and "off = storageheadersizev2 m + baseheadersizev2 m + baseheaderextrasizev2 m"
    and "dlt_message_get_extendedparameters_size_v2 m = Some n" "off + n + nul_room h (extendedheaderv2 m) \<le> length hb"
  shows "\<exists>m' hb'. dlt_message_set_extendedparameters_v2 m = Some (DLT_RETURN_OK, m') \<and> headerbufferv2 m' = Some hb'
    \<and> length hb' = length hb \<and> take (off + n) hb' = take off hb @ ext_bytes h (extendedheaderv2 m)"
proof -
  have n: "n = length (ext_bytes h (extendedheaderv2 m))" using extended_size [OF assms(1,2)] assms(5) by simp
  obtain hb' e a c f where p: "put_extended h (hb, off, extendedheaderv2 m)
      = Some (Inr (hb', off + n, (extendedheaderv2 m)\<lparr>x2_ecid := e, x2_apid := a, x2_ctid := c, x2_fina := f\<rparr>))"
    "wrote hb off (ext_bytes h (extendedheaderv2 m)) hb' (off + n)"
    using put_extended_spec [OF assms(1), of off h hb] assms(6) n by auto
  then show ?thesis using assms(2,3,4) by (auto simp: dlt_message_set_extendedparameters_v2_def wrote_def)
qed

text \<open>
  C35. If the header ends with a tag and the buffer has exactly the reported size, the zero behind the
  last tag is written past the end of the buffer.
\<close>

theorem tag_overflow:
  assumes "ext_ok (extendedheaderv2 m)" "htyp2 m = Some h" "headerbufferv2 m = Some hb"
    and "DLT_IS_HTYP2_WTGS h" "x2_notg (extendedheaderv2 m) > 0" "\<not> DLT_IS_HTYP2_WPVL h" "\<not> DLT_IS_HTYP2_WSGM h"
    and "dlt_message_get_extendedparameters_size_v2 m = Some n"
    and "length hb = storageheadersizev2 m + baseheadersizev2 m + baseheaderextrasizev2 m + n"
  shows "dlt_message_set_extendedparameters_v2 m = None"
proof -
  let ?x = "extendedheaderv2 m"
  let ?off = "storageheadersizev2 m + baseheadersizev2 m + baseheaderextrasizev2 m"
  have n: "n = length (head_bytes h ?x) + 1 + length (concat (map tag_bytes (tags_of ?x)))"
    using extended_size [OF assms(1,2)] assms(4-8) by (simp add: ext_bytes_def tags_bytes_def tail_bytes_def)
  obtain h1 e a c f where 1: "put_head h (hb, ?off, ?x)
      = Some (Inr (h1, ?off + length (head_bytes h ?x), ?x\<lparr>x2_ecid := e, x2_apid := a, x2_ctid := c, x2_fina := f\<rparr>))"
    "length h1 = length hb"
    using put_head_spec [OF assms(1), of ?off h hb] assms(9) n by (auto simp: wrote_def)
  have t: "x2_notg ?x = length (tags_of ?x)" "tags_of ?x \<noteq> []" "\<forall>t\<in>set (tags_of ?x). tag_ok t"
    using assms(1,5) by (auto simp: ext_ok_def)
  obtain h2 where 2: "store_at h1 (?off + length (head_bytes h ?x)) [of_nat (x2_notg ?x)] = Some h2" "length h2 = length h1"
    using wrote_store [of "?off + length (head_bytes h ?x)" "[of_nat (x2_notg ?x)]" h1] 1(2) assms(9) n by (auto simp: wrote_def)
  have "put_tags (x2_notg ?x) (tags_of ?x) h2 (?off + length (head_bytes h ?x) + 1) = None"
    using put_tags_overflow [OF t, of "?off + length (head_bytes h ?x) + 1" h2] 1(2) 2(2) assms(9) n by simp
  then have "when_flag (DLT_IS_HTYP2_WTGS h) put_tag_list
      (h1, ?off + length (head_bytes h ?x), ?x\<lparr>x2_ecid := e, x2_apid := a, x2_ctid := c, x2_fina := f\<rparr>) = None"
    using assms(4) 2(1) by (simp add: when_flag_def put_tag_list_def tags_of_def)
  then have "put_extended h (hb, ?off, ?x) = None"
    unfolding put_extended_def 1(1) and_then_Inr by (simp add: and_then_def)
  then show ?thesis using assms(2,3) by (simp add: dlt_message_set_extendedparameters_v2_def)
qed


section \<open>Reading what was written\<close>

text \<open>\<open>r\<close> is what follows from an offset on.\<close>

definition rest_is :: "bytes \<Rightarrow> nat \<Rightarrow> bytes \<Rightarrow> bool" where
  "rest_is b off r \<longleftrightarrow> off \<le> length b \<and> drop off b = r"

lemma at_byte:
  assumes "rest_is b off (c # r)"
  shows "byte_at b off = Some c" "rest_is b (Suc off) r"
proof -
  have d: "drop off b = c # r" using assms by (simp add: rest_is_def)
  then have l: "off < length b" by (metis drop_all leI list.distinct(1))
  then show "byte_at b off = Some c" using d by (metis byte_at_def Cons_nth_drop_Suc list.inject)
  show "rest_is b (Suc off) r" using d l by (metis Cons_nth_drop_Suc Suc_leI list.inject rest_is_def)
qed

lemma at_load:
  assumes "rest_is b off (d @ r)"
  shows "load_at b off (length d) = Some d" "rest_is b (off + length d) r"
proof -
  have d: "drop off b = d @ r" "off \<le> length b" using assms by (simp_all add: rest_is_def)
  then have l: "length b = off + length d + length r" by (metis append_take_drop_id length_append length_take min.absorb2 add.assoc)
  have "drop (off + length d) b = drop (length d) (drop off b)" by (simp add: add.commute)
  then show "rest_is b (off + length d) r" using d l by (simp add: rest_is_def)
  show "load_at b off (length d) = Some d" using d l by (simp add: load_at_def)
qed

text \<open>The same name in two headers.\<close>

definition same_id :: "nat \<Rightarrow> cptr option \<Rightarrow> nat \<Rightarrow> cptr option \<Rightarrow> bool" where
  "same_id n p n' p' \<longleftrightarrow> n' = n \<and> take n (text_at p') = take n (text_at p)"

lemma take_id_spec:
  assumes "rest_is b off (field n p @ r)" "field_ok n p"
  shows "\<exists>q. take_id b off = Some (n, q, off + length (field n p)) \<and> same_id n p n (Some q) \<and> rest_is b (off + length (field n p)) r"
proof -
  have 1: "byte_at b off = Some (of_nat n)" "rest_is b (Suc off) (take n (text_at p) @ r)"
    using at_byte [of b off "of_nat n" "take n (text_at p) @ r"] assms(1) by (simp_all add: field_def)
  have "unat (of_nat n :: byte) = n" "length (take n (text_at p)) = n" using assms(2) by (simp_all add: field_ok_def unat_of_nat)
  then show ?thesis using 1 at_load [OF assms(1)] length_field [OF assms(2)]
    by (auto simp: take_id_def same_id_def text_at_def rest_is_def)
qed

lemma take_ecid_flag:
  assumes "rest_is b off ((if w then field n p else []) @ r)" "field_ok n p"
  shows "\<exists>n' p'. take_when w (take_ecid b) (off, x) = Some (off + length (if w then field n p else []), x\<lparr>x2_ecidlen := n', x2_ecid := p'\<rparr>)
    \<and> (w \<longrightarrow> same_id n p n' p') \<and> rest_is b (off + length (if w then field n p else [])) r"
proof (cases w)
  case True
  then show ?thesis using take_id_spec [of b off n p r] assms by (fastforce simp: take_when_def take_ecid_def)
next
  case False
  then show ?thesis using assms
    by (intro exI [of _ "x2_ecidlen x"] exI [of _ "x2_ecid x"]) (simp add: take_when_def take_ecid_def)
qed

lemma take_acid_flag:
  assumes "rest_is b off ((if w then field n p @ field k q else []) @ r)" "field_ok n p" "field_ok k q"
  shows "\<exists>n' p' k' q'. take_when w (take_acid b) (off, x) = Some (off + length (if w then field n p @ field k q else []),
       x\<lparr>x2_apidlen := n', x2_apid := p', x2_ctidlen := k', x2_ctid := q'\<rparr>)
    \<and> (w \<longrightarrow> same_id n p n' p' \<and> same_id k q k' q') \<and> rest_is b (off + length (if w then field n p @ field k q else [])) r"
proof (cases w)
  case True
  then obtain p' where 1: "take_id b off = Some (n, p', off + length (field n p))" "same_id n p n (Some p')"
    "rest_is b (off + length (field n p)) (field k q @ r)"
    using take_id_spec [of b off n p "field k q @ r"] assms(1,2) by auto
  obtain q' where 2: "take_id b (off + length (field n p)) = Some (k, q', off + length (field n p) + length (field k q))"
    "same_id k q k (Some q')" "rest_is b (off + length (field n p) + length (field k q)) r"
    using take_id_spec [OF 1(3) assms(3)] by auto
  show ?thesis using True 1 2
    by (intro exI [of _ n] exI [of _ "Some p'"] exI [of _ k] exI [of _ "Some q'"]) (simp add: take_when_def take_acid_def add.assoc)
next
  case False
  then show ?thesis using assms
    by (intro exI [of _ "x2_apidlen x"] exI [of _ "x2_apid x"] exI [of _ "x2_ctidlen x"] exI [of _ "x2_ctid x"])
      (simp add: take_when_def take_acid_def)
qed

lemma take_seid_flag:
  assumes "rest_is b off ((if w then be_bytes 4 v else []) @ r)" "v < 2 ^ 32"
  shows "\<exists>v'. take_when w (take_session b) (off, x) = Some (off + length (if w then be_bytes 4 v else []), x\<lparr>x2_seid := v'\<rparr>)
    \<and> (w \<longrightarrow> v' = v) \<and> rest_is b (off + length (if w then be_bytes 4 v else [])) r"
proof (cases w)
  case True
  then show ?thesis using at_load [of b off "be_bytes 4 v" r] assms be_val_bytes_id [of v 4] by (simp add: take_when_def take_session_def)
next
  case False
  then show ?thesis using assms by (intro exI [of _ "x2_seid x"]) (simp add: take_when_def take_session_def)
qed

lemma take_file_flag:
  assumes "rest_is b off ((if w then field n p @ be_bytes 4 v else []) @ r)" "field_ok n p" "v < 2 ^ 32"
  shows "\<exists>n' p' v'. take_when w (take_file b) (off, x) = Some (off + length (if w then field n p @ be_bytes 4 v else []),
       x\<lparr>x2_finalen := n', x2_fina := p', x2_linr := v'\<rparr>)
    \<and> (w \<longrightarrow> same_id n p n' p' \<and> v' = v) \<and> rest_is b (off + length (if w then field n p @ be_bytes 4 v else [])) r"
proof (cases w)
  case True
  then obtain p' where 1: "take_id b off = Some (n, p', off + length (field n p))" "same_id n p n (Some p')"
    "rest_is b (off + length (field n p)) (be_bytes 4 v @ r)"
    using take_id_spec [of b off n p "be_bytes 4 v @ r"] assms(1,2) by auto
  show ?thesis using True 1 at_load [OF 1(3)] be_val_bytes_id [of v 4] assms(3)
    by (intro exI [of _ n] exI [of _ "Some p'"] exI [of _ v] conjI) (simp_all add: take_when_def take_file_def add.assoc)
next
  case False
  then show ?thesis using assms
    by (intro exI [of _ "x2_finalen x"] exI [of _ "x2_fina x"] exI [of _ "x2_linr x"]) (simp add: take_when_def take_file_def)
qed

definition same_head :: "nat \<Rightarrow> DltExtendedHeaderV2 \<Rightarrow> DltExtendedHeaderV2 \<Rightarrow> bool" where
  "same_head h x y \<longleftrightarrow> (DLT_IS_HTYP2_WEID h \<longrightarrow> same_id (x2_ecidlen x) (x2_ecid x) (x2_ecidlen y) (x2_ecid y))
     \<and> (DLT_IS_HTYP2_WACID h \<longrightarrow> same_id (x2_apidlen x) (x2_apid x) (x2_apidlen y) (x2_apid y)
           \<and> same_id (x2_ctidlen x) (x2_ctid x) (x2_ctidlen y) (x2_ctid y))
     \<and> (DLT_IS_HTYP2_WSID h \<longrightarrow> x2_seid y = x2_seid x)
     \<and> (DLT_IS_HTYP2_WSFLN h \<longrightarrow> same_id (x2_finalen x) (x2_fina x) (x2_finalen y) (x2_fina y) \<and> x2_linr y = x2_linr x)"

definition same_tail :: "nat \<Rightarrow> DltExtendedHeaderV2 \<Rightarrow> DltExtendedHeaderV2 \<Rightarrow> bool" where
  "same_tail h x y \<longleftrightarrow> (DLT_IS_HTYP2_WPVL h \<longrightarrow> x2_prlv y = x2_prlv x)
     \<and> (DLT_IS_HTYP2_WSGM h \<longrightarrow> x2_sgmtinfo y = x2_sgmtinfo x \<and> x2_frametype y = x2_frametype x
          \<and> take (sgmtLength (x2_frametype x)) (x2_sgmtdetails y) = take (sgmtLength (x2_frametype x)) (x2_sgmtdetails x))"

definition tag_view :: "DltTag \<Rightarrow> nat \<times> bytes" where
  "tag_view t = (taglen t, take (taglen t) (tagname t))"

definition same_ext :: "nat \<Rightarrow> DltExtendedHeaderV2 \<Rightarrow> DltExtendedHeaderV2 \<Rightarrow> bool" where
  "same_ext h x y \<longleftrightarrow> same_head h x y \<and> same_tail h x y
     \<and> (DLT_IS_HTYP2_WTGS h \<longrightarrow> x2_notg y = x2_notg x \<and> map tag_view (tags_of y) = map tag_view (tags_of x))"

lemma take_head_spec:
  assumes "ext_ok x" "rest_is b off (head_bytes h x @ r)"
  shows "\<exists>y. take_head h b (off, y0) = Some (off + length (head_bytes h x), y) \<and> same_head h x y
    \<and> x2_sgmtdetails y = x2_sgmtdetails y0 \<and> rest_is b (off + length (head_bytes h x)) r"
proof -
  have ok: "field_ok (x2_ecidlen x) (x2_ecid x)" "field_ok (x2_apidlen x) (x2_apid x)" "field_ok (x2_ctidlen x) (x2_ctid x)"
    "field_ok (x2_finalen x) (x2_fina x)" "x2_seid x < 2 ^ 32" "x2_linr x < 2 ^ 32" using assms(1) by (simp_all add: ext_ok_def)
  let ?E = "if DLT_IS_HTYP2_WEID h then field (x2_ecidlen x) (x2_ecid x) else []"
  let ?A = "if DLT_IS_HTYP2_WACID h then field (x2_apidlen x) (x2_apid x) @ field (x2_ctidlen x) (x2_ctid x) else []"
  let ?S = "if DLT_IS_HTYP2_WSID h then be_bytes 4 (x2_seid x) else []"
  let ?F = "if DLT_IS_HTYP2_WSFLN h then field (x2_finalen x) (x2_fina x) @ be_bytes 4 (x2_linr x) else []"
  have "rest_is b off (?E @ ?A @ ?S @ ?F @ r)" using assms(2) by (simp add: head_bytes_def)
  note 1 = take_ecid_flag [OF this ok(1), of y0]
  then obtain n1 p1 where 1: "take_when (DLT_IS_HTYP2_WEID h) (take_ecid b) (off, y0) = Some (off + length ?E, y0\<lparr>x2_ecidlen := n1, x2_ecid := p1\<rparr>)"
    "DLT_IS_HTYP2_WEID h \<longrightarrow> same_id (x2_ecidlen x) (x2_ecid x) n1 p1" "rest_is b (off + length ?E) (?A @ ?S @ ?F @ r)" by blast
  let ?y = "y0\<lparr>x2_ecidlen := n1, x2_ecid := p1\<rparr>"
  let ?o = "off + length ?E"
  from take_acid_flag [OF 1(3) ok(2,3), of ?y] obtain n2 p2 k2 q2 where 2: "take_when (DLT_IS_HTYP2_WACID h) (take_acid b) (?o, ?y) = Some (?o + length ?A, ?y\<lparr>x2_apidlen := n2, x2_apid := p2, x2_ctidlen := k2, x2_ctid := q2\<rparr>)"
    "DLT_IS_HTYP2_WACID h \<longrightarrow> same_id (x2_apidlen x) (x2_apid x) n2 p2 \<and> same_id (x2_ctidlen x) (x2_ctid x) k2 q2"
    "rest_is b (?o + length ?A) (?S @ ?F @ r)" by blast
  let ?y2 = "?y\<lparr>x2_apidlen := n2, x2_apid := p2, x2_ctidlen := k2, x2_ctid := q2\<rparr>"
  let ?o2 = "?o + length ?A"
  from take_seid_flag [OF 2(3) ok(5), of ?y2] obtain v3 where 3: "take_when (DLT_IS_HTYP2_WSID h) (take_session b) (?o2, ?y2) = Some (?o2 + length ?S, ?y2\<lparr>x2_seid := v3\<rparr>)" "DLT_IS_HTYP2_WSID h \<longrightarrow> v3 = x2_seid x"
    "rest_is b (?o2 + length ?S) (?F @ r)" by blast
  let ?y3 = "?y2\<lparr>x2_seid := v3\<rparr>"
  let ?o3 = "?o2 + length ?S"
  from take_file_flag [OF 3(3) ok(4,6), of ?y3] obtain n4 p4 v4 where 4: "take_when (DLT_IS_HTYP2_WSFLN h) (take_file b) (?o3, ?y3) = Some (?o3 + length ?F, ?y3\<lparr>x2_finalen := n4, x2_fina := p4, x2_linr := v4\<rparr>)"
    "DLT_IS_HTYP2_WSFLN h \<longrightarrow> same_id (x2_finalen x) (x2_fina x) n4 p4 \<and> v4 = x2_linr x" "rest_is b (?o3 + length ?F) r" by blast
  let ?y4 = "?y3\<lparr>x2_finalen := n4, x2_fina := p4, x2_linr := v4\<rparr>"
  have fin: "off + length (head_bytes h x) = ?o3 + length ?F" by (simp add: head_bytes_def)
  have "take_head h b (off, y0) = Some (?o3 + length ?F, ?y4)"
    unfolding take_head_def 1(1) Option.bind.simps 2(1) 3(1) by (rule 4(1))
  moreover have "same_head h x ?y4" using 1(2) 2(2) 3(2) 4(2) by (simp add: same_head_def)
  ultimately show ?thesis unfolding fin using 4(3) by (intro exI [of _ ?y4]) simp
qed

lemma take_tag_spec:
  assumes "tag_ok t" "rest_is b off (tag_bytes t @ r)" "length raw = 255"
  shows "\<exists>n nm. byte_at b off = Some n \<and> unat n = taglen t \<and> load_at b (off + 1) (taglen t) = Some (take (taglen t) (tagname t))
    \<and> store_at raw 0 (take (taglen t) (tagname t)) = Some nm \<and> (\<exists>nm'. store_at nm (taglen t) [0] = Some nm'
      \<and> tag_view \<lparr>taglen = taglen t, tagname = nm'\<rparr> = tag_view t) \<and> rest_is b (off + taglen t + 1) r"
proof -
  let ?d = "take (taglen t) (tagname t)"
  have l: "length ?d = taglen t" "taglen t < 255" using assms(1) by (simp_all add: tag_ok_def)
  have 1: "byte_at b off = Some (of_nat (taglen t))" "rest_is b (Suc off) (?d @ r)"
    using at_byte [of b off "of_nat (taglen t)" "?d @ r"] assms(2) by (simp_all add: tag_bytes_def)
  have u: "unat (of_nat (taglen t) :: byte) = taglen t" using l(2) by (simp add: unat_of_nat)
  have "store_at raw 0 ?d = Some (?d @ drop (taglen t) raw)" using assms(3) l by (simp add: store_at_def)
  moreover have "store_at (?d @ drop (taglen t) raw) (taglen t) [0] = Some (?d @ [0] @ drop (Suc (taglen t)) raw)"
    using assms(3) l by (simp add: store_at_def)
  moreover have "tag_view \<lparr>taglen = taglen t, tagname = ?d @ [0] @ drop (Suc (taglen t)) raw\<rparr> = tag_view t"
    using l(1) by (simp add: tag_view_def)
  ultimately show ?thesis using 1(1) u at_load [OF 1(2)] l(1) by (simp add: exI)
qed

lemma take_tags_spec:
  "\<forall>t\<in>set ts. tag_ok t \<Longrightarrow> rest_is b off (concat (map tag_bytes ts) @ r) \<Longrightarrow> length raw = 255
   \<Longrightarrow> \<exists>ts'. take_tags raw b off (length ts) = Some (ts', off + length (concat (map tag_bytes ts)))
      \<and> map tag_view ts' = map tag_view ts \<and> rest_is b (off + length (concat (map tag_bytes ts))) r"
proof (induction ts arbitrary: off)
  case Nil
  then show ?case by simp
next
  case (Cons t ts)
  have ok: "tag_ok t" "taglen t < 255" using Cons.prems(1) by (simp_all add: tag_ok_def)
  have l: "length (tag_bytes t) = taglen t + 1" using Cons.prems(1) by (simp add: tag_bytes_def tag_ok_def)
  have r: "rest_is b off (tag_bytes t @ concat (map tag_bytes ts) @ r)" using Cons.prems(2) by simp
  obtain n nm nm' where 1: "byte_at b off = Some n" "unat n = taglen t"
    "load_at b (off + 1) (taglen t) = Some (take (taglen t) (tagname t))"
    "store_at raw 0 (take (taglen t) (tagname t)) = Some nm" "store_at nm (taglen t) [0] = Some nm'"
    "tag_view \<lparr>taglen = taglen t, tagname = nm'\<rparr> = tag_view t" "rest_is b (off + taglen t + 1) (concat (map tag_bytes ts) @ r)"
    using take_tag_spec [OF ok(1) r Cons.prems(3)] by blast
  obtain ts' where 2: "take_tags raw b (off + taglen t + 1) (length ts) = Some (ts', off + taglen t + 1 + length (concat (map tag_bytes ts)))"
    "map tag_view ts' = map tag_view ts" "rest_is b (off + taglen t + 1 + length (concat (map tag_bytes ts))) r"
    using Cons.IH [OF _ 1(7) Cons.prems(3)] Cons.prems(1) by auto
  show ?case using 1 2 ok(2) l by (simp add: Let_def add.assoc)
qed

lemma take_prlv_flag:
  assumes "rest_is b off ((if w then [v] else []) @ r)"
  shows "\<exists>v'. take_when w (take_priority b) (off, x) = Some (off + length (if w then [v] else []), x\<lparr>x2_prlv := v'\<rparr>) \<and> (w \<longrightarrow> v' = v)
     \<and> rest_is b (off + length (if w then [v] else [])) r"
proof (cases w)
  case True
  then show ?thesis using assms at_byte [of b off v r] by (simp add: take_when_def take_priority_def)
next
  case False
  then show ?thesis using assms by (intro exI [of _ "x2_prlv x"]) (simp add: take_when_def take_priority_def)
qed

definition segment_of :: "DltExtendedHeaderV2 \<Rightarrow> byte \<times> byte \<times> bytes" where
  "segment_of x = (x2_sgmtinfo x, x2_frametype x, take (sgmtLength (x2_frametype x)) (x2_sgmtdetails x))"

lemma take_segment_flag:
  assumes "rest_is b off ((if w then segment_bytes x else []) @ r)" "length (x2_sgmtdetails x) = 8" "length (x2_sgmtdetails y) = 8"
  shows "\<exists>i f d. take_when w (take_segment b) (off, y) = Some (off + length (if w then segment_bytes x else []), y\<lparr>x2_sgmtinfo := i, x2_frametype := f, x2_sgmtdetails := d\<rparr>)
    \<and> (w \<longrightarrow> i = x2_sgmtinfo x \<and> f = x2_frametype x
        \<and> take (sgmtLength f) d = take (sgmtLength f) (x2_sgmtdetails x)) \<and> rest_is b (off + length (if w then segment_bytes x else [])) r"
proof (cases w)
  case True
  let ?d = "take (sgmtLength (x2_frametype x)) (x2_sgmtdetails x)"
  have n: "length ?d = sgmtLength (x2_frametype x)" "sgmtLength (x2_frametype x) \<le> 8"
    using assms(2) sgmtLength_le [of "x2_frametype x"] by simp_all
  have 1: "byte_at b off = Some (x2_sgmtinfo x)" "rest_is b (Suc off) (x2_frametype x # ?d @ r)"
    using at_byte [of b off "x2_sgmtinfo x" "x2_frametype x # ?d @ r"] assms(1) True by (simp_all add: segment_bytes_def)
  have 3: "load_at b (Suc (Suc off)) (sgmtLength (x2_frametype x)) = Some ?d" "rest_is b (off + (sgmtLength (x2_frametype x) + 2)) r"
    using at_load [OF at_byte(2) [OF 1(2)]] n(1) by (simp_all add: add.commute)
  have "store_at (x2_sgmtdetails y) 0 ?d = Some (?d @ drop (length ?d) (x2_sgmtdetails y))"
    using n assms(3) by (simp add: store_at_def)
  then show ?thesis using True 1(1) at_byte(1) [OF 1(2)] 3 n
    by (intro exI [of _ "x2_sgmtinfo x"] exI [of _ "x2_frametype x"] exI [of _ "?d @ drop (length ?d) (x2_sgmtdetails y)"])
      (simp add: take_when_def take_segment_def segment_bytes_def)
next
  case False
  then show ?thesis using assms
    by (intro exI [of _ "x2_sgmtinfo y"] exI [of _ "x2_frametype y"] exI [of _ "x2_sgmtdetails y"]) (simp add: take_when_def take_segment_def)
qed

lemma take_tail_spec:
  assumes "rest_is b off (tail_bytes h x @ r)" "length (x2_sgmtdetails x) = 8" "length (x2_sgmtdetails y) = 8"
  shows "\<exists>v i f d. take_tail h b (off, y) = Some (off + length (tail_bytes h x),
      y\<lparr>x2_prlv := v, x2_sgmtinfo := i, x2_frametype := f, x2_sgmtdetails := d\<rparr>)
    \<and> same_tail h x (y\<lparr>x2_prlv := v, x2_sgmtinfo := i, x2_frametype := f, x2_sgmtdetails := d\<rparr>) \<and> rest_is b (off + length (tail_bytes h x)) r"
proof -
  let ?P = "if DLT_IS_HTYP2_WPVL h then [x2_prlv x] else []"
  let ?S = "if DLT_IS_HTYP2_WSGM h then segment_bytes x else []"
  have "rest_is b off (?P @ ?S @ r)" using assms(1) by (simp add: tail_bytes_def)
  from take_prlv_flag [OF this, of y] obtain v where 1: "take_when (DLT_IS_HTYP2_WPVL h) (take_priority b) (off, y) = Some (off + length ?P, y\<lparr>x2_prlv := v\<rparr>)" "DLT_IS_HTYP2_WPVL h \<longrightarrow> v = x2_prlv x"
    "rest_is b (off + length ?P) (?S @ r)" by blast
  have y: "length (x2_sgmtdetails (y\<lparr>x2_prlv := v\<rparr>)) = 8" using assms(3) by simp
  let ?o = "off + length ?P"
  obtain i f d where 2: "take_when (DLT_IS_HTYP2_WSGM h) (take_segment b) (?o, y\<lparr>x2_prlv := v\<rparr>) = Some (?o + length ?S,
      y\<lparr>x2_prlv := v, x2_sgmtinfo := i, x2_frametype := f, x2_sgmtdetails := d\<rparr>)"
    "DLT_IS_HTYP2_WSGM h \<longrightarrow> i = x2_sgmtinfo x \<and> f = x2_frametype x \<and> take (sgmtLength f) d = take (sgmtLength f) (x2_sgmtdetails x)"
    "rest_is b (?o + length ?S) r"
    using take_segment_flag [OF 1(3) assms(2) y] by blast
  have fin: "off + length (tail_bytes h x) = ?o + length ?S" by (simp add: tail_bytes_def)
  have "take_tail h b (off, y) = Some (?o + length ?S, y\<lparr>x2_prlv := v, x2_sgmtinfo := i, x2_frametype := f, x2_sgmtdetails := d\<rparr>)"
    unfolding take_tail_def 1(1) Option.bind.simps by (rule 2(1))
  moreover have "same_tail h x (y\<lparr>x2_prlv := v, x2_sgmtinfo := i, x2_frametype := f, x2_sgmtdetails := d\<rparr>)"
    using 1(2) 2(2) by (auto simp: same_tail_def)
  ultimately show ?thesis unfolding fin using 2(3) by blast
qed

lemma same_head_tags: "same_head h x (y\<lparr>x2_notg := n, x2_tag := t\<rparr>) = same_head h x y"
  by (simp add: same_head_def)

lemma same_head_tail:
  "same_head h x (y\<lparr>x2_prlv := v, x2_sgmtinfo := i, x2_frametype := f, x2_sgmtdetails := d\<rparr>) = same_head h x y"
  by (simp add: same_head_def)

lemma take_tag_list_spec:
  assumes "ext_ok x" "rest_is b off (tags_bytes h x @ r)" "length raw = 255"
  shows "\<exists>n t. take_tag_list (Some raw) h b off y = Some (Inr (off + length (tags_bytes h x), y\<lparr>x2_notg := n, x2_tag := t\<rparr>))
    \<and> (DLT_IS_HTYP2_WTGS h \<longrightarrow> n = x2_notg x \<and> map tag_view (tags_of (y\<lparr>x2_notg := n, x2_tag := t\<rparr>)) = map tag_view (tags_of x))
    \<and> rest_is b (off + length (tags_bytes h x)) r"
proof (cases "DLT_IS_HTYP2_WTGS h")
  case True
  let ?c = "concat (map tag_bytes (tags_of x))"
  have t: "\<forall>t\<in>set (tags_of x). tag_ok t" "length (tags_of x) = x2_notg x" "x2_notg x < 256" using assms(1) by (auto simp: ext_ok_def)
  have 1: "byte_at b off = Some (of_nat (x2_notg x))" "rest_is b (Suc off) (?c @ r)"
    using at_byte [of b off "of_nat (x2_notg x)" "?c @ r"] assms(2) True by (simp_all add: tags_bytes_def)
  have u: "unat (of_nat (x2_notg x) :: byte) = x2_notg x" using t(3) by (simp add: unat_of_nat)
  obtain ts where "take_tags raw b (Suc off) (x2_notg x) = Some (ts, Suc off + length ?c)" "map tag_view ts = map tag_view (tags_of x)"
    "rest_is b (Suc off + length ?c) r"
    using take_tags_spec [OF t(1) 1(2) assms(3)] t(2) by auto
  then show ?thesis using True 1(1) u
    by (intro exI [of _ "x2_notg x"] exI [of _ "Some ts"]) (simp add: take_tag_list_def tags_bytes_def tags_of_def)
next
  case False
  then show ?thesis using assms(2)
    by (intro exI [of _ "x2_notg y"] exI [of _ "x2_tag y"]) (simp add: take_tag_list_def tags_bytes_def)
qed

lemma get_extended_spec:
  assumes "ext_ok x" "rest_is b (7 + dlt_message_get_extraparameters_size_v2 c) (ext_bytes h x @ r)" "length raw = 255"
    "length (x2_sgmtdetails (extendedheaderv2 m)) = 8" "htyp2 (m\<lparr>baseheaderv2 := Some (Ext b)\<rparr>) = Some h"
  shows "\<exists>y. dlt_message_get_extendedparameters_from_recievedbuffer_v2 (Some raw) m b c = Some (DLT_RETURN_OK,
      m\<lparr>baseheaderv2 := Some (Ext b), extendedheaderv2 := y, extendedheadersizev2 := length (ext_bytes h x)\<rparr>) \<and> same_ext h x y"
proof -
  let ?o = "7 + dlt_message_get_extraparameters_size_v2 c"
  have "rest_is b ?o (head_bytes h x @ tags_bytes h x @ tail_bytes h x @ r)" using assms(2) by (simp add: ext_bytes_def)
  from take_head_spec [OF assms(1) this, of "extendedheaderv2 m"] obtain y where
    1: "take_head h b (?o, extendedheaderv2 m) = Some (?o + length (head_bytes h x), y)" "same_head h x y"
    "x2_sgmtdetails y = x2_sgmtdetails (extendedheaderv2 m)" "rest_is b (?o + length (head_bytes h x)) (tags_bytes h x @ tail_bytes h x @ r)"
    by blast
  let ?p = "?o + length (head_bytes h x)"
  from take_tag_list_spec [OF assms(1) 1(4) assms(3), of y] obtain n t where
    2: "take_tag_list (Some raw) h b ?p y = Some (Inr (?p + length (tags_bytes h x), y\<lparr>x2_notg := n, x2_tag := t\<rparr>))"
    "DLT_IS_HTYP2_WTGS h \<longrightarrow> n = x2_notg x \<and> map tag_view (tags_of (y\<lparr>x2_notg := n, x2_tag := t\<rparr>)) = map tag_view (tags_of x)"
    "rest_is b (?p + length (tags_bytes h x)) (tail_bytes h x @ r)" by blast
  let ?y = "y\<lparr>x2_notg := n, x2_tag := t\<rparr>"
  let ?q = "?p + length (tags_bytes h x)"
  have l: "length (x2_sgmtdetails x) = 8" "length (x2_sgmtdetails ?y) = 8" using assms(1,4) 1(3) by (simp_all add: ext_ok_def)
  from take_tail_spec [OF 2(3) l] obtain v i f d where
    3: "take_tail h b (?q, ?y) = Some (?q + length (tail_bytes h x), ?y\<lparr>x2_prlv := v, x2_sgmtinfo := i, x2_frametype := f, x2_sgmtdetails := d\<rparr>)"
    "same_tail h x (?y\<lparr>x2_prlv := v, x2_sgmtinfo := i, x2_frametype := f, x2_sgmtdetails := d\<rparr>)" by blast
  let ?z = "?y\<lparr>x2_prlv := v, x2_sgmtinfo := i, x2_frametype := f, x2_sgmtdetails := d\<rparr>"
  have "?q + length (tail_bytes h x) - ?o = length (ext_bytes h x)" by (simp add: ext_bytes_def)
  then have "dlt_message_get_extendedparameters_from_recievedbuffer_v2 (Some raw) m b c = Some (DLT_RETURN_OK,
      m\<lparr>baseheaderv2 := Some (Ext b), extendedheaderv2 := ?z, extendedheadersizev2 := length (ext_bytes h x)\<rparr>)"
    using 1(1) 2(1) 3(1) assms(5)
    by (simp add: dlt_message_get_extendedparameters_from_recievedbuffer_v2_def Let_def)
  moreover have "same_ext h x ?z"
    using 1(2) 2(2) 3(2) by (simp add: same_ext_def same_head_tail same_head_tags tags_of_def)
  ultimately show ?thesis by blast
qed


section \<open>A message from the sender to the receiver\<close>

definition extra_bytes_v2 :: "DltHtyp2ContentType \<Rightarrow> DltBaseHeaderExtraV2 \<Rightarrow> bytes" where
  "extra_bytes_v2 c x =
     (case c of
        DLT_VERBOSE_DATA_MSG \<Rightarrow> [hx_msin x, hx_noar x] @ be_bytes 4 (hx_nanoseconds x) @ hx_seconds x
      | DLT_NON_VERBOSE_DATA_MSG \<Rightarrow> be_bytes 4 (hx_nanoseconds x) @ hx_seconds x @ be_bytes 4 (hx_msid x)
      | DLT_CONTROL_MSG \<Rightarrow> [hx_msin x, hx_noar x]
      | DLT_RESERVED \<Rightarrow> [])"

definition extra_ok_v2 :: "DltBaseHeaderExtraV2 \<Rightarrow> bool" where
  "extra_ok_v2 x \<longleftrightarrow> length (hx_seconds x) = 5 \<and> hx_nanoseconds x < 2 ^ 32 \<and> hx_msid x < 2 ^ 32"

definition same_extra :: "DltHtyp2ContentType \<Rightarrow> DltBaseHeaderExtraV2 \<Rightarrow> DltBaseHeaderExtraV2 \<Rightarrow> bool" where
  "same_extra c x y \<longleftrightarrow>
     (case c of
        DLT_VERBOSE_DATA_MSG \<Rightarrow> hx_msin y = hx_msin x \<and> hx_noar y = hx_noar x
          \<and> hx_nanoseconds y = hx_nanoseconds x \<and> hx_seconds y = hx_seconds x
      | DLT_NON_VERBOSE_DATA_MSG \<Rightarrow> hx_nanoseconds y = hx_nanoseconds x \<and> hx_seconds y = hx_seconds x \<and> hx_msid y = hx_msid x
      | DLT_CONTROL_MSG \<Rightarrow> hx_msin y = hx_msin x \<and> hx_noar y = hx_noar x
      | DLT_RESERVED \<Rightarrow> True)"

lemma length_extra_v2: "extra_ok_v2 x \<Longrightarrow> length (extra_bytes_v2 c x) = dlt_message_get_extraparameters_size_v2 c"
  by (cases c) (simp_all add: extra_bytes_v2_def dlt_message_get_extraparameters_size_v2_def extra_ok_v2_def)

lemma get_extra_v2_spec:
  assumes "rest_is b off (extra_bytes_v2 c x @ r)" "extra_ok_v2 x"
  shows "\<exists>y'. get_extra_v2 b off c y = Some y' \<and> same_extra c x y'"
proof -
  have v: "be_val (be_bytes 4 (hx_nanoseconds x)) = hx_nanoseconds x" "be_val (be_bytes 4 (hx_msid x)) = hx_msid x"
    "length (hx_seconds x) = 5" using assms(2) by (simp_all add: extra_ok_v2_def be_val_bytes_id)
  obtain d where d: "b = d @ extra_bytes_v2 c x @ r" "length d = off"
    using assms(1) by (metis append_take_drop_id length_take min.absorb2 rest_is_def)
  show ?thesis unfolding d(1) d(2) [symmetric] using v
    by (cases c) (simp_all add: get_extra_v2_def extra_bytes_v2_def same_extra_def byte_at_def load_at_def nth_append)
qed

lemma set_extra_v2_spec:
  assumes "extra_ok_v2 x" "off + dlt_message_get_extraparameters_size_v2 c \<le> length hb"
  shows "\<exists>hb'. set_extra_v2 hb off c x = Some hb' \<and> wrote hb off (extra_bytes_v2 c x) hb' (off + dlt_message_get_extraparameters_size_v2 c)"
  using assms
  by (cases c; simp add: set_extra_v2_def extra_bytes_v2_def store_at_def wrote_def extra_ok_v2_def
      dlt_message_get_extraparameters_size_v2_def min_absorb2; arith?)

definition base_ok :: "bytes \<Rightarrow> nat \<Rightarrow> nat \<Rightarrow> bool" where
  "base_ok base h ln \<longleftrightarrow> length base = 7 \<and> le_val (take 4 base) = h \<and> be_val (take 2 (drop 5 base)) = ln"

definition received_v2 ::
  "nat \<Rightarrow> bytes \<Rightarrow> DltBaseHeaderExtraV2 \<Rightarrow> DltExtendedHeaderV2 \<Rightarrow> bytes \<Rightarrow> DltMessageV2 \<Rightarrow> bool" where
  "received_v2 h headers hx x payload m \<longleftrightarrow> headerbufferv2 m = Some headers \<and> headersizev2 m = int (length headers)
     \<and> databufferv2 m = Some payload \<and> datasizev2 m = int (length payload)
     \<and> same_extra (msgcontent h) hx (headerextrav2 m) \<and> same_ext h x (extendedheaderv2 m)"

lemma read_headers_v2_spec:
  assumes "b = base @ extra_bytes_v2 (msgcontent h) hx @ ext_bytes h x @ r" "base_ok base h ln" "extra_ok_v2 hx" "ext_ok x"
    "length raw = 255" "length (x2_sgmtdetails (extendedheaderv2 m)) = 8"
  shows "\<exists>m'. read_headers_v2 (Some raw) m b = Some (DLT_RETURN_OK, m') \<and> same_extra (msgcontent h) hx (headerextrav2 m')
    \<and> same_ext h x (extendedheaderv2 m') \<and> baseheaderv2 m' = Some (Ext b) \<and> headerbufferv2 m' = headerbufferv2 m
    \<and> baseheadersizev2 m' = 7 \<and> baseheaderextrasizev2 m' = length (extra_bytes_v2 (msgcontent h) hx)
    \<and> extendedheadersizev2 m' = length (ext_bytes h x)"
proof -
  let ?c = "msgcontent h"
  have l: "length base = 7" "length (extra_bytes_v2 ?c hx) = dlt_message_get_extraparameters_size_v2 ?c"
    using assms(2,3) by (simp_all add: base_ok_def length_extra_v2)
  have t: "htyp2 (k\<lparr>baseheaderv2 := Some (Ext b)\<rparr>) = Some h" for k
    using assms(1,2) by (auto simp: htyp2_def base_bytes_def load_at_def base_ok_def)
  have "rest_is b 7 (extra_bytes_v2 ?c hx @ ext_bytes h x @ r)" using assms(1) l(1) by (simp add: rest_is_def)
  from get_extra_v2_spec [OF this assms(3), of "headerextrav2 m"] obtain e where
    e: "get_extra_v2 b 7 ?c (headerextrav2 m) = Some e" "same_extra ?c hx e" by blast
  have r: "rest_is b (7 + dlt_message_get_extraparameters_size_v2 ?c) (ext_bytes h x @ r)"
    using assms(1) l by (simp add: rest_is_def)
  let ?m = "m\<lparr>baseheaderv2 := Some (Ext b), storageheadersizev2 := 0, baseheadersizev2 := 7,
    baseheaderextrasizev2 := dlt_message_get_extraparameters_size_v2 ?c, headerextrav2 := e\<rparr>"
  have g: "length (x2_sgmtdetails (extendedheaderv2 ?m)) = 8" using assms(6) by simp
  from get_extended_spec [OF assms(4) r assms(5) g t] obtain y where
    y: "dlt_message_get_extendedparameters_from_recievedbuffer_v2 (Some raw) ?m b ?c = Some (DLT_RETURN_OK,
      ?m\<lparr>baseheaderv2 := Some (Ext b), extendedheaderv2 := y, extendedheadersizev2 := length (ext_bytes h x)\<rparr>)" "same_ext h x y"
    by blast
  show ?thesis using e y l(2) t [of m]
    by (simp add: read_headers_v2_def dlt_message_get_extraparameters_from_recievedbuffer_v2_def Let_def)
qed

lemma read_message_v2_spec:
  assumes b: "b = base @ extra_bytes_v2 (msgcontent h) hx @ ext_bytes h x @ payload @ r"
    and "base_ok base h (7 + length (extra_bytes_v2 (msgcontent h) hx) + length (ext_bytes h x) + length payload)"
    and "extra_ok_v2 hx" "ext_ok x" "length raw = 255" "length (x2_sgmtdetails (extendedheaderv2 m)) = 8"
    and a: "malloc_ok alloc" "\<And>n. alloc n \<noteq> None"
  shows "\<exists>m'. read_message_v2 alloc (Some raw) m b = Some (DLT_MESSAGE_ERROR_OK, m')
    \<and> received_v2 h (base @ extra_bytes_v2 (msgcontent h) hx @ ext_bytes h x) hx x payload m'"
proof -
  let ?H = "base @ extra_bytes_v2 (msgcontent h) hx @ ext_bytes h x"
  let ?n = "7 + length (extra_bytes_v2 (msgcontent h) hx) + length (ext_bytes h x)"
  have l: "length ?H = ?n" using assms(2) by (simp add: base_ok_def)
  have bH: "b = ?H @ payload @ r" using b by simp
  from read_headers_v2_spec [OF b assms(2-6)] obtain m1 where
    1: "read_headers_v2 (Some raw) m b = Some (DLT_RETURN_OK, m1)" "same_extra (msgcontent h) hx (headerextrav2 m1)"
      "same_ext h x (extendedheaderv2 m1)" "baseheaderv2 m1 = Some (Ext b)"
      "baseheadersizev2 m1 = 7" "baseheaderextrasizev2 m1 = length (extra_bytes_v2 (msgcontent h) hx)"
      "extendedheadersizev2 m1 = length (ext_bytes h x)" by blast
  obtain p where p: "alloc ?n = Some p" "length p = ?n" using a by (metis malloc_length not_Some_eq)
  obtain q where q: "alloc (length payload) = Some q" "length q = length payload" using a by (metis malloc_length not_Some_eq)
  have c1: "memcpy p 0 b 0 (int ?n) = Some ?H"
    unfolding bH using p(2) l by (simp add: memcpy_def)
  have c2: "memcpy q 0 b (int ?n) (int (length payload)) = Some payload"
    unfolding bH using q(2) l by (simp add: memcpy_def nat_add_distrib)
  let ?m = "m1\<lparr>headersizev2 := int ?n, headerbufferv2 := Some ?H\<rparr>"
  have bl: "base_len ?m = Some (?n + length payload)"
    using 1(4) assms(2) b by (auto simp: base_len_def base_bytes_def load_at_def base_ok_def)
  have lb: "length b = ?n + length payload + length r" unfolding bH using l by simp
  have "read_payload_v2 alloc ?m b = Some (DLT_MESSAGE_ERROR_OK, ?m\<lparr>datasizev2 := int (length payload),
      databufferv2 := Some payload, databuffersizev2 := int (length payload)\<rparr>)"
    using bl lb q(1) c2 by (simp add: read_payload_v2_def Let_def)
  then have "read_message_v2 alloc (Some raw) m b = Some (DLT_MESSAGE_ERROR_OK, ?m\<lparr>datasizev2 := int (length payload),
      databufferv2 := Some payload, databuffersizev2 := int (length payload)\<rparr>)"
    using 1 p(1) c1 lb by (simp add: read_message_v2_def Let_def)
  then show ?thesis using 1(2,3) l by (simp add: received_v2_def)
qed

text \<open>
  A message that is ready to be sent: the base header is in the header buffer behind the space for
  the storage header, the sizes fit, and the last byte of the buffer belongs to the extended header.
\<close>

definition outgoing :: "DltMessageV2 \<Rightarrow> nat \<Rightarrow> bytes \<Rightarrow> bytes \<Rightarrow> bool" where
  "outgoing m h hb payload \<longleftrightarrow> headerbufferv2 m = Some hb \<and> baseheaderv2 m = Some (Hdr (storageheadersizev2 m))
     \<and> baseheadersizev2 m = 7 \<and> baseheaderextrasizev2 m = dlt_message_get_extraparameters_size_v2 (msgcontent h)
     \<and> extra_ok_v2 (headerextrav2 m) \<and> ext_ok (extendedheaderv2 m) \<and> nul_room h (extendedheaderv2 m) = 0
     \<and> dlt_message_get_extendedparameters_size_v2 m = Some (extendedheadersizev2 m)
     \<and> length hb = storageheadersizev2 m + 7 + baseheaderextrasizev2 m + extendedheadersizev2 m
     \<and> base_ok (take 7 (drop (storageheadersizev2 m) hb)) h (7 + baseheaderextrasizev2 m + extendedheadersizev2 m + length payload)"

lemma outgoing_written:
  assumes "outgoing m h hb payload"
  defines "base \<equiv> take 7 (drop (storageheadersizev2 m) hb)"
  shows "\<exists>m1 m2 hb2. dlt_message_set_extraparameters_v2 m = Some (DLT_RETURN_OK, m1)
    \<and> dlt_message_set_extendedparameters_v2 m1 = Some (DLT_RETURN_OK, m2) \<and> headerbufferv2 m2 = Some hb2
    \<and> drop (storageheadersizev2 m) hb2 = base @ extra_bytes_v2 (msgcontent h) (headerextrav2 m) @ ext_bytes h (extendedheaderv2 m)"
proof -
  let ?s = "storageheadersizev2 m" and ?x = "extendedheaderv2 m" and ?n = "extendedheadersizev2 m"
  let ?e = "extra_bytes_v2 (msgcontent h) (headerextrav2 m)"
  note o = assms(1) [unfolded outgoing_def]
  have b: "base_bytes m = Some base" using o by (simp add: base_bytes_def base_def load_at_def)
  have t: "htyp2 m = Some h" using b o by (simp add: htyp2_def base_ok_def base_def)
  have le: "length ?e = baseheaderextrasizev2 m" using o by (simp add: length_extra_v2)
  obtain hb1 where 1: "set_extra_v2 hb (?s + 7) (msgcontent h) (headerextrav2 m) = Some hb1"
    "wrote hb (?s + 7) ?e hb1 (?s + 7 + baseheaderextrasizev2 m)"
    using set_extra_v2_spec [of "headerextrav2 m" "?s + 7" "msgcontent h" hb] o by auto
  let ?m1 = "m\<lparr>headerbufferv2 := Some hb1\<rparr>"
  have s1: "dlt_message_set_extraparameters_v2 m = Some (DLT_RETURN_OK, ?m1)"
    using t o 1(1) by (simp add: dlt_message_set_extraparameters_v2_def)
  have hb1: "take (?s + 7) hb1 = take (?s + 7) hb" "length hb1 = length hb" using wrote_before [OF 1(2)] by simp_all
  have "take 7 (drop ?s hb1) = base" unfolding base_def take_drop add.commute [of 7] hb1(1) by (rule refl)
  then have b1: "base_bytes ?m1 = Some base" using o hb1(2) by (simp add: base_bytes_def load_at_def)
  have t1: "htyp2 ?m1 = Some h" using t b b1 by (simp add: htyp2_def)
  have n1: "dlt_message_get_extendedparameters_size_v2 ?m1 = Some ?n"
    using o t t1 by (simp add: dlt_message_get_extendedparameters_size_v2_def)
  obtain m2 hb2 where 2: "dlt_message_set_extendedparameters_v2 ?m1 = Some (DLT_RETURN_OK, m2)" "headerbufferv2 m2 = Some hb2"
    "length hb2 = length hb1" "take (?s + 7 + baseheaderextrasizev2 m + ?n) hb2 = take (?s + 7 + baseheaderextrasizev2 m) hb1 @ ext_bytes h ?x"
    using extended_written [of ?m1 h hb1 "?s + 7 + baseheaderextrasizev2 m" ?n] o t1 n1 hb1(2) by auto
  have "hb2 = take (?s + 7 + baseheaderextrasizev2 m) hb1 @ ext_bytes h ?x" using 2(3,4) hb1(2) o by simp
  also have "take (?s + 7 + baseheaderextrasizev2 m) hb1 = take (?s + 7) hb @ ?e" using 1(2) unfolding wrote_def by blast
  finally have "drop ?s hb2 = base @ ?e @ ext_bytes h ?x" using o by (simp add: base_def take_drop add.commute [of 7])
  then show ?thesis using s1 2(1,2) by blast
qed

lemma serial_no_storage: "skip_storage (dltSerialHeader @ b) = Some (dltSerialHeader @ b)"
  by (simp add: skip_storage_def dltSerialHeader_def)

lemma read_serial_v2:
  "dlt_message_read_v2 alloc raw m (dltSerialHeader @ b) resync =
     read_message_v2 alloc raw (m\<lparr>headerbufferv2 := None, databufferv2 := None, headersizev2 := 0, datasizev2 := 0,
       databuffersizev2 := 0, storageheaderv2 := zero_storageheader, extendedheaderv2 := zero_extendedheader,
       baseheaderv2 := None, found_serialheaderv2 := True, resync_offsetv2 := 0, storageheadersizev2 := 0\<rparr>) b"
proof -
  have h: "length dltSerialHeader = 4" "dltSerialHeader \<noteq> []" by (simp_all add: dltSerialHeader_def)
  show ?thesis using h by (cases m) (simp add: dlt_message_read_v2_def serial_no_storage read_start_v2_def Let_def)
qed

text \<open>
  C6. What the sender writes is what the receiver reads: the functions that fill in the fields of a
  message succeed, and reading the header buffer and the payload from a stream, behind a serial
  header and whatever follows, gives the headers, the values of the optional fields and the payload
  of the message that was sent.
\<close>

theorem message_v2_roundtrip:
  assumes "outgoing m h hb payload" "length raw = 255" "malloc_ok alloc" "\<And>n. alloc n \<noteq> None"
  shows "\<exists>m1 m2 hb2 m3. dlt_message_set_extraparameters_v2 m = Some (DLT_RETURN_OK, m1)
    \<and> dlt_message_set_extendedparameters_v2 m1 = Some (DLT_RETURN_OK, m2) \<and> headerbufferv2 m2 = Some hb2
    \<and> dlt_message_read_v2 alloc (Some raw) m0 (dltSerialHeader @ drop (storageheadersizev2 m) hb2 @ payload @ r) resync
        = Some (DLT_MESSAGE_ERROR_OK, m3)
    \<and> received_v2 h (drop (storageheadersizev2 m) hb2) (headerextrav2 m) (extendedheaderv2 m) payload m3"
proof -
  obtain m1 m2 hb2 where w: "dlt_message_set_extraparameters_v2 m = Some (DLT_RETURN_OK, m1)"
    "dlt_message_set_extendedparameters_v2 m1 = Some (DLT_RETURN_OK, m2)" "headerbufferv2 m2 = Some hb2"
    "drop (storageheadersizev2 m) hb2 = take 7 (drop (storageheadersizev2 m) hb) @ extra_bytes_v2 (msgcontent h) (headerextrav2 m)
       @ ext_bytes h (extendedheaderv2 m)"
    using outgoing_written [OF assms(1)] by blast
  note o = assms(1) [unfolded outgoing_def]
  have b: "base_bytes m \<noteq> None" "htyp2 m = Some h" using o by (simp_all add: htyp2_def base_bytes_def load_at_def base_ok_def)
  then have n: "extendedheadersizev2 m = length (ext_bytes h (extendedheaderv2 m))"
    using o extended_size [of m h] by simp
  have "base_ok (take 7 (drop (storageheadersizev2 m) hb)) h (7 + length (extra_bytes_v2 (msgcontent h) (headerextrav2 m))
      + length (ext_bytes h (extendedheaderv2 m)) + length payload)"
    using o n by (auto simp: length_extra_v2)
  then have "\<exists>m3. read_message_v2 alloc (Some raw) k (drop (storageheadersizev2 m) hb2 @ payload @ r) = Some (DLT_MESSAGE_ERROR_OK, m3)
      \<and> received_v2 h (drop (storageheadersizev2 m) hb2) (headerextrav2 m) (extendedheaderv2 m) payload m3"
    if "length (x2_sgmtdetails (extendedheaderv2 k)) = 8" for k
    unfolding w(4) append_assoc using read_message_v2_spec [OF refl _ _ _ assms(2) that assms(3,4)] o by blast
  from this [of "m0\<lparr>headerbufferv2 := None, databufferv2 := None, headersizev2 := 0, datasizev2 := 0,
       databuffersizev2 := 0, storageheaderv2 := zero_storageheader, extendedheaderv2 := zero_extendedheader,
       baseheaderv2 := None, found_serialheaderv2 := True, resync_offsetv2 := 0, storageheadersizev2 := 0\<rparr>"]
  show ?thesis unfolding read_serial_v2 using w(1-3) by (simp add: zero_extendedheader_def)
qed


definition sample_ext :: DltExtendedHeaderV2 where
  "sample_ext = zero_extendedheader\<lparr>x2_ecidlen := 2, x2_ecid := Some (Ext [0x45, 0x31]), x2_apidlen := 3,
     x2_apid := Some (Ext [0x41, 0x50, 0x50]), x2_ctidlen := 1, x2_ctid := Some (Ext [0x43]), x2_seid := 77,
     x2_notg := 1, x2_tag := Some [\<lparr>taglen = 2, tagname = [0x74, 0x31]\<rparr>], x2_prlv := 9\<rparr>"

text \<open>A verbose message with names, session, a tag and a privacy level, and one that ends with the tag.\<close>

definition sample_v2 :: "nat \<Rightarrow> nat \<Rightarrow> DltMessageV2" where
  "sample_v2 h n = \<lparr>found_serialheaderv2 = False, resync_offsetv2 = 0, headersizev2 = 0, datasizev2 = 0,
     headerbufferv2 = Some (le_bytes 4 h @ [1] @ be_bytes 2 (18 + n + 2) @ replicate (11 + n) 0), databufferv2 = None,
     databuffersizev2 = 0, storageheadersizev2 = 0, baseheadersizev2 = 7, baseheaderextrasizev2 = 11,
     extendedheadersizev2 = n, storageheaderv2 = zero_storageheader, baseheaderv2 = Some (Hdr 0),
     headerextrav2 = \<lparr>hx_msin = 0x41, hx_noar = 1, hx_nanoseconds = 5, hx_seconds = [0, 0, 0, 0, 6], hx_msid = 0\<rparr>,
     extendedheaderv2 = sample_ext\<rparr>"

lemma sample_ext_ok: "ext_ok sample_ext"
  by (simp add: ext_ok_def sample_ext_def zero_extendedheader_def field_ok_def text_at_def tags_of_def tag_ok_def)

lemmas htyp2_flags = DLT_IS_HTYP2_WEID_def DLT_IS_HTYP2_WACID_def DLT_IS_HTYP2_WSID_def DLT_IS_HTYP2_WSFLN_def
  DLT_IS_HTYP2_WTGS_def DLT_IS_HTYP2_WPVL_def DLT_IS_HTYP2_WSGM_def

lemma sample_htyp2: "htyp2 (sample_v2 h n) = Some (le_val (le_bytes 4 h))"
  by (simp add: htyp2_def base_bytes_def sample_v2_def load_at_def)

lemma sample_size: "dlt_message_get_extendedparameters_size_v2 (sample_v2 0x61C 18) = Some 18"
  "dlt_message_get_extendedparameters_size_v2 (sample_v2 0x204 7) = Some 7"
  unfolding dlt_message_get_extendedparameters_size_v2_def sample_htyp2
  by (simp_all add: le_val_bytes_id htyp2_flags sample_v2_def sample_ext_def zero_extendedheader_def)

lemma sample_outgoing: "outgoing (sample_v2 0x61C 18) 0x61C (le_bytes 4 0x61C @ [1] @ be_bytes 2 38 @ replicate 29 0) [7, 8]"
proof -
  have "be_val (be_bytes 2 38) = 38" by (rule be_val_bytes_id) simp
  then show ?thesis using sample_size(1) sample_ext_ok
    by (simp add: outgoing_def base_ok_def)
      (simp add: sample_v2_def le_val_bytes_id extra_ok_v2_def nul_room_def tail_bytes_def htyp2_flags msgcontent_def
        dlt_message_get_extraparameters_size_v2_def)
qed

theorem message_v2_roundtrip_witness:
  "\<exists>m1 m2 hb2 m3. dlt_message_set_extraparameters_v2 (sample_v2 0x61C 18) = Some (DLT_RETURN_OK, m1)
    \<and> dlt_message_set_extendedparameters_v2 m1 = Some (DLT_RETURN_OK, m2) \<and> headerbufferv2 m2 = Some hb2
    \<and> dlt_message_read_v2 zero_malloc (Some (replicate 255 0)) (sample_v2 0 0)
        (dltSerialHeader @ drop (storageheadersizev2 (sample_v2 0x61C 18)) hb2 @ [7, 8] @ [1, 2, 3]) False
        = Some (DLT_MESSAGE_ERROR_OK, m3)
    \<and> received_v2 0x61C (drop (storageheadersizev2 (sample_v2 0x61C 18)) hb2) (headerextrav2 (sample_v2 0x61C 18))
        (extendedheaderv2 (sample_v2 0x61C 18)) [7, 8] m3"
  by (rule message_v2_roundtrip [OF sample_outgoing _ zero_malloc_ok]) (simp_all add: zero_malloc_def)

theorem extended_written_witness:
  "\<exists>m' hb'. dlt_message_set_extendedparameters_v2 (sample_v2 0x61C 18) = Some (DLT_RETURN_OK, m') \<and> headerbufferv2 m' = Some hb'
    \<and> length hb' = 36 \<and> take (18 + 18) hb' = take 18 (le_bytes 4 0x61C @ [1] @ be_bytes 2 38 @ replicate 29 0) @ ext_bytes 0x61C sample_ext"
  using extended_written [of "sample_v2 0x61C 18" "0x61C" "le_bytes 4 0x61C @ [1] @ be_bytes 2 38 @ replicate 29 0" 18 18]
    sample_ext_ok sample_size(1) sample_htyp2 [of "0x61C" 18]
  by (simp add: le_val_bytes_id) (simp add: sample_v2_def nul_room_def tail_bytes_def htyp2_flags)

theorem tag_overflow_witness: "dlt_message_set_extendedparameters_v2 (sample_v2 0x204 7) = None"
  using tag_overflow [of "sample_v2 0x204 7" "0x204" "le_bytes 4 0x204 @ [1] @ be_bytes 2 27 @ replicate 18 0" 7]
    sample_ext_ok sample_size(2) sample_htyp2 [of "0x204" 7]
  by (simp add: le_val_bytes_id) (simp add: sample_v2_def sample_ext_def htyp2_flags)


section \<open>Limits of the format\<close>

text \<open>
  C36. The reader checks only that the base header was received before it reads the fields behind it: if
  a buffer ends with the base header of a message of any regular kind, it reads past the end of
  the buffer.
\<close>

theorem read_v2_overread:
  assumes "length base = 7" "msgcontent (le_val (take 4 base)) \<noteq> DLT_RESERVED"
  shows "dlt_message_read_v2 alloc raw m (dltSerialHeader @ base) resync = None"
proof -
  let ?c = "msgcontent (le_val (take 4 base))"
  have "get_extra_v2 base 7 ?c y = None" for y
    using assms by (cases ?c) (simp_all add: get_extra_v2_def byte_at_def load_at_def)
  moreover have "htyp2 (k\<lparr>baseheaderv2 := Some (Ext base)\<rparr>) = Some (le_val (take 4 base))" for k
    using assms(1) by (simp add: htyp2_def base_bytes_def load_at_def)
  ultimately have "read_headers_v2 raw k base = None" for k
    by (simp add: read_headers_v2_def dlt_message_get_extraparameters_from_recievedbuffer_v2_def Let_def)
  then show ?thesis using assms(1) by (simp add: read_serial_v2 read_message_v2_def)
qed

text \<open>
  C37. Written to the header buffer and read back, a storage header keeps its pattern, its seconds and the
  name of the ECU, but the bytes of the nanoseconds come back in reverse order: they are written in
  the byte order of the host and read in network byte order.
\<close>

theorem storage_nanoseconds_swapped:
  assumes "headerbufferv2 m = Some hb" "sh = storageheaderv2 m" "length (sh_pattern sh) = 4" "length (sh_seconds sh) = 5"
    and "sh_ecidlen sh < 255" "length (sh_ecid sh) = 255" "14 + sh_ecidlen sh \<le> length hb"
  shows "\<exists>m1 m2. dlt_message_set_storageparameters_v2 m = Some (DLT_RETURN_OK, m1)
    \<and> dlt_message_get_storageparameters_v2 m1 = Some (DLT_RETURN_OK, m2)
    \<and> sh_pattern (storageheaderv2 m2) = sh_pattern sh \<and> sh_seconds (storageheaderv2 m2) = sh_seconds sh
    \<and> sh_ecidlen (storageheaderv2 m2) = sh_ecidlen sh
    \<and> take (sh_ecidlen sh) (sh_ecid (storageheaderv2 m2)) = take (sh_ecidlen sh) (sh_ecid sh)
    \<and> sh_nanoseconds (storageheaderv2 m2) = i32 (int (swap32 (nat (u32 (sh_nanoseconds sh)))))"
proof -
  let ?n = "le_bytes 4 (nat (u32 (sh_nanoseconds sh)))" and ?k = "sh_ecidlen sh"
  let ?d = "take ?k (sh_ecid sh)"
  obtain h0 r where h0: "hb = h0 @ r" "length h0 = 14 + ?k" using assms(7) by (metis append_take_drop_id length_take min.absorb2)
  let ?h = "sh_pattern sh @ sh_seconds sh @ ?n @ [of_nat ?k] @ ?d @ r"
  have set: "dlt_message_set_storageparameters_v2 m = Some (DLT_RETURN_OK, m\<lparr>headerbufferv2 := Some ?h\<rparr>)"
    using assms h0 by (simp add: dlt_message_set_storageparameters_v2_def store_at_def load_at_def Let_def)
  have u: "unat (of_nat ?k :: byte) = ?k" using assms(5) by (simp add: unat_of_nat)
  have v: "be_val ?n = swap32 (nat (u32 (sh_nanoseconds sh)))"
    by (simp add: swap32_def be_val_def)
  show ?thesis unfolding set using assms u v
    by (simp add: dlt_message_get_storageparameters_v2_def load_at_def byte_at_def store_at_def nth_append)
qed

theorem read_v2_overread_witness:
  "length [0::byte, 0, 0, 0, 1, 0, 7] = 7 \<and> msgcontent (le_val (take 4 [0, 0, 0, 0, 1, 0, 7])) \<noteq> DLT_RESERVED
   \<and> dlt_message_read_v2 zero_malloc None (sample_v2 0 0) (dltSerialHeader @ [0, 0, 0, 0, 1, 0, 7]) False = None"
proof -
  have "msgcontent (le_val (take 4 [0::byte, 0, 0, 0, 1, 0, 7])) \<noteq> DLT_RESERVED" by (simp add: msgcontent_def)
  with read_v2_overread [of "[0, 0, 0, 0, 1, 0, 7]" zero_malloc None "sample_v2 0 0" False] show ?thesis by simp
qed

definition sample_storage :: DltMessageV2 where
  "sample_storage = (sample_v2 0 0)\<lparr>headerbufferv2 := Some (replicate 20 0),
     storageheaderv2 := \<lparr>sh_pattern = [0x44, 0x4C, 0x54, 2], sh_seconds = [0, 0, 0, 0, 9], sh_nanoseconds = 1,
       sh_ecidlen = 2, sh_ecid = replicate 255 0x45\<rparr>\<rparr>"

theorem storage_nanoseconds_swapped_witness:
  "\<exists>m1 m2. dlt_message_set_storageparameters_v2 sample_storage = Some (DLT_RETURN_OK, m1)
    \<and> dlt_message_get_storageparameters_v2 m1 = Some (DLT_RETURN_OK, m2)
    \<and> sh_seconds (storageheaderv2 m2) = [0, 0, 0, 0, 9] \<and> sh_nanoseconds (storageheaderv2 m2) = 16777216"
proof -
  let ?s = "storageheaderv2 sample_storage"
  have "swap32 1 = 16777216" by (simp add: swap32_def be_val_def le_bytes_4)
  then have n: "i32 (int (swap32 (nat (u32 (sh_nanoseconds ?s))))) = 16777216" by (simp add: sample_storage_def c_casts)
  have "headerbufferv2 sample_storage = Some (replicate 20 0)" "length (sh_pattern ?s) = 4" "length (sh_seconds ?s) = 5"
    "sh_ecidlen ?s < 255" "length (sh_ecid ?s) = 255" "14 + sh_ecidlen ?s \<le> length (replicate 20 (0::byte))"
    by (simp_all add: sample_storage_def)
  from storage_nanoseconds_swapped [OF this(1) refl this(2-6)] obtain m1 m2 where
    "dlt_message_set_storageparameters_v2 sample_storage = Some (DLT_RETURN_OK, m1)"
    "dlt_message_get_storageparameters_v2 m1 = Some (DLT_RETURN_OK, m2)"
    "sh_seconds (storageheaderv2 m2) = sh_seconds ?s"
    "sh_nanoseconds (storageheaderv2 m2) = i32 (int (swap32 (nat (u32 (sh_nanoseconds ?s)))))" by blast
  moreover have "sh_seconds ?s = [0, 0, 0, 0, 9]" by (simp add: sample_storage_def)
  ultimately show ?thesis unfolding n by (intro exI [of _ m1] exI [of _ m2]) simp
qed

end
