(* ===== verification/Dlt_Sorted.thy ===== *)
theory Dlt_Sorted
  imports Dlt_Id "HOL-Library.Multiset" "HOL-Library.List_Lexorder" "HOL-Library.Product_Lexorder"
begin

text \<open>
  Sorted tables: the library functions \<^verbatim>\<open>memcmp\<close>, \<^verbatim>\<open>bsearch\<close> and \<^verbatim>\<open>qsort\<close> as the daemon uses
  them, and what a table is worth that is kept in the order of a comparison function. A comparison
  function orders the entries by a key; the laws of such a table are proved once for any key.
\<close>

section \<open>Library functions\<close>

text \<open>The sign of \<^verbatim>\<open>memcmp\<close>; bytes are compared as unsigned numbers.\<close>

definition sign_of :: "'a::linorder \<Rightarrow> 'a \<Rightarrow> int" where
  "sign_of a b = (if a < b then -1 else if a = b then 0 else 1)"

definition memcmp :: "bytes \<Rightarrow> bytes \<Rightarrow> nat \<Rightarrow> int" where
  "memcmp a b n = sign_of (take n a) (take n b)"

text \<open>Bisection, with the index of the entry as result.\<close>

function bsearch_from :: "('b \<Rightarrow> 'a \<Rightarrow> int) \<Rightarrow> 'b \<Rightarrow> 'a list \<Rightarrow> nat \<Rightarrow> nat \<Rightarrow> nat option" where
  "bsearch_from cmp k xs l u =
     (if l < u then
        let m = (l + u) div 2; c = cmp k (xs ! m)
        in if c < 0 then bsearch_from cmp k xs l m
           else if c > 0 then bsearch_from cmp k xs (m + 1) u
           else Some m
      else None)"
  by pat_completeness auto
termination
  by (relation "measure (\<lambda>(cmp, k, xs, l, u). u - l)") auto

declare bsearch_from.simps [simp del]

definition bsearch :: "('b \<Rightarrow> 'a \<Rightarrow> int) \<Rightarrow> 'b \<Rightarrow> 'a list \<Rightarrow> nat option" where
  "bsearch cmp k xs = bsearch_from cmp k xs 0 (length xs)"

text \<open>Sorting; entries that compare as equal may end up in any order, here they keep theirs.\<close>

fun insert_by :: "('a \<Rightarrow> 'a \<Rightarrow> int) \<Rightarrow> 'a \<Rightarrow> 'a list \<Rightarrow> 'a list" where
  "insert_by cmp x [] = [x]"
| "insert_by cmp x (y # ys) = (if cmp x y \<le> 0 then x # y # ys else y # insert_by cmp x ys)"

definition qsort :: "('a \<Rightarrow> 'a \<Rightarrow> int) \<Rightarrow> 'a list \<Rightarrow> 'a list" where
  "qsort cmp xs = foldr (insert_by cmp) xs []"

definition remove_at :: "nat \<Rightarrow> 'a list \<Rightarrow> 'a list" where
  "remove_at i xs = take i xs @ drop (i + 1) xs"


section \<open>Tables ordered by a key\<close>

text \<open>A table in strictly ascending order, and the contents of a table as a map.\<close>

definition ascending :: "('a \<Rightarrow> 'k::linorder) \<Rightarrow> 'a list \<Rightarrow> bool" where
  "ascending key xs \<longleftrightarrow> sorted_wrt (<) (map key xs)"

definition contents :: "('a \<Rightarrow> 'k) \<Rightarrow> 'a list \<Rightarrow> 'k \<rightharpoonup> 'a" where
  "contents key xs = map_of (map (\<lambda>x. (key x, x)) xs)"

lemma ascending_nth: "ascending key xs \<Longrightarrow> i < j \<Longrightarrow> j < length xs \<Longrightarrow> key (xs ! i) < key (xs ! j)"
  by (auto simp: ascending_def sorted_wrt_iff_nth_less)

lemma ascending_le:
  assumes "ascending key xs" "i \<le> j" "j < length xs"
  shows "key (xs ! i) \<le> key (xs ! j)"
  using ascending_nth [OF assms(1), of i j] assms(2,3) by (cases "i = j") auto

lemma ascending_distinct: "ascending key xs \<Longrightarrow> distinct (map key xs)"
  by (simp add: ascending_def strict_sorted_iff)

lemma ascending_index:
  assumes "ascending key xs" "i < length xs" "j < length xs" "key (xs ! i) = key (xs ! j)"
  shows "i = j"
  using assms ascending_distinct [OF assms(1)] by (metis length_map nth_eq_iff_index_eq nth_map)

lemma option_eqI: "(\<And>y. a = Some y \<longleftrightarrow> b = Some y) \<Longrightarrow> a = b"
  by (metis not_Some_eq)

lemma contents_None: "contents key xs k = None \<longleftrightarrow> k \<notin> key ` set xs"
  by (auto simp: contents_def map_of_eq_None_iff image_image)

lemma contents_Some:
  assumes "distinct (map key xs)"
  shows "contents key xs k = Some x \<longleftrightarrow> x \<in> set xs \<and> key x = k"
proof -
  have "distinct (map fst (map (\<lambda>x. (key x, x)) xs))" using assms by (simp add: comp_def)
  then show ?thesis by (auto simp: contents_def)
qed

lemma contents_nth: "ascending key xs \<Longrightarrow> i < length xs \<Longrightarrow> contents key xs (key (xs ! i)) = Some (xs ! i)"
  by (simp add: contents_Some ascending_distinct)

lemma contents_eqI:
  assumes "distinct (map key xs)" "distinct (map key ys)" "set xs = set ys"
  shows "contents key xs = contents key ys"
proof
  fix k
  show "contents key xs k = contents key ys k"
    using assms contents_Some [OF assms(1)] contents_Some [OF assms(2)] by (metis not_Some_eq)
qed

lemma length_remove_at: "i < length xs \<Longrightarrow> length (remove_at i xs) = length xs - 1"
  by (simp add: remove_at_def)

lemma set_remove_at:
  assumes "distinct (map key xs)" "i < length xs"
  shows "set (remove_at i xs) = {x \<in> set xs. key x \<noteq> key (xs ! i)}"
proof -
  have "xs = take i xs @ xs ! i # drop (i + 1) xs" using assms(2) by (simp add: id_take_nth_drop)
  then have s: "set xs = set (take i xs) \<union> {xs ! i} \<union> set (drop (i + 1) xs)"
    and d: "distinct (map key (take i xs @ xs ! i # drop (i + 1) xs))" using assms(1) by (metis Un_insert_right Un_commute insert_is_Un list.simps(15) set_append, metis)
  from d have "\<forall>x\<in>set (take i xs). key x \<noteq> key (xs ! i)" "\<forall>x\<in>set (drop (i + 1) xs). key x \<noteq> key (xs ! i)"
    unfolding map_append list.map distinct_append distinct.simps set_map by (auto simp: image_iff)
  then show ?thesis unfolding remove_at_def s set_append by auto
qed

lemma ascending_remove_at: "ascending key xs \<Longrightarrow> i < length xs \<Longrightarrow> ascending key (remove_at i xs)"
proof -
  assume a: "ascending key xs" "i < length xs"
  have "map key xs = map key (take i xs) @ key (xs ! i) # map key (drop (i + 1) xs)"
    using a(2) by (metis id_take_nth_drop list.simps(9) map_append Suc_eq_plus1)
  then show ?thesis using a(1) by (auto simp: ascending_def remove_at_def sorted_wrt_append)
qed

lemma contents_remove_at:
  assumes "ascending key xs" "i < length xs"
  shows "contents key (remove_at i xs) = (contents key xs)(key (xs ! i) := None)"
proof
  fix k
  have d: "distinct (map key xs)" "distinct (map key (remove_at i xs))"
    using assms by (auto intro: ascending_distinct ascending_remove_at)
  show "contents key (remove_at i xs) k = ((contents key xs)(key (xs ! i) := None)) k"
  proof (cases "contents key (remove_at i xs) k")
    case None
    then have "k = key (xs ! i) \<or> contents key xs k = None"
      using set_remove_at [OF d(1) assms(2)] by (auto simp: contents_None)
    then show ?thesis using None by auto
  next
    case (Some x)
    then have "x \<in> set xs" "key x = k" "k \<noteq> key (xs ! i)"
      using contents_Some [OF d(2)] set_remove_at [OF d(1) assms(2)] by auto
    then show ?thesis using Some contents_Some [OF d(1), of k x] by auto
  qed
qed

text \<open>Changing an entry without its key.\<close>

lemma ascending_update: "ascending key xs \<Longrightarrow> key x = key (xs ! i) \<Longrightarrow> ascending key (xs[i := x])"
  by (simp add: ascending_def map_update) (metis list_update_beyond list_update_id not_less nth_map length_map)

lemma ascending_map: "(\<And>x. key (f x) = key x) \<Longrightarrow> ascending key (map f xs) = ascending key xs"
  by (simp add: ascending_def comp_def)

lemma contents_map:
  assumes "\<And>x. key (f x) = key x"
  shows "contents key (map f xs) k = map_option f (contents key xs k)"
  by (induction xs) (simp_all add: contents_def assms)

lemma contents_update:
  assumes "ascending key xs" "i < length xs" "key x = key (xs ! i)"
  shows "contents key (xs[i := x]) = (contents key xs)(key x \<mapsto> x)"
proof
  fix k
  have d: "distinct (map key xs)" "distinct (map key (xs[i := x]))"
    using assms by (auto intro: ascending_distinct ascending_update)
  have s: "y \<in> set (xs[i := x]) \<longleftrightarrow> y = x \<or> (y \<in> set xs \<and> key y \<noteq> key x)" for y
  proof
    assume "y \<in> set (xs[i := x])"
    then obtain j where j: "j < length xs" "y = xs[i := x] ! j" by (metis in_set_conv_nth length_list_update)
    then show "y = x \<or> (y \<in> set xs \<and> key y \<noteq> key x)"
      using assms ascending_index [OF assms(1)] by (cases "j = i") auto
  next
    assume y: "y = x \<or> (y \<in> set xs \<and> key y \<noteq> key x)"
    show "y \<in> set (xs[i := x])"
    proof (cases "y = x")
      case True
      then show ?thesis using assms(2) by (simp add: set_update_memI)
    next
      case False
      then obtain j where "j < length xs" "y = xs ! j" "j \<noteq> i" using y assms(3) by (auto simp: in_set_conv_nth)
      then show ?thesis by (metis length_list_update nth_list_update_neq nth_mem)
    qed
  qed
  show "contents key (xs[i := x]) k = ((contents key xs)(key x \<mapsto> x)) k"
  proof (cases "k = key x")
    case True
    then have "contents key (xs[i := x]) k = Some x" using contents_Some [OF d(2)] s by auto
    with True show ?thesis by simp
  next
    case False
    then have "contents key (xs[i := x]) k = contents key xs k"
      by (intro option_eqI) (auto simp: contents_Some [OF d(1)] contents_Some [OF d(2)] s)
    with False show ?thesis by simp
  qed
qed


section \<open>Comparison functions\<close>

text \<open>A comparison function that orders entries by their keys.\<close>

locale ordered_by =
  fixes cmp :: "'a \<Rightarrow> 'a \<Rightarrow> int" and key :: "'a \<Rightarrow> 'k::linorder"
  assumes cmp_less: "cmp a b < 0 \<longleftrightarrow> key a < key b"
    and cmp_eq: "cmp a b = 0 \<longleftrightarrow> key a = key b"
begin

lemma cmp_greater: "cmp a b > 0 \<longleftrightarrow> key b < key a"
  using cmp_less [of a b] cmp_eq [of a b] by auto

lemma bsearch_from_Some:
  "bsearch_from cmp k xs l u = Some i \<Longrightarrow> l \<le> i \<and> i < u \<and> key (xs ! i) = key k"
proof (induction "u - l" arbitrary: l u rule: less_induct)
  case less
  let ?m = "(l + u) div 2"
  have lu: "l < u" using less.prems by (subst (asm) bsearch_from.simps) (simp split: if_splits)
  then have m: "l \<le> ?m" "?m < u" by simp_all
  consider "cmp k (xs ! ?m) < 0" "bsearch_from cmp k xs l ?m = Some i"
    | "cmp k (xs ! ?m) > 0" "bsearch_from cmp k xs (?m + 1) u = Some i" | "cmp k (xs ! ?m) = 0" "?m = i"
    using less.prems lu by (subst (asm) bsearch_from.simps) (auto simp: Let_def split: if_splits)
  then show ?case
  proof cases
    case 1
    then show ?thesis using less.hyps [of ?m l] m by fastforce
  next
    case 2
    then show ?thesis using less.hyps [of u "?m + 1"] m by fastforce
  next
    case 3
    then show ?thesis using m cmp_eq by metis
  qed
qed

lemma bsearch_from_None:
  "ascending key xs \<Longrightarrow> u \<le> length xs \<Longrightarrow> bsearch_from cmp k xs l u = None \<Longrightarrow> l \<le> i \<Longrightarrow> i < u \<Longrightarrow> key (xs ! i) \<noteq> key k"
proof (induction "u - l" arbitrary: l u rule: less_induct)
  case less
  let ?m = "(l + u) div 2"
  have m: "l \<le> ?m" "?m < u" using less.prems(4,5) by simp_all
  consider "key k < key (xs ! ?m)" "bsearch_from cmp k xs l ?m = None"
    | "key (xs ! ?m) < key k" "bsearch_from cmp k xs (?m + 1) u = None"
    using less.prems(3) m cmp_less cmp_greater
    by (subst (asm) bsearch_from.simps) (auto simp: Let_def split: if_splits)
  then show ?case
  proof cases
    case 1
    then show ?thesis
      using less.hyps [of ?m l] less.prems m ascending_nth [OF less.prems(1), of ?m i]
      by (cases "i < ?m") (fastforce, fastforce simp: le_less)
  next
    case 2
    then show ?thesis
      using less.hyps [of u "?m + 1"] less.prems m ascending_nth [OF less.prems(1), of i ?m]
      by (cases "?m < i") (fastforce, fastforce simp: le_less not_less)
  qed
qed

text \<open>The search finds exactly the entry with the key.\<close>

lemma bsearch_iff:
  assumes "ascending key xs"
  shows "bsearch cmp k xs = Some i \<longleftrightarrow> i < length xs \<and> key (xs ! i) = key k"
proof
  assume "bsearch cmp k xs = Some i"
  then show "i < length xs \<and> key (xs ! i) = key k" unfolding bsearch_def by (auto dest: bsearch_from_Some)
next
  assume i: "i < length xs \<and> key (xs ! i) = key k"
  show "bsearch cmp k xs = Some i"
  proof (cases "bsearch cmp k xs")
    case None
    then show ?thesis using bsearch_from_None [OF assms le_refl, of k 0 i] i by (simp add: bsearch_def)
  next
    case (Some j)
    then have "j < length xs" "key (xs ! j) = key k" unfolding bsearch_def by (auto dest: bsearch_from_Some)
    then show ?thesis using Some i ascending_index [OF assms, of i j] by simp
  qed
qed

lemma bsearch_contents:
  assumes "ascending key xs"
  shows "map_option ((!) xs) (bsearch cmp k xs) = contents key xs (key k)"
proof (cases "bsearch cmp k xs")
  case None
  then have "key k \<notin> key ` set xs" using bsearch_iff [OF assms, of k] by (metis imageE in_set_conv_nth option.distinct(1))
  then show ?thesis using None by (simp add: contents_None [THEN iffD2])
next
  case (Some i)
  then show ?thesis using bsearch_iff [OF assms, of k i] contents_nth [OF assms, of i] by simp
qed

lemma insert_by_mset: "mset (insert_by cmp x xs) = add_mset x (mset xs)"
  by (induction xs) auto

lemma insert_by_sorted: "sorted (map key xs) \<Longrightarrow> sorted (map key (insert_by cmp x xs))"
proof (induction xs)
  case (Cons y ys)
  have s: "set (insert_by cmp x ys) = insert x (set ys)" by (metis insert_by_mset set_mset_add_mset_insert set_mset_mset)
  have "cmp x y \<le> 0 \<longleftrightarrow> key x \<le> key y" using cmp_less [of x y] cmp_eq [of x y] by auto
  then show ?case using Cons s by (auto intro: order_trans)
qed simp

lemma qsort_mset: "mset (qsort cmp xs) = mset xs"
  by (induction xs) (simp_all add: qsort_def insert_by_mset)

lemma qsort_sorted: "sorted (map key (qsort cmp xs))"
  by (induction xs) (simp_all add: qsort_def insert_by_sorted)

lemma qsort_set [simp]: "set (qsort cmp xs) = set xs"
  by (metis qsort_mset set_mset_mset)

lemma qsort_length [simp]: "length (qsort cmp xs) = length xs"
  by (metis qsort_mset size_mset)

lemma qsort_distinct: "distinct (map key (qsort cmp xs)) = distinct (map key xs)"
  by (metis qsort_mset mset_map mset_eq_imp_distinct_iff)

text \<open>Sorting a table without duplicate keys puts it in order and keeps its contents.\<close>

lemma qsort_ascending: "distinct (map key xs) \<Longrightarrow> ascending key (qsort cmp xs)"
  by (simp add: ascending_def strict_sorted_iff qsort_sorted qsort_distinct)

lemma qsort_contents: "distinct (map key xs) \<Longrightarrow> contents key (qsort cmp xs) = contents key xs"
  by (intro contents_eqI) (simp_all add: qsort_distinct)

end

end
