(* ===== verification/Dlt_Users.thy ===== *)
theory Dlt_Users
  imports Dlt_Sorted
begin

text \<open>
  The tables of registered applications and contexts (\<^verbatim>\<open>src/daemon/dlt_daemon_common.c\<close>) for both
  versions of the protocol. Each control unit has a list of applications and a list of contexts,
  which are kept sorted and are searched by bisection. An array is modelled by the entries in use
  and the number of entries that fit into the allocated memory, \<open>None\<close> for a null pointer; a
  pointer to an entry is its index. Whether memory can be allocated, the descriptor of the pipe of
  an application and what the memory of a new entry holds are arguments. The model follows the
  default build: pipes between applications and daemon, no log levels per application, no
  trace load control.
\<close>

section \<open>Data\<close>

abbreviation (input) DLT_FD_INIT :: int where "DLT_FD_INIT \<equiv> -1"
abbreviation (input) DLT_DAEMON_APPL_ALLOC_SIZE :: nat where "DLT_DAEMON_APPL_ALLOC_SIZE \<equiv> 500"
abbreviation (input) DLT_DAEMON_CONTEXT_ALLOC_SIZE :: nat where "DLT_DAEMON_CONTEXT_ALLOC_SIZE \<equiv> 1000"

record DltDaemonApplication =
  ap_apid :: bytes
  ap_apid2len :: nat
  ap_apid2 :: bytes
  ap_pid :: int
  ap_user_handle :: int
  owns_user_handle :: bool
  application_description :: "bytes option"
  ap_num_contexts :: int

record DltDaemonContext =
  cx_apid :: bytes
  cx_ctid :: bytes
  cx_apid2len :: nat
  cx_apid2 :: "bytes option"
  cx_ctid2len :: nat
  cx_ctid2 :: "bytes option"
  cx_log_level :: int
  cx_trace_status :: int
  log_level_pos :: int
  cx_user_handle :: int
  context_description :: "bytes option"
  storage_log_level :: int
  predefined :: bool

record DltDaemonRegisteredUsers =
  applications :: "DltDaemonApplication list"
  applications_room :: "nat option"
  contexts :: "DltDaemonContext list"
  contexts_room :: "nat option"
  us_ecu :: bytes
  us_ecuid2len :: nat
  us_ecuid2 :: bytes

text \<open>The fields of the daemon that the tables depend on; \<open>closed_fds\<close> records the descriptors that
  were closed.\<close>

record user_tables =
  user_list :: "DltDaemonRegisteredUsers list"
  ecuid :: bytes
  ecuid2len :: nat
  ecuid2 :: bytes
  default_log_level :: int
  default_trace_status :: int
  force_ll_ts :: bool
  runtime_context_cfg_loaded :: bool
  closed_fds :: "int list"

record table_env =
  table_alloc :: "nat \<Rightarrow> bool"
  text_alloc :: "nat \<Rightarrow> bool"
  open_pipe :: "int \<Rightarrow> int"
  path_fits :: bool
  ctid_alloc :: bool
  raw_application :: DltDaemonApplication


section \<open>Order of the tables\<close>

definition dlt_daemon_cmp_apid :: "DltDaemonApplication \<Rightarrow> DltDaemonApplication \<Rightarrow> int" where
  "dlt_daemon_cmp_apid a b = memcmp (ap_apid a) (ap_apid b) DLT_ID_SIZE"

definition dlt_daemon_cmp_apid_v2 :: "DltDaemonApplication \<Rightarrow> DltDaemonApplication \<Rightarrow> int" where
  "dlt_daemon_cmp_apid_v2 a b =
     (if ap_apid2len a < ap_apid2len b then -1
      else if ap_apid2len a > ap_apid2len b then 1
      else memcmp (ap_apid2 a) (ap_apid2 b) (ap_apid2len a))"

definition dlt_daemon_cmp_apid_ctid :: "DltDaemonContext \<Rightarrow> DltDaemonContext \<Rightarrow> int" where
  "dlt_daemon_cmp_apid_ctid a b =
     (let cmp = memcmp (cx_apid a) (cx_apid b) DLT_ID_SIZE in
      if cmp < 0 then -1
      else if cmp = 0 then memcmp (cx_ctid a) (cx_ctid b) DLT_ID_SIZE
      else 1)"

text \<open>
  The identifiers of a context are null pointers only if memory for them was missing when it was
  registered. They compare as empty; the code would read through a null pointer if another
  identifier has the length that such an entry claims.
\<close>

definition pointed :: "bytes option \<Rightarrow> bytes" where
  "pointed p = (case p of None \<Rightarrow> [] | Some b \<Rightarrow> b)"

definition dlt_daemon_cmp_apid_ctid_v2 :: "DltDaemonContext \<Rightarrow> DltDaemonContext \<Rightarrow> int" where
  "dlt_daemon_cmp_apid_ctid_v2 a b =
     (if cx_apid2len a < cx_apid2len b then -1
      else if cx_apid2len a > cx_apid2len b then 1
      else
        let cmp = memcmp (pointed (cx_apid2 a)) (pointed (cx_apid2 b)) (cx_apid2len a) in
        if cmp < 0 then -1
        else if cmp > 0 then 1
        else if cx_ctid2len a < cx_ctid2len b then -1
        else if cx_ctid2len a > cx_ctid2len b then 1
        else memcmp (pointed (cx_ctid2 a)) (pointed (cx_ctid2 b)) (cx_ctid2len a))"


section \<open>Lists of users\<close>

fun find_first :: "('a \<Rightarrow> bool) \<Rightarrow> 'a list \<Rightarrow> nat option" where
  "find_first P [] = None"
| "find_first P (x # xs) = (if P x then Some 0 else map_option Suc (find_first P xs))"

definition dlt_daemon_find_users_list :: "user_tables \<Rightarrow> bytes \<Rightarrow> nat option" where
  "dlt_daemon_find_users_list d ecu_id =
     find_first (\<lambda>us. chars DLT_ID_SIZE ecu_id = chars DLT_ID_SIZE (us_ecu us)) (user_list d)"

definition dlt_daemon_find_users_list_v2 :: "user_tables \<Rightarrow> nat \<Rightarrow> bytes \<Rightarrow> nat option" where
  "dlt_daemon_find_users_list_v2 d eculen ecu_id =
     (if eculen = 0 then None
      else find_first (\<lambda>us. chars (us_ecuid2len us) ecu_id = chars (us_ecuid2len us) (us_ecuid2 us)) (user_list d))"

definition users_at :: "user_tables \<Rightarrow> nat \<Rightarrow> DltDaemonRegisteredUsers" where
  "users_at d li = user_list d ! li"

definition put_users :: "user_tables \<Rightarrow> nat \<Rightarrow> DltDaemonRegisteredUsers \<Rightarrow> user_tables" where
  "put_users d li us = d\<lparr>user_list := (user_list d)[li := us]\<rparr>"

text \<open>Forgetting a descriptor.\<close>

definition lose_application :: "int \<Rightarrow> DltDaemonApplication \<Rightarrow> DltDaemonApplication" where
  "lose_application fd a = (if ap_user_handle a = fd then a\<lparr>ap_user_handle := DLT_FD_INIT\<rparr> else a)"

definition lose_context :: "int \<Rightarrow> DltDaemonContext \<Rightarrow> DltDaemonContext" where
  "lose_context fd c = (if cx_user_handle c = fd then c\<lparr>cx_user_handle := DLT_FD_INIT\<rparr> else c)"

definition invalidate_applications :: "int \<Rightarrow> DltDaemonRegisteredUsers \<Rightarrow> DltDaemonRegisteredUsers" where
  "invalidate_applications fd us = us\<lparr>applications := map (lose_application fd) (applications us)\<rparr>"

definition invalidate_contexts :: "int \<Rightarrow> DltDaemonRegisteredUsers \<Rightarrow> DltDaemonRegisteredUsers" where
  "invalidate_contexts fd us = us\<lparr>contexts := map (lose_context fd) (contexts us)\<rparr>"

definition dlt_daemon_applications_invalidate_fd :: "user_tables \<Rightarrow> bytes \<Rightarrow> int \<Rightarrow> DltReturnValue \<times> user_tables" where
  "dlt_daemon_applications_invalidate_fd d ecu_id fd =
     (case dlt_daemon_find_users_list d ecu_id of
        None \<Rightarrow> (DLT_RETURN_ERROR, d)
      | Some li \<Rightarrow> (DLT_RETURN_OK, put_users d li (invalidate_applications fd (users_at d li))))"

text \<open>The length of the name is converted to a byte.\<close>

definition dlt_daemon_applications_invalidate_fd_v2 :: "user_tables \<Rightarrow> bytes \<Rightarrow> int \<Rightarrow> DltReturnValue \<times> user_tables" where
  "dlt_daemon_applications_invalidate_fd_v2 d ecu_id fd =
     (case dlt_daemon_find_users_list_v2 d (length (chars (length ecu_id) ecu_id) mod 256) ecu_id of
        None \<Rightarrow> (DLT_RETURN_ERROR, d)
      | Some li \<Rightarrow> (DLT_RETURN_OK, put_users d li (invalidate_applications fd (users_at d li))))"

definition dlt_daemon_contexts_invalidate_fd :: "user_tables \<Rightarrow> bytes \<Rightarrow> int \<Rightarrow> int \<times> user_tables" where
  "dlt_daemon_contexts_invalidate_fd d ecu_id fd =
     (case dlt_daemon_find_users_list d ecu_id of
        None \<Rightarrow> (-1, d)
      | Some li \<Rightarrow> (0, put_users d li (invalidate_contexts fd (users_at d li))))"

definition dlt_daemon_contexts_invalidate_fd_v2 :: "user_tables \<Rightarrow> bytes \<Rightarrow> int \<Rightarrow> int \<times> user_tables" where
  "dlt_daemon_contexts_invalidate_fd_v2 d ecu_id fd =
     (case dlt_daemon_find_users_list_v2 d (length (chars (length ecu_id) ecu_id) mod 256) ecu_id of
        None \<Rightarrow> (-1, d)
      | Some li \<Rightarrow> (0, put_users d li (invalidate_contexts fd (users_at d li))))"

text \<open>Removing all entries of a list.\<close>

definition dlt_daemon_applications_clear :: "user_tables \<Rightarrow> bytes \<Rightarrow> int \<times> user_tables" where
  "dlt_daemon_applications_clear d ecu_id =
     (if user_list d = [] then (ret_int DLT_RETURN_WRONG_PARAMETER, d)
      else case dlt_daemon_find_users_list d ecu_id of
        None \<Rightarrow> (ret_int DLT_RETURN_ERROR, d)
      | Some li \<Rightarrow> (0, put_users d li ((users_at d li)\<lparr>applications := [], applications_room := None\<rparr>)))"

definition dlt_daemon_applications_clear_v2 :: "user_tables \<Rightarrow> bytes \<Rightarrow> int \<times> user_tables" where
  "dlt_daemon_applications_clear_v2 d ecu_id =
     (if user_list d = [] then (ret_int DLT_RETURN_WRONG_PARAMETER, d)
      else case dlt_daemon_find_users_list_v2 d (length (chars (length ecu_id) ecu_id) mod 256) ecu_id of
        None \<Rightarrow> (ret_int DLT_RETURN_ERROR, d)
      | Some li \<Rightarrow> (0, put_users d li ((users_at d li)\<lparr>applications := [], applications_room := None\<rparr>)))"

definition dlt_daemon_contexts_clear :: "user_tables \<Rightarrow> bytes \<Rightarrow> int \<times> user_tables" where
  "dlt_daemon_contexts_clear d ecu_id =
     (case dlt_daemon_find_users_list d ecu_id of
        None \<Rightarrow> (ret_int DLT_RETURN_ERROR, d)
      | Some li \<Rightarrow>
          let us = users_at d li
          in (0, put_users d li (us\<lparr>contexts := [], contexts_room := None,
                   applications := map (\<lambda>a. a\<lparr>ap_num_contexts := 0\<rparr>) (applications us)\<rparr>)))"


section \<open>Searching\<close>

text \<open>
  The result of a search is the index of the entry in its list. The first comparisons use the
  identifier as it was passed, the search itself a cleaned up copy.
\<close>

definition search_application :: "bytes \<Rightarrow> DltDaemonApplication" where
  "search_application ident = \<lparr>ap_apid = ident, ap_apid2len = length ident, ap_apid2 = ident, ap_pid = 0,
     ap_user_handle = 0, owns_user_handle = False, application_description = None, ap_num_contexts = 0\<rparr>"

definition dlt_daemon_application_find :: "user_tables \<Rightarrow> bytes \<Rightarrow> bytes \<Rightarrow> nat option option" where
  "dlt_daemon_application_find d apid ecu_id = do {
     c \<leftarrow> byte_at apid 0;
     if user_list d = [] \<or> c = 0 then Some None
     else
       (case dlt_daemon_find_users_list d ecu_id of
          None \<Rightarrow> Some None
        | Some li \<Rightarrow>
            let apps = applications (users_at d li) in
            if apps = [] then Some None
            else do {
              a \<leftarrow> load_at apid 0 DLT_ID_SIZE;
              if memcmp a (ap_apid (apps ! 0)) DLT_ID_SIZE < 0
                 \<or> memcmp a (ap_apid (apps ! (length apps - 1))) DLT_ID_SIZE > 0
              then Some None
              else do {
                k \<leftarrow> dlt_set_id (replicate DLT_ID_SIZE 0) apid;
                Some (bsearch dlt_daemon_cmp_apid (search_application k) apps)
              }
            })
   }"

definition search_application_v2 :: "nat \<Rightarrow> bytes \<Rightarrow> DltDaemonApplication" where
  "search_application_v2 n ident = (search_application [])\<lparr>ap_apid2len := n, ap_apid2 := ident\<rparr>"

definition dlt_daemon_application_find_v2 ::
  "user_tables \<Rightarrow> nat \<Rightarrow> bytes \<Rightarrow> nat \<Rightarrow> bytes \<Rightarrow> nat option option" where
  "dlt_daemon_application_find_v2 d apidlen apid eculen ecu_id =
     (if user_list d = [] \<or> apidlen = 0 \<or> eculen = 0 then Some None
      else case dlt_daemon_find_users_list_v2 d eculen ecu_id of
          None \<Rightarrow> Some None
        | Some li \<Rightarrow>
            let apps = applications (users_at d li) in
            if apps = [] then Some None
            else do {
              k \<leftarrow> dlt_set_id_v2 (replicate DLT_V2_ID_SIZE 0) apid apidlen;
              Some (bsearch dlt_daemon_cmp_apid_v2 (search_application_v2 apidlen k) apps)
            })"

definition zero_context :: DltDaemonContext where
  "zero_context = \<lparr>cx_apid = replicate 4 0, cx_ctid = replicate 4 0, cx_apid2len = 0, cx_apid2 = None, cx_ctid2len = 0,
     cx_ctid2 = None, cx_log_level = 0, cx_trace_status = 0, log_level_pos = 0, cx_user_handle = 0,
     context_description = None, storage_log_level = 0, predefined = False\<rparr>"

definition dlt_daemon_context_find :: "user_tables \<Rightarrow> bytes \<Rightarrow> bytes \<Rightarrow> bytes \<Rightarrow> nat option option" where
  "dlt_daemon_context_find d apid ctid ecu_id = do {
     c \<leftarrow> byte_at apid 0;
     if c = 0 then Some None
     else do {
       c \<leftarrow> byte_at ctid 0;
       if c = 0 then Some None
       else
         (case dlt_daemon_find_users_list d ecu_id of
            None \<Rightarrow> Some None
          | Some li \<Rightarrow>
              let ctxs = contexts (users_at d li) in
              if ctxs = [] then Some None
              else do {
                a \<leftarrow> load_at apid 0 DLT_ID_SIZE;
                if memcmp a (cx_apid (ctxs ! 0)) DLT_ID_SIZE < 0
                   \<or> memcmp a (cx_apid (ctxs ! (length ctxs - 1))) DLT_ID_SIZE > 0
                then Some None
                else do {
                  k \<leftarrow> dlt_set_id (replicate DLT_ID_SIZE 0) apid;
                  l \<leftarrow> dlt_set_id (replicate DLT_ID_SIZE 0) ctid;
                  Some (bsearch dlt_daemon_cmp_apid_ctid (zero_context\<lparr>cx_apid := k, cx_ctid := l\<rparr>) ctxs)
                }
              })
     }
   }"

text \<open>If memory for the copies of the identifiers is missing the context counts as unknown.\<close>

definition dlt_daemon_context_find_v2 ::
  "table_env \<Rightarrow> user_tables \<Rightarrow> nat \<Rightarrow> bytes \<Rightarrow> nat \<Rightarrow> bytes \<Rightarrow> nat \<Rightarrow> bytes \<Rightarrow> nat option option" where
  "dlt_daemon_context_find_v2 env d apidlen apid ctidlen ctid eculen ecu_id =
     (if apidlen = 0 \<or> ctidlen = 0 \<or> eculen = 0 then Some None
      else case dlt_daemon_find_users_list_v2 d eculen ecu_id of
          None \<Rightarrow> Some None
        | Some li \<Rightarrow>
            let ctxs = contexts (users_at d li) in
            if ctxs = [] \<or> \<not> text_alloc env DLT_V2_ID_SIZE then Some None
            else do {
              k \<leftarrow> dlt_set_id_v2 (replicate DLT_V2_ID_SIZE 0) apid apidlen;
              l \<leftarrow> dlt_set_id_v2 (replicate DLT_V2_ID_SIZE 0) ctid ctidlen;
              Some (bsearch dlt_daemon_cmp_apid_ctid_v2
                (zero_context\<lparr>cx_apid2len := apidlen, cx_apid2 := Some k, cx_ctid2len := ctidlen, cx_ctid2 := Some l\<rparr>) ctxs)
            })"


section \<open>Registering applications\<close>

text \<open>
  Room for one more entry: \<open>n\<close> counts it already. \<open>None\<close> is an access outside the array,
  \<open>Some None\<close> a failed allocation.
\<close>

definition make_room :: "(nat \<Rightarrow> bool) \<Rightarrow> nat \<Rightarrow> nat \<Rightarrow> nat \<Rightarrow> nat option option" where
  "make_room alloc step n room =
     (if n mod step = 0 then
        let room' = (n div step + 1) * step
        in if \<not> alloc room' then Some None else if n \<le> room then Some (Some room') else None
      else if n \<le> room then Some (Some room) else None)"

definition dlt_daemon_application_reset_user_handle ::
  "user_tables \<Rightarrow> DltDaemonApplication \<Rightarrow> DltDaemonApplication \<times> user_tables" where
  "dlt_daemon_application_reset_user_handle d a =
     (if ap_user_handle a = DLT_FD_INIT then (a, d)
      else
        let d = (case dlt_daemon_find_users_list d (ecuid d) of
                   None \<Rightarrow> d
                 | Some k \<Rightarrow> put_users d k (invalidate_contexts (ap_user_handle a) (users_at d k)));
            d = (if owns_user_handle a then d\<lparr>closed_fds := closed_fds d @ [ap_user_handle a]\<rparr> else d)
        in (a\<lparr>ap_user_handle := DLT_FD_INIT, owns_user_handle := False\<rparr>, d))"

definition dlt_daemon_application_reset_user_handle_v2 ::
  "user_tables \<Rightarrow> DltDaemonApplication \<Rightarrow> DltDaemonApplication \<times> user_tables" where
  "dlt_daemon_application_reset_user_handle_v2 d a =
     (if ap_user_handle a = DLT_FD_INIT then (a, d)
      else
        let d = (case dlt_daemon_find_users_list_v2 d (ecuid2len d) (ecuid2 d) of
                   None \<Rightarrow> d
                 | Some k \<Rightarrow> put_users d k (invalidate_contexts (ap_user_handle a) (users_at d k)));
            d = (if owns_user_handle a then d\<lparr>closed_fds := closed_fds d @ [ap_user_handle a]\<rparr> else d)
        in (a\<lparr>ap_user_handle := DLT_FD_INIT, owns_user_handle := False\<rparr>, d))"

definition app_at :: "user_tables \<Rightarrow> nat \<Rightarrow> nat \<Rightarrow> DltDaemonApplication" where
  "app_at d li i = applications (users_at d li) ! i"

definition put_app :: "user_tables \<Rightarrow> nat \<Rightarrow> nat \<Rightarrow> DltDaemonApplication \<Rightarrow> user_tables" where
  "put_app d li i a = put_users d li ((users_at d li)\<lparr>applications := (applications (users_at d li))[i := a]\<rparr>)"

text \<open>An entry of its own for an application that is not known.\<close>

definition fresh_application :: "DltDaemonApplication \<Rightarrow> DltDaemonApplication" where
  "fresh_application a = a\<lparr>ap_pid := 0, application_description := None, ap_num_contexts := 0,
     ap_user_handle := DLT_FD_INIT, owns_user_handle := False\<rparr>"

definition new_application ::
  "table_env \<Rightarrow> (DltDaemonApplication \<Rightarrow> DltDaemonApplication option) \<Rightarrow> nat \<Rightarrow> user_tables \<Rightarrow> user_tables option option" where
  "new_application env fill li d = do {
     let us = users_at d li;
     room \<leftarrow> applications_room us;
     r \<leftarrow> make_room (table_alloc env) DLT_DAEMON_APPL_ALLOC_SIZE (length (applications us) + 1) room;
     (case r of
        None \<Rightarrow> Some None
      | Some room \<Rightarrow> do {
          a \<leftarrow> fill (raw_application env);
          Some (Some (put_users d li
            (us\<lparr>applications := applications us @ [fresh_application a], applications_room := Some room\<rparr>)))
        })
   }"

text \<open>
  If the text cannot be stored, the entry is freed as if it were an allocation of its own, which is
  undefined.
\<close>

definition set_description :: "table_env \<Rightarrow> bytes option \<Rightarrow> DltDaemonApplication \<Rightarrow> DltDaemonApplication option" where
  "set_description env descr a =
     (case descr of
        None \<Rightarrow> Some (a\<lparr>application_description := None\<rparr>)
      | Some t \<Rightarrow> if text_alloc env (length t + 1) then Some (a\<lparr>application_description := Some t\<rparr>) else None)"

definition needs_pipe :: "int \<Rightarrow> DltDaemonApplication \<Rightarrow> bool" where
  "needs_pipe pid a \<longleftrightarrow> ap_user_handle a = DLT_FD_INIT \<and> pid \<noteq> 0"

text \<open>A descriptor that other entries still hold belongs to the new application only.\<close>

definition connect_application :: "table_env \<Rightarrow> bytes \<Rightarrow> nat \<Rightarrow> nat \<Rightarrow> int \<Rightarrow> user_tables \<Rightarrow> user_tables" where
  "connect_application env ecu_id li i pid d =
     (if needs_pipe pid (app_at d li i) then
        let h = (if path_fits env then open_pipe env pid else -1);
            d = snd (dlt_daemon_applications_invalidate_fd d ecu_id h);
            d = snd (dlt_daemon_contexts_invalidate_fd d ecu_id h)
        in put_app d li i ((app_at d li i)\<lparr>ap_user_handle := h, owns_user_handle := h \<ge> 0, ap_pid := pid\<rparr>)
      else d)"

text \<open>
  What both versions have in common; the arguments are the search, the function that forgets the
  connection of an application, the identifier of a new entry and the order of the table.
\<close>

definition add_application ::
  "table_env \<Rightarrow> bool \<Rightarrow> (user_tables \<Rightarrow> nat option option)
   \<Rightarrow> (user_tables \<Rightarrow> DltDaemonApplication \<Rightarrow> DltDaemonApplication \<times> user_tables)
   \<Rightarrow> (DltDaemonApplication \<Rightarrow> DltDaemonApplication option) \<Rightarrow> (DltDaemonApplication \<Rightarrow> DltDaemonApplication \<Rightarrow> int)
   \<Rightarrow> bytes \<Rightarrow> nat \<Rightarrow> int \<Rightarrow> bytes option \<Rightarrow> user_tables \<Rightarrow> (nat option \<times> user_tables) option" where
  "add_application env v2 search reset fill cmp ecu_id li pid descr d =
     (if applications_room (users_at d li) = None \<and> \<not> table_alloc env DLT_DAEMON_APPL_ALLOC_SIZE then Some (None, d)
      else do {
        let us = users_at d li;
        let d = (if applications_room us = None
                 then put_users d li (us\<lparr>applications_room := Some DLT_DAEMON_APPL_ALLOC_SIZE\<rparr>) else d);
        old \<leftarrow> search d;
        r \<leftarrow> (case old of
                Some i \<Rightarrow> Some (Some (i, d))
              | None \<Rightarrow> map_option (map_option (Pair (length (applications us)))) (new_application env fill li d));
        (case r of
           None \<Rightarrow> Some (None, d)
         | Some (i, d) \<Rightarrow> do {
             a \<leftarrow> set_description env descr (app_at d li i);
             let (a, d) = (if ap_pid a \<noteq> pid then let (a, d) = reset d a in (a\<lparr>ap_pid := 0\<rparr>, d) else (a, d));
             let d = put_app d li i a;
             if v2 \<and> needs_pipe pid a \<and> \<not> path_fits env then Some (None, d)
             else do {
               let d = connect_application env ecu_id li i pid d;
               (case old of
                  Some i \<Rightarrow> Some (Some i, d)
                | None \<Rightarrow> do {
                    let us = users_at d li;
                    let d = put_users d li (us\<lparr>applications := qsort cmp (applications us)\<rparr>);
                    j \<leftarrow> search d;
                    Some (j, d)
                  })
             }
           })
      })"

definition dlt_daemon_application_add ::
  "table_env \<Rightarrow> bytes \<Rightarrow> int \<Rightarrow> bytes option \<Rightarrow> bytes \<Rightarrow> user_tables \<Rightarrow> (nat option \<times> user_tables) option" where
  "dlt_daemon_application_add env apid pid descr ecu_id d = do {
     c \<leftarrow> byte_at apid 0;
     if c = 0 then Some (None, d)
     else
       (case dlt_daemon_find_users_list d ecu_id of
          None \<Rightarrow> Some (None, d)
        | Some li \<Rightarrow>
            add_application env False (\<lambda>d. dlt_daemon_application_find d apid ecu_id) dlt_daemon_application_reset_user_handle
              (\<lambda>a. do { k \<leftarrow> dlt_set_id (ap_apid a) apid; Some (a\<lparr>ap_apid := k\<rparr>) })
              dlt_daemon_cmp_apid ecu_id li pid descr d)
   }"

definition dlt_daemon_application_add_v2 ::
  "table_env \<Rightarrow> nat \<Rightarrow> bytes \<Rightarrow> int \<Rightarrow> bytes option \<Rightarrow> nat \<Rightarrow> bytes \<Rightarrow> user_tables \<Rightarrow> (nat option \<times> user_tables) option" where
  "dlt_daemon_application_add_v2 env apidlen apid pid descr eculen ecu_id d =
     (if apidlen = 0 \<or> eculen = 0 then Some (None, d)
      else case dlt_daemon_find_users_list_v2 d eculen ecu_id of
          None \<Rightarrow> Some (None, d)
        | Some li \<Rightarrow>
            add_application env True (\<lambda>d. dlt_daemon_application_find_v2 d apidlen apid eculen ecu_id)
              dlt_daemon_application_reset_user_handle_v2
              (\<lambda>a. do {
                 k \<leftarrow> dlt_set_id_v2 (replicate DLT_V2_ID_SIZE 0) apid apidlen;
                 Some (a\<lparr>ap_apid2len := apidlen, ap_apid2 := k\<rparr>)
               })
              dlt_daemon_cmp_apid_v2 ecu_id li pid descr d)"

text \<open>Removing the entry at an index.\<close>

definition del_application ::
  "(user_tables \<Rightarrow> DltDaemonApplication \<Rightarrow> DltDaemonApplication \<times> user_tables) \<Rightarrow> nat \<Rightarrow> nat \<Rightarrow> user_tables \<Rightarrow> (int \<times> user_tables) option" where
  "del_application reset li pos d =
     (if applications (users_at d li) = [] then Some (0, d)
      else if pos < length (applications (users_at d li)) then
        let d = snd (reset d (app_at d li pos)); us = users_at d li
        in Some (0, put_users d li (us\<lparr>applications := remove_at pos (applications us)\<rparr>))
      else None)"

definition dlt_daemon_application_del :: "nat \<Rightarrow> bytes \<Rightarrow> user_tables \<Rightarrow> (int \<times> user_tables) option" where
  "dlt_daemon_application_del pos ecu_id d =
     (case dlt_daemon_find_users_list d ecu_id of
        None \<Rightarrow> Some (-1, d)
      | Some li \<Rightarrow> del_application dlt_daemon_application_reset_user_handle li pos d)"

definition dlt_daemon_application_del_v2 :: "nat \<Rightarrow> nat \<Rightarrow> bytes \<Rightarrow> user_tables \<Rightarrow> (int \<times> user_tables) option" where
  "dlt_daemon_application_del_v2 pos eculen ecu_id d =
     (case dlt_daemon_find_users_list_v2 d eculen ecu_id of
        None \<Rightarrow> Some (-1, d)
      | Some li \<Rightarrow> del_application dlt_daemon_application_reset_user_handle_v2 li pos d)"


section \<open>Registering contexts\<close>

abbreviation (input) DLT_LOG_DEFAULT :: int where "DLT_LOG_DEFAULT \<equiv> -1"
abbreviation (input) DLT_LOG_VERBOSE :: int where "DLT_LOG_VERBOSE \<equiv> 6"
abbreviation (input) DLT_TRACE_STATUS_DEFAULT :: int where "DLT_TRACE_STATUS_DEFAULT \<equiv> -1"
abbreviation (input) DLT_TRACE_STATUS_ON :: int where "DLT_TRACE_STATUS_ON \<equiv> 1"

definition ctx_at :: "user_tables \<Rightarrow> nat \<Rightarrow> nat \<Rightarrow> DltDaemonContext" where
  "ctx_at d li i = contexts (users_at d li) ! i"

definition put_ctx :: "user_tables \<Rightarrow> nat \<Rightarrow> nat \<Rightarrow> DltDaemonContext \<Rightarrow> user_tables" where
  "put_ctx d li i c = put_users d li ((users_at d li)\<lparr>contexts := (contexts (users_at d li))[i := c]\<rparr>)"

text \<open>
  An entry for a context that is not known; \<open>Inl\<close> is a failed allocation. \<open>fill\<close> gives \<open>Inl\<close> if
  it fails for want of memory; the entry is in the table then.
\<close>

definition new_context ::
  "table_env \<Rightarrow> (DltDaemonContext \<Rightarrow> (DltDaemonContext + DltDaemonContext) option) \<Rightarrow> nat \<Rightarrow> nat \<Rightarrow> user_tables
   \<Rightarrow> (user_tables + user_tables) option" where
  "new_context env fill li ai d = do {
     let us = users_at d li;
     room \<leftarrow> contexts_room us;
     r \<leftarrow> make_room (table_alloc env) DLT_DAEMON_CONTEXT_ALLOC_SIZE (length (contexts us) + 1) room;
     (case r of
        None \<Rightarrow> Some (Inl d)
      | Some room \<Rightarrow> do {
          c \<leftarrow> fill zero_context;
          let us = us\<lparr>contexts_room := Some room\<rparr>;
          (case c of
             Inl c \<Rightarrow> Some (Inl (put_users d li (us\<lparr>contexts := contexts us @ [c]\<rparr>)))
           | Inr c \<Rightarrow>
               let d = put_users d li (us\<lparr>contexts := contexts us @ [c]\<rparr>); a = app_at d li ai
               in Some (Inr (put_app d li ai (a\<lparr>ap_num_contexts := ap_num_contexts a + 1\<rparr>))))
        })
   }"

text \<open>The levels of a context of the own control unit may be limited to those of the daemon.\<close>

definition limit_level :: "user_tables \<Rightarrow> bool \<Rightarrow> int \<Rightarrow> int" where
  "limit_level d own level =
     (if own \<and> force_ll_ts d \<and> level > default_log_level d then default_log_level d else level)"

definition limit_trace :: "user_tables \<Rightarrow> bool \<Rightarrow> int \<Rightarrow> int" where
  "limit_trace d own status =
     (if own \<and> force_ll_ts d \<and> status > default_trace_status d then default_trace_status d else status)"

definition update_context ::
  "table_env \<Rightarrow> user_tables \<Rightarrow> bool \<Rightarrow> bool \<Rightarrow> int \<Rightarrow> int \<Rightarrow> int \<Rightarrow> int \<Rightarrow> bytes option \<Rightarrow> DltDaemonContext \<Rightarrow> DltDaemonContext" where
  "update_context env d own fresh level status pos handle descr c =
     (let c = c\<lparr>context_description :=
                 (case descr of None \<Rightarrow> None | Some t \<Rightarrow> if text_alloc env (length t + 1) then Some t else None)\<rparr>;
          c = (if fresh \<or> \<not> runtime_context_cfg_loaded d
               then c\<lparr>cx_log_level := limit_level d own level, cx_trace_status := limit_trace d own status\<rparr> else c)
      in c\<lparr>log_level_pos := pos, cx_user_handle := handle, predefined := (handle = 0)\<rparr>)"

definition add_context ::
  "table_env \<Rightarrow> (user_tables \<Rightarrow> nat option option) \<Rightarrow> (user_tables \<Rightarrow> nat option option)
   \<Rightarrow> (DltDaemonContext \<Rightarrow> (DltDaemonContext + DltDaemonContext) option) \<Rightarrow> (DltDaemonContext \<Rightarrow> DltDaemonContext \<Rightarrow> int)
   \<Rightarrow> bool \<Rightarrow> nat \<Rightarrow> int \<Rightarrow> int \<Rightarrow> int \<Rightarrow> int \<Rightarrow> bytes option \<Rightarrow> user_tables \<Rightarrow> (nat option \<times> user_tables) option" where
  "add_context env search_app search fill cmp own li level status pos handle descr d =
     (if contexts_room (users_at d li) = None \<and> \<not> table_alloc env DLT_DAEMON_CONTEXT_ALLOC_SIZE then Some (None, d)
      else do {
        let us = users_at d li;
        let d = (if contexts_room us = None
                 then put_users d li (us\<lparr>contexts_room := Some DLT_DAEMON_CONTEXT_ALLOC_SIZE\<rparr>) else d);
        app \<leftarrow> search_app d;
        (case app of
           None \<Rightarrow> Some (None, d)
         | Some ai \<Rightarrow> do {
             old \<leftarrow> search d;
             (case old of
                Some i \<Rightarrow>
                  Some (Some i, put_ctx d li i (update_context env d own False level status pos handle descr (ctx_at d li i)))
              | None \<Rightarrow> do {
                  r \<leftarrow> new_context env fill li ai d;
                  (case r of
                     Inl d \<Rightarrow> Some (None, d)
                   | Inr d \<Rightarrow> do {
                       let i = length (contexts us);
                       let d = put_ctx d li i (update_context env d own True level status pos handle descr (ctx_at d li i));
                       let us = users_at d li;
                       let d = put_users d li (us\<lparr>contexts := qsort cmp (contexts us)\<rparr>);
                       j \<leftarrow> search d;
                       Some (j, d)
                     })
                })
           })
      })"

definition level_in_range :: "int \<Rightarrow> int \<Rightarrow> bool" where
  "level_in_range level status \<longleftrightarrow> DLT_LOG_DEFAULT \<le> level \<and> level \<le> DLT_LOG_VERBOSE
     \<and> DLT_TRACE_STATUS_DEFAULT \<le> status \<and> status \<le> DLT_TRACE_STATUS_ON"

definition dlt_daemon_context_add ::
  "table_env \<Rightarrow> bytes \<Rightarrow> bytes \<Rightarrow> int \<Rightarrow> int \<Rightarrow> int \<Rightarrow> int \<Rightarrow> bytes option \<Rightarrow> bytes \<Rightarrow> user_tables \<Rightarrow> (nat option \<times> user_tables) option" where
  "dlt_daemon_context_add env apid ctid level status pos handle descr ecu_id d = do {
     c \<leftarrow> byte_at apid 0;
     if c = 0 then Some (None, d)
     else do {
       c \<leftarrow> byte_at ctid 0;
       if c = 0 \<or> \<not> level_in_range level status then Some (None, d)
       else
         (case dlt_daemon_find_users_list d ecu_id of
            None \<Rightarrow> Some (None, d)
          | Some li \<Rightarrow>
              add_context env (\<lambda>d. dlt_daemon_application_find d apid ecu_id) (\<lambda>d. dlt_daemon_context_find d apid ctid ecu_id)
                (\<lambda>c. do {
                   k \<leftarrow> dlt_set_id (cx_apid c) apid;
                   l \<leftarrow> dlt_set_id (cx_ctid c) ctid;
                   Some (Inr (c\<lparr>cx_apid := k, cx_ctid := l\<rparr>))
                 })
                dlt_daemon_cmp_apid_ctid (chars DLT_ID_SIZE (ecuid d) = chars DLT_ID_SIZE ecu_id) li level status pos handle descr d)
     }
   }"

text \<open>The identifiers of a new entry are allocated one after the other.\<close>

definition dlt_daemon_context_add_v2 ::
  "table_env \<Rightarrow> nat \<Rightarrow> bytes \<Rightarrow> nat \<Rightarrow> bytes \<Rightarrow> int \<Rightarrow> int \<Rightarrow> int \<Rightarrow> int \<Rightarrow> bytes option \<Rightarrow> nat \<Rightarrow> bytes \<Rightarrow> user_tables
   \<Rightarrow> (nat option \<times> user_tables) option" where
  "dlt_daemon_context_add_v2 env apidlen apid ctidlen ctid level status pos handle descr eculen ecu_id d =
     (if apidlen = 0 \<or> ctidlen = 0 \<or> \<not> level_in_range level status then Some (None, d)
      else case dlt_daemon_find_users_list_v2 d eculen ecu_id of
          None \<Rightarrow> Some (None, d)
        | Some li \<Rightarrow>
            add_context env (\<lambda>d. dlt_daemon_application_find_v2 d apidlen apid eculen ecu_id)
              (\<lambda>d. dlt_daemon_context_find_v2 env d apidlen apid ctidlen ctid eculen ecu_id)
              (\<lambda>c.
                 if \<not> text_alloc env DLT_V2_ID_SIZE then Some (Inl c)
                 else do {
                   k \<leftarrow> dlt_set_id_v2 (replicate DLT_V2_ID_SIZE 0) apid apidlen;
                   let c = c\<lparr>cx_apid2len := apidlen, cx_apid2 := Some k\<rparr>;
                   if \<not> ctid_alloc env then Some (Inl (c\<lparr>cx_apid2 := None\<rparr>))
                   else do {
                     l \<leftarrow> dlt_set_id_v2 (replicate DLT_V2_ID_SIZE 0) ctid ctidlen;
                     Some (Inr (c\<lparr>cx_ctid2len := ctidlen, cx_ctid2 := Some l\<rparr>))
                   }
                 })
              dlt_daemon_cmp_apid_ctid_v2 (chars eculen (ecuid2 d) = chars eculen ecu_id) li level status pos handle descr d)"

definition del_context :: "(user_tables \<Rightarrow> DltDaemonContext \<Rightarrow> nat option option) \<Rightarrow> nat \<Rightarrow> nat \<Rightarrow> user_tables \<Rightarrow> (int \<times> user_tables) option" where
  "del_context search_app li pos d =
     (if contexts (users_at d li) = [] then Some (0, d)
      else if pos < length (contexts (users_at d li)) then do {
        app \<leftarrow> search_app d (ctx_at d li pos);
        let us = users_at d li;
        let d = put_users d li (us\<lparr>contexts := remove_at pos (contexts us)\<rparr>);
        Some (0, case app of
                   None \<Rightarrow> d
                 | Some ai \<Rightarrow> let a = app_at d li ai in put_app d li ai (a\<lparr>ap_num_contexts := ap_num_contexts a - 1\<rparr>))
      }
      else None)"

definition dlt_daemon_context_del :: "nat \<Rightarrow> bytes \<Rightarrow> user_tables \<Rightarrow> (int \<times> user_tables) option" where
  "dlt_daemon_context_del pos ecu_id d =
     (case dlt_daemon_find_users_list d ecu_id of
        None \<Rightarrow> Some (-1, d)
      | Some li \<Rightarrow> del_context (\<lambda>d c. dlt_daemon_application_find d (cx_apid c) ecu_id) li pos d)"

definition dlt_daemon_context_del_v2 :: "nat \<Rightarrow> nat \<Rightarrow> bytes \<Rightarrow> user_tables \<Rightarrow> (int \<times> user_tables) option" where
  "dlt_daemon_context_del_v2 pos eculen ecu_id d =
     (case dlt_daemon_find_users_list_v2 d eculen ecu_id of
        None \<Rightarrow> Some (-1, d)
      | Some li \<Rightarrow>
          del_context (\<lambda>d c. case cx_apid2 c of
                               None \<Rightarrow> Some None
                             | Some b \<Rightarrow> dlt_daemon_application_find_v2 d (cx_apid2len c) b eculen ecu_id) li pos d)"


section \<open>Unregistering an application\<close>

text \<open>
  The message handler removes the contexts of an application, last one first, and then the
  application itself (\<^verbatim>\<open>src/daemon/dlt-daemon.c\<close>). The contexts are expected where the numbers of
  contexts of the applications in front of it say they are.
\<close>

fun delete_contexts :: "(nat \<Rightarrow> user_tables \<Rightarrow> (int \<times> user_tables) option) \<Rightarrow> nat \<Rightarrow> nat \<Rightarrow> user_tables \<Rightarrow> (int \<times> user_tables) option" where
  "delete_contexts del base 0 d = Some (0, d)"
| "delete_contexts del base (Suc k) d = do {
     (r, d) \<leftarrow> del (base + k) d;
     if r = -1 then Some (-1, d) else delete_contexts del base k d
   }"

definition unregister_entry ::
  "(nat \<Rightarrow> user_tables \<Rightarrow> (int \<times> user_tables) option) \<Rightarrow> (nat \<Rightarrow> user_tables \<Rightarrow> (int \<times> user_tables) option)
   \<Rightarrow> nat \<Rightarrow> nat \<Rightarrow> user_tables \<Rightarrow> (int \<times> user_tables) option" where
  "unregister_entry del_ctx del_app li i d = do {
     let offset_base = sum_list (map ap_num_contexts (take i (applications (users_at d li))));
     let n = ap_num_contexts (app_at d li i);
     if n > 0 \<and> offset_base < 0 then None
     else do {
       (r, d) \<leftarrow> delete_contexts del_ctx (nat offset_base) (nat n) d;
       if r = -1 then Some (-1, d) else del_app i d
     }
   }"

definition unregister_application :: "bytes \<Rightarrow> user_tables \<Rightarrow> (int \<times> user_tables) option" where
  "unregister_application apid d =
     (case dlt_daemon_find_users_list d (ecuid d) of
        None \<Rightarrow> Some (-1, d)
      | Some li \<Rightarrow>
          if applications (users_at d li) = [] then Some (0, d)
          else do {
            app \<leftarrow> dlt_daemon_application_find d apid (ecuid d);
            (case app of
               None \<Rightarrow> Some (0, d)
             | Some i \<Rightarrow>
                 unregister_entry (\<lambda>pos. dlt_daemon_context_del pos (ecuid d))
                   (\<lambda>pos. dlt_daemon_application_del pos (ecuid d)) li i d)
          })"

definition unregister_application_v2 :: "nat \<Rightarrow> bytes \<Rightarrow> user_tables \<Rightarrow> (int \<times> user_tables) option" where
  "unregister_application_v2 apidlen apid d =
     (case dlt_daemon_find_users_list_v2 d (ecuid2len d) (ecuid2 d) of
        None \<Rightarrow> Some (-1, d)
      | Some li \<Rightarrow>
          if applications (users_at d li) = [] then Some (0, d)
          else do {
            app \<leftarrow> dlt_daemon_application_find_v2 d apidlen apid (ecuid2len d) (ecuid2 d);
            (case app of
               None \<Rightarrow> Some (0, d)
             | Some i \<Rightarrow>
                 unregister_entry (\<lambda>pos. dlt_daemon_context_del_v2 pos (ecuid2len d) (ecuid2 d))
                   (\<lambda>pos. dlt_daemon_application_del_v2 pos (ecuid2len d) (ecuid2 d)) li i d)
          })"

text \<open>A context that was set by the configuration stays until its application unregisters.\<close>

definition unregister_context :: "bytes \<Rightarrow> bytes \<Rightarrow> user_tables \<Rightarrow> (int \<times> user_tables) option" where
  "unregister_context apid ctid d = do {
     c \<leftarrow> dlt_daemon_context_find d apid ctid (ecuid d);
     (case (c, dlt_daemon_find_users_list d (ecuid d)) of
        (Some i, Some li) \<Rightarrow>
          if predefined (ctx_at d li i) then Some (0, d) else dlt_daemon_context_del i (ecuid d) d
      | _ \<Rightarrow> Some (0, d))
   }"


section \<open>Consistent tables\<close>

definition app_key :: "DltDaemonApplication \<Rightarrow> bytes" where
  "app_key a = take 4 (ap_apid a)"

definition ctx_key :: "DltDaemonContext \<Rightarrow> bytes \<times> bytes" where
  "ctx_key c = (take 4 (cx_apid c), take 4 (cx_ctid c))"

definition app_key_v2 :: "DltDaemonApplication \<Rightarrow> nat \<times> bytes" where
  "app_key_v2 a = (ap_apid2len a, take (ap_apid2len a) (ap_apid2 a))"

definition ctx_key_v2 :: "DltDaemonContext \<Rightarrow> (nat \<times> bytes) \<times> nat \<times> bytes" where
  "ctx_key_v2 c = ((cx_apid2len c, take (cx_apid2len c) (pointed (cx_apid2 c))),
     cx_ctid2len c, take (cx_ctid2len c) (pointed (cx_ctid2 c)))"

lemma sign_of_less [simp]: "sign_of a b < 0 \<longleftrightarrow> a < b"
  by (simp add: sign_of_def)

lemma sign_of_eq [simp]: "sign_of a b = 0 \<longleftrightarrow> a = b"
  by (auto simp: sign_of_def)

lemma sign_of_greater [simp]: "sign_of a b > 0 \<longleftrightarrow> b < a"
  by (auto simp: sign_of_def)

interpretation app_order: ordered_by dlt_daemon_cmp_apid app_key
  by unfold_locales (simp_all add: dlt_daemon_cmp_apid_def memcmp_def app_key_def)

interpretation app_order_v2: ordered_by dlt_daemon_cmp_apid_v2 app_key_v2
  by unfold_locales (auto simp: dlt_daemon_cmp_apid_v2_def memcmp_def app_key_v2_def)

interpretation ctx_order: ordered_by dlt_daemon_cmp_apid_ctid ctx_key
  by unfold_locales (auto simp: dlt_daemon_cmp_apid_ctid_def memcmp_def ctx_key_def Let_def)

interpretation ctx_order_v2: ordered_by dlt_daemon_cmp_apid_ctid_v2 ctx_key_v2
  by unfold_locales (auto simp: dlt_daemon_cmp_apid_ctid_v2_def memcmp_def ctx_key_v2_def Let_def)

text \<open>The memory of a table always has room for the next entry.\<close>

definition room_ok :: "nat \<Rightarrow> nat \<Rightarrow> nat option \<Rightarrow> bool" where
  "room_ok step n r \<longleftrightarrow> (case r of None \<Rightarrow> n = 0 | Some m \<Rightarrow> (n div step + 1) * step \<le> m)"

definition ctx_ids :: "DltDaemonRegisteredUsers \<Rightarrow> (bytes \<times> bytes) list" where
  "ctx_ids us = map (\<lambda>c. (cx_apid c, cx_ctid c)) (contexts us)"

definition contexts_of :: "DltDaemonRegisteredUsers \<Rightarrow> bytes \<Rightarrow> nat" where
  "contexts_of us apid = length (filter (\<lambda>i. fst i = apid) (ctx_ids us))"

text \<open>
  A list of users without regard to the order of its applications: no duplicates, proper identifiers,
  every context has its application, every application knows the number of its contexts, and no
  two applications share a descriptor.
\<close>

definition app_ok :: "DltDaemonRegisteredUsers \<Rightarrow> DltDaemonApplication \<Rightarrow> bool" where
  "app_ok us a \<longleftrightarrow> is_id (ap_apid a) \<and> ap_apid a ! 0 \<noteq> 0 \<and> ap_num_contexts a = int (contexts_of us (ap_apid a))
     \<and> ap_user_handle a \<ge> -1"

definition users_wf :: "DltDaemonRegisteredUsers \<Rightarrow> bool" where
  "users_wf us \<longleftrightarrow> distinct (map app_key (applications us)) \<and> ascending ctx_key (contexts us)
     \<and> (\<forall>a\<in>set (applications us). app_ok us a)
     \<and> (\<forall>(p, q)\<in>set (ctx_ids us). is_id p \<and> is_id q \<and> q ! 0 \<noteq> 0 \<and> p \<in> ap_apid ` set (applications us))
     \<and> (\<forall>a\<in>set (applications us). \<forall>b\<in>set (applications us). ap_user_handle a = ap_user_handle b \<longrightarrow> ap_user_handle a \<ge> 0 \<longrightarrow> app_key a = app_key b)
     \<and> room_ok 500 (length (applications us)) (applications_room us) \<and> room_ok 1000 (length (contexts us)) (contexts_room us)"

definition users_ok :: "DltDaemonRegisteredUsers \<Rightarrow> bool" where
  "users_ok us \<longleftrightarrow> users_wf us \<and> ascending app_key (applications us)"

definition tables_ok :: "user_tables \<Rightarrow> bool" where
  "tables_ok d \<longleftrightarrow> (\<forall>us\<in>set (user_list d). users_ok us)"

text \<open>Identifiers as callers pass them: four bytes with nothing but zeros behind the first zero.\<close>

definition clean_id :: "bytes \<Rightarrow> bool" where
  "clean_id s \<longleftrightarrow> 4 \<le> length s \<and> take 4 s = id4 s \<and> s ! 0 \<noteq> 0"

lemma clean_id_facts:
  assumes "clean_id s"
  shows "load_at s 0 4 = Some (id4 s)" "byte_at s 0 = Some (s ! 0)" "length d = 4 \<Longrightarrow> dlt_set_id d s = Some (id4 s)" "id4 s ! 0 \<noteq> 0" "s ! 0 \<noteq> 0"
proof -
  have l: "4 \<le> length s" "take 4 s = id4 s" "s ! 0 \<noteq> 0" using assms by (simp_all add: clean_id_def)
  then show "load_at s 0 4 = Some (id4 s)" by (simp add: load_at_def)
  show "byte_at s 0 = Some (s ! 0)" using l(1) by (auto simp: byte_at_def)
  show "length d = 4 \<Longrightarrow> dlt_set_id d s = Some (id4 s)" using l(1) set_id_spec [of d s] by (simp add: readable_def)
  have "id4 s ! 0 = s ! 0" using l(2) by (metis nth_take zero_less_numeral)
  with l(3) show "id4 s ! 0 \<noteq> 0" by simp
  show "s ! 0 \<noteq> 0" by (rule l(3))
qed

lemma is_id_key: "is_id (ap_apid a) \<Longrightarrow> app_key a = ap_apid a"
  by (simp add: is_id_def app_key_def)

lemma find_first_Some: "find_first P xs = Some i \<Longrightarrow> i < length xs \<and> P (xs ! i)"
  by (induction xs arbitrary: i) (auto split: if_splits)

lemma find_first_update: "P y = P (xs ! i) \<Longrightarrow> find_first P (xs[i := y]) = find_first P xs"
  by (induction xs arbitrary: i) (auto split: nat.splits)

lemma users_list_bound: "dlt_daemon_find_users_list d e = Some li \<Longrightarrow> li < length (user_list d)"
  unfolding dlt_daemon_find_users_list_def by (blast dest: find_first_Some)

lemma users_at_put [simp]: "li < length (user_list d) \<Longrightarrow> users_at (put_users d li us) li = us"
  by (simp add: users_at_def put_users_def)

lemma users_at_put_other [simp]: "j \<noteq> li \<Longrightarrow> users_at (put_users d li us) j = users_at d j"
  by (simp add: users_at_def put_users_def)

lemma put_users_fields [simp]:
  "length (user_list (put_users d li us)) = length (user_list d)" "ecuid (put_users d li us) = ecuid d"
  "default_log_level (put_users d li us) = default_log_level d" "default_trace_status (put_users d li us) = default_trace_status d"
  "force_ll_ts (put_users d li us) = force_ll_ts d" "runtime_context_cfg_loaded (put_users d li us) = runtime_context_cfg_loaded d"
  "closed_fds (put_users d li us) = closed_fds d"
  by (simp_all add: put_users_def)

lemma find_users_put [simp]:
  "us_ecu us = us_ecu (users_at d li) \<Longrightarrow> dlt_daemon_find_users_list (put_users d li us) e = dlt_daemon_find_users_list d e"
  unfolding dlt_daemon_find_users_list_def put_users_def users_at_def by (simp add: find_first_update)

lemma tables_ok_at: "tables_ok d \<Longrightarrow> li < length (user_list d) \<Longrightarrow> users_ok (users_at d li)"
  by (simp add: tables_ok_def users_at_def)

lemma tables_okI: "(\<And>j. j < length (user_list d) \<Longrightarrow> users_ok (users_at d j)) \<Longrightarrow> tables_ok d"
  unfolding tables_ok_def users_at_def by (metis in_set_conv_nth)

lemma application_find_spec:
  assumes "dlt_daemon_find_users_list d e = Some li" "ascending app_key (applications (users_at d li))"
    "\<forall>a\<in>set (applications (users_at d li)). is_id (ap_apid a)" "clean_id s"
  shows "dlt_daemon_application_find d s e
    = Some (bsearch dlt_daemon_cmp_apid (search_application (id4 s)) (applications (users_at d li)))"
proof -
  let ?xs = "applications (users_at d li)"
  have ne: "user_list d \<noteq> []" using users_list_bound [OF assms(1)] by auto
  have k: "app_key (search_application (id4 s)) = id4 s" by (simp add: app_key_def search_application_def)
  have out: "bsearch dlt_daemon_cmp_apid (search_application (id4 s)) ?xs = None"
    if "\<And>i. i < length ?xs \<Longrightarrow> app_key (?xs ! i) \<noteq> id4 s"
    using app_order.bsearch_iff [OF assms(2), of "search_application (id4 s)"] that k by (metis option.exhaust)
  have first: "app_key (?xs ! 0) \<le> app_key (?xs ! i)" "app_key (?xs ! i) \<le> app_key (?xs ! (length ?xs - 1))" if "i < length ?xs" for i
    using that by (auto intro!: ascending_le [OF assms(2)])
  have key: "memcmp (id4 s) (ap_apid (?xs ! i)) 4 = sign_of (id4 s) (app_key (?xs ! i))" for i
    by (simp add: memcmp_def app_key_def)
  consider "?xs = []" | "?xs \<noteq> []" "id4 s < app_key (?xs ! 0)" | "?xs \<noteq> []" "app_key (?xs ! (length ?xs - 1)) < id4 s"
    | "?xs \<noteq> []" "\<not> id4 s < app_key (?xs ! 0)" "\<not> app_key (?xs ! (length ?xs - 1)) < id4 s" by blast
  then show ?thesis
  proof cases
    case 1
    then show ?thesis using ne assms(1,4) out by (simp add: dlt_daemon_application_find_def clean_id_facts)
  next
    case 2
    then have "bsearch dlt_daemon_cmp_apid (search_application (id4 s)) ?xs = None"
      using first(1) by (intro out) (metis leD)
    then show ?thesis using 2 ne assms(1,4) by (simp add: dlt_daemon_application_find_def clean_id_facts key Let_def)
  next
    case 3
    then have "bsearch dlt_daemon_cmp_apid (search_application (id4 s)) ?xs = None"
      using first(2) by (intro out) (metis leD)
    then show ?thesis using 3 ne assms(1,4) by (simp add: dlt_daemon_application_find_def clean_id_facts key Let_def)
  next
    case 4
    then show ?thesis using ne assms(1,4) by (simp add: dlt_daemon_application_find_def clean_id_facts key Let_def)
  qed
qed

lemma application_find_iff:
  assumes "dlt_daemon_find_users_list d e = Some li" "users_ok (users_at d li)" "clean_id s"
  shows "\<exists>r. dlt_daemon_application_find d s e = Some r
    \<and> (\<forall>i. r = Some i \<longleftrightarrow> i < length (applications (users_at d li)) \<and> ap_apid (app_at d li i) = id4 s)"
proof -
  let ?xs = "applications (users_at d li)"
  have a: "ascending app_key ?xs" "\<forall>a\<in>set ?xs. is_id (ap_apid a)" using assms(2) by (simp_all add: users_ok_def users_wf_def app_ok_def)
  have "app_key (?xs ! i) = ap_apid (?xs ! i)" if "i < length ?xs" for i using a(2) that by (simp add: is_id_key)
  then show ?thesis
    using application_find_spec [OF assms(1) a assms(3)] app_order.bsearch_iff [OF a(1), of "search_application (id4 s)"]
    by (auto simp: app_at_def search_application_def app_key_def)
qed


lemma application_found:
  assumes "dlt_daemon_find_users_list d e = Some li" "users_ok (users_at d li)" "clean_id s"
    "i < length (applications (users_at d li))" "ap_apid (app_at d li i) = id4 s"
  shows "dlt_daemon_application_find d s e = Some (Some i)"
proof -
  obtain r where r: "dlt_daemon_application_find d s e = Some r"
    "\<forall>i. r = Some i \<longleftrightarrow> i < length (applications (users_at d li)) \<and> ap_apid (app_at d li i) = id4 s"
    using application_find_iff [OF assms(1-3)] by blast
  have "r = Some i" using r(2) assms(4,5) by blast
  then show ?thesis using r(1) by simp
qed

section \<open>What the operations keep\<close>

text \<open>The same users, up to the descriptors that contexts hold.\<close>

definition like :: "DltDaemonRegisteredUsers \<Rightarrow> DltDaemonRegisteredUsers \<Rightarrow> bool" where
  "like us us' \<longleftrightarrow> applications us' = applications us \<and> ctx_ids us' = ctx_ids us
     \<and> applications_room us' = applications_room us \<and> contexts_room us' = contexts_room us \<and> us_ecu us' = us_ecu us"

lemma like_refl [simp]: "like us us"
  by (simp add: like_def)

lemma like_trans: "like a b \<Longrightarrow> like b c \<Longrightarrow> like a c"
  by (simp add: like_def)

lemma map_ctx_key: "map ctx_key (contexts us) = map (\<lambda>(p, q). (take 4 p, take 4 q)) (ctx_ids us)"
  by (simp add: ctx_ids_def ctx_key_def)

lemma length_contexts: "length (contexts us) = length (ctx_ids us)"
  by (simp add: ctx_ids_def)

lemma users_wf_like: "like us us' \<Longrightarrow> users_wf us' = users_wf us"
  unfolding like_def users_wf_def ascending_def map_ctx_key length_contexts app_ok_def contexts_of_def by simp

lemma users_ok_like: "like us us' \<Longrightarrow> users_ok us' = users_ok us"
  unfolding users_ok_def using users_wf_like [of us us'] by (simp add: like_def)

lemma like_invalidate: "like us (invalidate_contexts fd us)"
  by (simp add: like_def invalidate_contexts_def ctx_ids_def lose_context_def)

definition alike :: "user_tables \<Rightarrow> user_tables \<Rightarrow> bool" where
  "alike d d' \<longleftrightarrow> length (user_list d') = length (user_list d) \<and> ecuid d' = ecuid d
     \<and> (\<forall>j. like (users_at d j) (users_at d' j))"

lemma alike_refl [simp]: "alike d d"
  by (simp add: alike_def)

lemma find_first_cong:
  "length xs = length ys \<Longrightarrow> (\<And>i. i < length xs \<Longrightarrow> P (xs ! i) = P (ys ! i)) \<Longrightarrow> find_first P xs = find_first P ys"
  by (induction xs ys rule: list_induct2) (fastforce, metis find_first.simps(2) length_Cons nth_Cons_0 nth_Cons_Suc Suc_less_eq zero_less_Suc)

lemma alike_find: "alike d d' \<Longrightarrow> dlt_daemon_find_users_list d' e = dlt_daemon_find_users_list d e"
  unfolding dlt_daemon_find_users_list_def alike_def users_at_def like_def by (intro find_first_cong) auto

lemma alike_put: "like (users_at d li) us \<Longrightarrow> alike d (put_users d li us)"
proof -
  assume l: "like (users_at d li) us"
  have "like (users_at d j) (users_at (put_users d li us) j)" for j
    using l by (cases "li < length (user_list d)")
      (auto simp: users_at_def put_users_def nth_list_update list_update_beyond)
  then show ?thesis by (simp add: alike_def)
qed

text \<open>
  An application that gives up its connection, and the descriptor that is closed then if it was opened by
  the daemon.
\<close>

definition give_up :: "DltDaemonApplication \<Rightarrow> DltDaemonApplication" where
  "give_up a = (if ap_user_handle a = -1 then a else a\<lparr>ap_user_handle := -1, owns_user_handle := False\<rparr>)"

definition given_up :: "DltDaemonApplication \<Rightarrow> int list" where
  "given_up a = (if ap_user_handle a \<noteq> -1 \<and> owns_user_handle a then [ap_user_handle a] else [])"

lemma reset_spec:
  assumes "dlt_daemon_application_reset_user_handle d a = (a', d')"
  shows "alike d d'" "a' = give_up a" "closed_fds d' = closed_fds d @ given_up a"
proof -
  have c: "alike d (d0\<lparr>closed_fds := f\<rparr>) = alike d d0" for d0 f by (simp add: alike_def users_at_def)
  have "alike d d' \<and> a' = give_up a \<and> closed_fds d' = closed_fds d @ given_up a"
    using assms
    by (auto simp: dlt_daemon_application_reset_user_handle_def Let_def c give_up_def given_up_def alike_put like_invalidate alike_refl
        split: option.splits if_splits)
  then show "alike d d'" "a' = give_up a" "closed_fds d' = closed_fds d @ given_up a" by auto
qed

lemma users_wfI:
  assumes "distinct (map app_key (applications us))" "ascending ctx_key (contexts us)"
    "\<And>a. a \<in> set (applications us) \<Longrightarrow> app_ok us a"
    "\<And>p q. (p, q) \<in> set (ctx_ids us) \<Longrightarrow> is_id p \<and> is_id q \<and> q ! 0 \<noteq> 0 \<and> p \<in> ap_apid ` set (applications us)"
    "\<And>a b. a \<in> set (applications us) \<Longrightarrow> b \<in> set (applications us) \<Longrightarrow> ap_user_handle a = ap_user_handle b
      \<Longrightarrow> ap_user_handle a \<ge> 0 \<Longrightarrow> app_key a = app_key b"
    "room_ok 500 (length (applications us)) (applications_room us)" "room_ok 1000 (length (contexts us)) (contexts_room us)"
  shows "users_wf us"
  unfolding users_wf_def using assms by blast

lemma users_wfD:
  assumes "users_wf us"
  shows "distinct (map app_key (applications us))" "ascending ctx_key (contexts us)"
    "a \<in> set (applications us) \<Longrightarrow> app_ok us a"
    "(p, q) \<in> set (ctx_ids us) \<Longrightarrow> is_id p \<and> is_id q \<and> q ! 0 \<noteq> 0 \<and> p \<in> ap_apid ` set (applications us)"
    "a \<in> set (applications us) \<Longrightarrow> b \<in> set (applications us) \<Longrightarrow> ap_user_handle a = ap_user_handle b
      \<Longrightarrow> ap_user_handle a \<ge> 0 \<Longrightarrow> app_key a = app_key b"
    "room_ok 500 (length (applications us)) (applications_room us)" "room_ok 1000 (length (contexts us)) (contexts_room us)"
  using assms unfolding users_wf_def by blast+

text \<open>Applications change their entry, not their name.\<close>

lemma users_wf_update:
  assumes "users_wf us" "i < length (applications us)" "ap_apid a = ap_apid (applications us ! i)"
    "ap_num_contexts a = ap_num_contexts (applications us ! i)" "ap_user_handle a \<ge> -1"
    "\<And>b. b \<in> set (applications us) \<Longrightarrow> app_key b \<noteq> app_key a \<Longrightarrow> ap_user_handle a \<ge> 0 \<Longrightarrow> ap_user_handle b \<noteq> ap_user_handle a"
  shows "users_wf (us\<lparr>applications := (applications us)[i := a]\<rparr>)"
    and "map app_key ((applications us)[i := a]) = map app_key (applications us)"
proof -
  let ?xs = "applications us"
  let ?us = "us\<lparr>applications := ?xs[i := a]\<rparr>"
  have k: "app_key a = app_key (?xs ! i)" using assms(3) by (simp add: app_key_def)
  then show keys: "map app_key (?xs[i := a]) = map app_key ?xs" using assms(2) by (metis list_update_id map_update)
  have "ap_apid ` set (?xs[i := a]) = set (map ap_apid (?xs[i := a]))" by simp
  also have "map ap_apid (?xs[i := a]) = map ap_apid ?xs" using assms(2,3) by (metis list_update_id map_update)
  finally have names: "ap_apid ` set (?xs[i := a]) = ap_apid ` set ?xs" by simp
  have ok: "app_ok us b" if "b \<in> set ?xs" for b using assms(1) that by (simp add: users_wf_def)
  then have "app_ok us (?xs ! i)" using assms(2) by simp
  then have oka: "app_ok us a" using assms(3-5) by (simp add: app_ok_def)
  have mem: "b = a \<or> b \<in> set ?xs" if "b \<in> set (?xs[i := a])" for b using that set_update_subset_insert [of ?xs i a] by blast
  have new: "app_key b = app_key a" if "b \<in> set ?xs" "ap_user_handle b = ap_user_handle a" "ap_user_handle a \<ge> 0" for b
    using assms(6) that by blast
  have uniq: "app_key b = app_key c" if "b \<in> set (?xs[i := a])" "c \<in> set (?xs[i := a])" "ap_user_handle b = ap_user_handle c" "ap_user_handle b \<ge> 0" for b c
  proof (cases "b = a"; cases "c = a")
    assume "b = a" "c \<noteq> a"
    then show ?thesis using mem [OF that(2)] new [of c] that(3,4) by simp
  next
    assume "b \<noteq> a" "c = a"
    then show ?thesis using mem [OF that(1)] new [of b] that(3,4) by simp
  next
    assume "b \<noteq> a" "c \<noteq> a"
    then show ?thesis using mem [OF that(1)] mem [OF that(2)] users_wfD(5) [OF assms(1), of b c] that(3,4) by simp
  qed simp
  have us: "app_ok ?us = app_ok us" "ctx_ids ?us = ctx_ids us" by (simp_all add: contexts_of_def ctx_ids_def app_ok_def fun_eq_iff)
  show "users_wf ?us"
  proof (rule users_wfI)
    show "distinct (map app_key (applications ?us))" using users_wfD(1) [OF assms(1)] keys by (simp del: map_update)
    show "app_ok ?us b" if "b \<in> set (applications ?us)" for b using mem [of b] that ok oka us(1) by auto
    show "is_id p \<and> is_id q \<and> q ! 0 \<noteq> 0 \<and> p \<in> ap_apid ` set (applications ?us)" if "(p, q) \<in> set (ctx_ids ?us)" for p q
      using that users_wfD(4) [OF assms(1), of p q] us(2) names by simp
    show "app_key b = app_key c" if "b \<in> set (applications ?us)" "c \<in> set (applications ?us)"
        "ap_user_handle b = ap_user_handle c" "ap_user_handle b \<ge> 0" for b c
      using that by (intro uniq) simp_all
  qed (use users_wfD(2,6,7) [OF assms(1)] in simp_all)
qed

lemma lose_application_fields [simp]:
  "app_key (lose_application fd a) = app_key a" "ap_apid (lose_application fd a) = ap_apid a"
  "ap_num_contexts (lose_application fd a) = ap_num_contexts a" "ap_pid (lose_application fd a) = ap_pid a"
  "application_description (lose_application fd a) = application_description a"
  by (simp_all add: lose_application_def app_key_def)

lemma users_wf_lose:
  assumes "users_wf us"
  shows "users_wf (invalidate_applications fd us)"
proof (rule users_wfI)
  let ?us = "invalidate_applications fd us"
  have us: "applications ?us = map (lose_application fd) (applications us)" "ctx_ids ?us = ctx_ids us" "contexts_of ?us = contexts_of us"
    "contexts ?us = contexts us" "applications_room ?us = applications_room us" "contexts_room ?us = contexts_room us"
    by (simp_all add: invalidate_applications_def ctx_ids_def contexts_of_def fun_eq_iff)
  show "distinct (map app_key (applications ?us))" using users_wfD(1) [OF assms] by (simp add: us comp_def)
  show "app_ok ?us a" if "a \<in> set (applications ?us)" for a
    using that users_wfD(3) [OF assms] by (auto simp: us app_ok_def lose_application_def)
  show "is_id p \<and> is_id q \<and> q ! 0 \<noteq> 0 \<and> p \<in> ap_apid ` set (applications ?us)" if "(p, q) \<in> set (ctx_ids ?us)" for p q
    using that users_wfD(4) [OF assms, of p q] by (simp add: us image_image)
  show "app_key a = app_key b" if "a \<in> set (applications ?us)" "b \<in> set (applications ?us)"
      "ap_user_handle a = ap_user_handle b" "ap_user_handle a \<ge> 0" for a b
  proof -
    from that(1,2) obtain a' b' where ab: "a' \<in> set (applications us)" "b' \<in> set (applications us)"
      "a = lose_application fd a'" "b = lose_application fd b'" by (auto simp: us)
    moreover have "ap_user_handle a' = ap_user_handle b'" "ap_user_handle a' \<ge> 0"
      using that(3,4) ab(3,4) by (auto simp: lose_application_def split: if_splits)
    ultimately show ?thesis using users_wfD(5) [OF assms, of a' b'] by simp
  qed
qed (use users_wfD(2,6,7) [OF assms] in \<open>simp_all add: invalidate_applications_def\<close>)

lemma users_wf_qsort:
  assumes "users_wf us"
  shows "users_ok (us\<lparr>applications := qsort dlt_daemon_cmp_apid (applications us)\<rparr>)" (is "users_ok ?us")
proof -
  have us: "ctx_ids ?us = ctx_ids us" "contexts_of ?us = contexts_of us" by (simp_all add: ctx_ids_def contexts_of_def fun_eq_iff)
  have "users_wf ?us"
  proof (rule users_wfI)
    show "app_key b = app_key c" if "b \<in> set (applications ?us)" "c \<in> set (applications ?us)"
        "ap_user_handle b = ap_user_handle c" "ap_user_handle b \<ge> 0" for b c
      using that by (intro users_wfD(5) [OF assms]) simp_all
  qed (use users_wfD(1-4,6,7) [OF assms] in \<open>simp_all add: app_order.qsort_distinct us app_ok_def\<close>)
  then show ?thesis using users_wfD(1) [OF assms] by (simp add: users_ok_def app_order.qsort_ascending)
qed

lemma make_room_spec:
  assumes "room_ok step n (Some room)" "step > 0" "\<And>m. alloc m"
  shows "\<exists>room'. make_room alloc step (n + 1) room = Some (Some room') \<and> room_ok step (n + 1) (Some room')"
proof -
  have n: "n < (n div step + 1) * step" using assms(2) dividend_less_div_times by fastforce
  then have r: "n + 1 \<le> room" using assms(1) by (simp add: room_ok_def)
  show ?thesis
  proof (cases "(n + 1) mod step = 0")
    case True
    then show ?thesis using r assms(3) by (simp add: make_room_def room_ok_def Let_def)
  next
    case False
    then have "(n + 1) div step = n div step" using assms(2) by (simp add: div_Suc)
    then show ?thesis using r assms(1) False by (simp add: make_room_def room_ok_def)
  qed
qed

lemma users_wf_append:
  assumes "users_wf us" "a \<notin> app_key -` app_key ` set (applications us)" "is_id (ap_apid a)" "ap_apid a ! 0 \<noteq> 0"
    "ap_num_contexts a = 0" "ap_user_handle a = -1" "room_ok 500 (length (applications us) + 1) (Some m)"
  shows "users_wf (us\<lparr>applications := applications us @ [a], applications_room := Some m\<rparr>)" (is "users_wf ?us")
proof (rule users_wfI)
  have us: "ctx_ids ?us = ctx_ids us" "contexts_of ?us = contexts_of us" by (simp_all add: ctx_ids_def contexts_of_def fun_eq_iff)
  have "p \<noteq> ap_apid a" if "(p, q) \<in> set (ctx_ids us)" for p q
    using users_wfD(4) [OF assms(1) that] assms(2) by (auto simp: app_key_def image_iff)
  then have "contexts_of us (ap_apid a) = 0" by (auto simp: contexts_of_def filter_empty_conv)
  then have a: "app_ok ?us a" using assms(3-6) by (simp add: app_ok_def us)
  show "distinct (map app_key (applications ?us))" using users_wfD(1) [OF assms(1)] assms(2) by simp
  show "app_ok ?us b" if "b \<in> set (applications ?us)" for b
    using that a users_wfD(3) [OF assms(1), of b] by (auto simp: app_ok_def us)
  show "is_id p \<and> is_id q \<and> q ! 0 \<noteq> 0 \<and> p \<in> ap_apid ` set (applications ?us)" if "(p, q) \<in> set (ctx_ids ?us)" for p q
    using that users_wfD(4) [OF assms(1), of p q] by (simp add: us)
  show "app_key b = app_key c" if "b \<in> set (applications ?us)" "c \<in> set (applications ?us)"
      "ap_user_handle b = ap_user_handle c" "ap_user_handle b \<ge> 0" for b c
    using that assms(6) users_wfD(5) [OF assms(1), of b c] by auto
qed (use users_wfD(2,6,7) [OF assms(1)] assms(7) in simp_all)

text \<open>What an operation on the applications of one list leaves alone.\<close>

definition same_but :: "nat \<Rightarrow> user_tables \<Rightarrow> user_tables \<Rightarrow> bool" where
  "same_but li d d' \<longleftrightarrow> length (user_list d') = length (user_list d) \<and> ecuid d' = ecuid d
     \<and> (\<forall>j. j \<noteq> li \<longrightarrow> like (users_at d j) (users_at d' j))
     \<and> ctx_ids (users_at d' li) = ctx_ids (users_at d li) \<and> contexts_room (users_at d' li) = contexts_room (users_at d li)
     \<and> us_ecu (users_at d' li) = us_ecu (users_at d li)"

lemma same_but_refl [simp]: "same_but li d d"
  by (simp add: same_but_def)

lemma same_but_trans: "same_but li a b \<Longrightarrow> same_but li b c \<Longrightarrow> same_but li a c"
  by (auto simp: same_but_def intro: like_trans)

lemma alike_same_but: "alike d d' \<Longrightarrow> same_but li d d'"
  by (simp add: alike_def same_but_def like_def)

lemma same_but_find: "same_but li d d' \<Longrightarrow> dlt_daemon_find_users_list d' e = dlt_daemon_find_users_list d e"
proof -
  assume s: "same_but li d d'"
  have "us_ecu (user_list d' ! j) = us_ecu (user_list d ! j)" for j
    using s by (cases "j = li") (auto simp: same_but_def users_at_def like_def)
  then show ?thesis using s unfolding dlt_daemon_find_users_list_def same_but_def by (intro find_first_cong) auto
qed

lemma same_but_put:
  assumes "li < length (user_list d)" "ctx_ids us = ctx_ids (users_at d li)" "contexts_room us = contexts_room (users_at d li)"
    "us_ecu us = us_ecu (users_at d li)"
  shows "same_but li d (put_users d li us)"
  using assms by (simp add: same_but_def)

lemma same_but_ok:
  assumes "same_but li d d'" "tables_ok d" "users_ok (users_at d' li)"
  shows "tables_ok d'"
proof (rule tables_okI)
  fix j assume "j < length (user_list d')"
  then show "users_ok (users_at d' j)"
    using assms tables_ok_at [OF assms(2), of j] users_ok_like [of "users_at d j" "users_at d' j"]
    by (cases "j = li") (auto simp: same_but_def)
qed

text \<open>
  What registering with the process \<open>pid\<close> does to the entry of an application: one that has another process gives up
  its connection, one without a connection gets the pipe of the process, if it has one. Other entries lose
  the descriptor that the pipe has.
\<close>

definition new_handle :: "table_env \<Rightarrow> int \<Rightarrow> int" where
  "new_handle env pid = (if path_fits env then open_pipe env pid else -1)"

definition renewed :: "int \<Rightarrow> DltDaemonApplication \<Rightarrow> DltDaemonApplication" where
  "renewed pid a = (if ap_pid a \<noteq> pid then (give_up a)\<lparr>ap_pid := 0\<rparr> else a)"

definition connected :: "table_env \<Rightarrow> int \<Rightarrow> DltDaemonApplication \<Rightarrow> DltDaemonApplication" where
  "connected env pid a =
     (if needs_pipe pid a then a\<lparr>ap_user_handle := new_handle env pid, owns_user_handle := new_handle env pid \<ge> 0, ap_pid := pid\<rparr> else a)"

definition displaced :: "table_env \<Rightarrow> int \<Rightarrow> DltDaemonApplication \<Rightarrow> DltDaemonApplication \<Rightarrow> DltDaemonApplication" where
  "displaced env pid a b = (if needs_pipe pid a then lose_application (new_handle env pid) b else b)"

lemma entry_fields [simp]:
  "app_key (renewed pid a) = app_key a" "app_key (connected env pid a) = app_key a" "app_key (displaced env pid a b) = app_key b"
  "ap_apid (renewed pid a) = ap_apid a" "ap_num_contexts (renewed pid a) = ap_num_contexts a"
  "app_key (a\<lparr>application_description := t\<rparr>) = app_key a"
  by (simp_all add: renewed_def connected_def displaced_def give_up_def app_key_def lose_application_def)

lemma connect_apps:
  assumes "dlt_daemon_find_users_list d e = Some li" "i < length (applications (users_at d li))" "a = app_at d li i"
    "connect_application env e li i pid d = d'"
  shows "same_but li d d'"
    and "applications (users_at d' li) = (map (displaced env pid a) (applications (users_at d li)))[i := connected env pid a]"
    and "applications_room (users_at d' li) = applications_room (users_at d li)"
    and "closed_fds d' = closed_fds d"
proof -
  let ?us = "users_at d li" and ?h = "new_handle env pid"
  have li: "li < length (user_list d)" by (rule users_list_bound [OF assms(1)])
  define us1 where "us1 = invalidate_contexts ?h (invalidate_applications ?h ?us)"
  have l1: "like (invalidate_applications ?h ?us) us1" unfolding us1_def by (rule like_invalidate)
  have us1: "applications us1 = map (lose_application ?h) (applications ?us)" "ctx_ids us1 = ctx_ids ?us" "us_ecu us1 = us_ecu ?us"
    "contexts_room us1 = contexts_room ?us" "applications_room us1 = applications_room ?us"
    using l1 by (simp_all add: like_def invalidate_applications_def ctx_ids_def)
  have "same_but li d d' \<and> applications_room (users_at d' li) = applications_room ?us \<and> closed_fds d' = closed_fds d
    \<and> applications (users_at d' li) = (map (displaced env pid a) (applications ?us))[i := connected env pid a]"
  proof (cases "needs_pipe pid a")
    case True
    then have con: "(lose_application ?h a)\<lparr>ap_user_handle := ?h, owns_user_handle := ?h \<ge> 0, ap_pid := pid\<rparr> = connected env pid a"
      "displaced env pid a = lose_application ?h"
      by (simp_all add: connected_def displaced_def lose_application_def fun_eq_iff)
    have at: "applications us1 ! i = lose_application ?h a" using assms(2,3) by (simp add: us1 app_at_def)
    have "d' = put_users (put_users (put_users d li (invalidate_applications ?h ?us)) li us1) li
        (us1\<lparr>applications := (applications us1)[i := connected env pid a]\<rparr>)"
      using True assms(1,3) li at con(1)
      by (simp add: assms(4) [symmetric] connect_application_def new_handle_def [symmetric] Let_def dlt_daemon_applications_invalidate_fd_def
          dlt_daemon_contexts_invalidate_fd_def put_app_def app_at_def us1_def invalidate_applications_def)
    moreover have "put_users (put_users (put_users d li v) li w) li x = put_users d li x" for v w x
      by (simp add: put_users_def)
    ultimately have d': "d' = put_users d li (us1\<lparr>applications := (applications us1)[i := connected env pid a]\<rparr>)" by simp
    then show ?thesis using li us1 con(2) by (simp add: same_but_put ctx_ids_def)
  next
    case False
    then show ?thesis using assms(2-4) by (auto simp: connect_application_def connected_def displaced_def app_at_def fun_eq_iff map_idI)
  qed
  then show "same_but li d d'" "applications_room (users_at d' li) = applications_room ?us" "closed_fds d' = closed_fds d"
    "applications (users_at d' li) = (map (displaced env pid a) (applications ?us))[i := connected env pid a]" by blast+
qed

lemma renew_apps:
  assumes "li < length (user_list d)" "i < length (applications (users_at d li))"
    "(if ap_pid a1 \<noteq> pid then let (a, d) = dlt_daemon_application_reset_user_handle d a1 in (a\<lparr>ap_pid := 0\<rparr>, d) else (a1, d)) = (a2, d2)"
    "put_app d2 li i a2 = d3"
  shows "same_but li d d3" "a2 = renewed pid a1" "app_at d3 li i = a2"
    "applications (users_at d3 li) = (applications (users_at d li))[i := a2]"
    "applications_room (users_at d3 li) = applications_room (users_at d li)"
    "closed_fds d3 = closed_fds d @ (if ap_pid a1 \<noteq> pid then given_up a1 else [])"
proof -
  have d2: "alike d d2" "a2 = renewed pid a1" "closed_fds d2 = closed_fds d @ (if ap_pid a1 \<noteq> pid then given_up a1 else [])"
    using assms(3) reset_spec [of d a1] by (auto simp: renewed_def split: if_splits prod.splits)
  have len: "length (user_list d2) = length (user_list d)"
    and xs: "applications (users_at d2 li) = applications (users_at d li)" "applications_room (users_at d2 li) = applications_room (users_at d li)"
      "ctx_ids (users_at d2 li) = ctx_ids (users_at d li)"
    using d2(1) by (simp_all add: alike_def like_def)
  have d3: "users_at d3 li = (users_at d2 li)\<lparr>applications := (applications (users_at d li))[i := a2]\<rparr>" "same_but li d2 d3"
    "closed_fds d3 = closed_fds d2"
    using assms(1) len by (auto simp: assms(4) [symmetric] put_app_def xs ctx_ids_def intro!: same_but_put)
  show "same_but li d d3" using same_but_trans [OF alike_same_but [OF d2(1)] d3(2)] .
  show "a2 = renewed pid a1" by (rule d2(2))
  show "app_at d3 li i = a2" "applications (users_at d3 li) = (applications (users_at d li))[i := a2]"
    "applications_room (users_at d3 li) = applications_room (users_at d li)"
    "closed_fds d3 = closed_fds d @ (if ap_pid a1 \<noteq> pid then given_up a1 else [])"
    using assms(2) d2(3) by (simp_all add: d3 xs app_at_def)
qed

text \<open>Both steps on the entry at an index; nothing is needed of the tables.\<close>

lemma entry_apps:
  assumes "dlt_daemon_find_users_list d e = Some li" "i < length (applications (users_at d li))"
    "a1 = (app_at d li i)\<lparr>application_description := descr\<rparr>"
    "(if ap_pid a1 \<noteq> pid then let (a, d) = dlt_daemon_application_reset_user_handle d a1 in (a\<lparr>ap_pid := 0\<rparr>, d) else (a1, d)) = (a2, d2)"
    "connect_application env e li i pid (put_app d2 li i a2) = d4"
  shows "same_but li d d4" "applications_room (users_at d4 li) = applications_room (users_at d li)"
    "applications (users_at d4 li)
      = (map (displaced env pid (renewed pid a1)) (applications (users_at d li)))[i := connected env pid (renewed pid a1)]"
    "map app_key (applications (users_at d4 li)) = map app_key (applications (users_at d li))"
    "closed_fds d4 = closed_fds d @ (if ap_pid a1 \<noteq> pid then given_up a1 else [])"
proof -
  define d3 where "d3 = put_app d2 li i a2"
  note r = renew_apps [OF users_list_bound [OF assms(1)] assms(2,4) d3_def [symmetric]]
  have f: "dlt_daemon_find_users_list d3 e = Some li" using same_but_find [OF r(1)] assms(1) by simp
  have i: "i < length (applications (users_at d3 li))" using assms(2) r(4) by simp
  note c = connect_apps [OF f i refl assms(5) [folded d3_def], unfolded r(3,4,5)]
  show "same_but li d d4" using same_but_trans [OF r(1) c(1)] .
  show "applications_room (users_at d4 li) = applications_room (users_at d li)" by (rule c(3))
  show apps: "applications (users_at d4 li)
      = (map (displaced env pid (renewed pid a1)) (applications (users_at d li)))[i := connected env pid (renewed pid a1)]"
    unfolding c(2) r(2) by (simp add: map_update)
  show "closed_fds d4 = closed_fds d @ (if ap_pid a1 \<noteq> pid then given_up a1 else [])" using c(4) r(6) by simp
  have "app_key (connected env pid (renewed pid a1)) = map app_key (applications (users_at d li)) ! i"
    using assms(2,3) by (simp add: app_at_def)
  then show "map app_key (applications (users_at d4 li)) = map app_key (applications (users_at d li))"
    unfolding apps map_update by (simp add: comp_def)
qed

lemma same_but_wf:
  assumes "same_but li d d'" "applications_room (users_at d' li) = applications_room (users_at d li)"
    "users_wf ((users_at d li)\<lparr>applications := applications (users_at d' li)\<rparr>)"
  shows "users_wf (users_at d' li)"
proof -
  have "like ((users_at d li)\<lparr>applications := applications (users_at d' li)\<rparr>) (users_at d' li)"
    using assms(1,2) by (simp add: like_def same_but_def ctx_ids_def)
  then show ?thesis using users_wf_like assms(3) by blast
qed

lemma users_wf_entry:
  assumes wf: "users_wf us" and i: "i < length (applications us)" and p: "open_pipe env pid \<ge> -1"
    and a: "a = renewed pid ((applications us ! i)\<lparr>application_description := descr\<rparr>)"
  shows "users_wf (us\<lparr>applications := (map (displaced env pid a) (applications us))[i := connected env pid a]\<rparr>)"
proof -
  let ?xs = "applications us"
  define us1 where "us1 = us\<lparr>applications := ?xs[i := a]\<rparr>"
  have at: "?xs ! i \<in> set ?xs" using i by simp
  have f: "ap_apid a = ap_apid (?xs ! i)" "ap_num_contexts a = ap_num_contexts (?xs ! i)"
    "ap_user_handle a = -1 \<or> ap_user_handle a = ap_user_handle (?xs ! i)"
    by (auto simp: a renewed_def give_up_def)
  have h: "ap_user_handle a \<ge> -1" using f(3) users_wfD(3) [OF wf at] by (auto simp: app_ok_def)
  have free: "ap_user_handle b \<noteq> ap_user_handle a" if "b \<in> set ?xs" "app_key b \<noteq> app_key a" "ap_user_handle a \<ge> 0" for b
  proof
    assume "ap_user_handle b = ap_user_handle a"
    then have "app_key b = app_key (?xs ! i)" using users_wfD(5) [OF wf that(1) at] f(3) that(3) by auto
    then show False using that(2) f(1) by (simp add: app_key_def)
  qed
  have wf1: "users_wf us1" unfolding us1_def by (rule users_wf_update(1) [OF wf i f(1,2) h free])
  have us1: "applications us1 = ?xs[i := a]" by (simp add: us1_def)
  show ?thesis
  proof (cases "needs_pipe pid a")
    case False
    then have "displaced env pid a = id" "connected env pid a = a" by (simp_all add: displaced_def connected_def fun_eq_iff)
    then show ?thesis using wf1 by (simp add: us1_def)
  next
    case True
    let ?h = "new_handle env pid"
    define us2 where "us2 = invalidate_applications ?h us1"
    have us2: "applications us2 = map (displaced env pid a) (?xs[i := a])"
      using True by (auto simp: us2_def invalidate_applications_def us1 displaced_def)
    have wf2: "users_wf us2" unfolding us2_def by (rule users_wf_lose [OF wf1])
    have e: "i < length (applications us2)" "ap_apid (connected env pid a) = ap_apid (applications us2 ! i)"
      "ap_num_contexts (connected env pid a) = ap_num_contexts (applications us2 ! i)" "ap_user_handle (connected env pid a) \<ge> -1"
      using i p True by (simp_all add: us2 displaced_def connected_def new_handle_def)
    have "ap_user_handle b \<noteq> ap_user_handle (connected env pid a)"
      if "b \<in> set (applications us2)" "ap_user_handle (connected env pid a) \<ge> 0" for b
      using that True by (auto simp: us2 displaced_def connected_def lose_application_def split: if_splits)
    then have "users_wf (us2\<lparr>applications := (applications us2)[i := connected env pid a]\<rparr>)"
      using users_wf_update(1) [OF wf2 e] by blast
    moreover have "us2\<lparr>applications := (applications us2)[i := connected env pid a]\<rparr>
        = us\<lparr>applications := (map (displaced env pid a) ?xs)[i := connected env pid a]\<rparr>"
      by (simp add: us2_def us1_def invalidate_applications_def True displaced_def [abs_def] map_update)
    ultimately show ?thesis by simp
  qed
qed

definition app_map :: "user_tables \<Rightarrow> nat \<Rightarrow> bytes \<Rightarrow> DltDaemonApplication option" where
  "app_map d li = contents app_key (applications (users_at d li))"

lemma contents_append:
  assumes "key x \<notin> key ` set xs"
  shows "contents key (xs @ [x]) = (contents key xs)(key x \<mapsto> x)"
  using assms by (induction xs) (auto simp: contents_def fun_eq_iff)

text \<open>The first registration in a list allocates its table.\<close>

lemma first_room:
  assumes "users_ok us" "li < length (user_list d)" "users_at d li = us"
    "d0 = (if applications_room us = None then put_users d li (us\<lparr>applications_room := Some DLT_DAEMON_APPL_ALLOC_SIZE\<rparr>) else d)"
  shows "same_but li d d0" "users_ok (users_at d0 li)" "applications (users_at d0 li) = applications us" "\<exists>m. applications_room (users_at d0 li) = Some m"
proof -
  let ?us = "us\<lparr>applications_room := Some DLT_DAEMON_APPL_ALLOC_SIZE\<rparr>"
  have "users_ok ?us" if "applications_room us = None"
  proof -
    have "room_ok 500 (length (applications us)) None" using users_wfD(6) [of us] assms(1) that by (simp add: users_ok_def)
    then have "applications us = []" by (simp add: room_ok_def)
    moreover have "room_ok 500 0 (Some 500)" by (simp add: room_ok_def)
    ultimately show ?thesis using assms(1) by (auto simp: users_ok_def users_wf_def ctx_ids_def app_ok_def)
  qed
  moreover have "users_at d0 li = (if applications_room us = None then ?us else us)" using assms(2-4) by simp
  ultimately show "users_ok (users_at d0 li)" "applications (users_at d0 li) = applications us" "\<exists>m. applications_room (users_at d0 li) = Some m"
    using assms(1) by auto
  show "same_but li d d0" using assms(2-4) by (auto simp: ctx_ids_def intro!: same_but_put)
qed

lemma new_application_spec:
  assumes "li < length (user_list d)" "users_wf (users_at d li)" "applications_room (users_at d li) = Some m" "\<And>n. table_alloc env n"
    "clean_id s" "length (ap_apid (raw_application env)) = 4" "id4 s \<notin> app_key ` set (applications (users_at d li))"
    "a = fresh_application ((raw_application env)\<lparr>ap_apid := id4 s\<rparr>)"
  obtains d' where "new_application env (\<lambda>a. do { k \<leftarrow> dlt_set_id (ap_apid a) s; Some (a\<lparr>ap_apid := k\<rparr>) }) li d = Some (Some d')"
    "same_but li d d'" "users_wf (users_at d' li)" "applications (users_at d' li) = applications (users_at d li) @ [a]" "closed_fds d' = closed_fds d"
proof -
  let ?us = "users_at d li"
  obtain m' where m: "make_room (table_alloc env) 500 (length (applications ?us) + 1) m = Some (Some m')"
    "room_ok 500 (length (applications ?us) + 1) (Some m')"
    using make_room_spec [of 500 "length (applications ?us)" m "table_alloc env"] users_wfD(6) [OF assms(2)] assms(3,4) by auto
  define us' where "us' = ?us\<lparr>applications := applications ?us @ [a], applications_room := Some m'\<rparr>"
  have id: "is_id (id4 s)" "app_key a = id4 s" by (simp_all add: assms(8) fresh_application_def app_key_def)
  then have "users_wf us'" unfolding us'_def
    using users_wf_append [OF assms(2), of a m'] m(2) assms(7) clean_id_facts(4) [OF assms(5)] by (simp add: assms(8) fresh_application_def)
  moreover have "same_but li d (put_users d li us')" by (intro same_but_put assms(1)) (simp_all add: us'_def ctx_ids_def)
  moreover have "new_application env (\<lambda>a. do { k \<leftarrow> dlt_set_id (ap_apid a) s; Some (a\<lparr>ap_apid := k\<rparr>) }) li d = Some (Some (put_users d li us'))"
    using m(1) assms(3) clean_id_facts(3) [OF assms(5,6)] by (simp add: new_application_def Let_def us'_def assms(8))
  ultimately show ?thesis using that assms(1) by (simp add: us'_def)
qed

text \<open>
  An environment in which there is memory for descriptions and opening a pipe gives a descriptor or -1, and one in
  which the tables can be allocated as well.
\<close>

definition answers_ok :: "table_env \<Rightarrow> bool" where
  "answers_ok env \<longleftrightarrow> (\<forall>n. text_alloc env n) \<and> (\<forall>p. open_pipe env p \<ge> -1) \<and> length (ap_apid (raw_application env)) = 4"

definition env_ok :: "table_env \<Rightarrow> bool" where
  "env_ok env \<longleftrightarrow> (\<forall>n. table_alloc env n) \<and> answers_ok env"

text \<open>
  The entry of an application that registers, before the change of its connection and after it, what becomes of the
  other applications, and the descriptor that is closed.
\<close>

definition described :: "table_env \<Rightarrow> bytes \<Rightarrow> bytes option \<Rightarrow> DltDaemonApplication option \<Rightarrow> DltDaemonApplication" where
  "described env s descr old =
     (case old of None \<Rightarrow> fresh_application ((raw_application env)\<lparr>ap_apid := id4 s\<rparr>) | Some a \<Rightarrow> a)
     \<lparr>application_description := descr\<rparr>"

definition registered :: "table_env \<Rightarrow> int \<Rightarrow> DltDaemonApplication \<Rightarrow> DltDaemonApplication" where
  "registered env pid a = connected env pid (renewed pid a)"

definition bystander :: "table_env \<Rightarrow> int \<Rightarrow> DltDaemonApplication \<Rightarrow> DltDaemonApplication \<Rightarrow> DltDaemonApplication" where
  "bystander env pid a = displaced env pid (renewed pid a)"

definition application_entered ::
  "table_env \<Rightarrow> user_tables \<Rightarrow> nat \<Rightarrow> bytes \<Rightarrow> int \<Rightarrow> bytes option \<Rightarrow> nat \<Rightarrow> user_tables \<Rightarrow> bool" where
  "application_entered env d li s pid descr i d' \<longleftrightarrow>
     (let a = described env s descr (app_map d li (id4 s)) in
      tables_ok d' \<and> same_but li d d' \<and> i < length (applications (users_at d' li)) \<and> app_at d' li i = registered env pid a
      \<and> app_map d' li = (map_option (bystander env pid a) \<circ> app_map d li)(id4 s \<mapsto> registered env pid a)
      \<and> closed_fds d' = closed_fds d @ (if ap_pid a \<noteq> pid then given_up a else []))"

lemma set_description_ok: "answers_ok env \<Longrightarrow> set_description env descr a = Some (a\<lparr>application_description := descr\<rparr>)"
  by (simp add: set_description_def answers_ok_def split: option.splits)

lemma bystander_key [simp]: "app_key (bystander env pid a b) = app_key b" "app_key (registered env pid a) = app_key a"
  "ap_apid (registered env pid a) = ap_apid a"
  by (simp_all add: bystander_def registered_def) (simp add: connected_def)

lemma add_application_known:
  assumes "dlt_daemon_find_users_list d e = Some li" "tables_ok d" "clean_id s" "env_ok env"
    "d0 = (if applications_room (users_at d li) = None
           then put_users d li ((users_at d li)\<lparr>applications_room := Some DLT_DAEMON_APPL_ALLOC_SIZE\<rparr>) else d)"
    "dlt_daemon_application_find d0 s e = Some (Some i)"
  shows "\<exists>d'. dlt_daemon_application_add env s pid descr e d = Some (Some i, d') \<and> application_entered env d li s pid descr i d'"
proof -
  let ?xs = "applications (users_at d li)"
  have li: "li < length (user_list d)" by (rule users_list_bound [OF assms(1)])
  have ans: "answers_ok env" "open_pipe env pid \<ge> -1" using assms(4) by (simp_all add: env_ok_def answers_ok_def)
  note r0 = first_room [OF tables_ok_at [OF assms(2) li] li refl assms(5)]
  have f0: "dlt_daemon_find_users_list d0 e = Some li" using same_but_find [OF r0(1)] assms(1) by simp
  have i: "i < length ?xs" "ap_apid (?xs ! i) = id4 s" "app_at d0 li i = ?xs ! i"
    using application_find_iff [OF f0 r0(2) assms(3)] assms(6) r0(3) by (auto simp: app_at_def)
  have asc: "ascending app_key ?xs" using r0(2,3) by (simp add: users_ok_def)
  have key: "app_key (?xs ! i) = id4 s" using i(2) by (simp add: app_key_def)
  define a where "a = (?xs ! i)\<lparr>application_description := descr\<rparr>"
  have "app_map d li (id4 s) = Some (?xs ! i)" using contents_nth [OF asc i(1)] key by (simp add: app_map_def)
  then have a: "described env s descr (app_map d li (id4 s)) = a" by (simp add: described_def a_def)
  obtain a2 d2 where a2: "(if ap_pid a \<noteq> pid then let (a, d) = dlt_daemon_application_reset_user_handle d0 a in (a\<lparr>ap_pid := 0\<rparr>, d) else (a, d0)) = (a2, d2)"
    by fastforce
  define d4 where "d4 = connect_application env e li i pid (put_app d2 li i a2)"
  have i0: "i < length (applications (users_at d0 li))" "a = (app_at d0 li i)\<lparr>application_description := descr\<rparr>"
    using i(1,3) r0(3) by (simp_all add: a_def)
  note ent = entry_apps [OF f0 i0 a2 d4_def [symmetric], unfolded r0(3), folded registered_def bystander_def]
  have add: "dlt_daemon_application_add env s pid descr e d = Some (Some i, d4)"
    using assms(1,4,6) a2 [unfolded Let_def] set_description_ok [OF ans(1), of descr "app_at d0 li i", folded i0(2)]
    by (simp add: dlt_daemon_application_add_def add_application_def clean_id_facts [OF assms(3)] Let_def assms(5) [symmetric] d4_def env_ok_def)
      (auto split: if_splits)
  have "users_wf (users_at d0 li)" using r0(2) by (simp add: users_ok_def)
  from users_wf_entry [OF this i0(1) ans(2) refl, of descr] have wf4: "users_wf (users_at d4 li)"
    by (intro same_but_wf [OF ent(1,2)]) (simp add: ent(3) r0(3) registered_def bystander_def a_def)
  have asc4: "ascending app_key (applications (users_at d4 li))" using ent(4) asc by (simp add: ascending_def)
  have ok4: "tables_ok d4" "same_but li d d4"
    using same_but_ok [of li d d4] same_but_trans [OF r0(1) ent(1)] assms(2) wf4 asc4 by (simp_all add: users_ok_def)
  have nth: "i < length (applications (users_at d4 li))" "app_at d4 li i = registered env pid a"
    using i(1) by (simp_all add: app_at_def ent(3))
  have "app_map d4 li = (contents app_key (map (bystander env pid a) ?xs))(id4 s \<mapsto> registered env pid a)"
    unfolding app_map_def ent(3) using contents_update [of app_key "map (bystander env pid a) ?xs" i "registered env pid a"] asc i(1) key
    by (simp add: ascending_map a_def)
  also have "contents app_key (map (bystander env pid a) ?xs) = map_option (bystander env pid a) \<circ> app_map d li"
    by (simp add: fun_eq_iff contents_map app_map_def)
  moreover have "closed_fds d0 = closed_fds d" by (simp add: assms(5))
  ultimately show ?thesis using add ok4 nth ent(5) by (simp add: application_entered_def a)
qed

lemma add_application_unknown:
  assumes "dlt_daemon_find_users_list d e = Some li" "tables_ok d" "clean_id s" "env_ok env"
    "d0 = (if applications_room (users_at d li) = None
           then put_users d li ((users_at d li)\<lparr>applications_room := Some DLT_DAEMON_APPL_ALLOC_SIZE\<rparr>) else d)"
    "dlt_daemon_application_find d0 s e = Some None"
  shows "\<exists>i d'. dlt_daemon_application_add env s pid descr e d = Some (Some i, d') \<and> application_entered env d li s pid descr i d'"
proof -
  let ?xs = "applications (users_at d li)"
  have li: "li < length (user_list d)" by (rule users_list_bound [OF assms(1)])
  have ans: "answers_ok env" "open_pipe env pid \<ge> -1" using assms(4) by (simp_all add: env_ok_def answers_ok_def)
  note r0 = first_room [OF tables_ok_at [OF assms(2) li] li refl assms(5)]
  then obtain m where m: "applications_room (users_at d0 li) = Some m" by blast
  have f0: "dlt_daemon_find_users_list d0 e = Some li" using same_but_find [OF r0(1)] assms(1) by simp
  have wf0: "users_wf (users_at d0 li)" using r0(2) by (simp add: users_ok_def)
  have "app_key x \<noteq> id4 s" if "x \<in> set ?xs" for x
  proof -
    have "ap_apid x \<noteq> id4 s"
      using application_find_iff [OF f0 r0(2) assms(3)] assms(6) r0(3) that by (auto simp: app_at_def in_set_conv_nth)
    then show ?thesis using users_wfD(3) [OF wf0, of x] that by (simp add: r0(3) app_ok_def is_id_key)
  qed
  then have none: "id4 s \<notin> app_key ` set (applications (users_at d0 li))" unfolding r0(3) image_iff by metis
  define new where "new = fresh_application ((raw_application env)\<lparr>ap_apid := id4 s\<rparr>)"
  define a where "a = new\<lparr>application_description := descr\<rparr>"
  have key: "app_key new = id4 s" "app_key a = id4 s" by (simp_all add: a_def new_def fresh_application_def app_key_def)
  have "app_map d li (id4 s) = None" using none by (simp add: app_map_def contents_None r0(3))
  then have a: "described env s descr (app_map d li (id4 s)) = a" by (simp add: described_def a_def new_def)
  obtain d1 where new: "new_application env (\<lambda>a. do { k \<leftarrow> dlt_set_id (ap_apid a) s; Some (a\<lparr>ap_apid := k\<rparr>) }) li d0 = Some (Some d1)"
    and d1: "same_but li d0 d1" "users_wf (users_at d1 li)" "applications (users_at d1 li) = ?xs @ [new]" "closed_fds d1 = closed_fds d0"
    using new_application_spec [OF users_list_bound [OF f0] wf0 m _ assms(3) _ none new_def] assms(4) r0(3) by (auto simp: env_ok_def answers_ok_def)
  define i where "i = length ?xs"
  have i: "i < length (applications (users_at d1 li))" "a = (app_at d1 li i)\<lparr>application_description := descr\<rparr>"
    by (simp_all add: d1(3) i_def app_at_def a_def)
  have f1: "dlt_daemon_find_users_list d1 e = Some li" using same_but_find [OF d1(1)] f0 by simp
  obtain a2 d2 where a2: "(if ap_pid a \<noteq> pid then let (a, d) = dlt_daemon_application_reset_user_handle d1 a in (a\<lparr>ap_pid := 0\<rparr>, d) else (a, d1)) = (a2, d2)"
    by fastforce
  define d4 where "d4 = connect_application env e li i pid (put_app d2 li i a2)"
  note ent = entry_apps [OF f1 i a2 d4_def [symmetric], unfolded d1(3), folded registered_def bystander_def]
  from users_wf_entry [OF d1(2) i(1) ans(2) refl, of descr] have wf4: "users_wf (users_at d4 li)"
    by (intro same_but_wf [OF ent(1,2)]) (simp add: ent(3) d1(3) registered_def bystander_def a_def i_def nth_append)
  define d5 where "d5 = put_users d4 li ((users_at d4 li)\<lparr>applications := qsort dlt_daemon_cmp_apid (applications (users_at d4 li))\<rparr>)"
  have s4: "same_but li d d4" using same_but_trans [OF r0(1) same_but_trans [OF d1(1) ent(1)]] .
  have li4: "li < length (user_list d4)" using s4 li by (simp add: same_but_def)
  have s5: "same_but li d d5" unfolding d5_def by (rule same_but_trans [OF s4]) (intro same_but_put li4; simp add: ctx_ids_def)
  have ok5: "users_ok (users_at d5 li)" using users_wf_qsort [OF wf4] li4 by (simp add: d5_def)
  have f5: "dlt_daemon_find_users_list d5 e = Some li" using same_but_find [OF s5] assms(1) by simp
  have apps4: "applications (users_at d4 li) = map (bystander env pid a) ?xs @ [registered env pid a]"
    unfolding ent(3) by (simp add: i_def list_update_append)
  then have "registered env pid a \<in> set (applications (users_at d5 li))" using li4 by (simp add: d5_def)
  then obtain j where j: "j < length (applications (users_at d5 li))" "app_at d5 li j = registered env pid a"
    by (auto simp: in_set_conv_nth app_at_def)
  then have "ap_apid (app_at d5 li j) = id4 s" by (simp add: a_def new_def fresh_application_def)
  then have find: "dlt_daemon_application_find d5 s e = Some (Some j)"
    using application_found [OF f5 ok5 assms(3) j(1)] by blast
  have add: "dlt_daemon_application_add env s pid descr e d = Some (Some j, d5)"
    using assms(1,4,6) a2 [unfolded Let_def] set_description_ok [OF ans(1), of descr "app_at d1 li i", folded i(2)] new find
    by (simp add: dlt_daemon_application_add_def add_application_def clean_id_facts [OF assms(3)] Let_def assms(5) [symmetric]
        d4_def d5_def env_ok_def i_def [symmetric]) (auto split: if_splits)
  have "app_map d5 li = contents app_key (applications (users_at d4 li))"
    using li4 users_wfD(1) [OF wf4] by (simp add: app_map_def d5_def app_order.qsort_contents)
  also have "\<dots> = (contents app_key (map (bystander env pid a) ?xs))(id4 s \<mapsto> registered env pid a)"
    unfolding apps4 using none key(2) by (subst contents_append) (auto simp: r0(3) image_image)
  also have "contents app_key (map (bystander env pid a) ?xs) = map_option (bystander env pid a) \<circ> app_map d li"
    by (simp add: fun_eq_iff contents_map app_map_def)
  moreover have "closed_fds d5 = closed_fds d4" "closed_fds d0 = closed_fds d" by (simp_all add: d5_def assms(5))
  ultimately show ?thesis using add same_but_ok [OF s5 assms(2) ok5] s5 j ent(5) d1(4) by (auto simp: application_entered_def a)
qed

end
