(* ===== verification/Dlt_Contexts.thy ===== *)
theory Dlt_Contexts
  imports Dlt_Users
begin

text \<open>
  Contexts in the tables of \<^verbatim>\<open>src/daemon/dlt_daemon_common.c\<close>: what finding, registering and deleting a
  context does to consistent tables, and that unregistering an application takes all of its
  contexts, and only these, with it.
\<close>

section \<open>Finding a context\<close>

lemma clean_id_is_id: "is_id p \<Longrightarrow> p ! 0 \<noteq> 0 \<Longrightarrow> clean_id p \<and> id4 p = p"
  by (simp add: clean_id_def is_id_def)

lemma ctx_key_ids:
  assumes "users_wf us" "c \<in> set (contexts us)"
  shows "is_id (cx_apid c)" "is_id (cx_ctid c)" "cx_apid c \<in> ap_apid ` set (applications us)" "ctx_key c = (cx_apid c, cx_ctid c)"
proof -
  have "(cx_apid c, cx_ctid c) \<in> set (ctx_ids us)" using assms(2) by (force simp: ctx_ids_def)
  from users_wfD(4) [OF assms(1) this]
  show "is_id (cx_apid c)" "is_id (cx_ctid c)" "cx_apid c \<in> ap_apid ` set (applications us)" "ctx_key c = (cx_apid c, cx_ctid c)"
    by (simp_all add: ctx_key_def is_id_def)
qed

lemma ctx_key_search [simp]: "ctx_key (c\<lparr>cx_apid := id4 s, cx_ctid := id4 t\<rparr>) = (id4 s, id4 t)"
  by (simp add: ctx_key_def)

lemma context_find_spec:
  assumes "dlt_daemon_find_users_list d e = Some li" "users_wf (users_at d li)" "clean_id s" "clean_id t"
  shows "dlt_daemon_context_find d s t e
    = Some (bsearch dlt_daemon_cmp_apid_ctid (zero_context\<lparr>cx_apid := id4 s, cx_ctid := id4 t\<rparr>) (contexts (users_at d li)))"
proof -
  let ?xs = "contexts (users_at d li)" and ?k = "zero_context\<lparr>cx_apid := id4 s, cx_ctid := id4 t\<rparr>"
  have asc: "ascending ctx_key ?xs" by (rule users_wfD(2) [OF assms(2)])
  have out: "bsearch dlt_daemon_cmp_apid_ctid ?k ?xs = None" if "\<And>i. i < length ?xs \<Longrightarrow> fst (ctx_key (?xs ! i)) \<noteq> id4 s"
  proof (cases "bsearch dlt_daemon_cmp_apid_ctid ?k ?xs")
    case (Some i)
    then show ?thesis using ctx_order.bsearch_iff [OF asc, of ?k i] that [of i] by simp
  qed
  have le: "fst (ctx_key (?xs ! i)) \<le> fst (ctx_key (?xs ! j))" if "i \<le> j" "j < length ?xs" for i j
    using ascending_le [OF asc that] by (auto simp: less_eq_prod_def)
  have first: "fst (ctx_key (?xs ! 0)) \<le> fst (ctx_key (?xs ! i))" "fst (ctx_key (?xs ! i)) \<le> fst (ctx_key (?xs ! (length ?xs - 1)))"
    if "i < length ?xs" for i
    using that by (auto intro!: le)
  have key: "memcmp (id4 s) (cx_apid (?xs ! i)) 4 = sign_of (id4 s) (fst (ctx_key (?xs ! i)))" for i
    by (simp add: memcmp_def ctx_key_def)
  note facts = clean_id_facts [OF assms(3)] clean_id_facts [OF assms(4)]
  consider "?xs = []" | "?xs \<noteq> []" "id4 s < fst (ctx_key (?xs ! 0))" | "?xs \<noteq> []" "fst (ctx_key (?xs ! (length ?xs - 1))) < id4 s"
    | "?xs \<noteq> []" "\<not> id4 s < fst (ctx_key (?xs ! 0))" "\<not> fst (ctx_key (?xs ! (length ?xs - 1))) < id4 s" by blast
  then show ?thesis
  proof cases
    case 1
    then show ?thesis using out assms(1) by (simp add: dlt_daemon_context_find_def facts)
  next
    case 2
    then have "bsearch dlt_daemon_cmp_apid_ctid ?k ?xs = None" using first(1) by (intro out) (metis leD)
    then show ?thesis using 2 assms(1) by (simp add: dlt_daemon_context_find_def facts key Let_def)
  next
    case 3
    then have "bsearch dlt_daemon_cmp_apid_ctid ?k ?xs = None" using first(2) by (intro out) (metis leD)
    then show ?thesis using 3 assms(1) by (simp add: dlt_daemon_context_find_def facts key Let_def)
  next
    case 4
    then show ?thesis using assms(1) by (simp add: dlt_daemon_context_find_def facts key Let_def)
  qed
qed

definition ctx_map :: "user_tables \<Rightarrow> nat \<Rightarrow> bytes \<times> bytes \<Rightarrow> DltDaemonContext option" where
  "ctx_map d li = contents ctx_key (contexts (users_at d li))"

lemma context_found:
  assumes "dlt_daemon_find_users_list d e = Some li" "users_wf (users_at d li)" "clean_id s" "clean_id t"
  shows "dlt_daemon_context_find d s t e = Some (Some i)
    \<longleftrightarrow> i < length (contexts (users_at d li)) \<and> ctx_key (ctx_at d li i) = (id4 s, id4 t)"
  unfolding context_find_spec [OF assms] using ctx_order.bsearch_iff [OF users_wfD(2) [OF assms(2)]]
  by (simp add: ctx_at_def)


section \<open>Changing the contexts of a list\<close>

text \<open>An application with the number of contexts it has in a table.\<close>

definition recount :: "DltDaemonContext list \<Rightarrow> DltDaemonApplication \<Rightarrow> DltDaemonApplication" where
  "recount cs a = a\<lparr>ap_num_contexts := int (length (filter (\<lambda>c. cx_apid c = ap_apid a) cs))\<rparr>"

lemma recount_fields [simp]:
  "ap_apid (recount cs a) = ap_apid a" "app_key (recount cs a) = app_key a" "ap_user_handle (recount cs a) = ap_user_handle a"
  by (simp_all add: recount_def app_key_def)

lemma recount_same: "users_wf us \<Longrightarrow> map (recount (contexts us)) (applications us) = applications us"
proof (rule map_idI)
  fix a assume "users_wf us" "a \<in> set (applications us)"
  then have "app_ok us a" by (rule users_wfD(3))
  then have "ap_num_contexts a = int (length (filter (\<lambda>c. cx_apid c = ap_apid a) (contexts us)))"
    by (simp add: app_ok_def contexts_of_def ctx_ids_def filter_map comp_def)
  then show "recount (contexts us) a = a" by (simp add: recount_def)
qed

lemma users_ok_contexts:
  assumes "users_ok us" "ascending ctx_key cs" "room_ok 1000 (length cs) m"
    "\<And>c. c \<in> set cs \<Longrightarrow> is_id (cx_apid c) \<and> is_id (cx_ctid c) \<and> cx_ctid c ! 0 \<noteq> 0 \<and> cx_apid c \<in> ap_apid ` set (applications us)"
  shows "users_ok (us\<lparr>applications := map (recount cs) (applications us), contexts := cs, contexts_room := m\<rparr>)" (is "users_ok ?us")
proof -
  have wf: "users_wf us" and asc: "ascending app_key (applications us)" using assms(1) by (simp_all add: users_ok_def)
  have ids: "ctx_ids ?us = map (\<lambda>c. (cx_apid c, cx_ctid c)) cs" by (simp add: ctx_ids_def)
  have "users_wf ?us"
  proof (rule users_wfI)
    show "distinct (map app_key (applications ?us))" using users_wfD(1) [OF wf] by (simp add: comp_def)
    show "app_ok ?us a" if "a \<in> set (applications ?us)" for a
      using that users_wfD(3) [OF wf] by (auto simp: app_ok_def contexts_of_def ids recount_def filter_map comp_def)
    show "is_id p \<and> is_id q \<and> q ! 0 \<noteq> 0 \<and> p \<in> ap_apid ` set (applications ?us)" if "(p, q) \<in> set (ctx_ids ?us)" for p q
      using that assms(4) by (auto simp: ids image_image)
    show "app_key a = app_key b" if "a \<in> set (applications ?us)" "b \<in> set (applications ?us)"
        "ap_user_handle a = ap_user_handle b" "ap_user_handle a \<ge> 0" for a b
    proof -
      from that(1,2) obtain a' b' where ab: "a' \<in> set (applications us)" "b' \<in> set (applications us)" "a = recount cs a'" "b = recount cs b'"
        by auto
      then show ?thesis using users_wfD(5) [OF wf ab(1,2)] that(3,4) by simp
    qed
  qed (use assms(2,3) users_wfD(6) [OF wf] in simp_all)
  then show ?thesis using asc by (simp add: users_ok_def ascending_map)
qed


section \<open>Registering a context\<close>

lemma recount_insert:
  assumes "users_wf us" "i < length (applications us)" "mset cs = add_mset c (mset (contexts us))" "cx_apid c = ap_apid (applications us ! i)"
  shows "(applications us)[i := (applications us ! i)\<lparr>ap_num_contexts := ap_num_contexts (applications us ! i) + 1\<rparr>]
    = map (recount cs) (applications us)" (is "?xs[i := ?a] = _")
proof (rule nth_equalityI)
  fix j assume j: "j < length (?xs[i := ?a])"
  have "mset (filter (\<lambda>x. cx_apid x = k) cs) = filter_mset (\<lambda>x. cx_apid x = k) (add_mset c (mset (contexts us)))" for k
    using assms(3) by (metis mset_filter)
  then have "size (mset (filter (\<lambda>x. cx_apid x = k) cs)) = length (filter (\<lambda>x. cx_apid x = k) (contexts us)) + (if cx_apid c = k then 1 else 0)" for k
    by (simp flip: mset_filter)
  then have n: "length (filter (\<lambda>x. cx_apid x = k) cs) = length (filter (\<lambda>x. cx_apid x = k) (contexts us)) + (if cx_apid c = k then 1 else 0)" for k
    by (simp only: size_mset)
  have old: "recount (contexts us) (?xs ! j) = ?xs ! j" using recount_same [OF assms(1)] j by (metis length_list_update nth_map)
  have num: "ap_num_contexts (?xs ! j) = int (length (filter (\<lambda>x. cx_apid x = ap_apid (?xs ! j)) (contexts us)))"
    using arg_cong [OF old, of ap_num_contexts] by (simp add: recount_def)
  have "ap_apid (?xs ! j) = ap_apid (?xs ! i) \<longleftrightarrow> i = j"
  proof
    assume "ap_apid (?xs ! j) = ap_apid (?xs ! i)"
    then have "map app_key ?xs ! j = map app_key ?xs ! i" using j assms(2) by (simp add: app_key_def)
    then show "i = j" using nth_eq_iff_index_eq [OF users_wfD(1) [OF assms(1)], of j i] j assms(2) by simp
  qed simp
  then show "?xs[i := ?a] ! j = map (recount cs) ?xs ! j"
    using j num by (cases "i = j") (auto simp: recount_def n assms(4))
qed simp

text \<open>What the daemon keeps of a context that registers.\<close>

definition registered_context ::
  "user_tables \<Rightarrow> bool \<Rightarrow> bytes \<Rightarrow> bytes \<Rightarrow> int \<Rightarrow> int \<Rightarrow> int \<Rightarrow> int \<Rightarrow> bytes option \<Rightarrow> DltDaemonContext option \<Rightarrow> DltDaemonContext" where
  "registered_context d own s t level status pos handle descr old =
     (let forced = own \<and> force_ll_ts d;
          c = (case old of None \<Rightarrow> zero_context\<lparr>cx_apid := id4 s, cx_ctid := id4 t\<rparr> | Some c \<Rightarrow> c);
          renew = (old = None \<or> \<not> runtime_context_cfg_loaded d)
      in c\<lparr>cx_log_level := (if renew then if forced then min level (default_log_level d) else level else cx_log_level c),
           cx_trace_status := (if renew then if forced then min status (default_trace_status d) else status else cx_trace_status c),
           log_level_pos := pos, cx_user_handle := handle, context_description := descr, predefined := (handle = 0)\<rparr>)"

lemma update_context_spec:
  assumes "env_ok env" "default_log_level d0 = default_log_level d" "default_trace_status d0 = default_trace_status d"
    "force_ll_ts d0 = force_ll_ts d" "runtime_context_cfg_loaded d0 = runtime_context_cfg_loaded d"
    "c = (case old of None \<Rightarrow> zero_context\<lparr>cx_apid := id4 s, cx_ctid := id4 t\<rparr> | Some c \<Rightarrow> c)"
  shows "update_context env d0 own (old = None) level status pos handle descr c = registered_context d own s t level status pos handle descr old"
proof -
  have d: "(case descr of None \<Rightarrow> None | Some t \<Rightarrow> if text_alloc env (length t + 1) then Some t else None) = descr"
    using assms(1) by (simp add: env_ok_def answers_ok_def split: option.split)
  have m: "limit_level d0 own level = (if own \<and> force_ll_ts d then min level (default_log_level d) else level)"
    "limit_trace d0 own status = (if own \<and> force_ll_ts d then min status (default_trace_status d) else status)"
    using assms(2-4) by (auto simp: limit_level_def limit_trace_def)
  show ?thesis unfolding update_context_def registered_context_def d m Let_def assms(5) assms(6) [symmetric]
    by (rule DltDaemonContext.equality) simp_all
qed

lemma first_context_room:
  assumes "users_ok us" "li < length (user_list d)" "users_at d li = us"
    "d0 = (if contexts_room us = None then put_users d li (us\<lparr>contexts_room := Some DLT_DAEMON_CONTEXT_ALLOC_SIZE\<rparr>) else d)"
  shows "users_ok (users_at d0 li)" "\<exists>m. contexts_room (users_at d0 li) = Some m"
    "applications (users_at d0 li) = applications us" "contexts (users_at d0 li) = contexts us"
    "us_ecu (users_at d0 li) = us_ecu us" "\<exists>w. d0 = put_users d li w \<and> us_ecu w = us_ecu us"
proof -
  let ?us = "us\<lparr>contexts_room := Some DLT_DAEMON_CONTEXT_ALLOC_SIZE\<rparr>"
  have "users_ok ?us" if "contexts_room us = None"
  proof -
    have "room_ok 1000 (length (contexts us)) None" using users_wfD(7) [of us] assms(1) that by (simp add: users_ok_def)
    then have "contexts us = []" by (simp add: room_ok_def)
    moreover from this have "map (recount []) (applications us) = applications us"
      using recount_same [of us] assms(1) by (simp add: users_ok_def)
    moreover have "room_ok 1000 0 (Some 1000)" by (simp add: room_ok_def)
    ultimately show ?thesis using users_ok_contexts [OF assms(1), of "[]" "Some 1000"] by (cases us) (simp add: ascending_def)
  qed
  moreover have "users_at d0 li = (if contexts_room us = None then ?us else us)" using assms(2-4) by simp
  ultimately show "users_ok (users_at d0 li)" "\<exists>m. contexts_room (users_at d0 li) = Some m" "applications (users_at d0 li) = applications us"
    "contexts (users_at d0 li) = contexts us" "us_ecu (users_at d0 li) = us_ecu us"
    using assms(1) by auto
  have "put_users d li us = d" using assms(3) by (cases d) (auto simp: put_users_def users_at_def)
  then show "\<exists>w. d0 = put_users d li w \<and> us_ecu w = us_ecu us"
    using assms(4) by (intro exI [of _ "if contexts_room us = None then ?us else us"]) simp
qed

definition counted :: "bool \<Rightarrow> DltDaemonApplication \<Rightarrow> DltDaemonApplication" where
  "counted fresh a = (if fresh then a\<lparr>ap_num_contexts := ap_num_contexts a + 1\<rparr> else a)"

lemma put_put [simp]: "put_users (put_users d li a) li b = put_users d li b"
  by (simp add: put_users_def)

lemma tables_ok_put:
  assumes "tables_ok d" "li < length (user_list d)" "users_ok us"
  shows "tables_ok (put_users d li us)"
proof (rule tables_okI)
  fix j assume "j < length (user_list (put_users d li us))"
  then show "users_ok (users_at (put_users d li us) j)" using assms tables_ok_at [OF assms(1), of j] by (cases "j = li") simp_all
qed

lemma ascending_key_index:
  assumes "ascending key xs" "contents key xs k = Some x"
  obtains i where "i < length xs" "xs ! i = x" "key x = k"
  using assms by (auto simp: contents_Some ascending_distinct in_set_conv_nth)

text \<open>The table of contexts after a context registered; \<open>w\<close> are the users of the list.\<close>

lemma add_context_known:
  assumes "users_ok us" "contexts us ! i = c" "i < length (contexts us)" "cx_apid c' = cx_apid c" "cx_ctid c' = cx_ctid c"
  shows "users_ok (us\<lparr>contexts := (contexts us)[i := c']\<rparr>)"
    "contents ctx_key ((contexts us)[i := c']) = (contents ctx_key (contexts us))(ctx_key c \<mapsto> c')"
proof -
  have asc: "ascending ctx_key (contexts us)" using users_wfD(2) [of us] assms(1) by (simp add: users_ok_def)
  have k: "ctx_key c' = ctx_key c" using assms(4,5) by (simp add: ctx_key_def)
  have "map (\<lambda>c. (cx_apid c, cx_ctid c)) ((contexts us)[i := c']) = map (\<lambda>c. (cx_apid c, cx_ctid c)) (contexts us)"
    using assms(2-5) by (metis (no_types, lifting) list_update_id map_update)
  then have "like us (us\<lparr>contexts := (contexts us)[i := c']\<rparr>)" by (simp add: like_def ctx_ids_def)
  then show "users_ok (us\<lparr>contexts := (contexts us)[i := c']\<rparr>)" using users_ok_like assms(1) by blast
  show "contents ctx_key ((contexts us)[i := c']) = (contents ctx_key (contexts us))(ctx_key c \<mapsto> c')"
    using contents_update [OF asc assms(3), of c'] k assms(2) by simp
qed

lemma add_context_unknown:
  assumes "users_ok us" "ai < length (applications us)" "applications us ! ai = a" "cx_apid c = ap_apid a"
    "is_id (cx_ctid c)" "cx_ctid c ! 0 \<noteq> 0" "ctx_key c \<notin> ctx_key ` set (contexts us)" "room_ok 1000 (length (contexts us) + 1) m"
  shows "users_ok (us\<lparr>applications := (applications us)[ai := counted True a],
      contexts := qsort dlt_daemon_cmp_apid_ctid (contexts us @ [c]), contexts_room := m\<rparr>)"
    "contents ctx_key (qsort dlt_daemon_cmp_apid_ctid (contexts us @ [c])) = (contents ctx_key (contexts us))(ctx_key c \<mapsto> c)"
proof -
  let ?cs = "qsort dlt_daemon_cmp_apid_ctid (contexts us @ [c])"
  have wf: "users_wf us" using assms(1) by (simp add: users_ok_def)
  have dist: "distinct (map ctx_key (contexts us @ [c]))"
    using ascending_distinct [OF users_wfD(2) [OF wf]] assms(7) by simp
  have "a \<in> set (applications us)" using assms(2,3) by auto
  then have a: "is_id (ap_apid a)" "ap_apid a \<in> ap_apid ` set (applications us)" using users_wfD(3) [OF wf] by (auto simp: app_ok_def)
  have rc: "(applications us)[ai := counted True a] = map (recount ?cs) (applications us)"
    using recount_insert [OF wf assms(2), of ?cs c] assms(3,4) by (simp add: counted_def ctx_order.qsort_mset)
  have ids: "is_id (cx_apid x) \<and> is_id (cx_ctid x) \<and> cx_ctid x ! 0 \<noteq> 0 \<and> cx_apid x \<in> ap_apid ` set (applications us)"
    if "x \<in> set (contexts us @ [c])" for x
  proof (cases "x = c")
    case False
    then have "(cx_apid x, cx_ctid x) \<in> set (ctx_ids us)" using that by (force simp: ctx_ids_def)
    then show ?thesis by (rule users_wfD(4) [OF wf])
  qed (use assms(4-6) a in simp)
  show "users_ok (us\<lparr>applications := (applications us)[ai := counted True a], contexts := ?cs, contexts_room := m\<rparr>)"
    unfolding rc using users_ok_contexts [OF assms(1) ctx_order.qsort_ascending [OF dist]] assms(8) ids by simp
  show "contents ctx_key ?cs = (contents ctx_key (contexts us))(ctx_key c \<mapsto> c)"
    unfolding ctx_order.qsort_contents [OF dist] by (rule contents_append [OF assms(7)])
qed

text \<open>
  In both cases the context is entered under its name, the application counts it, and the other
  lists of users stay as they are.
\<close>

definition context_entered ::
  "user_tables \<Rightarrow> nat \<Rightarrow> bytes \<Rightarrow> bytes \<Rightarrow> DltDaemonContext \<Rightarrow> DltDaemonApplication \<Rightarrow> nat option \<Rightarrow> user_tables \<Rightarrow> bool" where
  "context_entered d li s t c a r d' \<longleftrightarrow>
     ctx_map d' li = (ctx_map d li)((id4 s, id4 t) \<mapsto> c) \<and> app_map d' li = (app_map d li)(id4 s \<mapsto> a)
     \<and> (\<forall>j. j \<noteq> li \<longrightarrow> users_at d' j = users_at d j) \<and> ecuid d' = ecuid d
     \<and> (\<exists>i < length (contexts (users_at d' li)). r = Some i \<and> ctx_at d' li i = c)"

lemma context_add_start:
  assumes "dlt_daemon_find_users_list d e = Some li" "tables_ok d" "clean_id s" "app_map d li (id4 s) = Some a"
    "d0 = (if contexts_room (users_at d li) = None
           then put_users d li ((users_at d li)\<lparr>contexts_room := Some DLT_DAEMON_CONTEXT_ALLOC_SIZE\<rparr>) else d)"
  obtains w ai where "d0 = put_users d li w" "us_ecu w = us_ecu (users_at d li)" "users_at d0 li = w" "dlt_daemon_find_users_list d0 e = Some li"
    "users_ok w" "\<exists>m. contexts_room w = Some m" "applications w = applications (users_at d li)" "contexts w = contexts (users_at d li)"
    "ai < length (applications w)" "applications w ! ai = a" "ap_apid a = id4 s" "dlt_daemon_application_find d0 s e = Some (Some ai)"
proof -
  have li: "li < length (user_list d)" by (rule users_list_bound [OF assms(1)])
  note r0 = first_context_room [OF tables_ok_at [OF assms(2) li] li refl assms(5)]
  obtain w where w: "d0 = put_users d li w" "us_ecu w = us_ecu (users_at d li)" using r0(6) by blast
  have us0: "users_at d0 li = w" using w li by simp
  have f0: "dlt_daemon_find_users_list d0 e = Some li" using w assms(1) by simp
  have wf0: "users_wf w" "ascending app_key (applications w)" using r0(1) us0 by (simp_all add: users_ok_def)
  obtain ai where ai: "ai < length (applications w)" "applications w ! ai = a" "app_key a = id4 s"
    using ascending_key_index [OF wf0(2)] assms(4) r0(3) us0 unfolding app_map_def by metis
  then have ida: "ap_apid a = id4 s" using users_wfD(3) [OF wf0(1), of a] nth_mem [OF ai(1)] by (simp add: app_ok_def is_id_key)
  then have app: "dlt_daemon_application_find d0 s e = Some (Some ai)"
    using application_found [OF f0 r0(1) assms(3)] ai us0 by (simp add: app_at_def)
  show ?thesis by (rule that [OF w us0 f0]) (use r0 us0 ai ida app in simp_all)
qed

lemma context_add_known:
  assumes "dlt_daemon_find_users_list d e = Some li" "tables_ok d" "clean_id s" "clean_id t" "env_ok env" "level_in_range level status"
    "app_map d li (id4 s) = Some a" "ctx_map d li (id4 s, id4 t) = Some c"
    "own = (chars DLT_ID_SIZE (ecuid d) = chars DLT_ID_SIZE e)"
  shows "\<exists>r d'. dlt_daemon_context_add env s t level status pos handle descr e d = Some (r, d') \<and> tables_ok d'
    \<and> context_entered d li s t (registered_context d own s t level status pos handle descr (Some c)) a r d'"
proof -
  let ?us = "users_at d li" and ?c' = "registered_context d own s t level status pos handle descr (Some c)"
  have li: "li < length (user_list d)" by (rule users_list_bound [OF assms(1)])
  define d0 where "d0 = (if contexts_room ?us = None then put_users d li (?us\<lparr>contexts_room := Some DLT_DAEMON_CONTEXT_ALLOC_SIZE\<rparr>) else d)"
  obtain w ai where w: "d0 = put_users d li w" and us0: "users_at d0 li = w" and f0: "dlt_daemon_find_users_list d0 e = Some li"
    and ok0: "users_ok w" and r0: "applications w = applications ?us" "contexts w = contexts ?us"
    and app: "dlt_daemon_application_find d0 s e = Some (Some ai)"
    using context_add_start [OF assms(1-3,7) d0_def] by metis
  have wf0: "users_wf w" using ok0 by (simp add: users_ok_def)
  obtain i where i: "i < length (contexts w)" "contexts w ! i = c" "ctx_key c = (id4 s, id4 t)"
    using ascending_key_index [OF users_wfD(2) [OF wf0]] assms(8) r0(2) unfolding ctx_map_def by metis
  then have ctx: "dlt_daemon_context_find d0 s t e = Some (Some i)"
    using context_found [OF f0 _ assms(3,4), of i] wf0 us0 by (simp add: ctx_at_def)
  have c': "update_context env d0 own False level status pos handle descr c = ?c'"
    using update_context_spec [of env d0 d c t s "Some c" own level status pos handle descr] assms(5) w by simp
  have k: "cx_apid ?c' = cx_apid c" "cx_ctid ?c' = cx_ctid c" by (simp_all add: registered_context_def Let_def)
  define us' where "us' = w\<lparr>contexts := (contexts w)[i := ?c']\<rparr>"
  note n = add_context_known [OF _ i(2,1) k, folded us'_def]
  have add: "dlt_daemon_context_add env s t level status pos handle descr e d = Some (Some i, put_users d li us')"
    using assms(1,5,6,9) app ctx i(2) c' us0 w
    by (simp add: dlt_daemon_context_add_def clean_id_facts [OF assms(3)] clean_id_facts [OF assms(4)] add_context_def Let_def
        d0_def [symmetric] env_ok_def put_ctx_def ctx_at_def us'_def)
  have "users_ok us'" using n(1) ok0 by simp
  then have "tables_ok (put_users d li us')" by (rule tables_ok_put [OF assms(2) li])
  moreover have "context_entered d li s t ?c' a (Some i) (put_users d li us')"
    using n(2) i r0 ok0 li assms(7)
    by (auto simp: context_entered_def ctx_map_def app_map_def us'_def ctx_at_def)
  ultimately show ?thesis using add by blast
qed

lemma new_context_spec:
  assumes "li < length (user_list d)" "users_at d li = w" "contexts_room w = Some m" "make_room (table_alloc env) 1000 (length (contexts w) + 1) m = Some (Some m')"
    "ai < length (applications w)" "applications w ! ai = a" "clean_id s" "clean_id t"
    "c = zero_context\<lparr>cx_apid := id4 s, cx_ctid := id4 t\<rparr>"
  shows "new_context env (\<lambda>c. do { k \<leftarrow> dlt_set_id (cx_apid c) s; l \<leftarrow> dlt_set_id (cx_ctid c) t; Some (Inr (c\<lparr>cx_apid := k, cx_ctid := l\<rparr>)) }) li ai d
    = Some (Inr (put_users d li (w\<lparr>applications := (applications w)[ai := counted True a], contexts := contexts w @ [c], contexts_room := Some m'\<rparr>)))"
proof -
  have z: "length (cx_apid zero_context) = 4" "length (cx_ctid zero_context) = 4" by (simp_all add: zero_context_def)
  have r: "w\<lparr>contexts_room := Some m', contexts := x, applications := y\<rparr> = w\<lparr>applications := y, contexts := x, contexts_room := Some m'\<rparr>" for x y
    by (rule DltDaemonRegisteredUsers.equality) simp_all
  show ?thesis using assms clean_id_facts(3) [OF assms(7) z(1)] clean_id_facts(3) [OF assms(8) z(2)]
    by (simp add: new_context_def put_app_def app_at_def Let_def counted_def r)
qed

lemma context_add_unknown:
  assumes "dlt_daemon_find_users_list d e = Some li" "tables_ok d" "clean_id s" "clean_id t" "env_ok env" "level_in_range level status"
    "app_map d li (id4 s) = Some a" "ctx_map d li (id4 s, id4 t) = None"
    "own = (chars DLT_ID_SIZE (ecuid d) = chars DLT_ID_SIZE e)"
  shows "\<exists>r d'. dlt_daemon_context_add env s t level status pos handle descr e d = Some (r, d') \<and> tables_ok d'
    \<and> context_entered d li s t (registered_context d own s t level status pos handle descr None) (counted True a) r d'"
proof -
  let ?us = "users_at d li" and ?c' = "registered_context d own s t level status pos handle descr None"
  have li: "li < length (user_list d)" by (rule users_list_bound [OF assms(1)])
  define d0 where "d0 = (if contexts_room ?us = None then put_users d li (?us\<lparr>contexts_room := Some DLT_DAEMON_CONTEXT_ALLOC_SIZE\<rparr>) else d)"
  obtain w ai where w: "d0 = put_users d li w" "us_ecu w = us_ecu ?us" and us0: "users_at d0 li = w"
    and f0: "dlt_daemon_find_users_list d0 e = Some li" and ok0: "users_ok w" and room: "\<exists>m. contexts_room w = Some m"
    and r0: "applications w = applications ?us" "contexts w = contexts ?us"
    and ai: "ai < length (applications w)" "applications w ! ai = a" "ap_apid a = id4 s"
    and app: "dlt_daemon_application_find d0 s e = Some (Some ai)"
    using context_add_start [OF assms(1-3,7) d0_def] by metis
  have wf0: "users_wf w" "ascending app_key (applications w)" using ok0 by (simp_all add: users_ok_def)
  obtain m where m: "contexts_room w = Some m" using room by blast
  obtain m' where m': "make_room (table_alloc env) 1000 (length (contexts w) + 1) m = Some (Some m')" "room_ok 1000 (length (contexts w) + 1) (Some m')"
    using make_room_spec [of 1000 "length (contexts w)" m "table_alloc env"] users_wfD(7) [OF wf0(1)] m assms(5) by (auto simp: env_ok_def)
  have none: "(id4 s, id4 t) \<notin> ctx_key ` set (contexts w)" using assms(8) r0(2) by (simp add: ctx_map_def contents_None)
  have ctx: "dlt_daemon_context_find d0 s t e = Some None"
  proof (cases "bsearch dlt_daemon_cmp_apid_ctid (zero_context\<lparr>cx_apid := id4 s, cx_ctid := id4 t\<rparr>) (contexts w)")
    case None
    then show ?thesis using context_find_spec [OF f0 _ assms(3,4)] wf0(1) us0 by simp
  next
    case (Some i)
    then have "i < length (contexts w)" "ctx_key (contexts w ! i) = (id4 s, id4 t)"
      using ctx_order.bsearch_iff [OF users_wfD(2) [OF wf0(1)]] by auto
    then show ?thesis using none by (metis image_eqI nth_mem)
  qed
  define c where "c = zero_context\<lparr>cx_apid := id4 s, cx_ctid := id4 t\<rparr>"
  note new = new_context_spec [OF _ us0 m m'(1) ai(1,2) assms(3,4) c_def]
  define d1 where "d1 = put_users d0 li (w\<lparr>applications := (applications w)[ai := counted True a], contexts := contexts w @ [c], contexts_room := Some m'\<rparr>)"
  have c': "update_context env d1 own True level status pos handle descr c = ?c'"
    using update_context_spec [of env d1 d c t s None own level status pos handle descr] assms(5) w(1) by (simp add: c_def d1_def)
  have k: "cx_apid ?c' = id4 s" "cx_ctid ?c' = id4 t" by (simp_all add: registered_context_def Let_def)
  have key: "ctx_key ?c' = (id4 s, id4 t)" using k by (simp add: ctx_key_def)
  define us' where "us' = w\<lparr>applications := (applications w)[ai := counted True a],
      contexts := qsort dlt_daemon_cmp_apid_ctid (contexts w @ [?c']), contexts_room := Some m'\<rparr>"
  have n: "users_ok us'" "contents ctx_key (contexts us') = (contents ctx_key (contexts w))((id4 s, id4 t) \<mapsto> ?c')"
    using add_context_unknown [of w ai a ?c' "Some m'"] ai k key none m'(2) ok0 clean_id_facts(4) [OF assms(4)]
    by (simp_all add: us'_def)
  define d' where "d' = put_users d li us'"
  have at': "users_at d' li = us'" using li by (simp add: d'_def)
  have f': "dlt_daemon_find_users_list d' e = Some li" using assms(1) w(2) by (simp add: d'_def us'_def)
  have wf': "users_wf us'" using n(1) by (simp add: users_ok_def)
  obtain j where j: "j < length (contexts us')" "contexts us' ! j = ?c'"
    using ascending_key_index [OF users_wfD(2) [OF wf'], of "(id4 s, id4 t)" ?c'] n(2) by auto
  then have found: "dlt_daemon_context_find d' s t e = Some (Some j)"
    using context_found [OF f' _ assms(3,4), of j] wf' at' key by (simp add: ctx_at_def)
  have r: "w\<lparr>applications := y, contexts_room := z, contexts := x\<rparr> = w\<lparr>applications := y, contexts := x, contexts_room := z\<rparr>" for x y z
    by (rule DltDaemonRegisteredUsers.equality) simp_all
  have add: "dlt_daemon_context_add env s t level status pos handle descr e d = Some (Some j, d')"
    using assms(1,5,6,9) app ctx new c' w(1) at' found users_list_bound [OF f0]
    by (simp add: dlt_daemon_context_add_def clean_id_facts [OF assms(3)] clean_id_facts [OF assms(4)] add_context_def Let_def
        d0_def [symmetric] env_ok_def put_ctx_def ctx_at_def r0(2) [symmetric] d1_def us'_def d'_def r)
  have "tables_ok d'" unfolding d'_def by (rule tables_ok_put [OF assms(2) li n(1)])
  moreover have "app_map d' li = (app_map d li)(id4 s \<mapsto> counted True a)"
    using contents_update [OF wf0(2) ai(1), of "counted True a"] ai r0(1) at'
    by (simp add: app_map_def us'_def counted_def app_key_def)
  then have "context_entered d li s t ?c' (counted True a) (Some j) d'"
    using n(2) j at' r0(2) by (simp add: context_entered_def ctx_map_def ctx_at_def d'_def)
  ultimately show ?thesis using add by blast
qed


section \<open>Deleting a context\<close>

lemma mset_remove_at: "i < length xs \<Longrightarrow> mset xs = add_mset (xs ! i) (mset (remove_at i xs))"
  by (subst id_take_nth_drop [of i xs]) (simp_all add: remove_at_def)

lemma room_ok_less: "room_ok step n m \<Longrightarrow> n' \<le> n \<Longrightarrow> n \<noteq> 0 \<Longrightarrow> room_ok step n' m"
proof -
  assume a: "room_ok step n m" "n' \<le> n" "n \<noteq> 0"
  then have "(n' div step + 1) * step \<le> (n div step + 1) * step" by (intro mult_le_mono1 add_le_mono1 div_le_mono)
  then show ?thesis using a(1,3) order_trans [of "(n' div step + 1) * step" "(n div step + 1) * step"]
    unfolding room_ok_def by (cases m) (simp_all only: option.case)
qed

text \<open>The users of a list with only the contexts \<open>cs\<close>.\<close>

definition with_contexts :: "DltDaemonRegisteredUsers \<Rightarrow> DltDaemonContext list \<Rightarrow> DltDaemonRegisteredUsers" where
  "with_contexts us cs = us\<lparr>applications := map (recount cs) (applications us), contexts := cs\<rparr>"

lemma with_contexts_fields [simp]:
  "contexts (with_contexts us cs) = cs" "applications (with_contexts us cs) = map (recount cs) (applications us)"
  "us_ecu (with_contexts us cs) = us_ecu us" "contexts_room (with_contexts us cs) = contexts_room us"
  "applications_room (with_contexts us cs) = applications_room us"
  by (simp_all add: with_contexts_def)

lemma recount_recount [simp]: "recount cs (recount cs' a) = recount cs a"
  by (simp add: recount_def)

lemma with_with [simp]: "with_contexts (with_contexts us cs) cs' = with_contexts us cs'"
  by (simp add: with_contexts_def comp_def)

lemma with_contexts_same: "users_wf us \<Longrightarrow> with_contexts us (contexts us) = us"
  by (simp add: with_contexts_def recount_same)

lemma users_ok_with_contexts:
  assumes "users_ok us" "ascending ctx_key cs" "set cs \<subseteq> set (contexts us)" "length cs \<le> length (contexts us)"
  shows "users_ok (with_contexts us cs)"
proof (cases "contexts us = []")
  case True
  then show ?thesis using assms with_contexts_same [of us] by (simp add: users_ok_def)
next
  case False
  have wf: "users_wf us" using assms(1) by (simp add: users_ok_def)
  have room: "room_ok 1000 (length cs) (contexts_room us)" using room_ok_less [OF users_wfD(7) [OF wf] assms(4)] False by simp
  have "is_id (cx_apid c) \<and> is_id (cx_ctid c) \<and> cx_ctid c ! 0 \<noteq> 0 \<and> cx_apid c \<in> ap_apid ` set (applications us)" if "c \<in> set cs" for c
    using users_wfD(4) [OF wf, of "cx_apid c" "cx_ctid c"] that assms(3) by (auto simp: ctx_ids_def)
  moreover have "us\<lparr>applications := x, contexts := cs, contexts_room := contexts_room us\<rparr> = us\<lparr>applications := x, contexts := cs\<rparr>" for x by simp
  ultimately show ?thesis using users_ok_contexts [OF assms(1,2) room] by (simp add: with_contexts_def)
qed

lemma uncount: "a = b\<lparr>ap_num_contexts := ap_num_contexts b + 1\<rparr> \<Longrightarrow> a\<lparr>ap_num_contexts := ap_num_contexts a - 1\<rparr> = b"
  by simp

lemma context_del_spec:
  assumes "dlt_daemon_find_users_list d e = Some li" "users_ok (users_at d li)" "pos < length (contexts (users_at d li))"
  shows "dlt_daemon_context_del pos e d
    = Some (0, put_users d li (with_contexts (users_at d li) (remove_at pos (contexts (users_at d li)))))"
proof -
  let ?us = "users_at d li"
  let ?c = "contexts ?us ! pos" and ?cs = "remove_at pos (contexts ?us)"
  have li: "li < length (user_list d)" by (rule users_list_bound [OF assms(1)])
  have wf: "users_wf ?us" using assms(2) by (simp add: users_ok_def)
  obtain ai where ai: "ai < length (applications ?us)" "ap_apid (applications ?us ! ai) = cx_apid ?c"
    using ctx_key_ids(3) [OF wf nth_mem [OF assms(3)]] by (auto simp: in_set_conv_nth image_iff)
  let ?a = "applications ?us ! ai"
  have "app_ok ?us ?a" using ai(1) by (intro users_wfD(3) [OF wf]) simp
  then have clean: "clean_id (cx_apid ?c)" "id4 (cx_apid ?c) = cx_apid ?c"
    using clean_id_is_id [of "cx_apid ?c"] ai(2) by (simp_all add: app_ok_def)
  have app: "dlt_daemon_application_find d (cx_apid ?c) e = Some (Some ai)"
    using application_found [OF assms(1,2) clean(1) ai(1)] ai(2) clean(2) by (simp add: app_at_def)
  let ?us' = "with_contexts ?us ?cs"
  have ok': "users_ok ?us'" using users_wfD(2) [OF wf] assms(3)
    by (intro users_ok_with_contexts [OF assms(2)]) (auto simp: ascending_remove_at length_remove_at set_remove_at [OF ascending_distinct])
  then have wf': "users_wf ?us'" by (simp add: users_ok_def)
  have "(applications ?us')[ai := (applications ?us' ! ai)\<lparr>ap_num_contexts := ap_num_contexts (applications ?us' ! ai) + 1\<rparr>] = map (recount (contexts ?us)) (applications ?us')"
    using recount_insert [OF wf', of ai "contexts ?us" ?c] ai mset_remove_at [OF assms(3)] by simp
  then have up: "(applications ?us')[ai := (recount ?cs ?a)\<lparr>ap_num_contexts := ap_num_contexts (recount ?cs ?a) + 1\<rparr>] = applications ?us"
    using ai(1) recount_same [OF wf] by (simp add: comp_def)
  have "?a = (recount ?cs ?a)\<lparr>ap_num_contexts := ap_num_contexts (recount ?cs ?a) + 1\<rparr>"
    using arg_cong [OF up, of "\<lambda>l. l ! ai"] ai(1) by simp
  then have a: "?a\<lparr>ap_num_contexts := ap_num_contexts ?a - 1\<rparr> = recount ?cs ?a"
    by (rule uncount)
  have "(applications ?us)[ai := recount ?cs ?a] = applications ?us'"
    using arg_cong [OF up, of "\<lambda>l. l[ai := recount ?cs ?a]"] list_update_id [of "applications ?us'" ai] ai(1) by simp
  moreover have r: "?us\<lparr>contexts := x, applications := y\<rparr> = ?us\<lparr>applications := y, contexts := x\<rparr>" for x y
    by (rule DltDaemonRegisteredUsers.equality) simp_all
  moreover have "contexts ?us \<noteq> []" using assms(3) by auto
  ultimately show ?thesis using assms(1,3) app li a
    by (simp add: dlt_daemon_context_del_def del_context_def ctx_at_def app_at_def put_app_def Let_def with_contexts_def r)
qed


section \<open>Unregistering an application\<close>

lemma put_users_at [simp]: "put_users d li (users_at d li) = d"
  by (simp add: put_users_def users_at_def)

lemma delete_contexts_spec:
  assumes "dlt_daemon_find_users_list d e = Some li" "users_ok (users_at d li)" "base + k \<le> length (contexts (users_at d li))"
    "cs = contexts (users_at d li)"
  shows "delete_contexts (\<lambda>pos. dlt_daemon_context_del pos e) base k d
    = Some (0, put_users d li (with_contexts (users_at d li) (take base cs @ drop (base + k) cs)))"
  using assms
proof (induction k arbitrary: d cs)
  case 0
  then have "users_wf (users_at d li)" by (simp add: users_ok_def)
  then show ?case using with_contexts_same 0 by simp
next
  case (Suc k)
  let ?us = "users_at d li"
  let ?cs = "remove_at (base + k) cs"
  have li: "li < length (user_list d)" by (rule users_list_bound [OF Suc.prems(1)])
  define d1 where "d1 = put_users d li (with_contexts ?us ?cs)"
  have pos: "base + k < length (contexts ?us)" using Suc.prems(3) by simp
  have del: "dlt_daemon_context_del (base + k) e d = Some (0, d1)"
    using context_del_spec [OF Suc.prems(1,2) pos] by (simp add: d1_def Suc.prems(4))
  have "ascending ctx_key (contexts ?us)" using Suc.prems(2) users_wfD(2) by (simp add: users_ok_def)
  then have "users_ok (with_contexts ?us ?cs)" using pos
    by (intro users_ok_with_contexts [OF Suc.prems(2)])
      (auto simp: ascending_remove_at length_remove_at set_remove_at [OF ascending_distinct] Suc.prems(4))
  then have "delete_contexts (\<lambda>pos. dlt_daemon_context_del pos e) base k d1
      = Some (0, put_users d1 li (with_contexts (users_at d1 li) (take base ?cs @ drop (base + k) ?cs)))"
    using Suc.prems(1,3,4) li by (intro Suc.IH) (simp_all add: d1_def length_remove_at)
  moreover have "take base ?cs @ drop (base + k) ?cs = take base cs @ drop (base + Suc k) cs"
    using pos Suc.prems(4) by (simp add: remove_at_def)
  ultimately show ?case using del li by (simp add: d1_def)
qed

text \<open>The table of contexts is the contexts of the first application, then those of the second, and so on.\<close>

lemma filter_least:
  assumes "sorted (map f xs)" "\<forall>x\<in>set xs. k \<le> f x"
  shows "xs = filter (\<lambda>x. f x = k) xs @ filter (\<lambda>x. f x \<noteq> k) xs"
  using assms
proof (induction xs)
  case (Cons x xs)
  show ?case
  proof (cases "f x = k")
    case False
    then have "\<forall>y\<in>set xs. f y \<noteq> k" using Cons.prems by fastforce
    then show ?thesis using False by simp
  qed (use Cons in simp)
qed simp

lemma sorted_groups:
  assumes "sorted (map f xs)" "sorted_wrt (<) ks" "f ` set xs \<subseteq> set ks"
  shows "xs = concat (map (\<lambda>k. filter (\<lambda>x. f x = k) xs) ks)"
  using assms
proof (induction ks arbitrary: xs)
  case (Cons k ks)
  let ?ys = "filter (\<lambda>x. f x \<noteq> k) xs"
  have "\<forall>x\<in>set xs. k \<le> f x" using Cons.prems(2,3) by (fastforce simp: image_subset_iff)
  then have "xs = filter (\<lambda>x. f x = k) xs @ ?ys" using filter_least [of f xs k] Cons.prems(1) by simp
  moreover have "?ys = concat (map (\<lambda>k'. filter (\<lambda>x. f x = k') ?ys) ks)"
    using Cons.prems by (intro Cons.IH) (auto intro: sorted_filter)
  moreover have "filter (\<lambda>x. f x = k') ?ys = filter (\<lambda>x. f x = k') xs" if "k' \<in> set ks" for k'
    using that Cons.prems(2) by (auto intro!: filter_cong simp: filter_filter)
  then have "map (\<lambda>k'. filter (\<lambda>x. f x = k') ?ys) ks = map (\<lambda>k'. filter (\<lambda>x. f x = k') xs) ks" by (intro map_cong) simp_all
  ultimately have "xs = filter (\<lambda>x. f x = k) xs @ concat (map (\<lambda>k'. filter (\<lambda>x. f x = k') xs) ks)" by metis
  then show ?case by simp
qed simp

definition group :: "DltDaemonContext list \<Rightarrow> DltDaemonApplication \<Rightarrow> DltDaemonContext list" where
  "group cs a = filter (\<lambda>c. cx_apid c = ap_apid a) cs"

lemma contexts_groups:
  assumes "users_ok us"
  shows "contexts us = concat (map (group (contexts us)) (applications us))"
proof -
  let ?cs = "contexts us" and ?xs = "applications us"
  have wf: "users_wf us" and asc: "ascending app_key ?xs" using assms by (simp_all add: users_ok_def)
  have k: "cx_apid c = fst (ctx_key c)" "cx_apid c \<in> ap_apid ` set ?xs" if "c \<in> set ?cs" for c
    using ctx_key_ids(3,4) [OF wf that] by simp_all
  have ak: "app_key a = ap_apid a" if "a \<in> set ?xs" for a using users_wfD(3) [OF wf that] by (simp add: app_ok_def is_id_key)
  have "sorted (map ctx_key ?cs)" using users_wfD(2) [OF wf] by (simp add: ascending_def strict_sorted_imp_sorted)
  then have "sorted (map (\<lambda>c. fst (ctx_key c)) ?cs)"
    unfolding sorted_map by (rule sorted_wrt_mono_rel [rotated]) (auto simp: less_eq_prod_def)
  moreover have "map (\<lambda>c. fst (ctx_key c)) ?cs = map cx_apid ?cs" using k(1) by simp
  moreover have "sorted_wrt (<) (map ap_apid ?xs)" using asc ak unfolding ascending_def by (metis (no_types, lifting) map_cong)
  ultimately have "?cs = concat (map (\<lambda>k. filter (\<lambda>c. cx_apid c = k) ?cs) (map ap_apid ?xs))"
    using k(2) by (intro sorted_groups) auto
  then show ?thesis by (simp add: comp_def group_def [abs_def])
qed

lemma sum_list_lengths: "sum_list (map (\<lambda>a. int (length (f a))) xs) = int (length (concat (map f xs)))"
  by (induction xs) simp_all

text \<open>So those of an application are where the numbers of contexts in front of it say.\<close>

lemma contexts_cut:
  assumes "users_ok us" "i < length (applications us)" "base = sum_list (map ap_num_contexts (take i (applications us)))"
    "n = ap_num_contexts (applications us ! i)" "cs = contexts us"
  shows "base \<ge> 0" "n \<ge> 0" "nat base + nat n \<le> length cs"
    "take (nat base) cs @ drop (nat base + nat n) cs = filter (\<lambda>c. cx_apid c \<noteq> ap_apid (applications us ! i)) cs"
proof -
  let ?xs = "applications us"
  let ?a = "?xs ! i" and ?pre = "take i ?xs" and ?post = "drop (Suc i) ?xs"
  have wf: "users_wf us" and asc: "ascending app_key ?xs" using assms(1) by (simp_all add: users_ok_def)
  have split: "?xs = ?pre @ ?a # ?post" using assms(2) by (rule id_take_nth_drop)
  have num: "ap_num_contexts a = int (length (group cs a))" if "a \<in> set ?xs" for a
    using users_wfD(3) [OF wf that] by (simp add: app_ok_def contexts_of_def ctx_ids_def group_def filter_map comp_def assms(5))
  let ?A = "concat (map (group cs) ?pre)" and ?B = "concat (map (group cs) ?post)"
  have cs: "cs = ?A @ group cs ?a @ ?B" using contexts_groups [OF assms(1)] arg_cong [OF split, of "\<lambda>l. concat (map (group cs) l)"] by (simp add: assms(5))
  have "map ap_num_contexts ?pre = map (\<lambda>a. int (length (group cs a))) ?pre" using num in_set_takeD by (intro map_cong) fastforce+
  then have b: "base = int (length ?A)" unfolding assms(3) by (simp only: sum_list_lengths)
  have n: "n = int (length (group cs ?a))" using num assms(2,4) by simp
  show "base \<ge> 0" "n \<ge> 0" using b n by simp_all
  show "nat base + nat n \<le> length cs" using b n arg_cong [OF cs, of length] by simp
  have "distinct (map ap_apid ?xs)"
    using users_wfD(1,3) [OF wf] by (metis (no_types, lifting) app_ok_def is_id_key map_cong)
  then have ne: "ap_apid b \<noteq> ap_apid ?a" if "b \<in> set ?pre \<union> set ?post" for b
    using that arg_cong [OF split, of "map ap_apid"] by (auto simp: image_iff)
  have keep: "filter (\<lambda>c. cx_apid c \<noteq> ap_apid ?a) (concat (map (group cs) ys)) = concat (map (group cs) ys)" if "set ys \<subseteq> set ?pre \<union> set ?post" for ys
    using that ne by (auto simp: filter_id_conv group_def)
  have "filter (\<lambda>c. cx_apid c \<noteq> ap_apid ?a) cs = ?A @ filter (\<lambda>c. cx_apid c \<noteq> ap_apid ?a) (group cs ?a) @ ?B"
    using arg_cong [OF cs, of "filter (\<lambda>c. cx_apid c \<noteq> ap_apid ?a)"] keep [of ?pre] keep [of ?post] by simp
  also have "filter (\<lambda>c. cx_apid c \<noteq> ap_apid ?a) (group cs ?a) = []" by (simp add: group_def filter_empty_conv)
  also have "?A @ [] @ ?B = take (nat base) cs @ drop (nat base + nat n) cs"
    using b n arg_cong [OF cs, of "take (nat base)"] arg_cong [OF cs, of "drop (nat base + nat n)"] by simp
  finally show "take (nat base) cs @ drop (nat base + nat n) cs = filter (\<lambda>c. cx_apid c \<noteq> ap_apid ?a) cs" by simp
qed

lemma users_ok_remove:
  assumes "users_ok us" "i < length (applications us)" "\<forall>c\<in>set (contexts us). cx_apid c \<noteq> ap_apid (applications us ! i)"
  shows "users_ok (us\<lparr>applications := remove_at i (applications us)\<rparr>)" (is "users_ok ?us")
proof -
  let ?xs = "applications us"
  have wf: "users_wf us" and asc: "ascending app_key ?xs" using assms(1) by (simp_all add: users_ok_def)
  have asc': "ascending app_key (remove_at i ?xs)" by (rule ascending_remove_at [OF asc assms(2)])
  have set: "set (remove_at i ?xs) = {a \<in> set ?xs. app_key a \<noteq> app_key (?xs ! i)}"
    by (rule set_remove_at [OF users_wfD(1) [OF wf] assms(2)])
  have us: "ctx_ids ?us = ctx_ids us" "contexts_of ?us = contexts_of us" by (simp_all add: ctx_ids_def contexts_of_def fun_eq_iff)
  have "users_wf ?us"
  proof (rule users_wfI)
    show "distinct (map app_key (applications ?us))" using ascending_distinct [OF asc'] by simp
    show "app_ok ?us a" if "a \<in> set (applications ?us)" for a using that users_wfD(3) [OF wf, of a] by (simp add: set app_ok_def us)
    show "is_id p \<and> is_id q \<and> q ! 0 \<noteq> 0 \<and> p \<in> ap_apid ` set (applications ?us)" if "(p, q) \<in> set (ctx_ids ?us)" for p q
    proof -
      have ids: "is_id p \<and> is_id q \<and> q ! 0 \<noteq> 0 \<and> p \<in> ap_apid ` set ?xs" using users_wfD(4) [OF wf, of p q] that us by simp
      then obtain a where a: "a \<in> set ?xs" "ap_apid a = p" by auto
      have "p \<noteq> ap_apid (?xs ! i)" using that assms(3) us by (auto simp: ctx_ids_def)
      then have "app_key a \<noteq> app_key (?xs ! i)"
        using a users_wfD(3) [OF wf a(1)] users_wfD(3) [OF wf nth_mem [OF assms(2)]] by (simp add: app_ok_def is_id_key)
      then show ?thesis using ids a by (auto simp: set)
    qed
    show "app_key a = app_key b" if "a \<in> set (applications ?us)" "b \<in> set (applications ?us)"
        "ap_user_handle a = ap_user_handle b" "ap_user_handle a \<ge> 0" for a b
      using that by (intro users_wfD(5) [OF wf]) (simp_all add: set)
    show "room_ok 500 (length (applications ?us)) (applications_room ?us)"
      using room_ok_less [OF users_wfD(6) [OF wf], of "length ?xs - 1"] assms(2) by (cases ?xs) (simp_all add: length_remove_at)
  qed (use users_wfD(2,7) [OF wf] in simp_all)
  then show ?thesis using asc' by (simp add: users_ok_def)
qed

lemma reset_exact:
  assumes "dlt_daemon_find_users_list d (ecuid d) = Some li" "dlt_daemon_application_reset_user_handle d a = (a', d')"
  shows "users_at d' li = invalidate_contexts (ap_user_handle a) (users_at d li)" "\<And>j. j \<noteq> li \<Longrightarrow> users_at d' j = users_at d j"
    "length (user_list d') = length (user_list d)" "ecuid d' = ecuid d"
    "closed_fds d' = closed_fds d @ (if owns_user_handle a \<and> ap_user_handle a \<noteq> -1 then [ap_user_handle a] else [])"
proof -
  have li: "li < length (user_list d)" by (rule users_list_bound [OF assms(1)])
  have c: "users_at (d0\<lparr>closed_fds := f\<rparr>) j = users_at d0 j" for d0 f j by (simp add: users_at_def)
  have "lose_context (-1) c = c" for c by (cases c) (simp add: lose_context_def)
  then have same: "invalidate_contexts (-1) us = us" for us by (simp add: invalidate_contexts_def map_idI)
  have "users_at d' li = invalidate_contexts (ap_user_handle a) (users_at d li) \<and> (\<forall>j. j \<noteq> li \<longrightarrow> users_at d' j = users_at d j)
    \<and> length (user_list d') = length (user_list d) \<and> ecuid d' = ecuid d
    \<and> closed_fds d' = closed_fds d @ (if owns_user_handle a \<and> ap_user_handle a \<noteq> -1 then [ap_user_handle a] else [])"
    using assms li by (cases "ap_user_handle a = -1") (auto simp: dlt_daemon_application_reset_user_handle_def Let_def c same)
  then show "users_at d' li = invalidate_contexts (ap_user_handle a) (users_at d li)" "\<And>j. j \<noteq> li \<Longrightarrow> users_at d' j = users_at d j"
    "length (user_list d') = length (user_list d)" "ecuid d' = ecuid d"
    "closed_fds d' = closed_fds d @ (if owns_user_handle a \<and> ap_user_handle a \<noteq> -1 then [ap_user_handle a] else [])" by blast+
qed

lemma application_del_spec:
  assumes "dlt_daemon_find_users_list d (ecuid d) = Some li" "i < length (applications (users_at d li))" "a = app_at d li i"
    "us' = (invalidate_contexts (ap_user_handle a) (users_at d li))\<lparr>applications := remove_at i (applications (users_at d li))\<rparr>"
  obtains d' where "dlt_daemon_application_del i (ecuid d) d = Some (0, d')" "users_at d' li = us'"
    "\<And>j. j \<noteq> li \<Longrightarrow> users_at d' j = users_at d j" "length (user_list d') = length (user_list d)"
    "closed_fds d' = closed_fds d @ (if owns_user_handle a \<and> ap_user_handle a \<noteq> -1 then [ap_user_handle a] else [])"
proof -
  obtain a1 d1 where r: "dlt_daemon_application_reset_user_handle d a = (a1, d1)" by fastforce
  note e = reset_exact [OF assms(1) r]
  have li: "li < length (user_list d1)" using users_list_bound [OF assms(1)] e(3) by simp
  have us1: "applications (users_at d1 li) = applications (users_at d li)" by (simp add: e(1) invalidate_contexts_def)
  have "applications (users_at d li) \<noteq> []" using assms(2) by auto
  then have "dlt_daemon_application_del i (ecuid d) d = Some (0, put_users d1 li us')"
    using assms r us1 e(1) by (simp add: dlt_daemon_application_del_def del_application_def Let_def)
  then show ?thesis by (rule that) (use li e in simp_all)
qed

lemma remove_recount:
  assumes "users_ok us" "i < length (applications us)"
    "cs = filter (\<lambda>c. cx_apid c \<noteq> ap_apid (applications us ! i)) (contexts us)"
  shows "remove_at i (map (recount cs) (applications us)) = remove_at i (applications us)"
proof -
  let ?xs = "applications us"
  have wf: "users_wf us" using assms(1) by (simp add: users_ok_def)
  have "recount cs b = b" if "b \<in> set (remove_at i ?xs)" for b
  proof -
    have b: "b \<in> set ?xs" "app_key b \<noteq> app_key (?xs ! i)"
      using that set_remove_at [OF users_wfD(1) [OF wf] assms(2)] by auto
    then have ne: "ap_apid b \<noteq> ap_apid (?xs ! i)" by (auto simp: app_key_def)
    have "filter (\<lambda>c. cx_apid c = ap_apid b) cs = filter (\<lambda>c. cx_apid c = ap_apid b) (contexts us)"
      using ne by (auto simp: assms(3) filter_filter intro!: filter_cong)
    then have "recount cs b = recount (contexts us) b" by (simp add: recount_def)
    also have "\<dots> = b" using recount_same [OF wf] b(1) by (simp add: map_idI [symmetric] list_eq_iff_nth_eq in_set_conv_nth) blast
    finally show ?thesis .
  qed
  moreover have "remove_at i (map (recount cs) ?xs) = map (recount cs) (remove_at i ?xs)" by (simp add: remove_at_def take_map drop_map)
  ultimately show ?thesis by (simp add: map_idI)
qed

lemma contents_filter:
  assumes "ascending key xs" "\<And>x. x \<in> set xs \<Longrightarrow> P x = Q (key x)"
  shows "ascending key (filter P xs)" "contents key (filter P xs) k = (if Q k then contents key xs k else None)"
proof -
  show f: "ascending key (filter P xs)" using assms(1) by (auto simp: ascending_def sorted_wrt_map intro: sorted_wrt_filter)
  show "contents key (filter P xs) k = (if Q k then contents key xs k else None)"
    using assms ascending_distinct [OF f] ascending_distinct [OF assms(1)] by (intro option_eqI) (auto simp: contents_Some)
qed

text \<open>First the contexts go, then the application.\<close>

lemma unregister_contexts:
  assumes "dlt_daemon_find_users_list d (ecuid d) = Some li" "users_ok (users_at d li)" "clean_id s" "app_map d li (id4 s) = Some a"
    "cs = filter (\<lambda>c. cx_apid c \<noteq> id4 s) (contexts (users_at d li))"
    "d1 = put_users d li (with_contexts (users_at d li) cs)"
  obtains i where "i < length (applications (users_at d li))" "applications (users_at d li) ! i = a" "ap_apid a = id4 s"
    "unregister_application s d = dlt_daemon_application_del i (ecuid d) d1" "users_ok (with_contexts (users_at d li) cs)"
    "\<And>k. contents ctx_key cs k = (if fst k = id4 s then None else ctx_map d li k)"
proof -
  let ?us = "users_at d li"
  let ?xs = "applications ?us" and ?cs = "contexts ?us"
  have wf: "users_wf ?us" and asc: "ascending app_key ?xs" using assms(2) by (simp_all add: users_ok_def)
  obtain i where i: "i < length ?xs" "?xs ! i = a" "app_key a = id4 s"
    using ascending_key_index [OF asc] assms(4) unfolding app_map_def by metis
  have ida: "ap_apid a = id4 s" using users_wfD(3) [OF wf, of a] nth_mem [OF i(1)] i by (simp add: app_ok_def is_id_key)
  then have find: "dlt_daemon_application_find d s (ecuid d) = Some (Some i)"
    using application_found [OF assms(1-3) i(1)] i(2) by (simp add: app_at_def)
  define base n where "base = sum_list (map ap_num_contexts (take i ?xs))" and "n = ap_num_contexts (?xs ! i)"
  note cut = contexts_cut [OF assms(2) i(1) base_def n_def refl]
  have cs': "take (nat base) ?cs @ drop (nat base + nat n) ?cs = cs" using cut(4) i(2) ida by (simp add: assms(5))
  have P: "(cx_apid c \<noteq> id4 s) = (fst (ctx_key c) \<noteq> id4 s)" if "c \<in> set ?cs" for c
    using ctx_key_ids(4) [OF wf that] by simp
  note cf = contents_filter [OF users_wfD(2) [OF wf], of "\<lambda>c. cx_apid c \<noteq> id4 s" "\<lambda>k. fst k \<noteq> id4 s", OF P, folded assms(5)]
  have "unregister_application s d = dlt_daemon_application_del i (ecuid d) d1"
    using assms(1) find i delete_contexts_spec [OF assms(1,2) cut(3) refl] cut(1,2)
    by (auto simp: unregister_application_def unregister_entry_def app_at_def Let_def base_def [symmetric] n_def [symmetric] cs' assms(6) [symmetric])
  moreover have "users_ok (with_contexts ?us cs)" using cf(1) by (intro users_ok_with_contexts [OF assms(2)]) (auto simp: assms(5))
  moreover have "\<And>k. contents ctx_key cs k = (if fst k = id4 s then None else ctx_map d li k)" using cf(2) by (simp add: ctx_map_def)
  ultimately show ?thesis using that i ida by blast
qed

lemma unregister_application_spec:
  assumes "dlt_daemon_find_users_list d (ecuid d) = Some li" "tables_ok d" "clean_id s" "app_map d li (id4 s) = Some a"
  shows "\<exists>d'. unregister_application s d = Some (0, d') \<and> tables_ok d' \<and> app_map d' li = (app_map d li)(id4 s := None)
    \<and> (\<forall>k. ctx_map d' li k = (if fst k = id4 s then None else map_option (lose_context (ap_user_handle a)) (ctx_map d li k)))
    \<and> (\<forall>j. j \<noteq> li \<longrightarrow> users_at d' j = users_at d j)
    \<and> closed_fds d' = closed_fds d @ (if owns_user_handle a \<and> ap_user_handle a \<noteq> -1 then [ap_user_handle a] else [])"
proof -
  let ?us = "users_at d li" and ?h = "ap_user_handle a"
  have li: "li < length (user_list d)" by (rule users_list_bound [OF assms(1)])
  note ok = tables_ok_at [OF assms(2) li]
  have asc: "ascending app_key (applications ?us)" using ok by (simp add: users_ok_def)
  define cs where "cs = filter (\<lambda>c. cx_apid c \<noteq> id4 s) (contexts ?us)"
  define us1 where "us1 = with_contexts ?us cs"
  define d1 where "d1 = put_users d li us1"
  obtain i where i: "i < length (applications ?us)" "applications ?us ! i = a" "ap_apid a = id4 s"
    and un: "unregister_application s d = dlt_daemon_application_del i (ecuid d) d1" and ok1: "users_ok us1"
    and ctx: "\<And>k. contents ctx_key cs k = (if fst k = id4 s then None else ctx_map d li k)"
    using unregister_contexts [OF assms(1) ok assms(3,4) cs_def d1_def [unfolded us1_def]] unfolding us1_def by metis
  have at1: "users_at d1 li = us1" and e1: "ecuid d1 = ecuid d" using li by (simp_all add: d1_def)
  have f1: "dlt_daemon_find_users_list d1 (ecuid d1) = Some li" using assms(1) by (simp add: d1_def us1_def)
  have i1: "i < length (applications (users_at d1 li))" using i(1) by (simp add: at1 us1_def)
  have a1: "app_at d1 li i = recount cs a" using i by (simp add: app_at_def at1 us1_def)
  have h: "ap_user_handle (recount cs a) = ?h" "owns_user_handle (recount cs a) = owns_user_handle a" by (simp_all add: recount_def)
  define us2 where "us2 = invalidate_contexts ?h us1"
  define us3 where "us3 = us2\<lparr>applications := remove_at i (applications us1)\<rparr>"
  obtain d3 where d3: "dlt_daemon_application_del i (ecuid d1) d1 = Some (0, d3)" "users_at d3 li = us3"
    "\<And>j. j \<noteq> li \<Longrightarrow> users_at d3 j = users_at d1 j" "length (user_list d3) = length (user_list d1)"
    "closed_fds d3 = closed_fds d1 @ (if owns_user_handle a \<and> ?h \<noteq> -1 then [?h] else [])"
    using application_del_spec [OF f1 i1 refl refl, unfolded at1 a1 h, folded us2_def, folded us3_def] by metis
  have l2: "like us1 us2" unfolding us2_def by (rule like_invalidate)
  then have apps: "applications us2 = applications us1" by (simp add: like_def)
  have ctx2: "contexts us2 = map (lose_context ?h) cs" by (simp add: us2_def us1_def invalidate_contexts_def)
  have "cx_apid c \<noteq> ap_apid (applications us2 ! i)" if "c \<in> set (contexts us2)" for c
    using that i unfolding ctx2 apps by (auto simp: us1_def cs_def lose_context_def)
  then have "users_ok us3" unfolding us3_def
    using users_ok_remove [of us2 i] users_ok_like [OF l2] ok1 i1 at1 apps by simp
  then have tok: "tables_ok d3"
    using d3(2-4) tables_ok_at [OF assms(2)] by (intro tables_okI) (metis d1_def put_users_fields(1) users_at_put_other)
  have key: "app_key a = id4 s" using i(3) by (simp add: app_key_def)
  have "applications us3 = remove_at i (applications ?us)"
    using remove_recount [OF ok i(1), of cs] i(2,3) by (simp add: us3_def us1_def cs_def)
  then have "app_map d3 li = (app_map d li)(id4 s := None)"
    using contents_remove_at [OF asc i(1)] i(2) key by (simp add: app_map_def d3(2))
  moreover have "ctx_key (lose_context h c) = ctx_key c" for h c by (simp add: lose_context_def ctx_key_def)
  then have "\<forall>k. ctx_map d3 li k = (if fst k = id4 s then None else map_option (lose_context ?h) (ctx_map d li k))"
    using ctx by (simp add: ctx_map_def d3(2) us3_def ctx2 contents_map)
  ultimately show ?thesis using un tok d3(1,3,5) e1 by (simp add: d1_def)
qed


section \<open>Every operation keeps the tables consistent\<close>

lemma application_add_spec:
  assumes "dlt_daemon_find_users_list d e = Some li" "tables_ok d" "clean_id s" "env_ok env"
  shows "\<exists>i d'. dlt_daemon_application_add env s pid descr e d = Some (Some i, d') \<and> application_entered env d li s pid descr i d'"
proof -
  have li: "li < length (user_list d)" by (rule users_list_bound [OF assms(1)])
  define d0 where "d0 = (if applications_room (users_at d li) = None
    then put_users d li ((users_at d li)\<lparr>applications_room := Some DLT_DAEMON_APPL_ALLOC_SIZE\<rparr>) else d)"
  note r0 = first_room [OF tables_ok_at [OF assms(2) li] li refl d0_def]
  have f0: "dlt_daemon_find_users_list d0 e = Some li" using same_but_find [OF r0(1)] assms(1) by simp
  obtain r where r: "dlt_daemon_application_find d0 s e = Some r" using application_find_iff [OF f0 r0(2) assms(3)] by blast
  show ?thesis
  proof (cases r)
    case None
    then show ?thesis using add_application_unknown [OF assms d0_def] r by simp
  next
    case (Some i)
    then show ?thesis using add_application_known [OF assms d0_def] r by blast
  qed
qed

text \<open>
  When a table cannot be allocated the operation is refused; otherwise it is what it is in an environment that
  allocates every table.
\<close>

abbreviation allocating :: "table_env \<Rightarrow> table_env" where
  "allocating env \<equiv> env\<lparr>table_alloc := \<lambda>_. True\<rparr>"

lemma allocating_ok: "answers_ok env \<Longrightarrow> env_ok (allocating env)"
  by (simp add: env_ok_def answers_ok_def)

lemma make_room_cases: "make_room alloc step n m = Some None \<or> make_room alloc step n m = make_room (\<lambda>_. True) step n m"
  by (simp add: make_room_def Let_def)

lemma new_application_cases:
  "new_application env fill li d = Some None \<or> new_application env fill li d = new_application (allocating env) fill li d
   \<or> applications_room (users_at d li) = None"
proof (cases "applications_room (users_at d li)")
  case (Some m)
  then show ?thesis
    using make_room_cases [of "table_alloc env" 500 "length (applications (users_at d li)) + 1" m]
    by (auto simp: new_application_def Let_def)
qed simp

lemma allocating_fields [simp]:
  "set_description (allocating env) = set_description env" "connect_application (allocating env) = connect_application env"
  "update_context (allocating env) = update_context env"
  by (simp_all add: fun_eq_iff set_description_def connect_application_def update_context_def split: option.split)

lemma application_add_cases:
  assumes "dlt_daemon_find_users_list d e = Some li" "tables_ok d" "clean_id s"
  obtains d' where "dlt_daemon_application_add env s pid descr e d = Some (None, d')" "tables_ok d'"
  | "dlt_daemon_application_add env s pid descr e d = dlt_daemon_application_add (allocating env) s pid descr e d"
proof -
  have li: "li < length (user_list d)" by (rule users_list_bound [OF assms(1)])
  define d0 where "d0 = (if applications_room (users_at d li) = None
    then put_users d li ((users_at d li)\<lparr>applications_room := Some DLT_DAEMON_APPL_ALLOC_SIZE\<rparr>) else d)"
  note r0 = first_room [OF tables_ok_at [OF assms(2) li] li refl d0_def]
  have f0: "dlt_daemon_find_users_list d0 e = Some li" using same_but_find [OF r0(1)] assms(1) by simp
  have ok0: "tables_ok d0" by (rule same_but_ok [OF r0(1) assms(2) r0(2)])
  obtain r where r: "dlt_daemon_application_find d0 s e = Some r" using application_find_iff [OF f0 r0(2) assms(3)] by blast
  let ?fill = "\<lambda>a. do { k \<leftarrow> dlt_set_id (ap_apid a) s; Some (a\<lparr>ap_apid := k\<rparr>) }"
  note unfold = dlt_daemon_application_add_def add_application_def clean_id_facts [OF assms(3)] Let_def d0_def [symmetric]
  have room: "applications_room (users_at d0 li) \<noteq> None" using r0(4) by auto
  show thesis
  proof (cases "applications_room (users_at d li) = None \<and> \<not> table_alloc env 500")
    case True
    then have "dlt_daemon_application_add env s pid descr e d = Some (None, d)" using assms(1) by (simp add: unfold)
    then show ?thesis using that(1) assms(2) by blast
  next
    case alloc: False
    show ?thesis
    proof (cases "r = None \<and> new_application env ?fill li d0 = Some None")
      case True
      then have "dlt_daemon_application_add env s pid descr e d = Some (None, d0)" using alloc assms(1) r by (auto simp: unfold)
      then show ?thesis using that(1) ok0 by blast
    next
      case False
      then have "r = None \<Longrightarrow> new_application env ?fill li d0 = new_application (allocating env) ?fill li d0"
        using new_application_cases [of env ?fill li d0] room by blast
      then have "dlt_daemon_application_add env s pid descr e d = dlt_daemon_application_add (allocating env) s pid descr e d"
        using assms(1) r by (cases r) (simp_all add: unfold if_not_P [OF alloc])
      then show ?thesis by (rule that(2))
    qed
  qed
qed

lemma application_add_total:
  assumes "tables_ok d" "clean_id s" "answers_ok env"
  shows "\<exists>r d'. dlt_daemon_application_add env s pid descr e d = Some (r, d') \<and> tables_ok d'"
proof (cases "dlt_daemon_find_users_list d e")
  case None
  then show ?thesis using assms by (simp add: dlt_daemon_application_add_def clean_id_facts [OF assms(2)])
next
  case (Some li)
  from Some assms(1,2) show ?thesis
  proof (cases rule: application_add_cases [where env = env and pid = pid and descr = descr])
    case 2
    then show ?thesis using application_add_spec [OF Some assms(1,2) allocating_ok [OF assms(3)], of pid descr]
      by (auto simp: application_entered_def Let_def)
  qed blast
qed

lemma context_add_spec:
  assumes "dlt_daemon_find_users_list d e = Some li" "tables_ok d" "clean_id s" "clean_id t" "env_ok env" "level_in_range level status"
    "app_map d li (id4 s) = Some a" "own = (chars DLT_ID_SIZE (ecuid d) = chars DLT_ID_SIZE e)"
  shows "\<exists>r d'. dlt_daemon_context_add env s t level status pos handle descr e d = Some (r, d') \<and> tables_ok d'
    \<and> context_entered d li s t (registered_context d own s t level status pos handle descr (ctx_map d li (id4 s, id4 t)))
        (counted (ctx_map d li (id4 s, id4 t) = None) a) r d'"
proof (cases "ctx_map d li (id4 s, id4 t)")
  case None
  then show ?thesis using context_add_unknown [OF assms(1-7) None assms(8), of pos handle descr] by simp
next
  case (Some c)
  then show ?thesis using context_add_known [OF assms(1-7) Some assms(8), of pos handle descr] by (simp add: counted_def)
qed

text \<open>A context of an application that is not registered is refused.\<close>

lemma context_add_refused:
  assumes "dlt_daemon_find_users_list d e = Some li" "tables_ok d" "clean_id s" "clean_id t" "env_ok env" "level_in_range level status"
    "app_map d li (id4 s) = None"
  shows "\<exists>d'. dlt_daemon_context_add env s t level status pos handle descr e d = Some (None, d') \<and> tables_ok d'
    \<and> ctx_map d' li = ctx_map d li \<and> app_map d' li = app_map d li"
proof -
  let ?us = "users_at d li"
  have li: "li < length (user_list d)" by (rule users_list_bound [OF assms(1)])
  define d0 where "d0 = (if contexts_room ?us = None then put_users d li (?us\<lparr>contexts_room := Some DLT_DAEMON_CONTEXT_ALLOC_SIZE\<rparr>) else d)"
  note r0 = first_context_room [OF tables_ok_at [OF assms(2) li] li refl d0_def]
  obtain w where w: "d0 = put_users d li w" "us_ecu w = us_ecu ?us" using r0(6) by blast
  have f0: "dlt_daemon_find_users_list d0 e = Some li" using w assms(1) by simp
  obtain r where r: "dlt_daemon_application_find d0 s e = Some r"
    "\<forall>i. r = Some i \<longleftrightarrow> i < length (applications (users_at d0 li)) \<and> ap_apid (app_at d0 li i) = id4 s"
    using application_find_iff [OF f0 r0(1) assms(3)] by blast
  have "ap_apid (app_at d0 li i) \<noteq> id4 s" if "i < length (applications (users_at d0 li))" for i
  proof -
    have "app_key (applications ?us ! i) \<noteq> id4 s" using that assms(7) unfolding app_map_def contents_None r0(3) by (metis image_eqI nth_mem)
    then show ?thesis by (auto simp: app_at_def app_key_def r0(3))
  qed
  then have "r = None" using r(2) by (metis option.exhaust)
  then have "dlt_daemon_context_add env s t level status pos handle descr e d = Some (None, d0)"
    using assms(1,5,6) r(1)
    by (simp add: dlt_daemon_context_add_def clean_id_facts [OF assms(3)] clean_id_facts [OF assms(4)] add_context_def Let_def
        d0_def [symmetric] env_ok_def)
  moreover have "tables_ok d0" using tables_ok_put [OF assms(2) li, of w] r0(1) w(1) li by simp
  ultimately show ?thesis using r0(3,4) by (simp add: ctx_map_def app_map_def)
qed

lemma new_context_cases:
  "new_context env fill li ai d = Some (Inl d) \<or> new_context env fill li ai d = new_context (allocating env) fill li ai d
   \<or> contexts_room (users_at d li) = None"
proof (cases "contexts_room (users_at d li)")
  case (Some m)
  then show ?thesis
    using make_room_cases [of "table_alloc env" 1000 "length (contexts (users_at d li)) + 1" m]
    by (auto simp: new_context_def Let_def)
qed simp

lemma context_add_cases:
  assumes "dlt_daemon_find_users_list d e = Some li" "tables_ok d" "clean_id s" "clean_id t" "level_in_range level status"
  obtains d' where "dlt_daemon_context_add env s t level status pos handle descr e d = Some (None, d')" "tables_ok d'"
  | "dlt_daemon_context_add env s t level status pos handle descr e d
      = dlt_daemon_context_add (allocating env) s t level status pos handle descr e d"
proof -
  let ?us = "users_at d li"
  let ?fill = "\<lambda>c. do { k \<leftarrow> dlt_set_id (cx_apid c) s; l \<leftarrow> dlt_set_id (cx_ctid c) t; Some (Inr (c\<lparr>cx_apid := k, cx_ctid := l\<rparr>)) }"
  have li: "li < length (user_list d)" by (rule users_list_bound [OF assms(1)])
  define d0 where "d0 = (if contexts_room ?us = None then put_users d li (?us\<lparr>contexts_room := Some DLT_DAEMON_CONTEXT_ALLOC_SIZE\<rparr>) else d)"
  note r0 = first_context_room [OF tables_ok_at [OF assms(2) li] li refl d0_def]
  obtain w where w: "d0 = put_users d li w" "us_ecu w = us_ecu ?us" using r0(6) by blast
  have f0: "dlt_daemon_find_users_list d0 e = Some li" using w assms(1) by simp
  have ok0: "tables_ok d0" using tables_ok_put [OF assms(2) li, of w] r0(1) w(1) li by simp
  have wf0: "users_wf (users_at d0 li)" using r0(1) by (simp add: users_ok_def)
  obtain r q where r: "dlt_daemon_application_find d0 s e = Some r" "dlt_daemon_context_find d0 s t e = Some q"
    using application_find_iff [OF f0 r0(1) assms(3)] context_find_spec [OF f0 wf0 assms(3,4)] by blast
  have room: "contexts_room (users_at d0 li) \<noteq> None" using r0(2) by auto
  note unfold = dlt_daemon_context_add_def add_context_def clean_id_facts [OF assms(3)] clean_id_facts [OF assms(4)] Let_def d0_def [symmetric]
  show thesis
  proof (cases "contexts_room ?us = None \<and> \<not> table_alloc env 1000")
    case True
    then have "dlt_daemon_context_add env s t level status pos handle descr e d = Some (None, d)" using assms(1,5) by (simp add: unfold)
    then show ?thesis using that(1) assms(2) by blast
  next
    case alloc: False
    show ?thesis
    proof (cases "\<exists>ai. r = Some ai \<and> q = None \<and> new_context env ?fill li ai d0 = Some (Inl d0)")
      case True
      then have "dlt_daemon_context_add env s t level status pos handle descr e d = Some (None, d0)"
        using assms(1,5) r by (auto simp: unfold if_not_P [OF alloc])
      then show ?thesis using that(1) ok0 by blast
    next
      case False
      then have "r = Some ai \<Longrightarrow> q = None \<Longrightarrow> new_context env ?fill li ai d0 = new_context (allocating env) ?fill li ai d0" for ai
        using new_context_cases [of env ?fill li ai d0] room by blast
      then have "dlt_daemon_context_add env s t level status pos handle descr e d
          = dlt_daemon_context_add (allocating env) s t level status pos handle descr e d"
        using assms(1,5) r by (cases r; cases q) (simp_all add: unfold if_not_P [OF alloc])
      then show ?thesis by (rule that(2))
    qed
  qed
qed

lemma context_add_total:
  assumes "tables_ok d" "clean_id s" "clean_id t" "answers_ok env"
  shows "\<exists>r d'. dlt_daemon_context_add env s t level status pos handle descr e d = Some (r, d') \<and> tables_ok d'"
proof (cases "level_in_range level status \<and> dlt_daemon_find_users_list d e \<noteq> None")
  case False
  then show ?thesis using assms(1)
    by (auto simp: dlt_daemon_context_add_def clean_id_facts [OF assms(2)] clean_id_facts [OF assms(3)])
next
  case True
  then obtain li where li: "dlt_daemon_find_users_list d e = Some li" "level_in_range level status" by blast
  note ok = assms(1-3) allocating_ok [OF assms(4)]
  from li(1) assms(1-3) li(2) show ?thesis
  proof (cases rule: context_add_cases [where env = env and pos = pos and handle = handle and descr = descr])
    case 2
    show ?thesis
    proof (cases "app_map d li (id4 s)")
      case None
      show ?thesis using context_add_refused [OF li(1) ok li(2) None, of pos handle descr] 2 by auto
    next
      case (Some a)
      show ?thesis using context_add_spec [OF li(1) ok li(2) Some refl, of pos handle descr] 2 by auto
    qed
  qed blast
qed

lemma unregister_application_total:
  assumes "tables_ok d" "clean_id s"
  shows "\<exists>r d'. unregister_application s d = Some (r, d') \<and> tables_ok d'"
proof (cases "dlt_daemon_find_users_list d (ecuid d)")
  case None
  then show ?thesis using assms(1) by (simp add: unregister_application_def)
next
  case (Some li)
  note ok = tables_ok_at [OF assms(1) users_list_bound [OF Some]]
  obtain r where r: "dlt_daemon_application_find d s (ecuid d) = Some r"
    "\<forall>i. r = Some i \<longleftrightarrow> i < length (applications (users_at d li)) \<and> ap_apid (app_at d li i) = id4 s"
    using application_find_iff [OF Some ok assms(2)] by blast
  show ?thesis
  proof (cases r)
    case None
    then show ?thesis using r(1) Some assms(1) by (simp add: unregister_application_def)
  next
    case (Some i)
    then have i: "i < length (applications (users_at d li))" "ap_apid (app_at d li i) = id4 s" using r(2) by auto
    have "ascending app_key (applications (users_at d li))" using ok by (simp add: users_ok_def)
    from contents_nth [OF this i(1)] have "app_map d li (id4 s) = Some (app_at d li i)"
      using i(2) by (simp add: app_map_def app_at_def app_key_def)
    from unregister_application_spec [OF \<open>dlt_daemon_find_users_list d (ecuid d) = Some li\<close> assms this] show ?thesis by blast
  qed
qed

lemma unregister_context_total:
  assumes "tables_ok d" "clean_id s" "clean_id t"
  shows "\<exists>r d'. unregister_context s t d = Some (r, d') \<and> tables_ok d'"
proof (cases "dlt_daemon_find_users_list d (ecuid d)")
  case None
  then show ?thesis using assms(1)
    by (simp add: unregister_context_def dlt_daemon_context_find_def clean_id_facts [OF assms(2)] clean_id_facts [OF assms(3)])
next
  case (Some li)
  note li = users_list_bound [OF Some]
  note ok = tables_ok_at [OF assms(1) li]
  have wf: "users_wf (users_at d li)" using ok by (simp add: users_ok_def)
  obtain r where r: "dlt_daemon_context_find d s t (ecuid d) = Some r" using context_find_spec [OF Some wf assms(2,3)] by blast
  show ?thesis
  proof (cases "\<exists>i. r = Some i \<and> \<not> predefined (ctx_at d li i)")
    case False
    then show ?thesis using r Some assms(1) by (auto simp: unregister_context_def split: option.split)
  next
    case True
    then obtain i where i: "r = Some i" "\<not> predefined (ctx_at d li i)" by blast
    then have pos: "i < length (contexts (users_at d li))" using context_found [OF Some wf assms(2,3), of i] r by simp
    have "users_ok (with_contexts (users_at d li) (remove_at i (contexts (users_at d li))))"
      using users_wfD(2) [OF wf] pos by (intro users_ok_with_contexts [OF ok])
        (auto simp: ascending_remove_at length_remove_at set_remove_at [OF ascending_distinct])
    from tables_ok_put [OF assms(1) li this] show ?thesis
      using context_del_spec [OF Some ok pos] i r Some by (simp add: unregister_context_def)
  qed
qed

lemma invalidate_fd_total:
  assumes "tables_ok d"
  shows "tables_ok (snd (dlt_daemon_applications_invalidate_fd d e fd))" "tables_ok (snd (dlt_daemon_contexts_invalidate_fd d e fd))"
proof -
  have "tables_ok (put_users d li (invalidate_applications fd (users_at d li))) \<and> tables_ok (put_users d li (invalidate_contexts fd (users_at d li)))"
    if "dlt_daemon_find_users_list d e = Some li" for li
  proof -
    have li: "li < length (user_list d)" by (rule users_list_bound [OF that])
    note ok = tables_ok_at [OF assms li]
    have "users_ok (invalidate_applications fd (users_at d li))"
      using ok users_wf_lose [of "users_at d li" fd] by (simp add: users_ok_def invalidate_applications_def ascending_map)
    moreover have "users_ok (invalidate_contexts fd (users_at d li))" using ok users_ok_like [OF like_invalidate] by blast
    ultimately show ?thesis using tables_ok_put [OF assms li] by blast
  qed
  then show "tables_ok (snd (dlt_daemon_applications_invalidate_fd d e fd))" "tables_ok (snd (dlt_daemon_contexts_invalidate_fd d e fd))"
    using assms by (auto simp: dlt_daemon_applications_invalidate_fd_def dlt_daemon_contexts_invalidate_fd_def split: option.split)
qed

text \<open>
  The life of the tables: they start empty, as \<^verbatim>\<open>dlt_daemon_init_user_information\<close> allocates them, and
  registrations, removals and lost connections follow in any order.
\<close>

definition initial_tables :: "user_tables \<Rightarrow> bool" where
  "initial_tables d \<longleftrightarrow> (\<forall>us\<in>set (user_list d). applications us = [] \<and> applications_room us = None
     \<and> contexts us = [] \<and> contexts_room us = None)"

inductive table_step :: "user_tables \<Rightarrow> user_tables \<Rightarrow> bool" where
  register_application: "clean_id s \<Longrightarrow> answers_ok env
    \<Longrightarrow> dlt_daemon_application_add env s pid descr e d = Some (r, d') \<Longrightarrow> table_step d d'"
| register_context: "clean_id s \<Longrightarrow> clean_id t \<Longrightarrow> answers_ok env
    \<Longrightarrow> dlt_daemon_context_add env s t level status pos handle descr e d = Some (r, d') \<Longrightarrow> table_step d d'"
| application_leaves: "clean_id s \<Longrightarrow> unregister_application s d = Some (v, d') \<Longrightarrow> table_step d d'"
| context_leaves: "clean_id s \<Longrightarrow> clean_id t \<Longrightarrow> unregister_context s t d = Some (v, d') \<Longrightarrow> table_step d d'"
| lose_applications: "table_step d (snd (dlt_daemon_applications_invalidate_fd d e fd))"
| lose_contexts: "table_step d (snd (dlt_daemon_contexts_invalidate_fd d e fd))"

inductive table_reach :: "user_tables \<Rightarrow> bool" where
  start: "initial_tables d \<Longrightarrow> table_reach d"
| more: "table_reach d \<Longrightarrow> table_step d d' \<Longrightarrow> table_reach d'"

lemma initial_tables_ok: "initial_tables d \<Longrightarrow> tables_ok d"
  by (auto simp: initial_tables_def tables_ok_def users_ok_def users_wf_def ascending_def ctx_ids_def room_ok_def)

lemma table_step_ok:
  assumes "table_step d d'" "tables_ok d"
  shows "tables_ok d'"
  using assms
proof (induction rule: table_step.induct)
  case (register_application s env pid descr e d r d')
  then show ?case using application_add_total [of d s env pid descr e] by simp
next
  case (register_context s t env level status pos handle descr e d r d')
  then show ?case using context_add_total [of d s t env level status pos handle descr e] by simp
next
  case (application_leaves s d v d')
  then show ?case using unregister_application_total [of d s] by simp
next
  case (context_leaves s t d v d')
  then show ?case using unregister_context_total [of d s t] by simp
qed (simp_all add: invalidate_fd_total)

lemma table_reach_ok: "table_reach d \<Longrightarrow> tables_ok d"
  by (induction rule: table_reach.induct) (auto intro: initial_tables_ok table_step_ok)


section \<open>Identifiers with bytes behind the terminating zero\<close>

lemma zeros_least:
  fixes ys :: bytes
  shows "ys \<noteq> replicate (length ys) 0 \<Longrightarrow> replicate (length ys) 0 < ys"
  by (induction ys) (auto simp: word_gt_0)

lemma prefix_less: "xs < ys \<Longrightarrow> zs @ xs < zs @ (ys :: bytes)"
  by (induction zs) simp_all

lemma unclean_greater:
  assumes "4 \<le> length s" "take 4 s \<noteq> id4 s"
  shows "id4 s < take 4 s"
proof -
  define c where "c = chars 4 s"
  define r where "r = drop (length c) (take 4 s)"
  have "take (length c) (take 4 s) = c" using chars_take [of 4 s] length_chars(1) [of 4 s] by (simp add: c_def min_absorb1)
  then have s: "take 4 s = c @ r" unfolding r_def by (metis append_take_drop_id)
  have "length r = 4 - length c" using assms(1) by (simp add: r_def)
  then have z: "id4 s = c @ replicate (length r) 0" by (simp add: id4_def c_def)
  show ?thesis using assms(2) zeros_least [of r] unfolding s z by (intro prefix_less) auto
qed

lemma unclean_not_found:
  assumes "dlt_daemon_find_users_list d e = Some li" "4 \<le> length s" "s ! 0 \<noteq> 0" "take 4 s \<noteq> id4 s"
    "applications (users_at d li) \<noteq> []" "app_key (last (applications (users_at d li))) = id4 s"
  shows "dlt_daemon_application_find d s e = Some None"
proof -
  let ?xs = "applications (users_at d li)"
  have "memcmp (take 4 s) (ap_apid (?xs ! (length ?xs - 1))) 4 > 0"
    using assms(5,6) unclean_greater [OF assms(2,4)] by (simp add: memcmp_def app_key_def last_conv_nth)
  moreover have "byte_at s 0 = Some (s ! 0)" "load_at s 0 4 = Some (take 4 s)"
    using assms(2) by (auto simp: byte_at_def load_at_def)
  ultimately show ?thesis using assms(1,3,5) by (simp add: dlt_daemon_application_find_def Let_def)
qed

text \<open>A second entry with the last key of an ordered table stays the last one.\<close>

lemma qsort_last_again:
  assumes "sorted (map app_key xs)" "xs \<noteq> []" "map app_key ys = map app_key xs @ [app_key (last xs)]"
  shows "map app_key (qsort dlt_daemon_cmp_apid ys) = map app_key ys"
proof -
  have "sorted (map app_key ys)" unfolding assms(3) sorted_append
  proof (intro conjI ballI assms(1))
    fix x y assume "x \<in> set (map app_key xs)" "y \<in> set [app_key (last xs)]"
    then show "x \<le> y" using sorted_nth_mono [OF assms(1), of _ "length xs - 1"]
      by (auto simp: in_set_conv_nth last_conv_nth [OF assms(2)])
  qed simp
  moreover have "mset (map app_key (qsort dlt_daemon_cmp_apid ys)) = mset (map app_key ys)"
    by (simp add: app_order.qsort_mset)
  ultimately show ?thesis by (metis app_order.qsort_sorted properties_for_sort)
qed

lemma new_application_appends:
  assumes "li < length (user_list d)" "users_wf (users_at d li)" "applications (users_at d li) \<noteq> []" "env_ok env" "4 \<le> length s"
  obtains d1 where "new_application env (\<lambda>a. do { k \<leftarrow> dlt_set_id (ap_apid a) s; Some (a\<lparr>ap_apid := k\<rparr>) }) li d = Some (Some d1)"
    "same_but li d d1" "map app_key (applications (users_at d1 li)) = map app_key (applications (users_at d li)) @ [id4 s]"
proof -
  let ?us = "users_at d li"
  obtain m where m: "applications_room ?us = Some m"
    using users_wfD(6) [OF assms(2)] assms(3) by (cases "applications_room ?us") (auto simp: room_ok_def)
  obtain m' where m': "make_room (table_alloc env) 500 (length (applications ?us) + 1) m = Some (Some m')"
    using make_room_spec [of 500 "length (applications ?us)" m "table_alloc env"] users_wfD(6) [OF assms(2)] assms(4) m
    by (auto simp: env_ok_def)
  have "dlt_set_id (ap_apid (raw_application env)) s = Some (id4 s)"
    using assms(4,5) set_id_spec by (simp add: readable_def env_ok_def answers_ok_def)
  then have "new_application env (\<lambda>a. do { k \<leftarrow> dlt_set_id (ap_apid a) s; Some (a\<lparr>ap_apid := k\<rparr>) }) li d
      = Some (Some (put_users d li (?us\<lparr>applications := applications ?us @ [fresh_application ((raw_application env)\<lparr>ap_apid := id4 s\<rparr>)],
          applications_room := Some m'\<rparr>)))" (is "_ = Some (Some ?d1)")
    using m m' by (simp add: new_application_def Let_def)
  moreover have "same_but li d ?d1" by (intro same_but_put assms(1)) (simp_all add: ctx_ids_def)
  ultimately show ?thesis using that assms(1) by (simp add: fresh_application_def app_key_def)
qed

lemma add_application_unclean:
  assumes "dlt_daemon_find_users_list d e = Some li" "tables_ok d" "env_ok env" "4 \<le> length s" "s ! 0 \<noteq> 0" "take 4 s \<noteq> id4 s"
    "applications (users_at d li) \<noteq> []" "app_key (last (applications (users_at d li))) = id4 s"
  shows "\<exists>d'. dlt_daemon_application_add env s pid descr e d = Some (None, d')
    \<and> map app_key (applications (users_at d' li)) = map app_key (applications (users_at d li)) @ [id4 s] \<and> \<not> tables_ok d'"
proof -
  let ?xs = "applications (users_at d li)"
  have li: "li < length (user_list d)" by (rule users_list_bound [OF assms(1)])
  have ok: "users_ok (users_at d li)" by (rule tables_ok_at [OF assms(2) li])
  then have wf: "users_wf (users_at d li)" "sorted (map app_key ?xs)"
    by (simp_all add: users_ok_def ascending_def strict_sorted_imp_sorted)
  have room: "applications_room (users_at d li) \<noteq> None" 
    using users_wfD(6) [OF wf(1)] assms(7) by (cases "applications_room (users_at d li)") (auto simp: room_ok_def)
  obtain d1 where new: "new_application env (\<lambda>a. do { k \<leftarrow> dlt_set_id (ap_apid a) s; Some (a\<lparr>ap_apid := k\<rparr>) }) li d = Some (Some d1)"
    and d1: "same_but li d d1" "map app_key (applications (users_at d1 li)) = map app_key ?xs @ [id4 s]"
    by (rule new_application_appends [OF li wf(1) assms(7,3,4)])
  define i where "i = length ?xs"
  define a where "a = (app_at d1 li i)\<lparr>application_description := descr\<rparr>"
  have i: "i < length (applications (users_at d1 li))" using arg_cong [OF d1(2), of length] by (simp add: i_def)
  have f1: "dlt_daemon_find_users_list d1 e = Some li" using same_but_find [OF d1(1)] assms(1) by simp
  obtain a2 d2 where a2: "(if ap_pid a \<noteq> pid then let (a, d) = dlt_daemon_application_reset_user_handle d1 a in (a\<lparr>ap_pid := 0\<rparr>, d) else (a, d1)) = (a2, d2)"
    by fastforce
  define d4 where "d4 = connect_application env e li i pid (put_app d2 li i a2)"
  note ent = entry_apps [OF f1 i a_def a2 d4_def [symmetric]]
  define d5 where "d5 = put_users d4 li ((users_at d4 li)\<lparr>applications := qsort dlt_daemon_cmp_apid (applications (users_at d4 li))\<rparr>)"
  have s4: "same_but li d d4" by (rule same_but_trans [OF d1(1) ent(1)])
  have li4: "li < length (user_list d4)" using s4 li by (simp add: same_but_def)
  have s5: "same_but li d d5" unfolding d5_def by (rule same_but_trans [OF s4]) (intro same_but_put li4; simp add: ctx_ids_def)
  have f5: "dlt_daemon_find_users_list d5 e = Some li" using same_but_find [OF s5] assms(1) by simp
  have keys: "map app_key (applications (users_at d5 li)) = map app_key ?xs @ [id4 s]"
    using qsort_last_again [OF wf(2) assms(7), of "applications (users_at d4 li)"] ent(4) d1(2) assms(8) li4 by (simp add: d5_def)
  then have ne: "applications (users_at d5 li) \<noteq> []" by auto
  have "app_key (last (applications (users_at d5 li))) = id4 s" using arg_cong [OF keys, of last] ne by (simp add: last_map)
  then have find: "dlt_daemon_application_find d5 s e = Some None" by (rule unclean_not_found [OF f5 assms(4-6) ne])
  have ans: "answers_ok env" "byte_at s 0 = Some (s ! 0)" using assms(3,4) by (auto simp: env_ok_def byte_at_def)
  have "dlt_daemon_application_add env s pid descr e d = Some (None, d5)"
    using assms(1,5) room a2 [unfolded Let_def] set_description_ok [OF ans(1), of descr "app_at d1 li i", folded a_def] new find ans(2)
      unclean_not_found [OF assms(1,4-8)]
    by (simp add: dlt_daemon_application_add_def add_application_def Let_def d4_def d5_def i_def [symmetric]) (auto split: if_splits)
  moreover have "id4 s \<in> set (map app_key ?xs)" using imageI [OF last_in_set [OF assms(7)], of app_key] assms(8) by simp
  then have "\<not> distinct (map app_key (applications (users_at d5 li)))" unfolding keys by simp
  then have "\<not> tables_ok d5" using tables_ok_at [of d5 li] users_list_bound [OF f5] by (auto simp: users_ok_def users_wf_def)
  ultimately show ?thesis using keys by blast
qed


section \<open>Properties\<close>

definition demo_env :: table_env where
  "demo_env = \<lparr>table_alloc = (\<lambda>_. True), text_alloc = (\<lambda>_. True), open_pipe = (\<lambda>p. if p = 7 then 3 else -1), path_fits = True, ctid_alloc = True,
     raw_application = \<lparr>ap_apid = [1, 2, 3, 4], ap_apid2len = 0, ap_apid2 = [], ap_pid = 9, ap_user_handle = 9,
       owns_user_handle = True, application_description = None, ap_num_contexts = 9\<rparr>\<rparr>"

definition demo_tables :: "DltDaemonApplication list \<Rightarrow> DltDaemonContext list \<Rightarrow> user_tables" where
  "demo_tables xs cs = \<lparr>user_list = [\<lparr>applications = xs, applications_room = (if xs = [] then None else Some 500), contexts = cs,
       contexts_room = (if cs = [] then None else Some 1000), us_ecu = [0x45, 0, 0, 0], us_ecuid2len = 0, us_ecuid2 = []\<rparr>],
     ecuid = [0x45, 0, 0, 0], ecuid2len = 0, ecuid2 = [], default_log_level = 4, default_trace_status = 0, force_ll_ts = True,
     runtime_context_cfg_loaded = False, closed_fds = []\<rparr>"

definition demo_application :: "int \<Rightarrow> DltDaemonApplication" where
  "demo_application n = \<lparr>ap_apid = [0x41, 0x42, 0, 0], ap_apid2len = 0, ap_apid2 = [], ap_pid = 7, ap_user_handle = 3,
     owns_user_handle = True, application_description = None, ap_num_contexts = n\<rparr>"

definition demo_context :: DltDaemonContext where
  "demo_context = zero_context\<lparr>cx_apid := [0x41, 0x42, 0, 0], cx_ctid := [0x43, 0x31, 0, 0], cx_user_handle := 3\<rparr>"

lemma demo_env_ok: "env_ok demo_env"
  by (simp add: env_ok_def answers_ok_def demo_env_def)

lemma demo_find [simp]: "dlt_daemon_find_users_list (demo_tables xs cs) [0x45, 0, 0, 0] = Some 0" "ecuid (demo_tables xs cs) = [0x45, 0, 0, 0]"
  by (simp_all add: dlt_daemon_find_users_list_def demo_tables_def)

lemma replicate_2: "replicate 2 x = [x, x]"
  by (simp add: numeral_2_eq_2)

lemma demo_ids: "clean_id [0x41, 0x42, 0, 0]" "clean_id [0x43, 0x31, 0, 0]" "id4 [0x41, 0x42, 0, 0] = [0x41, 0x42, 0, 0]"
  "id4 [0x43, 0x31, 0, 0] = [0x43, 0x31, 0, 0]"
  by (simp_all add: clean_id_def id4_def chars_def replicate_2)

lemma demo_tables_ok:
  "tables_ok (demo_tables [] [])" "tables_ok (demo_tables [demo_application 0] [])" "tables_ok (demo_tables [demo_application 1] [demo_context])"
  by (simp_all add: tables_ok_def demo_tables_def users_ok_def users_wf_def ascending_def ctx_ids_def contexts_of_def app_ok_def
      is_id_def id4_def chars_def room_ok_def demo_application_def demo_context_def ctx_key_def app_key_def replicate_2)

text \<open>
  C10. The tables of protocol version 1 stay consistent through any sequence of registrations, removals and lost
  connections, if the identifiers have nothing but zeros behind a terminating zero: applications and contexts in
  order and without duplicates, every context with its application, every application with the right number of contexts,
  no descriptor shared by two applications and always room for the next entry. Memory for a table may be missing at
  any time; memory for the description of an application is there. In every state that is reached the next
  registration or removal is defined: it stays within the tables.
\<close>

theorem tables_stay_consistent:
  assumes "table_reach d"
  shows "tables_ok d
    \<and> (\<forall>s t env. clean_id s \<longrightarrow> clean_id t \<longrightarrow> answers_ok env \<longrightarrow>
         (\<forall>pid descr e. dlt_daemon_application_add env s pid descr e d \<noteq> None)
       \<and> (\<forall>level status pos handle descr e. dlt_daemon_context_add env s t level status pos handle descr e d \<noteq> None)
       \<and> unregister_application s d \<noteq> None \<and> unregister_context s t d \<noteq> None)"
proof (intro conjI allI impI)
  show ok: "tables_ok d" by (rule table_reach_ok [OF assms])
  fix s t env assume c: "clean_id s" "clean_id t" "answers_ok env"
  show "dlt_daemon_application_add env s pid descr e d \<noteq> None" for pid descr e
    using application_add_total [OF ok c(1,3), of pid descr e] by auto
  show "dlt_daemon_context_add env s t level status pos handle descr e d \<noteq> None" for level status pos handle descr e
    using context_add_total [OF ok c, of level status pos handle descr e] by auto
  show "unregister_application s d \<noteq> None" using unregister_application_total [OF ok c(1)] by auto
  show "unregister_context s t d \<noteq> None" using unregister_context_total [OF ok c(1,2)] by auto
qed

theorem tables_stay_consistent_witness:
  "tables_ok (demo_tables [] [])
    \<and> dlt_daemon_application_add (demo_env\<lparr>table_alloc := \<lambda>_. False\<rparr>) [0x41, 0x42, 0, 0] 7 None [0x45, 0, 0, 0] (demo_tables [] []) \<noteq> None"
proof -
  have "table_reach (demo_tables [] [])" by (rule table_reach.start) (simp add: initial_tables_def demo_tables_def)
  moreover have "answers_ok (demo_env\<lparr>table_alloc := \<lambda>_. False\<rparr>)" by (simp add: answers_ok_def demo_env_def)
  ultimately show ?thesis using tables_stay_consistent [of "demo_tables [] []"] demo_ids(1) by blast
qed



text \<open>
  C19. Registering a context of a registered application enters it under its name, with the levels
  asked for, limited to those of the daemon if it enforces them, and unless the levels of a known
  context come from the configuration. The application counts a context that is new. All other
  entries stay as they are.
\<close>

theorem context_registered:
  assumes "dlt_daemon_find_users_list d e = Some li" "tables_ok d" "clean_id s" "clean_id t" "env_ok env" "level_in_range level status"
    "app_map d li (id4 s) = Some a" "own = (chars DLT_ID_SIZE (ecuid d) = chars DLT_ID_SIZE e)"
  shows "\<exists>r d'. dlt_daemon_context_add env s t level status pos handle descr e d = Some (r, d') \<and> tables_ok d'
    \<and> context_entered d li s t (registered_context d own s t level status pos handle descr (ctx_map d li (id4 s, id4 t)))
        (counted (ctx_map d li (id4 s, id4 t) = None) a) r d'"
  by (rule context_add_spec [OF assms])

theorem context_registered_witness:
  "\<exists>r d'. dlt_daemon_context_add demo_env [0x41, 0x42, 0, 0] [0x43, 0x31, 0, 0] 6 0 0 3 None [0x45, 0, 0, 0] (demo_tables [demo_application 0] [])
      = Some (r, d') \<and> tables_ok d' \<and> map_option cx_log_level (ctx_map d' 0 ([0x41, 0x42, 0, 0], [0x43, 0x31, 0, 0])) = Some 4"
proof -
  have "app_map (demo_tables [demo_application 0] []) 0 (id4 [0x41, 0x42, 0, 0]) = Some (demo_application 0)"
    by (simp add: app_map_def contents_def users_at_def demo_tables_def demo_application_def app_key_def demo_ids)
  from context_registered [OF demo_find(1) demo_tables_ok(2) demo_ids(1,2) demo_env_ok _ this refl, of 6 0 0 3 None]
  show ?thesis
    by (auto simp: level_in_range_def context_entered_def registered_context_def demo_ids ctx_map_def contents_def users_at_def demo_tables_def)
qed

text \<open>
  C11. When an application unregisters its contexts are removed, all of them and no others, although the
  code finds them by counting the contexts of the applications in front; the other
  applications stay, contexts lose only the descriptor that was the application's, and the descriptor is
  closed once if the daemon opened it.
\<close>

theorem unregister_application_removes:
  assumes "dlt_daemon_find_users_list d (ecuid d) = Some li" "tables_ok d" "clean_id s" "app_map d li (id4 s) = Some a"
  shows "\<exists>d'. unregister_application s d = Some (0, d') \<and> tables_ok d' \<and> app_map d' li = (app_map d li)(id4 s := None)
    \<and> (\<forall>k. ctx_map d' li k = (if fst k = id4 s then None else map_option (lose_context (ap_user_handle a)) (ctx_map d li k)))
    \<and> (\<forall>j. j \<noteq> li \<longrightarrow> users_at d' j = users_at d j)
    \<and> closed_fds d' = closed_fds d @ (if owns_user_handle a \<and> ap_user_handle a \<noteq> -1 then [ap_user_handle a] else [])"
  by (rule unregister_application_spec [OF assms])

theorem unregister_application_removes_witness:
  "\<exists>d'. unregister_application [0x41, 0x42, 0, 0] (demo_tables [demo_application 1] [demo_context]) = Some (0, d')
    \<and> app_map d' 0 [0x41, 0x42, 0, 0] = None \<and> ctx_map d' 0 ([0x41, 0x42, 0, 0], [0x43, 0x31, 0, 0]) = None \<and> closed_fds d' = [3]"
proof -
  have "app_map (demo_tables [demo_application 1] [demo_context]) 0 (id4 [0x41, 0x42, 0, 0]) = Some (demo_application 1)"
    by (simp add: app_map_def contents_def users_at_def demo_tables_def demo_application_def app_key_def demo_ids)
  note un = unregister_application_removes [OF _ demo_tables_ok(3) demo_ids(1) this, unfolded demo_find(2), OF demo_find(1)]
  have "closed_fds (demo_tables xs cs) = []" "ap_user_handle (demo_application n) = 3" "owns_user_handle (demo_application n)" for xs cs n
    by (simp_all add: demo_tables_def demo_application_def)
  with un show ?thesis by (auto simp: demo_ids)
qed

text \<open>
  C38. An identifier with other bytes behind its terminating zero is compared as it is with the first and
  the last entry, but entered without them. If its name is the last one of the table, an application that registers
  again with such an identifier is not found: the call returns no entry, the name is in the table twice, and the
  table is not consistent any more.
\<close>

theorem unclean_id_registered_twice:
  assumes "dlt_daemon_find_users_list d e = Some li" "tables_ok d" "env_ok env" "4 \<le> length s" "s ! 0 \<noteq> 0" "take 4 s \<noteq> id4 s"
    "applications (users_at d li) \<noteq> []" "app_key (last (applications (users_at d li))) = id4 s"
  shows "\<exists>d'. dlt_daemon_application_add env s pid descr e d = Some (None, d')
    \<and> map app_key (applications (users_at d' li)) = map app_key (applications (users_at d li)) @ [id4 s] \<and> \<not> tables_ok d'"
  by (rule add_application_unclean [OF assms])

theorem unclean_id_registered_twice_witness:
  "\<exists>d'. dlt_daemon_application_add demo_env [0x41, 0x42, 0, 0x58] 7 None [0x45, 0, 0, 0] (demo_tables [demo_application 0] []) = Some (None, d')
    \<and> map app_key (applications (users_at d' 0)) = [[0x41, 0x42, 0, 0], [0x41, 0x42, 0, 0]] \<and> \<not> tables_ok d'"
proof -
  have id: "id4 [0x41, 0x42, 0, 0x58] = [0x41, 0x42, 0, 0]" by code_simp
  have apps: "applications (users_at (demo_tables [demo_application 0] []) 0) = [demo_application 0]"
    "app_key (demo_application 0) = [0x41, 0x42, 0, 0]"
    by (simp_all add: users_at_def demo_tables_def demo_application_def app_key_def)
  show ?thesis
    using unclean_id_registered_twice [OF demo_find(1) demo_tables_ok(2) demo_env_ok, of "[0x41, 0x42, 0, 0x58]" 7 None]
    by (simp add: apps id)
qed

end
