(* ===== verification/Dlt_Format.thy ===== *)
theory Dlt_Format
  imports Dlt_Id
begin

unbundle bit_operations_syntax

text \<open>
  Text output into a buffer: what the library functions \<^verbatim>\<open>snprintf\<close> and \<^verbatim>\<open>strlen\<close> do with the formats the
  program uses, and the output of bytes as hexadecimal digits and characters of
  \<^verbatim>\<open>src/shared/dlt_common.c\<close>. A buffer is a block of bytes and a pointer into it an offset; an access
  outside the block has no result.
\<close>

section \<open>Texts of numbers\<close>

fun dec_text :: "nat \<Rightarrow> bytes" where
  "dec_text n = (if n < 10 then [of_nat (48 + n)] else dec_text (n div 10) @ [of_nat (48 + n mod 10)])"

definition int_text :: "int \<Rightarrow> bytes" where
  "int_text i = (if i < 0 then 45 # dec_text (nat (- i)) else dec_text (nat i))"

definition hex_digit :: "nat \<Rightarrow> byte" where
  "hex_digit d = of_nat (if d < 10 then 48 + d else 87 + d)"

fun hex_digits :: "nat \<Rightarrow> bytes" where
  "hex_digits n = (if n < 16 then [hex_digit n] else hex_digits (n div 16) @ [hex_digit (n mod 16)])"

declare dec_text.simps [simp del] hex_digits.simps [simp del]

text \<open>At least \<open>w\<close> digits, filled up with zeros.\<close>

definition hex_text :: "nat \<Rightarrow> nat \<Rightarrow> bytes" where
  "hex_text w n = replicate (w - length (hex_digits n)) 48 @ hex_digits n"

text \<open>
  The format \<^verbatim>\<open>%g\<close> with its six significant digits, of the positive number \<open>a / b\<close>. \<open>lead_zeros\<close> is how often
  a number below one must be multiplied by ten to reach one.
\<close>

function lead_zeros :: "nat \<Rightarrow> nat \<Rightarrow> nat" where
  "lead_zeros a b = (if a = 0 \<or> b \<le> a then 0 else Suc (lead_zeros (10 * a) b))"
  by auto

termination by (relation "measure (\<lambda>(a, b). b - a)") auto

declare lead_zeros.simps [simp del]

definition round_even :: "nat \<Rightarrow> nat \<Rightarrow> nat" where
  "round_even a b = (let q = a div b; r = a mod b in if 2 * r < b \<or> 2 * r = b \<and> even q then q else q + 1)"

definition strip_zeros :: "bytes \<Rightarrow> bytes" where
  "strip_zeros s = rev (dropWhile ((=) 48) (rev s))"

definition with_fraction :: "bytes \<Rightarrow> bytes \<Rightarrow> bytes" where
  "with_fraction i f = (if strip_zeros f = [] then i else i @ 46 # strip_zeros f)"

definition g_digits :: "nat \<Rightarrow> nat \<Rightarrow> nat \<times> int" where
  "g_digits a b =
     (let x = (if b \<le> a then int (length (dec_text (a div b))) - 1 else - int (lead_zeros a b));
          d = (if x \<le> 5 then round_even (a * 10 ^ nat (5 - x)) b else round_even a (b * 10 ^ nat (x - 5))) in
      if d = 1000000 then (100000, x + 1) else (d, x))"

definition g_text :: "nat \<Rightarrow> nat \<Rightarrow> bytes" where
  "g_text a b =
     (if a = 0 then [48]
      else
        let (d, x) = g_digits a b; s = dec_text d in
        if x < -4 \<or> 6 \<le> x
          then with_fraction (take 1 s) (drop 1 s) @ 101 # (if x < 0 then 45 else 43)
                 # replicate (2 - length (dec_text (nat \<bar>x\<bar>))) 48 @ dec_text (nat \<bar>x\<bar>)
        else if 0 \<le> x then with_fraction (take (nat x + 1) s) (drop (nat x + 1) s)
        else with_fraction [48] (replicate (nat (- x) - 1) 48 @ s))"

text \<open>A floating point number with \<open>k\<close> bits of exponent and \<open>m\<close> of fraction, given by its bits.\<close>

definition float_text :: "nat \<Rightarrow> nat \<Rightarrow> nat \<Rightarrow> bytes" where
  "float_text k m v =
     (let e = v div 2 ^ m mod 2 ^ k; f = v mod 2 ^ m;
          sign = (if odd (v div 2 ^ (m + k)) then [45] else []);
          n = (if e = 0 then f else f + 2 ^ m);
          shift = int (max 1 e) - int (2 ^ (k - 1) - 1) - int m in
      sign @ (if e = 2 ^ k - 1 then (if f = 0 then str ''inf'' else str ''nan'')
              else if 0 \<le> shift then g_text (n * 2 ^ nat shift) 1 else g_text n (2 ^ nat (- shift))))"


section \<open>Writing text\<close>

definition snprintf_at :: "bytes \<Rightarrow> nat \<Rightarrow> nat \<Rightarrow> bytes \<Rightarrow> bytes option" where
  "snprintf_at t off n s = (if n = 0 then Some t else store_at t off (take (n - 1) s @ [0]))"

fun strlen :: "bytes \<Rightarrow> nat option" where
  "strlen [] = None"
| "strlen (c # s) = (if c = 0 then Some 0 else map_option Suc (strlen s))"

definition strlen_at :: "bytes \<Rightarrow> nat \<Rightarrow> nat option" where
  "strlen_at t off = strlen (drop off t)"

definition cstring_at :: "bytes \<Rightarrow> nat \<Rightarrow> bytes option" where
  "cstring_at t off = do { n \<leftarrow> strlen_at t off; load_at t off n }"

text \<open>The bytes of \<open>d\<close> from \<open>p\<close> on, as digits separated by a character.\<close>

fun hex_loop :: "bytes \<Rightarrow> nat \<Rightarrow> bytes \<Rightarrow> nat \<Rightarrow> byte \<Rightarrow> nat \<Rightarrow> nat \<Rightarrow> bytes option" where
  "hex_loop t off d p delim num 0 = Some t"
| "hex_loop t off d p delim num (Suc k) = do {
     (t, off) \<leftarrow> (if num > 0 then do { t \<leftarrow> snprintf_at t off 2 [delim]; Some (t, off + 1) } else Some (t, off));
     b \<leftarrow> byte_at d (p + num);
     t \<leftarrow> snprintf_at t off 3 (hex_text 2 (unat b));
     hex_loop t (off + 2) d p delim (num + 1) k
   }"

definition dlt_print_hex_string_delim ::
  "bytes \<Rightarrow> nat \<Rightarrow> int \<Rightarrow> bytes \<Rightarrow> nat \<Rightarrow> int \<Rightarrow> byte \<Rightarrow> (DltReturnValue \<times> bytes) option" where
  "dlt_print_hex_string_delim t off textlength d p n delim =
     (if textlength \<le> 0 \<or> n < 0 \<or> delim = 0 then Some (DLT_RETURN_WRONG_PARAMETER, t)
      else if textlength < i32 (n * 3) then Some (DLT_RETURN_ERROR, t)
      else do {
        t \<leftarrow> hex_loop t off d p delim 0 (nat n);
        Some (DLT_RETURN_OK, t)
      })"

definition dlt_print_hex_string ::
  "bytes \<Rightarrow> nat \<Rightarrow> int \<Rightarrow> bytes \<Rightarrow> nat \<Rightarrow> int \<Rightarrow> (DltReturnValue \<times> bytes) option" where
  "dlt_print_hex_string t off textlength d p n = dlt_print_hex_string_delim t off textlength d p n 32"

definition char_text :: "byte \<Rightarrow> byte" where
  "char_text b = (if i8 (uint b) < 32 \<or> i8 (uint b) > 126 then 46 else if b \<noteq> 60 then b else 46)"

fun char_loop :: "bytes \<Rightarrow> nat \<Rightarrow> bytes \<Rightarrow> nat \<Rightarrow> nat \<Rightarrow> (bytes \<times> nat) option" where
  "char_loop t off d p 0 = Some (t, off)"
| "char_loop t off d p (Suc k) = do {
     b \<leftarrow> byte_at d p;
     t \<leftarrow> snprintf_at t off 2 [char_text b];
     char_loop t (off + 1) d (p + 1) k
   }"

text \<open>The result has the text and the pointer into it, which the C code moves behind the output.\<close>

definition dlt_print_char_string ::
  "bytes \<Rightarrow> nat \<Rightarrow> int \<Rightarrow> bytes \<Rightarrow> nat \<Rightarrow> int \<Rightarrow> (DltReturnValue \<times> bytes \<times> nat) option" where
  "dlt_print_char_string t off textlength d p n =
     (if textlength \<le> 0 \<or> n < 0 \<or> textlength < n then Some (DLT_RETURN_WRONG_PARAMETER, t, off)
      else do {
        (t, off) \<leftarrow> char_loop t off d p (nat n);
        Some (DLT_RETURN_OK, t, off)
      })"

text \<open>A full line of mixed output: its number, 16 bytes as digits, and as characters.\<close>

definition line_end :: "bool \<Rightarrow> bytes" where
  "line_end html = (if html then str ''<BR>'' else [10])"

fun mixed_lines :: "bytes \<Rightarrow> nat \<Rightarrow> int \<Rightarrow> bytes \<Rightarrow> bool \<Rightarrow> nat \<Rightarrow> nat \<Rightarrow> (DltReturnValue \<times> bytes \<times> nat) option" where
  "mixed_lines t off textlength d html i 0 = Some (DLT_RETURN_OK, t, off)"
| "mixed_lines t off textlength d html i (Suc k) = do {
     t \<leftarrow> snprintf_at t off 9 (hex_text 6 (i * 16 mod 4294967296) @ str '': '');
     (ret, t) \<leftarrow> dlt_print_hex_string t (off + 8) textlength d (i * 16) 16;
     if ret_int ret < 0 then Some (DLT_RETURN_ERROR, t, off)
     else do {
       t \<leftarrow> snprintf_at t (off + 8 + 47) 2 [32];
       (ret, t, off) \<leftarrow> dlt_print_char_string t (off + 8 + 47 + 1) textlength d (i * 16) 16;
       if ret_int ret < 0 then Some (DLT_RETURN_ERROR, t, off)
       else do {
         t \<leftarrow> snprintf_at t off (length (line_end html) + 1) (line_end html);
         mixed_lines t (off + length (line_end html)) textlength d html (i + 1) k
       }
     }
   }"

fun fill_loop :: "bytes \<Rightarrow> nat \<Rightarrow> nat \<Rightarrow> (bytes \<times> nat) option" where
  "fill_loop t off 0 = Some (t, off)"
| "fill_loop t off (Suc k) = do {
     t \<leftarrow> snprintf_at t off 4 (str '' xx'');
     fill_loop t (off + 3) k
   }"

definition mixed_rest :: "bytes \<Rightarrow> nat \<Rightarrow> int \<Rightarrow> bytes \<Rightarrow> nat \<Rightarrow> nat \<Rightarrow> (DltReturnValue \<times> bytes) option" where
  "mixed_rest t off textlength d i rest = do {
     t \<leftarrow> snprintf_at t off 9 (hex_text 6 (i * 16 mod 4294967296) @ str '': '');
     (ret, t) \<leftarrow> dlt_print_hex_string t (off + 8) textlength d (i * 16) (int rest);
     if ret_int ret < 0 then Some (DLT_RETURN_ERROR, t)
     else do {
       (t, off) \<leftarrow> fill_loop t (off + 8 + (2 * rest + (rest - 1))) (16 - rest);
       t \<leftarrow> snprintf_at t off 2 [32];
       (ret, t, off) \<leftarrow> dlt_print_char_string t (off + 1) textlength d (i * 16) (int rest);
       Some (if ret_int ret < 0 then DLT_RETURN_ERROR else DLT_RETURN_OK, t)
     }
   }"

definition dlt_print_mixed_string ::
  "bytes \<Rightarrow> nat \<Rightarrow> int \<Rightarrow> bytes \<Rightarrow> int \<Rightarrow> bool \<Rightarrow> (DltReturnValue \<times> bytes) option" where
  "dlt_print_mixed_string t off textlength d n html =
     (if textlength \<le> 0 \<or> n < 0 then Some (DLT_RETURN_WRONG_PARAMETER, t)
      else if textlength < i32 ((if html then 8 + (32 + 15) + 1 + 16 + 4 else 8 + (32 + 15) + 1 + 16 + 1) * (n div 16 + 1))
        then Some (DLT_RETURN_ERROR, t)
      else do {
        (ret, t, off) \<leftarrow> mixed_lines t off textlength d html 0 (nat (n div 16));
        if ret \<noteq> DLT_RETURN_OK then Some (ret, t)
        else if n mod 16 > 0 then mixed_rest t off textlength d (nat (n div 16)) (nat (n mod 16))
        else Some (DLT_RETURN_OK, t)
      })"

end
