(* ===== verification/Dlt_Log.thy ===== *)
theory Dlt_Log
  imports Dlt_Message
begin

unbundle bit_operations_syntax

text \<open>
  Building the payload of a log message in the user library (\<^verbatim>\<open>src/lib/dlt_user.c\<close>): starting a message,
  the functions that append an argument, each with its type info, and truncation of strings that do
  not fit.

  A string argument of C is the list of its characters, without the terminating zero; a null pointer
  is \<open>None\<close>. \<open>DltUser\<close> holds the global state the functions read: the length of the log buffer, the
  mode, and whether the library is initialised. Checks for a null \<^verbatim>\<open>log\<close> are left out.
\<close>

section \<open>Data\<close>

record DltUser =
  log_buf_len :: nat
  du_verbose_mode :: int
  init_done :: bool
  freeing :: bool
  is_child :: bool
  has_ll_ts :: bool

record DltContext =
  log_level_ptr :: "int option"
  mcnt :: nat

record DltContextData =
  cd_handle :: "DltContext option"
  cd_buffer :: "bytes option"
  cd_size :: int
  cd_log_level :: int
  args_num :: int
  use_timestamp :: bool
  msid :: nat
  cd_verbose_mode :: bool

record VarInfo =
  vi_name :: "bytes option"
  vi_unit :: "bytes option"
  with_unit :: bool

datatype StringType = ASCII_STRING | UTF8_STRING

type_synonym type_info = "32 word"

definition DLT_TYPE_INFO_TYLE :: type_info where "DLT_TYPE_INFO_TYLE = 0x0000000f"
definition DLT_TYPE_INFO_BOOL :: type_info where "DLT_TYPE_INFO_BOOL = 0x00000010"
definition DLT_TYPE_INFO_SINT :: type_info where "DLT_TYPE_INFO_SINT = 0x00000020"
definition DLT_TYPE_INFO_UINT :: type_info where "DLT_TYPE_INFO_UINT = 0x00000040"
definition DLT_TYPE_INFO_FLOA :: type_info where "DLT_TYPE_INFO_FLOA = 0x00000080"
definition DLT_TYPE_INFO_STRG :: type_info where "DLT_TYPE_INFO_STRG = 0x00000200"
definition DLT_TYPE_INFO_RAWD :: type_info where "DLT_TYPE_INFO_RAWD = 0x00000400"
definition DLT_TYPE_INFO_VARI :: type_info where "DLT_TYPE_INFO_VARI = 0x00000800"
definition DLT_TYPE_INFO_FIXP :: type_info where "DLT_TYPE_INFO_FIXP = 0x00001000"
definition DLT_TYPE_INFO_TRAI :: type_info where "DLT_TYPE_INFO_TRAI = 0x00002000"
definition DLT_TYPE_INFO_SCOD :: type_info where "DLT_TYPE_INFO_SCOD = 0x00038000"
definition DLT_TYLE_8BIT :: type_info where "DLT_TYLE_8BIT = 0x00000001"
definition DLT_TYLE_16BIT :: type_info where "DLT_TYLE_16BIT = 0x00000002"
definition DLT_TYLE_32BIT :: type_info where "DLT_TYLE_32BIT = 0x00000003"
definition DLT_TYLE_64BIT :: type_info where "DLT_TYLE_64BIT = 0x00000004"
definition DLT_TYLE_128BIT :: type_info where "DLT_TYLE_128BIT = 0x00000005"
definition DLT_SCOD_ASCII :: type_info where "DLT_SCOD_ASCII = 0x00000000"
definition DLT_SCOD_UTF8 :: type_info where "DLT_SCOD_UTF8 = 0x00008000"
definition DLT_SCOD_HEX :: type_info where "DLT_SCOD_HEX = 0x00010000"
definition DLT_SCOD_BIN :: type_info where "DLT_SCOD_BIN = 0x00018000"

lemmas type_info_defs = DLT_TYPE_INFO_TYLE_def DLT_TYPE_INFO_BOOL_def DLT_TYPE_INFO_SINT_def DLT_TYPE_INFO_UINT_def
  DLT_TYPE_INFO_FLOA_def DLT_TYPE_INFO_STRG_def DLT_TYPE_INFO_RAWD_def DLT_TYPE_INFO_VARI_def DLT_TYPE_INFO_FIXP_def
  DLT_TYPE_INFO_TRAI_def DLT_TYPE_INFO_SCOD_def DLT_TYLE_8BIT_def DLT_TYLE_16BIT_def DLT_TYLE_32BIT_def DLT_TYLE_64BIT_def
  DLT_TYLE_128BIT_def DLT_SCOD_ASCII_def DLT_SCOD_UTF8_def DLT_SCOD_HEX_def DLT_SCOD_BIN_def

text \<open>\<^verbatim>\<open>DltFormatType\<close>, an enumeration without negative members and so an unsigned number.\<close>

abbreviation (input) DLT_FORMAT_DEFAULT :: nat where "DLT_FORMAT_DEFAULT \<equiv> 0"
abbreviation (input) DLT_FORMAT_HEX8 :: nat where "DLT_FORMAT_HEX8 \<equiv> 1"
abbreviation (input) DLT_FORMAT_HEX64 :: nat where "DLT_FORMAT_HEX64 \<equiv> 4"
abbreviation (input) DLT_FORMAT_BIN8 :: nat where "DLT_FORMAT_BIN8 \<equiv> 5"
abbreviation (input) DLT_FORMAT_BIN16 :: nat where "DLT_FORMAT_BIN16 \<equiv> 6"
abbreviation (input) DLT_FORMAT_MAX :: nat where "DLT_FORMAT_MAX \<equiv> 7"

definition STR_TRUNCATED_MESSAGE :: bytes where
  "STR_TRUNCATED_MESSAGE = map of_char ''... <<Message truncated, too long>>''"


section \<open>Starting a message\<close>

definition is_verbose_mode :: "DltUser \<Rightarrow> DltContextData option \<Rightarrow> bool" where
  "is_verbose_mode u log \<longleftrightarrow> du_verbose_mode u = 1 \<or> (case log of None \<Rightarrow> False | Some l \<Rightarrow> cd_verbose_mode l)"

definition dlt_user_is_logLevel_enabled :: "DltContext \<Rightarrow> int \<Rightarrow> DltReturnValue" where
  "dlt_user_is_logLevel_enabled handle loglevel =
     (if loglevel < -1 \<or> loglevel \<ge> 7 then DLT_RETURN_WRONG_PARAMETER
      else case log_level_ptr handle of
          None \<Rightarrow> DLT_RETURN_WRONG_PARAMETER
        | Some l \<Rightarrow> if loglevel \<le> l \<and> loglevel \<noteq> 0 then DLT_RETURN_TRUE else DLT_RETURN_LOGGING_DISABLED)"

text \<open>\<open>init\<close> stands for \<^verbatim>\<open>dlt_init\<close>, which connects to the daemon.\<close>

definition dlt_user_log_init ::
  "(DltUser \<Rightarrow> DltReturnValue \<times> DltUser) \<Rightarrow> DltUser \<Rightarrow> DltContext \<Rightarrow> DltContextData \<Rightarrow> DltReturnValue \<times> DltUser \<times> DltContextData" where
  "dlt_user_log_init init u handle log =
     (let (ret, u) = (if init_done u then (DLT_RETURN_OK, u) else init u) in
      if ret_int ret < 0 then (ret, u, log)
      else (ret, u, log\<lparr>cd_handle := Some handle, cd_buffer := None\<rparr>))"

definition dlt_user_log_write_start_init ::
  "(DltUser \<Rightarrow> DltReturnValue \<times> DltUser) \<Rightarrow> DltUser \<Rightarrow> DltContext \<Rightarrow> DltContextData \<Rightarrow> int \<Rightarrow> bool \<Rightarrow> DltReturnValue \<times> DltUser \<times> DltContextData" where
  "dlt_user_log_write_start_init init u handle log loglevel is_verbose =
     (let (ret, u, log) = dlt_user_log_init init u handle log in
      if ret_int ret < 0 \<or> \<not> has_ll_ts u then (DLT_RETURN_ERROR, u, log)
      else (DLT_RETURN_TRUE, u, log\<lparr>args_num := 0, cd_log_level := loglevel, cd_size := 0, use_timestamp := True,
              cd_verbose_mode := is_verbose\<rparr>))"

text \<open>Appending bytes at the end of the payload.\<close>

definition put :: "DltContextData \<Rightarrow> bytes \<Rightarrow> DltContextData option" where
  "put log d = do {
     buf \<leftarrow> cd_buffer log;
     if cd_size log < 0 then None
     else do {
       buf \<leftarrow> store_at buf (nat (cd_size log)) d;
       Some (log\<lparr>cd_buffer := Some buf, cd_size := i32 (cd_size log + int (length d))\<rparr>)
     }
   }"

text \<open>
  \<open>calloc_ok\<close> tells whether memory for the log buffer can be allocated. \<^verbatim>\<open>dlt_user_log_init\<close> has reset the
  buffer pointer when it is tested.
\<close>

definition dlt_user_log_write_start_internal ::
  "(DltUser \<Rightarrow> DltReturnValue \<times> DltUser) \<Rightarrow> bool \<Rightarrow> DltUser \<Rightarrow> DltContext \<Rightarrow> DltContextData \<Rightarrow> int \<Rightarrow> nat \<Rightarrow> bool
   \<Rightarrow> (DltReturnValue \<times> DltUser \<times> DltContextData) option" where
  "dlt_user_log_write_start_internal init calloc_ok u handle log loglevel messageid is_verbose =
     (if is_child u then Some (DLT_RETURN_ERROR, u, log)
      else if dlt_user_is_logLevel_enabled handle loglevel = DLT_RETURN_WRONG_PARAMETER
        then Some (DLT_RETURN_WRONG_PARAMETER, u, log)
      else if dlt_user_is_logLevel_enabled handle loglevel = DLT_RETURN_LOGGING_DISABLED
        then Some (DLT_RETURN_OK, u, log\<lparr>cd_handle := None\<rparr>)
      else
        let (ret, u, log) = dlt_user_log_write_start_init init u handle log loglevel is_verbose in
        if ret \<noteq> DLT_RETURN_TRUE then Some (ret, u, log)
        else
          let log = (case cd_buffer log of
                       Some _ \<Rightarrow> log\<lparr>cd_buffer := None\<rparr>
                     | None \<Rightarrow> log\<lparr>cd_buffer := (if calloc_ok then Some (replicate (log_buf_len u) 0) else None)\<rparr>) in
          if cd_buffer log = None then Some (DLT_RETURN_ERROR, u, log)
          else if is_verbose_mode u (Some log) then Some (ret, u, log)
          else if 4 > log_buf_len u then Some (DLT_RETURN_USER_BUFFER_FULL, u, log)
          else do {
            log \<leftarrow> put log (le_bytes 4 messageid);
            Some (ret, u, log\<lparr>msid := messageid\<rparr>)
          })"

definition dlt_user_log_write_start ::
  "(DltUser \<Rightarrow> DltReturnValue \<times> DltUser) \<Rightarrow> bool \<Rightarrow> DltUser \<Rightarrow> DltContext \<Rightarrow> DltContextData \<Rightarrow> int
   \<Rightarrow> (DltReturnValue \<times> DltUser \<times> DltContextData) option" where
  "dlt_user_log_write_start init calloc_ok u handle log loglevel =
     dlt_user_log_write_start_internal init calloc_ok u handle log loglevel 0xffff True"

definition dlt_user_log_write_start_id ::
  "(DltUser \<Rightarrow> DltReturnValue \<times> DltUser) \<Rightarrow> bool \<Rightarrow> DltUser \<Rightarrow> DltContext \<Rightarrow> DltContextData \<Rightarrow> int \<Rightarrow> nat
   \<Rightarrow> (DltReturnValue \<times> DltUser \<times> DltContextData) option" where
  "dlt_user_log_write_start_id init calloc_ok u handle log loglevel messageid =
     dlt_user_log_write_start_internal init calloc_ok u handle log loglevel messageid False"

definition dlt_user_log_write_start_w_given_buffer ::
  "(DltUser \<Rightarrow> DltReturnValue \<times> DltUser) \<Rightarrow> DltUser \<Rightarrow> DltContext \<Rightarrow> DltContextData \<Rightarrow> int \<Rightarrow> bytes \<Rightarrow> nat \<Rightarrow> int
   \<Rightarrow> DltReturnValue \<times> DltUser \<times> DltContextData" where
  "dlt_user_log_write_start_w_given_buffer init u handle log loglevel buffer sz n =
     (if sz = 0 \<or> sz > log_buf_len u \<or> n \<le> 0 then (DLT_RETURN_WRONG_PARAMETER, u, log)
      else if is_child u \<or> du_verbose_mode u = 0 then (DLT_RETURN_ERROR, u, log)
      else
        let (ret, u, log) = dlt_user_log_write_start_init init u handle log loglevel True in
        if ret = DLT_RETURN_TRUE then (ret, u, log\<lparr>cd_buffer := Some buffer, cd_size := int sz, args_num := n\<rparr>)
        else (ret, u, log))"


section \<open>Appending arguments\<close>

type_synonym write_result = "(DltReturnValue \<times> DltContextData) option"

definition log_bytes :: "type_info \<Rightarrow> bytes" where
  "log_bytes w = le_bytes 4 (unat w)"

text \<open>Whether the payload and \<open>n\<close> more bytes exceed the log buffer.\<close>

definition too_long :: "DltUser \<Rightarrow> DltContextData \<Rightarrow> nat \<Rightarrow> bool" where
  "too_long u log n \<longleftrightarrow> u64 (u64 (cd_size log) + int n) > int (log_buf_len u)"

text \<open>The size of an attribute with its terminating zero, as a 16 bit number, and that many of its bytes.\<close>

definition attr_size :: "bytes option \<Rightarrow> nat" where
  "attr_size name = (case name of None \<Rightarrow> 0 | Some s \<Rightarrow> (length s + 1) mod 65536)"

definition attr_bytes :: "bytes option \<Rightarrow> bytes" where
  "attr_bytes name = (case name of None \<Rightarrow> [] | Some s \<Rightarrow> take (attr_size name) (s @ [0]))"

definition count_arg :: "DltContextData \<Rightarrow> DltContextData" where
  "count_arg log = log\<lparr>args_num := i32 (args_num log + 1)\<rparr>"

definition put_var_info :: "DltContextData \<Rightarrow> VarInfo \<Rightarrow> DltContextData option" where
  "put_var_info log v = do {
     log \<leftarrow> put log (le_bytes 2 (attr_size (vi_name v)));
     log \<leftarrow> (if with_unit v then put log (le_bytes 2 (attr_size (vi_unit v))) else Some log);
     log \<leftarrow> (if attr_size (vi_name v) \<noteq> 0 then put log (attr_bytes (vi_name v)) else Some log);
     (if attr_size (vi_unit v) \<noteq> 0 then put log (attr_bytes (vi_unit v)) else Some log)
   }"

definition dlt_user_log_write_generic_attr ::
  "DltUser \<Rightarrow> DltContextData \<Rightarrow> bytes \<Rightarrow> type_info \<Rightarrow> VarInfo option \<Rightarrow> write_result" where
  "dlt_user_log_write_generic_attr u log d type_info varinfo =
     (if \<not> (init_done u \<and> \<not> freeing u) then Some (DLT_RETURN_ERROR, log)
      else if too_long u log (length d) then Some (DLT_RETURN_USER_BUFFER_FULL, log)
      else
        let needed_size = length d + 4 + (case varinfo of
              None \<Rightarrow> 0
            | Some v \<Rightarrow> 2 + attr_size (vi_name v) + (if with_unit v then 2 + attr_size (vi_unit v) else 0)) in
        if is_verbose_mode u (Some log) \<and> too_long u log needed_size then Some (DLT_RETURN_USER_BUFFER_FULL, log)
        else do {
          log \<leftarrow> (if is_verbose_mode u (Some log) then do {
                     log \<leftarrow> put log (log_bytes (case varinfo of None \<Rightarrow> type_info | Some _ \<Rightarrow> type_info OR DLT_TYPE_INFO_VARI));
                     (case varinfo of None \<Rightarrow> Some log | Some v \<Rightarrow> put_var_info log v)
                   }
                   else Some log);
          log \<leftarrow> put log d;
          Some (DLT_RETURN_OK, count_arg log)
        })"

text \<open>The format hint of an integer goes into the bits for the coding of strings.\<close>

definition format_hint :: "nat \<Rightarrow> type_info \<Rightarrow> type_info" where
  "format_hint type type_info =
     (if DLT_FORMAT_HEX8 \<le> type \<and> type \<le> DLT_FORMAT_HEX64 then type_info OR DLT_SCOD_HEX
      else if DLT_FORMAT_BIN8 \<le> type \<and> type \<le> DLT_FORMAT_BIN16 then type_info OR DLT_SCOD_BIN
      else type_info)"

definition valid_format :: "nat \<Rightarrow> bool" where
  "valid_format type \<longleftrightarrow> int DLT_FORMAT_DEFAULT \<le> i16 (int type) \<and> type < DLT_FORMAT_MAX"

definition dlt_user_log_write_generic_formatted ::
  "DltUser \<Rightarrow> DltContextData \<Rightarrow> bytes \<Rightarrow> type_info \<Rightarrow> nat \<Rightarrow> write_result" where
  "dlt_user_log_write_generic_formatted u log d type_info type =
     (if \<not> valid_format type then Some (DLT_RETURN_WRONG_PARAMETER, log)
      else if \<not> init_done u then Some (DLT_RETURN_ERROR, log)
      else if too_long u log (length d) \<or> (is_verbose_mode u (Some log) \<and> too_long u log (length d + 4))
        then Some (DLT_RETURN_USER_BUFFER_FULL, log)
      else do {
        log \<leftarrow> (if is_verbose_mode u (Some log) then put log (log_bytes (format_hint type type_info)) else Some log);
        log \<leftarrow> put log d;
        Some (DLT_RETURN_OK, count_arg log)
      })"

definition raw_hint :: "nat \<Rightarrow> type_info \<Rightarrow> type_info" where
  "raw_hint type type_info =
     (if DLT_FORMAT_HEX8 \<le> type \<and> type \<le> DLT_FORMAT_HEX64 then (type_info OR DLT_SCOD_HEX) + of_nat type
      else if DLT_FORMAT_BIN8 \<le> type \<and> type \<le> DLT_FORMAT_BIN16
        then (type_info OR DLT_SCOD_BIN) + of_nat (type - DLT_FORMAT_BIN8 + 1)
      else type_info)"

text \<open>A null pointer for no data is \<open>None\<close>; the length is that of the data.\<close>

definition dlt_user_log_write_raw_internal ::
  "DltUser \<Rightarrow> DltContextData \<Rightarrow> bytes option \<Rightarrow> nat \<Rightarrow> bytes option \<Rightarrow> bool \<Rightarrow> write_result" where
  "dlt_user_log_write_raw_internal u log d type name with_var_info =
     (let n = (case d of None \<Rightarrow> 0 | Some b \<Rightarrow> length b);
          needed_size = n + 2 + 4 + (if with_var_info then 2 + attr_size name else 0) in
      if \<not> valid_format type then Some (DLT_RETURN_WRONG_PARAMETER, log)
      else if \<not> init_done u then Some (DLT_RETURN_ERROR, log)
      else if too_long u log (n + 2) \<or> (is_verbose_mode u (Some log) \<and> too_long u log needed_size)
        then Some (DLT_RETURN_USER_BUFFER_FULL, log)
      else do {
        log \<leftarrow> (if is_verbose_mode u (Some log)
                 then put log (log_bytes (raw_hint type
                        (if with_var_info then DLT_TYPE_INFO_RAWD OR DLT_TYPE_INFO_VARI else DLT_TYPE_INFO_RAWD)))
                 else Some log);
        log \<leftarrow> put log (le_bytes 2 n);
        log \<leftarrow> (if is_verbose_mode u (Some log) \<and> with_var_info then do {
                   log \<leftarrow> put log (le_bytes 2 (attr_size name));
                   (if attr_size name \<noteq> 0 then put log (attr_bytes name) else Some log)
                 }
                 else Some log);
        (case d of
           None \<Rightarrow> Some (DLT_RETURN_OK, log)
         | Some b \<Rightarrow> do { log \<leftarrow> put log b; Some (DLT_RETURN_OK, count_arg log) })
      })"

subsection \<open>Raw data\<close>

definition dlt_user_log_write_raw :: "DltUser \<Rightarrow> DltContextData \<Rightarrow> bytes option \<Rightarrow> write_result" where
  "dlt_user_log_write_raw u log d =
     dlt_user_log_write_raw_internal u log d DLT_FORMAT_DEFAULT None False"

definition dlt_user_log_write_raw_formatted :: "DltUser \<Rightarrow> DltContextData \<Rightarrow> bytes option \<Rightarrow> nat \<Rightarrow> write_result" where
  "dlt_user_log_write_raw_formatted u log d type =
     dlt_user_log_write_raw_internal u log d type None False"

definition dlt_user_log_write_raw_attr :: "DltUser \<Rightarrow> DltContextData \<Rightarrow> bytes option \<Rightarrow> bytes option \<Rightarrow> write_result" where
  "dlt_user_log_write_raw_attr u log d name =
     dlt_user_log_write_raw_internal u log d DLT_FORMAT_DEFAULT name True"

definition dlt_user_log_write_raw_formatted_attr :: "DltUser \<Rightarrow> DltContextData \<Rightarrow> bytes option \<Rightarrow> nat \<Rightarrow> bytes option \<Rightarrow> write_result" where
  "dlt_user_log_write_raw_formatted_attr u log d type name =
     dlt_user_log_write_raw_internal u log d type name True"

subsection \<open>Numbers\<close>

text \<open>
  Floating point numbers are given by their bit patterns. \<^verbatim>\<open>int\<close> and \<^verbatim>\<open>unsigned int\<close> have 32 bits and pointers 64.
\<close>

definition attributes :: "bytes option \<Rightarrow> bytes option \<Rightarrow> VarInfo" where
  "attributes name unit = \<lparr>vi_name = name, vi_unit = unit, with_unit = True\<rparr>"

definition int_bytes :: "nat \<Rightarrow> int \<Rightarrow> bytes" where
  "int_bytes n d = le_bytes n (nat (d mod 2 ^ (8 * n)))"

definition dlt_user_log_write_float32 :: "DltUser \<Rightarrow> DltContextData \<Rightarrow> nat \<Rightarrow> write_result" where
  "dlt_user_log_write_float32 u log d =
     dlt_user_log_write_generic_attr u log (le_bytes 4 d) (DLT_TYPE_INFO_FLOA OR DLT_TYLE_32BIT) None"

definition dlt_user_log_write_float64 :: "DltUser \<Rightarrow> DltContextData \<Rightarrow> nat \<Rightarrow> write_result" where
  "dlt_user_log_write_float64 u log d =
     dlt_user_log_write_generic_attr u log (le_bytes 8 d) (DLT_TYPE_INFO_FLOA OR DLT_TYLE_64BIT) None"

definition dlt_user_log_write_float32_attr :: "DltUser \<Rightarrow> DltContextData \<Rightarrow> nat \<Rightarrow> bytes option \<Rightarrow> bytes option \<Rightarrow> write_result" where
  "dlt_user_log_write_float32_attr u log d name unit =
     dlt_user_log_write_generic_attr u log (le_bytes 4 d) (DLT_TYPE_INFO_FLOA OR DLT_TYLE_32BIT) (Some (attributes name unit))"

definition dlt_user_log_write_float64_attr :: "DltUser \<Rightarrow> DltContextData \<Rightarrow> nat \<Rightarrow> bytes option \<Rightarrow> bytes option \<Rightarrow> write_result" where
  "dlt_user_log_write_float64_attr u log d name unit =
     dlt_user_log_write_generic_attr u log (le_bytes 8 d) (DLT_TYPE_INFO_FLOA OR DLT_TYLE_64BIT) (Some (attributes name unit))"

definition dlt_user_log_write_uint8 :: "DltUser \<Rightarrow> DltContextData \<Rightarrow> nat \<Rightarrow> write_result" where
  "dlt_user_log_write_uint8 u log d =
     dlt_user_log_write_generic_attr u log (le_bytes 1 d) (DLT_TYPE_INFO_UINT OR DLT_TYLE_8BIT) None"

definition dlt_user_log_write_uint16 :: "DltUser \<Rightarrow> DltContextData \<Rightarrow> nat \<Rightarrow> write_result" where
  "dlt_user_log_write_uint16 u log d =
     dlt_user_log_write_generic_attr u log (le_bytes 2 d) (DLT_TYPE_INFO_UINT OR DLT_TYLE_16BIT) None"

definition dlt_user_log_write_uint32 :: "DltUser \<Rightarrow> DltContextData \<Rightarrow> nat \<Rightarrow> write_result" where
  "dlt_user_log_write_uint32 u log d =
     dlt_user_log_write_generic_attr u log (le_bytes 4 d) (DLT_TYPE_INFO_UINT OR DLT_TYLE_32BIT) None"

definition dlt_user_log_write_uint64 :: "DltUser \<Rightarrow> DltContextData \<Rightarrow> nat \<Rightarrow> write_result" where
  "dlt_user_log_write_uint64 u log d =
     dlt_user_log_write_generic_attr u log (le_bytes 8 d) (DLT_TYPE_INFO_UINT OR DLT_TYLE_64BIT) None"

definition dlt_user_log_write_uint :: "DltUser \<Rightarrow> DltContextData \<Rightarrow> nat \<Rightarrow> write_result" where
  "dlt_user_log_write_uint u log d =
     (if \<not> (init_done u \<and> \<not> freeing u) then Some (DLT_RETURN_ERROR, log)
      else dlt_user_log_write_uint32 u log d)"

definition dlt_user_log_write_uint8_attr :: "DltUser \<Rightarrow> DltContextData \<Rightarrow> nat \<Rightarrow> bytes option \<Rightarrow> bytes option \<Rightarrow> write_result" where
  "dlt_user_log_write_uint8_attr u log d name unit =
     dlt_user_log_write_generic_attr u log (le_bytes 1 d) (DLT_TYPE_INFO_UINT OR DLT_TYLE_8BIT) (Some (attributes name unit))"

definition dlt_user_log_write_uint16_attr :: "DltUser \<Rightarrow> DltContextData \<Rightarrow> nat \<Rightarrow> bytes option \<Rightarrow> bytes option \<Rightarrow> write_result" where
  "dlt_user_log_write_uint16_attr u log d name unit =
     dlt_user_log_write_generic_attr u log (le_bytes 2 d) (DLT_TYPE_INFO_UINT OR DLT_TYLE_16BIT) (Some (attributes name unit))"

definition dlt_user_log_write_uint32_attr :: "DltUser \<Rightarrow> DltContextData \<Rightarrow> nat \<Rightarrow> bytes option \<Rightarrow> bytes option \<Rightarrow> write_result" where
  "dlt_user_log_write_uint32_attr u log d name unit =
     dlt_user_log_write_generic_attr u log (le_bytes 4 d) (DLT_TYPE_INFO_UINT OR DLT_TYLE_32BIT) (Some (attributes name unit))"

definition dlt_user_log_write_uint64_attr :: "DltUser \<Rightarrow> DltContextData \<Rightarrow> nat \<Rightarrow> bytes option \<Rightarrow> bytes option \<Rightarrow> write_result" where
  "dlt_user_log_write_uint64_attr u log d name unit =
     dlt_user_log_write_generic_attr u log (le_bytes 8 d) (DLT_TYPE_INFO_UINT OR DLT_TYLE_64BIT) (Some (attributes name unit))"

definition dlt_user_log_write_uint_attr :: "DltUser \<Rightarrow> DltContextData \<Rightarrow> nat \<Rightarrow> bytes option \<Rightarrow> bytes option \<Rightarrow> write_result" where
  "dlt_user_log_write_uint_attr u log d name unit =
     (if \<not> (init_done u \<and> \<not> freeing u) then Some (DLT_RETURN_ERROR, log)
      else dlt_user_log_write_uint32_attr u log d name unit)"

definition dlt_user_log_write_uint8_formatted :: "DltUser \<Rightarrow> DltContextData \<Rightarrow> nat \<Rightarrow> nat \<Rightarrow> write_result" where
  "dlt_user_log_write_uint8_formatted u log d type =
     dlt_user_log_write_generic_formatted u log (le_bytes 1 d) (DLT_TYPE_INFO_UINT OR DLT_TYLE_8BIT) type"

definition dlt_user_log_write_uint16_formatted :: "DltUser \<Rightarrow> DltContextData \<Rightarrow> nat \<Rightarrow> nat \<Rightarrow> write_result" where
  "dlt_user_log_write_uint16_formatted u log d type =
     dlt_user_log_write_generic_formatted u log (le_bytes 2 d) (DLT_TYPE_INFO_UINT OR DLT_TYLE_16BIT) type"

definition dlt_user_log_write_uint32_formatted :: "DltUser \<Rightarrow> DltContextData \<Rightarrow> nat \<Rightarrow> nat \<Rightarrow> write_result" where
  "dlt_user_log_write_uint32_formatted u log d type =
     dlt_user_log_write_generic_formatted u log (le_bytes 4 d) (DLT_TYPE_INFO_UINT OR DLT_TYLE_32BIT) type"

definition dlt_user_log_write_uint64_formatted :: "DltUser \<Rightarrow> DltContextData \<Rightarrow> nat \<Rightarrow> nat \<Rightarrow> write_result" where
  "dlt_user_log_write_uint64_formatted u log d type =
     dlt_user_log_write_generic_formatted u log (le_bytes 8 d) (DLT_TYPE_INFO_UINT OR DLT_TYLE_64BIT) type"

definition dlt_user_log_write_ptr :: "DltUser \<Rightarrow> DltContextData \<Rightarrow> nat \<Rightarrow> write_result" where
  "dlt_user_log_write_ptr u log d =
     (if \<not> (init_done u \<and> \<not> freeing u) then Some (DLT_RETURN_ERROR, log)
      else dlt_user_log_write_uint64_formatted u log d DLT_FORMAT_HEX64)"

definition dlt_user_log_write_int8 :: "DltUser \<Rightarrow> DltContextData \<Rightarrow> int \<Rightarrow> write_result" where
  "dlt_user_log_write_int8 u log d =
     dlt_user_log_write_generic_attr u log (int_bytes 1 d) (DLT_TYPE_INFO_SINT OR DLT_TYLE_8BIT) None"

definition dlt_user_log_write_int16 :: "DltUser \<Rightarrow> DltContextData \<Rightarrow> int \<Rightarrow> write_result" where
  "dlt_user_log_write_int16 u log d =
     dlt_user_log_write_generic_attr u log (int_bytes 2 d) (DLT_TYPE_INFO_SINT OR DLT_TYLE_16BIT) None"

definition dlt_user_log_write_int32 :: "DltUser \<Rightarrow> DltContextData \<Rightarrow> int \<Rightarrow> write_result" where
  "dlt_user_log_write_int32 u log d =
     dlt_user_log_write_generic_attr u log (int_bytes 4 d) (DLT_TYPE_INFO_SINT OR DLT_TYLE_32BIT) None"

definition dlt_user_log_write_int64 :: "DltUser \<Rightarrow> DltContextData \<Rightarrow> int \<Rightarrow> write_result" where
  "dlt_user_log_write_int64 u log d =
     dlt_user_log_write_generic_attr u log (int_bytes 8 d) (DLT_TYPE_INFO_SINT OR DLT_TYLE_64BIT) None"

definition dlt_user_log_write_int :: "DltUser \<Rightarrow> DltContextData \<Rightarrow> int \<Rightarrow> write_result" where
  "dlt_user_log_write_int u log d =
     (if \<not> (init_done u \<and> \<not> freeing u) then Some (DLT_RETURN_ERROR, log)
      else dlt_user_log_write_int32 u log d)"

definition dlt_user_log_write_int8_attr :: "DltUser \<Rightarrow> DltContextData \<Rightarrow> int \<Rightarrow> bytes option \<Rightarrow> bytes option \<Rightarrow> write_result" where
  "dlt_user_log_write_int8_attr u log d name unit =
     dlt_user_log_write_generic_attr u log (int_bytes 1 d) (DLT_TYPE_INFO_SINT OR DLT_TYLE_8BIT) (Some (attributes name unit))"

definition dlt_user_log_write_int16_attr :: "DltUser \<Rightarrow> DltContextData \<Rightarrow> int \<Rightarrow> bytes option \<Rightarrow> bytes option \<Rightarrow> write_result" where
  "dlt_user_log_write_int16_attr u log d name unit =
     dlt_user_log_write_generic_attr u log (int_bytes 2 d) (DLT_TYPE_INFO_SINT OR DLT_TYLE_16BIT) (Some (attributes name unit))"

definition dlt_user_log_write_int32_attr :: "DltUser \<Rightarrow> DltContextData \<Rightarrow> int \<Rightarrow> bytes option \<Rightarrow> bytes option \<Rightarrow> write_result" where
  "dlt_user_log_write_int32_attr u log d name unit =
     dlt_user_log_write_generic_attr u log (int_bytes 4 d) (DLT_TYPE_INFO_SINT OR DLT_TYLE_32BIT) (Some (attributes name unit))"

definition dlt_user_log_write_int64_attr :: "DltUser \<Rightarrow> DltContextData \<Rightarrow> int \<Rightarrow> bytes option \<Rightarrow> bytes option \<Rightarrow> write_result" where
  "dlt_user_log_write_int64_attr u log d name unit =
     dlt_user_log_write_generic_attr u log (int_bytes 8 d) (DLT_TYPE_INFO_SINT OR DLT_TYLE_64BIT) (Some (attributes name unit))"

definition dlt_user_log_write_int_attr :: "DltUser \<Rightarrow> DltContextData \<Rightarrow> int \<Rightarrow> bytes option \<Rightarrow> bytes option \<Rightarrow> write_result" where
  "dlt_user_log_write_int_attr u log d name unit =
     (if \<not> (init_done u \<and> \<not> freeing u) then Some (DLT_RETURN_ERROR, log)
      else dlt_user_log_write_int32_attr u log d name unit)"

definition dlt_user_log_write_bool :: "DltUser \<Rightarrow> DltContextData \<Rightarrow> nat \<Rightarrow> write_result" where
  "dlt_user_log_write_bool u log d =
     dlt_user_log_write_generic_attr u log (le_bytes 1 d) (DLT_TYPE_INFO_BOOL OR DLT_TYLE_8BIT) None"

definition dlt_user_log_write_bool_attr :: "DltUser \<Rightarrow> DltContextData \<Rightarrow> nat \<Rightarrow> bytes option \<Rightarrow> write_result" where
  "dlt_user_log_write_bool_attr u log d name =
     dlt_user_log_write_generic_attr u log (le_bytes 1 d) (DLT_TYPE_INFO_BOOL OR DLT_TYLE_8BIT) (Some \<lparr>vi_name = name, vi_unit = None, with_unit = False\<rparr>)"

subsection \<open>Strings\<close>

text \<open>
  How many bytes the cut behind \<open>n\<close> bytes must move back not to divide a character of UTF-8. The C code
  looks at the last three bytes in front of the cut.
\<close>

definition byte_before :: "bytes \<Rightarrow> nat \<Rightarrow> nat \<Rightarrow> byte option" where
  "byte_before text n k = (if n < k then None else byte_at text (n - k))"

definition utf8_reduce :: "bytes \<Rightarrow> nat \<Rightarrow> nat option" where
  "utf8_reduce text n = do {
     t2 \<leftarrow> byte_before text n 1;
     if t2 AND 0x80 = 0 then Some 0
     else if t2 AND 0x40 \<noteq> 0 then Some 1
     else do {
       t1 \<leftarrow> byte_before text n 2;
       if t1 AND 0xe0 = 0xe0 then Some 2
       else do {
         t0 \<leftarrow> byte_before text n 3;
         Some (if t0 AND 0xf0 = 0xf0 then 3 else 0)
       }
     }
   }"

definition str_truncate_message_length :: nat where
  "str_truncate_message_length = length STR_TRUNCATED_MESSAGE + 1"

text \<open>The bytes of a string argument besides the length and the text.\<close>

definition string_extra :: "DltUser \<Rightarrow> DltContextData \<Rightarrow> bytes option \<Rightarrow> bool \<Rightarrow> nat" where
  "string_extra u log name with_var_info =
     (if is_verbose_mode u (Some log) then 4 + (if with_var_info then 2 + attr_size name else 0) else 0)"

text \<open>The type info, the length and the name of a string argument.\<close>

definition put_string_head ::
  "DltUser \<Rightarrow> DltContextData \<Rightarrow> StringType \<Rightarrow> nat \<Rightarrow> bytes option \<Rightarrow> bool \<Rightarrow> DltContextData option" where
  "put_string_head u log type arg_size name with_var_info = do {
     log \<leftarrow> (if is_verbose_mode u (Some log)
              then put log (log_bytes ((if with_var_info then DLT_TYPE_INFO_VARI else 0)
                     OR (DLT_TYPE_INFO_STRG OR (case type of ASCII_STRING \<Rightarrow> DLT_SCOD_ASCII | UTF8_STRING \<Rightarrow> DLT_SCOD_UTF8))))
              else Some log);
     log \<leftarrow> put log (le_bytes 2 arg_size);
     (if is_verbose_mode u (Some log) \<and> with_var_info then do {
        log \<leftarrow> put log (le_bytes 2 (attr_size name));
        (if attr_size name \<noteq> 0 then put log (attr_bytes name) else Some log)
      }
      else Some log)
   }"

definition put_text :: "DltContextData \<Rightarrow> bytes \<Rightarrow> nat \<Rightarrow> bytes \<Rightarrow> DltContextData option" where
  "put_text log text n end_text = do {
     part \<leftarrow> load_at text 0 n;
     log \<leftarrow> put log part;
     log \<leftarrow> put log end_text;
     Some (count_arg log)
   }"

definition dlt_user_log_write_sized_string_utils_attr ::
  "DltUser \<Rightarrow> DltContextData \<Rightarrow> bytes option \<Rightarrow> nat \<Rightarrow> StringType \<Rightarrow> bytes option \<Rightarrow> bool \<Rightarrow> write_result" where
  "dlt_user_log_write_sized_string_utils_attr u log text_ptr n type name with_var_info =
     (case text_ptr of None \<Rightarrow> Some (DLT_RETURN_WRONG_PARAMETER, log)
      | Some text \<Rightarrow>
        let extra = string_extra u log name with_var_info;
            min_payload = u64 (u64 (cd_size log) + int str_truncate_message_length + 2 + int extra) in
        if \<not> (init_done u \<and> \<not> freeing u) then Some (DLT_RETURN_ERROR, log)
        else if u64 (u64 (cd_size log) + int n + 1 + 2 + int extra) \<le> int (log_buf_len u) then do {
          log \<leftarrow> put_string_head u log type (n + 1) name with_var_info;
          log \<leftarrow> put_text log text n [0];
          Some (DLT_RETURN_OK, log)
        }
        else if min_payload > int (log_buf_len u) then Some (DLT_RETURN_USER_BUFFER_FULL, log)
        else do {
          let max_payload = nat (int (log_buf_len u) - min_payload);
          let arg_size = nat (u64 (int (log_buf_len u) - u64 (cd_size log) - 2 - int extra));
          reduce \<leftarrow> (case type of ASCII_STRING \<Rightarrow> Some 0 | UTF8_STRING \<Rightarrow> utf8_reduce text max_payload);
          log \<leftarrow> put_string_head u log type (arg_size - reduce) name with_var_info;
          log \<leftarrow> put_text log text (max_payload - reduce) (STR_TRUNCATED_MESSAGE @ [0]);
          Some (DLT_RETURN_USER_BUFFER_FULL, log)
        })"

text \<open>A string with its terminating zero behind it.\<close>

definition dlt_user_log_write_string_utils_attr ::
  "DltUser \<Rightarrow> DltContextData \<Rightarrow> bytes option \<Rightarrow> StringType \<Rightarrow> bytes option \<Rightarrow> bool \<Rightarrow> write_result" where
  "dlt_user_log_write_string_utils_attr u log text_ptr type name with_var_info =
     (case text_ptr of None \<Rightarrow> Some (DLT_RETURN_WRONG_PARAMETER, log)
      | Some s \<Rightarrow> dlt_user_log_write_sized_string_utils_attr u log (Some (s @ [0])) (length s) type name with_var_info)"

definition dlt_user_log_write_string :: "DltUser \<Rightarrow> DltContextData \<Rightarrow> bytes option \<Rightarrow> write_result" where
  "dlt_user_log_write_string u log text =
     dlt_user_log_write_string_utils_attr u log text ASCII_STRING None False"

definition dlt_user_log_write_string_attr :: "DltUser \<Rightarrow> DltContextData \<Rightarrow> bytes option \<Rightarrow> bytes option \<Rightarrow> write_result" where
  "dlt_user_log_write_string_attr u log text name =
     dlt_user_log_write_string_utils_attr u log text ASCII_STRING name True"

definition dlt_user_log_write_sized_string :: "DltUser \<Rightarrow> DltContextData \<Rightarrow> bytes option \<Rightarrow> nat \<Rightarrow> write_result" where
  "dlt_user_log_write_sized_string u log text n =
     dlt_user_log_write_sized_string_utils_attr u log text n ASCII_STRING None False"

definition dlt_user_log_write_sized_string_attr :: "DltUser \<Rightarrow> DltContextData \<Rightarrow> bytes option \<Rightarrow> nat \<Rightarrow> bytes option \<Rightarrow> write_result" where
  "dlt_user_log_write_sized_string_attr u log text n name =
     dlt_user_log_write_sized_string_utils_attr u log text n ASCII_STRING name True"

definition dlt_user_log_write_constant_string :: "DltUser \<Rightarrow> DltContextData \<Rightarrow> bytes option \<Rightarrow> write_result" where
  "dlt_user_log_write_constant_string u log text =
     (if is_verbose_mode u (Some log) then dlt_user_log_write_string u log text else Some (DLT_RETURN_OK, log))"

definition dlt_user_log_write_constant_string_attr :: "DltUser \<Rightarrow> DltContextData \<Rightarrow> bytes option \<Rightarrow> bytes option \<Rightarrow> write_result" where
  "dlt_user_log_write_constant_string_attr u log text name =
     (if is_verbose_mode u (Some log) then dlt_user_log_write_string_attr u log text name else Some (DLT_RETURN_OK, log))"

definition dlt_user_log_write_sized_constant_string :: "DltUser \<Rightarrow> DltContextData \<Rightarrow> bytes option \<Rightarrow> nat \<Rightarrow> write_result" where
  "dlt_user_log_write_sized_constant_string u log text n =
     (if is_verbose_mode u (Some log) then dlt_user_log_write_sized_string u log text n else Some (DLT_RETURN_OK, log))"

definition dlt_user_log_write_sized_constant_string_attr :: "DltUser \<Rightarrow> DltContextData \<Rightarrow> bytes option \<Rightarrow> nat \<Rightarrow> bytes option \<Rightarrow> write_result" where
  "dlt_user_log_write_sized_constant_string_attr u log text n name =
     (if is_verbose_mode u (Some log) then dlt_user_log_write_sized_string_attr u log text n name else Some (DLT_RETURN_OK, log))"

definition dlt_user_log_write_utf8_string :: "DltUser \<Rightarrow> DltContextData \<Rightarrow> bytes option \<Rightarrow> write_result" where
  "dlt_user_log_write_utf8_string u log text =
     dlt_user_log_write_string_utils_attr u log text UTF8_STRING None False"

definition dlt_user_log_write_utf8_string_attr :: "DltUser \<Rightarrow> DltContextData \<Rightarrow> bytes option \<Rightarrow> bytes option \<Rightarrow> write_result" where
  "dlt_user_log_write_utf8_string_attr u log text name =
     dlt_user_log_write_string_utils_attr u log text UTF8_STRING name True"

definition dlt_user_log_write_sized_utf8_string :: "DltUser \<Rightarrow> DltContextData \<Rightarrow> bytes option \<Rightarrow> nat \<Rightarrow> write_result" where
  "dlt_user_log_write_sized_utf8_string u log text n =
     dlt_user_log_write_sized_string_utils_attr u log text n UTF8_STRING None False"

definition dlt_user_log_write_sized_utf8_string_attr :: "DltUser \<Rightarrow> DltContextData \<Rightarrow> bytes option \<Rightarrow> nat \<Rightarrow> bytes option \<Rightarrow> write_result" where
  "dlt_user_log_write_sized_utf8_string_attr u log text n name =
     dlt_user_log_write_sized_string_utils_attr u log text n UTF8_STRING name True"

definition dlt_user_log_write_constant_utf8_string :: "DltUser \<Rightarrow> DltContextData \<Rightarrow> bytes option \<Rightarrow> write_result" where
  "dlt_user_log_write_constant_utf8_string u log text =
     (if is_verbose_mode u (Some log) then dlt_user_log_write_utf8_string u log text else Some (DLT_RETURN_OK, log))"

definition dlt_user_log_write_constant_utf8_string_attr :: "DltUser \<Rightarrow> DltContextData \<Rightarrow> bytes option \<Rightarrow> bytes option \<Rightarrow> write_result" where
  "dlt_user_log_write_constant_utf8_string_attr u log text name =
     (if is_verbose_mode u (Some log) then dlt_user_log_write_utf8_string_attr u log text name else Some (DLT_RETURN_OK, log))"

definition dlt_user_log_write_sized_constant_utf8_string :: "DltUser \<Rightarrow> DltContextData \<Rightarrow> bytes option \<Rightarrow> nat \<Rightarrow> write_result" where
  "dlt_user_log_write_sized_constant_utf8_string u log text n =
     (if is_verbose_mode u (Some log) then dlt_user_log_write_sized_utf8_string u log text n else Some (DLT_RETURN_OK, log))"

definition dlt_user_log_write_sized_constant_utf8_string_attr :: "DltUser \<Rightarrow> DltContextData \<Rightarrow> bytes option \<Rightarrow> nat \<Rightarrow> bytes option \<Rightarrow> write_result" where
  "dlt_user_log_write_sized_constant_utf8_string_attr u log text n name =
     (if is_verbose_mode u (Some log) then dlt_user_log_write_sized_utf8_string_attr u log text n name else Some (DLT_RETURN_OK, log))"


section \<open>What a write appends\<close>

text \<open>The payload, the room behind it, and the log data after appending bytes that fit.\<close>

definition payload :: "DltContextData \<Rightarrow> bytes" where
  "payload log = take (nat (cd_size log)) (the (cd_buffer log))"

definition room :: "DltContextData \<Rightarrow> int" where
  "room log = (case cd_buffer log of None \<Rightarrow> -1 | Some b \<Rightarrow> int (length b) - cd_size log)"

definition log_wf :: "DltContextData \<Rightarrow> bool" where
  "log_wf log \<longleftrightarrow> 0 \<le> cd_size log \<and> 0 \<le> room log \<and> cd_size log + room log < 65536"

definition ext :: "DltContextData \<Rightarrow> bytes \<Rightarrow> DltContextData" where
  "ext log d = log\<lparr>cd_buffer := map_option (\<lambda>b. take (nat (cd_size log)) b @ d @ drop (nat (cd_size log) + length d) b) (cd_buffer log),
                  cd_size := cd_size log + int (length d)\<rparr>"

lemma ext_fields [simp]:
  "cd_size (ext log d) = cd_size log + int (length d)" "args_num (ext log d) = args_num log"
  "cd_verbose_mode (ext log d) = cd_verbose_mode log" "is_verbose_mode u (Some (ext log d)) = is_verbose_mode u (Some log)"
  by (auto simp: ext_def is_verbose_mode_def)

lemma count_arg_fields [simp]:
  "cd_size (count_arg log) = cd_size log" "cd_buffer (count_arg log) = cd_buffer log"
  "is_verbose_mode u (Some (count_arg log)) = is_verbose_mode u (Some log)" "args_num (count_arg log) = i32 (args_num log + 1)"
  "room (count_arg log) = room log" "log_wf (count_arg log) = log_wf log" "payload (count_arg log) = payload log"
  by (auto simp: count_arg_def is_verbose_mode_def room_def log_wf_def payload_def split: option.splits)

lemma put_ext [simp]:
  assumes "log_wf log" "int (length d) \<le> room log"
  shows "put log d = Some (ext log d)"
proof -
  obtain b where b: "cd_buffer log = Some b" "0 \<le> cd_size log" "cd_size log + int (length d) \<le> int (length b)"
      "int (length b) < 65536"
    using assms by (auto simp: log_wf_def room_def split: option.splits)
  then have "nat (cd_size log) + length d \<le> length b" by linarith
  then show ?thesis using b by (simp add: put_def store_at_def ext_def c_casts)
qed

lemma room_ext [simp]:
  assumes "log_wf log" "int (length d) \<le> room log"
  shows "room (ext log d) = room log - int (length d)"
  using assms by (auto simp: log_wf_def room_def ext_def split: option.splits)

lemma log_wf_ext [simp]: "log_wf log \<Longrightarrow> int (length d) \<le> room log \<Longrightarrow> log_wf (ext log d)"
  using room_ext [of log d] by (auto simp: log_wf_def)

lemma payload_ext [simp]:
  assumes "log_wf log" "int (length d) \<le> room log"
  shows "payload (ext log d) = payload log @ d"
proof -
  obtain b n where "cd_buffer log = Some b" "cd_size log = int n" "n \<le> length b"
    using assms by (auto simp: log_wf_def room_def split: option.splits intro: that [of _ "nat (cd_size log)"])
  then show ?thesis by (simp add: payload_def ext_def nat_add_distrib)
qed

lemma length_attr_bytes [simp]: "length (attr_bytes name) = attr_size name"
  by (cases name) (simp_all add: attr_bytes_def attr_size_def)

lemma attr_bytes_empty: "attr_size name = 0 \<Longrightarrow> attr_bytes name = []"
  by (metis length_0_conv length_attr_bytes)

lemma length_log_bytes [simp]: "length (log_bytes w) = 4"
  by (simp add: log_bytes_def)

text \<open>Appending bytes twice is appending them at once.\<close>

lemma ext_ext [simp]:
  assumes "log_wf log" "int (length d) + int (length e) \<le> room log"
  shows "ext (ext log d) e = ext log (d @ e)"
proof -
  obtain b n where "cd_buffer log = Some b" "cd_size log = int n" "n + length d + length e \<le> length b"
    using assms by (auto simp: log_wf_def room_def split: option.splits intro!: that [of _ "nat (cd_size log)"])
  then show ?thesis by (simp add: ext_def nat_add_distrib ac_simps)
qed

lemma ext_Nil [simp]: "log_wf log \<Longrightarrow> ext log [] = log"
  by (auto simp: ext_def log_wf_def room_def split: option.splits)

text \<open>
  The reference encoding of an argument. In verbose mode it begins with the type info, and a name and a
  unit follow when the argument has attributes; in non-verbose mode there is only the value.
\<close>

datatype log_arg =
    Value type_info "VarInfo option" bytes
  | Raw type_info "bytes option option" bytes
  | Text StringType "bytes option option" bytes

definition encode_name :: "bytes option option \<Rightarrow> bytes" where
  "encode_name nm = (case nm of None \<Rightarrow> [] | Some name \<Rightarrow> le_bytes 2 (attr_size name) @ attr_bytes name)"

definition with_vari :: "'a option \<Rightarrow> type_info \<Rightarrow> type_info" where
  "with_vari nm t = (if nm = None then t else t OR DLT_TYPE_INFO_VARI)"

definition text_info :: "StringType \<Rightarrow> type_info" where
  "text_info type = DLT_TYPE_INFO_STRG OR (case type of ASCII_STRING \<Rightarrow> DLT_SCOD_ASCII | UTF8_STRING \<Rightarrow> DLT_SCOD_UTF8)"

fun encode :: "bool \<Rightarrow> log_arg \<Rightarrow> bytes" where
  "encode v (Value t vi d) =
     (if v then log_bytes (with_vari vi t) @ (case vi of None \<Rightarrow> [] | Some i \<Rightarrow>
          le_bytes 2 (attr_size (vi_name i)) @ (if with_unit i then le_bytes 2 (attr_size (vi_unit i)) else [])
          @ attr_bytes (vi_name i) @ attr_bytes (vi_unit i))
      else []) @ d"
| "encode v (Raw t nm d) =
     (if v then log_bytes t else []) @ le_bytes 2 (length d) @ (if v then encode_name nm else []) @ d"
| "encode v (Text type nm d) =
     (if v then log_bytes (with_vari nm (text_info type)) else []) @ le_bytes 2 (length d + 1)
     @ (if v then encode_name nm else []) @ d @ [0]"

definition log_ok :: "DltUser \<Rightarrow> DltContextData \<Rightarrow> bool" where
  "log_ok u log \<longleftrightarrow> log_wf log \<and> init_done u \<and> \<not> freeing u \<and> cd_size log + room log = int (log_buf_len u)"

definition written :: "bool \<Rightarrow> DltContextData \<Rightarrow> log_arg \<Rightarrow> DltContextData" where
  "written v log a = count_arg (ext log (encode v a))"

lemma attr_size_bound: "attr_size name < 65536"
  by (cases name) (simp_all add: attr_size_def)

lemma too_long_room:
  assumes "log_ok u log" "n < 4294967296"
  shows "too_long u log n \<longleftrightarrow> room log < int n"
  using assms by (auto simp: too_long_def log_ok_def log_wf_def c_casts)

lemma put_attr [simp]:
  "log_wf log \<Longrightarrow> int (attr_size name) \<le> room log \<Longrightarrow>
   (if attr_size name \<noteq> 0 then put log (attr_bytes name) else Some log) = Some (ext log (attr_bytes name))"
  by (auto simp: attr_bytes_empty)

lemma write_generic_attr:
  assumes ok: "log_ok u log" and d: "length d < 65536"
    and unit: "\<And>i. vi = Some i \<Longrightarrow> with_unit i \<or> vi_unit i = None"
  shows "dlt_user_log_write_generic_attr u log d t vi =
    (let v = is_verbose_mode u (Some log) in
     if int (length (encode v (Value t vi d))) \<le> room log then Some (DLT_RETURN_OK, written v log (Value t vi d))
     else Some (DLT_RETURN_USER_BUFFER_FULL, log))"
proof -
  have wf: "log_wf log" "init_done u" "\<not> freeing u" using ok by (auto simp: log_ok_def)
  note long = too_long_room [OF ok]
  show ?thesis
  proof (cases vi)
    case None
    with wf d show ?thesis
      by (auto simp: dlt_user_log_write_generic_attr_def Let_def long written_def with_vari_def)
  next
    case (Some i)
    have u0: "\<not> with_unit i \<Longrightarrow> attr_size (vi_unit i) = 0" using unit [OF Some] by (auto simp: attr_size_def)
    with wf d Some attr_size_bound [of "vi_name i"] attr_size_bound [of "vi_unit i"] show ?thesis
      by (cases "with_unit i") (auto simp: dlt_user_log_write_generic_attr_def Let_def long written_def with_vari_def
        put_var_info_def attr_bytes_empty)
  qed
qed

lemma write_generic_formatted:
  assumes ok: "log_ok u log" and d: "length d < 65536" and f: "valid_format f"
  shows "dlt_user_log_write_generic_formatted u log d t f =
    (let v = is_verbose_mode u (Some log); a = Value (format_hint f t) None d in
     if int (length (encode v a)) \<le> room log then Some (DLT_RETURN_OK, written v log a)
     else Some (DLT_RETURN_USER_BUFFER_FULL, log))"
proof -
  have wf: "log_wf log" "init_done u" using ok by (auto simp: log_ok_def)
  note long = too_long_room [OF ok]
  from wf d f show ?thesis
    by (auto simp: dlt_user_log_write_generic_formatted_def Let_def long written_def with_vari_def)
qed

lemma length_encode_name [simp]:
  "length (encode_name nm) = (case nm of None \<Rightarrow> 0 | Some name \<Rightarrow> 2 + attr_size name)"
  by (auto simp: encode_name_def split: option.splits)

definition raw_info :: "nat \<Rightarrow> bool \<Rightarrow> type_info" where
  "raw_info f wv = raw_hint f (if wv then DLT_TYPE_INFO_RAWD OR DLT_TYPE_INFO_VARI else DLT_TYPE_INFO_RAWD)"

lemma write_raw_internal:
  assumes ok: "log_ok u log" and d: "length d < 65536" and f: "valid_format f"
  shows "dlt_user_log_write_raw_internal u log (Some d) f name wv =
    (let v = is_verbose_mode u (Some log); a = Raw (raw_info f wv) (if wv then Some name else None) d in
     if int (length (encode v a)) \<le> room log then Some (DLT_RETURN_OK, written v log a)
     else Some (DLT_RETURN_USER_BUFFER_FULL, log))"
proof -
  have wf: "log_wf log" "init_done u" using ok by (auto simp: log_ok_def)
  note long = too_long_room [OF ok]
  from wf d f attr_size_bound [of name] show ?thesis
    by (cases wv) (auto simp: dlt_user_log_write_raw_internal_def Let_def long written_def raw_info_def
      encode_name_def attr_bytes_empty)
qed

lemma or_0_left: "0 OR (w :: type_info) = w"
  by simp

lemma put_string_head_ext:
  assumes "log_wf log" "int (string_extra u log name wv) + 2 \<le> room log"
  shows "put_string_head u log type n name wv = Some (ext log
    (let v = is_verbose_mode u (Some log); nm = (if wv then Some name else None) in
     (if v then log_bytes (with_vari nm (text_info type)) else []) @ le_bytes 2 n @ (if v then encode_name nm else [])))"
  using assms
  by (cases wv) (auto simp: put_string_head_def Let_def with_vari_def text_info_def string_extra_def encode_name_def
    attr_bytes_empty or.commute)

lemma length_encode_text:
  "length (encode (is_verbose_mode u (Some log)) (Text type (if wv then Some name else None) d)) =
   string_extra u log name wv + 2 + length d + 1"
  by (simp add: string_extra_def)

lemma put_text_ext:
  assumes "log_wf log" "int n + int (length e) \<le> room log" "n \<le> length text"
  shows "put_text log text n e = Some (count_arg (ext log (take n text @ e)))"
  using assms by (simp add: put_text_def load_at_def)

text \<open>The number of bytes of a string that is cut, before the cut is moved back.\<close>

definition cut :: "DltUser \<Rightarrow> DltContextData \<Rightarrow> bytes option \<Rightarrow> bool \<Rightarrow> nat" where
  "cut u log name wv = nat (room log - int (string_extra u log name wv + 2 + str_truncate_message_length))"

lemma utf8_reduce_le: "utf8_reduce text n = Some r \<Longrightarrow> r \<le> n"
  by (auto simp: utf8_reduce_def byte_before_def Option.bind_eq_Some_conv split: if_splits)

text \<open>Where the C code cuts a text with room for \<open>n\<close> bytes of it.\<close>

fun code_cut :: "StringType \<Rightarrow> bytes \<Rightarrow> nat \<Rightarrow> nat option" where
  "code_cut ASCII_STRING text n = Some n"
| "code_cut UTF8_STRING text n = map_option (\<lambda>r. n - r) (utf8_reduce text n)"

lemma code_cut_alt:
  "code_cut type text n = map_option (\<lambda>r. n - r) (case type of ASCII_STRING \<Rightarrow> Some 0 | UTF8_STRING \<Rightarrow> utf8_reduce text n)"
  by (cases type) simp_all

lemma write_sized_string:
  assumes ok: "log_ok u log" and n: "n \<le> length text" "n < 4294967296"
    and nm: "nm = (if wv then Some name else None)"
  shows "dlt_user_log_write_sized_string_utils_attr u log (Some text) n type name wv =
    (let v = is_verbose_mode u (Some log) in
     if int (length (encode v (Text type nm (take n text)))) \<le> room log
       then Some (DLT_RETURN_OK, written v log (Text type nm (take n text)))
     else if room log < int (length (encode v (Text type nm STR_TRUNCATED_MESSAGE))) then Some (DLT_RETURN_USER_BUFFER_FULL, log)
     else map_option (\<lambda>j. (DLT_RETURN_USER_BUFFER_FULL, written v log (Text type nm (take j text @ STR_TRUNCATED_MESSAGE))))
       (code_cut type text (cut u log name wv)))"
proof -
  let ?x = "string_extra u log name wv" and ?T = "str_truncate_message_length"
  have wf: "log_wf log" "init_done u" "\<not> freeing u" and sz: "cd_size log + room log = int (log_buf_len u)"
    "0 \<le> cd_size log" "0 \<le> room log" "int (log_buf_len u) < 65536"
    using ok by (auto simp: log_ok_def log_wf_def)
  have x: "?x < 65600" using attr_size_bound [of name] by (simp add: string_extra_def)
  have T: "?T < 100" "length STR_TRUNCATED_MESSAGE + 1 = ?T"
    by (simp_all add: str_truncate_message_length_def STR_TRUNCATED_MESSAGE_def)
  have len: "length (encode (is_verbose_mode u (Some log)) (Text type nm d)) = ?x + 2 + length d + 1" for d
    unfolding nm by (rule length_encode_text)
  consider (fits) "int (?x + 2 + n + 1) \<le> room log"
    | (none) "room log < int (?x + 2 + n + 1)" "room log < int (?x + 2 + ?T)"
    | (cut) "room log < int (?x + 2 + n + 1)" "int (?x + 2 + ?T) \<le> room log" by linarith
  then show ?thesis
  proof cases
    case fits
    then have "u64 (u64 (cd_size log) + int n + 1 + 2 + int ?x) \<le> int (log_buf_len u)"
      using sz by (simp add: c_casts)
    moreover have "put_string_head u log type (n + 1) name wv \<bind> (\<lambda>l. put_text l text n [0]) =
        Some (written (is_verbose_mode u (Some log)) log (Text type nm (take n text)))"
      using fits wf n
      by (auto simp: put_string_head_ext put_text_ext Let_def written_def string_extra_def nm split: if_splits)
    ultimately show ?thesis using wf fits n
      by (simp add: dlt_user_log_write_sized_string_utils_attr_def Let_def len del: encode.simps flip: bind_assoc)
  next
    case none
    then have "\<not> u64 (u64 (cd_size log) + int n + 1 + 2 + int ?x) \<le> int (log_buf_len u)"
      "u64 (u64 (cd_size log) + int ?T + 2 + int ?x) > int (log_buf_len u)"
      using sz x T n by (simp_all add: c_casts)
    with none wf n T show ?thesis
      by (simp add: dlt_user_log_write_sized_string_utils_attr_def Let_def len del: encode.simps)
  next
    case cut
    define c where "c = cut u log name wv"
    define red where "red = (case type of ASCII_STRING \<Rightarrow> Some 0 | UTF8_STRING \<Rightarrow> utf8_reduce text c)"
    have c: "int c = room log - int (?x + 2 + ?T)" using cut by (simp add: c_def cut_def)
    have cases: "\<not> u64 (u64 (cd_size log) + int n + 1 + 2 + int ?x) \<le> int (log_buf_len u)"
      "u64 (u64 (cd_size log) + int ?T + 2 + int ?x) = int (log_buf_len u) - int c"
      "nat (u64 (int (log_buf_len u) - u64 (cd_size log) - 2 - int ?x)) = c + ?T"
      using sz x T n cut c by (simp_all add: c_casts)
    have written: "put_string_head u log type (c + ?T - r) name wv \<bind> (\<lambda>l. put_text l text (c - r) (STR_TRUNCATED_MESSAGE @ [0])) =
        Some (written (is_verbose_mode u (Some log)) log
          (Text type nm (take (c - r) text @ STR_TRUNCATED_MESSAGE)))" if "r \<le> c" for r
    proof -
      have T': "c + ?T - r = Suc (c + length STR_TRUNCATED_MESSAGE - r)" using that T by simp
      have "c - r \<le> length text" using c cut n T by simp
      then show ?thesis using cut wf n that c T
        by (auto simp: T' put_string_head_ext put_text_ext Let_def written_def string_extra_def nm split: if_splits)
    qed
    have le: "r \<le> c" if "red = Some r" for r
      using that utf8_reduce_le [of "text" c r] by (cases type) (auto simp: red_def)
    have "dlt_user_log_write_sized_string_utils_attr u log (Some text) n type name wv =
        map_option (\<lambda>r. (DLT_RETURN_USER_BUFFER_FULL, written (is_verbose_mode u (Some log)) log
          (Text type nm (take (c - r) text @ STR_TRUNCATED_MESSAGE)))) red"
      using cases wf(2,3) written le
      by (cases red) (simp_all add: dlt_user_log_write_sized_string_utils_attr_def Let_def red_def [symmetric] flip: bind_assoc)
    then show ?thesis using cut n T
      by (simp add: len c_def [symmetric] red_def [symmetric] code_cut_alt Let_def option.map_comp comp_def del: encode.simps)
  qed
qed


section \<open>Cutting UTF-8\<close>

lemma All_less_8: "(\<forall>n<8. P n) \<longleftrightarrow> P 0 \<and> P 1 \<and> P 2 \<and> P 3 \<and> P 4 \<and> P 5 \<and> P 6 \<and> P (7::nat)"
proof -
  have "n < 8 \<longleftrightarrow> n = 0 \<or> n = 1 \<or> n = 2 \<or> n = 3 \<or> n = 4 \<or> n = 5 \<or> n = 6 \<or> n = 7" for n :: nat by presburger
  then show ?thesis by (simp only:) blast
qed

lemma and_mask_byte: "(b AND m = v) \<longleftrightarrow> (\<forall>n<8. (bit b n \<and> bit m n) = bit v n)" for b m v :: byte
  by (auto simp: bit_eq_iff bit_and_iff)

lemma masks [simp]:
  "(b AND 0x80 = 0) \<longleftrightarrow> \<not> bit b 7" "(b AND 0x40 = 0) \<longleftrightarrow> \<not> bit b 6"
  "(b AND 0xe0 = 0xe0) \<longleftrightarrow> bit b 7 \<and> bit b 6 \<and> bit b 5"
  "(b AND 0xf0 = 0xf0) \<longleftrightarrow> bit b 7 \<and> bit b 6 \<and> bit b 5 \<and> bit b 4"
  "(b AND 0xc0 = 0x80) \<longleftrightarrow> bit b 7 \<and> \<not> bit b 6"
  "(b AND 0xe0 = 0xc0) \<longleftrightarrow> bit b 7 \<and> bit b 6 \<and> \<not> bit b 5"
  "(b AND 0xf0 = 0xe0) \<longleftrightarrow> bit b 7 \<and> bit b 6 \<and> bit b 5 \<and> \<not> bit b 4"
  "(b AND 0xf8 = 0xf0) \<longleftrightarrow> bit b 7 \<and> bit b 6 \<and> bit b 5 \<and> bit b 4 \<and> \<not> bit b 3" for b :: byte
  unfolding and_mask_byte All_less_8 by auto

text \<open>A character of UTF-8: a first byte that tells how many continuation bytes follow.\<close>

definition utf8_cont :: "byte \<Rightarrow> bool" where
  "utf8_cont b \<longleftrightarrow> b AND 0xc0 = 0x80"

definition utf8_char :: "bytes \<Rightarrow> bool" where
  "utf8_char c = (case c of
     [a] \<Rightarrow> a AND 0x80 = 0
   | [a, b] \<Rightarrow> a AND 0xe0 = 0xc0 \<and> utf8_cont b
   | [a, b, c] \<Rightarrow> a AND 0xf0 = 0xe0 \<and> utf8_cont b \<and> utf8_cont c
   | [a, b, c, d] \<Rightarrow> a AND 0xf8 = 0xf0 \<and> utf8_cont b \<and> utf8_cont c \<and> utf8_cont d
   | _ \<Rightarrow> False)"

lemma utf8_charE:
  assumes "utf8_char c"
  obtains a where "c = [a]" "\<not> bit a 7"
  | a b where "c = [a, b]" "bit a 7" "bit a 6" "\<not> bit a 5" "utf8_cont b"
  | a b e where "c = [a, b, e]" "bit a 7" "bit a 6" "bit a 5" "\<not> bit a 4" "utf8_cont b" "utf8_cont e"
  | a b e f where "c = [a, b, e, f]" "bit a 7" "bit a 6" "bit a 5" "bit a 4" "utf8_cont b" "utf8_cont e" "utf8_cont f"
  using assms unfolding utf8_char_def by (auto split: list.splits)

lemma utf8_char_length: "utf8_char c \<Longrightarrow> length c \<le> 4"
  by (erule utf8_charE) simp_all

lemma byte_before_append:
  "0 < k \<Longrightarrow> k \<le> length ys \<Longrightarrow> byte_before (xs @ ys @ zs) (length xs + length ys) k = Some (ys ! (length ys - k))"
  "0 < k \<Longrightarrow> k \<le> length xs \<Longrightarrow> byte_before (xs @ ys @ zs) (length xs + length ys) (length ys + k) = Some (xs ! (length xs - k))"
  by (auto simp: byte_before_def byte_at_def nth_append)

text \<open>The last byte of a character is not the first of a longer one.\<close>

lemma last_utf8_char: "utf8_char c \<Longrightarrow> c \<noteq> [] \<and> (bit (last c) 7 \<longrightarrow> \<not> bit (last c) 6)"
  by (erule utf8_charE) (auto simp: utf8_cont_def)

lemma last_utf8_text:
  assumes "list_all utf8_char cs" "concat cs \<noteq> []"
  shows "bit (last (concat cs)) 7 \<longrightarrow> \<not> bit (last (concat cs)) 6"
proof -
  obtain ds c where cs: "cs = ds @ [c]" using assms(2) by (cases cs rule: rev_cases) auto
  then have "utf8_char c" using assms(1) by simp
  then show ?thesis using last_utf8_char [of c] cs by simp
qed

text \<open>In front of the cut are whole characters and then the beginning of one that is divided, or none.\<close>

lemma utf8_reduce_divided:
  assumes "utf8_char (p @ q)" "p \<noteq> []" "q \<noteq> []"
  shows "utf8_reduce (xs @ p @ zs) (length xs + length p) = Some (length p)"
  using assms(1)
proof (cases rule: utf8_charE)
  case (2 a b)
  with assms(2,3) have "p = [a]" by (auto simp: append_eq_Cons_conv)
  then show ?thesis using 2 byte_before_append(1) [of 1 p xs zs] by (simp add: utf8_reduce_def)
next
  case (3 a b e)
  with assms(2,3) consider "p = [a]" | "p = [a, b]" by (auto simp: append_eq_Cons_conv)
  then show ?thesis using 3 byte_before_append(1) [of 1 p xs zs] byte_before_append(1) [of 2 p xs zs]
    by cases (simp_all add: utf8_reduce_def utf8_cont_def)
next
  case (4 a b e f)
  with assms(2,3) consider "p = [a]" | "p = [a, b]" | "p = [a, b, e]" by (auto simp: append_eq_Cons_conv)
  then show ?thesis using 4 byte_before_append(1) [of 1 p xs zs] byte_before_append(1) [of 2 p xs zs]
      byte_before_append(1) [of 3 p xs zs]
    by cases (simp_all add: utf8_reduce_def utf8_cont_def)
qed (use assms in \<open>auto simp: append_eq_Cons_conv\<close>)

lemma utf8_reduce_whole:
  assumes "list_all utf8_char cs" "3 \<le> length (concat cs)"
  shows "utf8_reduce (concat cs @ zs) (length (concat cs)) = Some 0"
proof -
  obtain ds c where cs: "cs = ds @ [c]" using assms(2) by (cases cs rule: rev_cases) auto
  then have c: "utf8_char c" and ds: "list_all utf8_char ds" using assms(1) by simp_all
  let ?x = "concat ds"
  note before = byte_before_append(1) [of _ c ?x zs] byte_before_append(2) [of _ ?x c zs]
  have last: "?x \<noteq> [] \<Longrightarrow> ?x ! (length ?x - 1) = last ?x" by (simp add: last_conv_nth)
  from c show ?thesis
  proof (cases rule: utf8_charE)
    case (1 a)
    then show ?thesis using before(1) [of 1] cs by (simp add: utf8_reduce_def)
  next
    case (2 a b)
    then have "length (concat cs) = length ?x + 2" by (simp add: cs)
    then have pos: "1 \<le> length ?x" using assms(2) by linarith
    then have "?x \<noteq> []" by (metis list.size(3) not_one_le_zero)
    then show ?thesis using 2 cs before(1) [of 1] before(1) [of 2] before(2) [OF zero_less_one pos] last last_utf8_text [OF ds]
      by (auto simp: utf8_reduce_def utf8_cont_def numeral_3_eq_3)
  next
    case (3 a b e)
    then show ?thesis using cs before(1) [of 1] before(1) [of 2] before(1) [of 3]
      by (simp add: utf8_reduce_def utf8_cont_def)
  next
    case (4 a b e f)
    then show ?thesis using cs before(1) [of 1] before(1) [of 2] before(1) [of 3]
      by (simp add: utf8_reduce_def utf8_cont_def)
  qed
qed

lemma split_at:
  assumes "n \<le> length (concat cs)"
  obtains (whole) k where "k \<le> length cs" "n = length (concat (take k cs))"
  | (divided) k p q where "k < length cs" "cs ! k = p @ q" "p \<noteq> []" "q \<noteq> []" "n = length (concat (take k cs)) + length p"
  using assms
proof (induction cs arbitrary: n thesis)
  case Nil
  show ?case by (rule Nil(1) [of 0]) (use Nil(3) in simp_all)
next
  case (Cons c cs)
  consider "n = 0" | "0 < n" "n < length c" | "length c \<le> n" by linarith
  then show ?case
  proof cases
    case 1
    then show ?thesis by (intro Cons.prems(1) [of 0]) simp_all
  next
    case 2
    then show ?thesis by (intro Cons.prems(2) [of 0 "take n c" "drop n c"]) auto
  next
    case 3
    show ?thesis
    proof (rule Cons.IH [of "n - length c"])
      fix k assume "k \<le> length cs" "n - length c = length (concat (take k cs))"
      then show thesis using 3 by (intro Cons.prems(1) [of "Suc k"]) simp_all
    next
      fix k p q assume "k < length cs" "cs ! k = p @ q" "p \<noteq> []" "q \<noteq> []" "n - length c = length (concat (take k cs)) + length p"
      then show thesis using 3 by (intro Cons.prems(2) [of "Suc k" p q]) simp_all
    next
      show "n - length c \<le> length (concat cs)" using Cons.prems(3) by simp
    qed
  qed
qed

text \<open>The cut falls between characters, and no further character would have fitted.\<close>

lemma utf8_reduce_boundary:
  assumes cs: "list_all utf8_char cs" and n: "3 \<le> n" "n \<le> length (concat cs)"
  obtains r k where "utf8_reduce (concat cs @ zs) n = Some r" "r < 4" "r \<le> n" "k \<le> length cs"
    "take (n - r) (concat cs) = concat (take k cs)" "k < length cs \<Longrightarrow> n < length (concat (take (Suc k) cs))"
  using n(2)
proof (cases rule: split_at)
  case (whole k)
  have c: "concat cs = concat (take k cs) @ concat (drop k cs)" by (metis append_take_drop_id concat_append)
  have ck: "list_all utf8_char (take k cs)" using cs by (metis append_take_drop_id list_all_append)
  have "utf8_reduce (concat cs @ zs) n = Some 0"
    using utf8_reduce_whole [OF ck, of "concat (drop k cs) @ zs"] n(1) whole(2) c by simp
  moreover have "n < length (concat (take (Suc k) cs))" if "k < length cs"
  proof -
    have "cs ! k \<noteq> []" using cs that by (auto simp: list_all_length utf8_char_def split: list.splits)
    then show ?thesis using that whole(2) by (simp add: take_Suc_conv_app_nth)
  qed
  moreover have "take n (concat cs) = concat (take k cs)" using whole(2) c by simp
  ultimately show ?thesis using that [of 0 k] whole(1) by simp
next
  case (divided k p q)
  have c: "concat cs = concat (take k cs) @ p @ q @ concat (drop (Suc k) cs)"
    using divided(1,2) by (metis append.assoc concat.simps(2) concat_append id_take_nth_drop)
  have pq: "utf8_char (p @ q)" using cs divided(1,2) by (metis list_all_length)
  have "utf8_reduce (concat cs @ zs) n = Some (length p)"
    using utf8_reduce_divided [OF pq divided(3,4), of "concat (take k cs)" "q @ concat (drop (Suc k) cs) @ zs"] divided(5) c
    by simp
  moreover have "length p < 4" using utf8_char_length [OF pq] divided(4) by (cases q) simp_all
  ultimately show ?thesis using that [of "length p" k] divided c by (simp add: take_Suc_conv_app_nth)
qed

section \<open>Sequences of calls\<close>

text \<open>
  The calls an application makes to log arguments, and the function each stands for. The calls for strings
  are for ASCII or UTF-8, with or without a length, a name, and a constant text.
\<close>

datatype width = W8 | W16 | W32 | W64 | Wint

datatype log_call =
    RawCall bytes | RawFormatted bytes nat | RawAttr bytes "bytes option" | RawFormattedAttr bytes nat "bytes option"
  | Float32 nat | Float64 nat | Float32Attr nat "bytes option" "bytes option" | Float64Attr nat "bytes option" "bytes option"
  | Uint width nat | UintAttr width nat "bytes option" "bytes option" | UintFormatted width nat nat | Ptr nat
  | Sint width int | SintAttr width int "bytes option" "bytes option"
  | Boolean nat | BooleanAttr nat "bytes option"
  | Str StringType bytes | StrAttr StringType bytes "bytes option"
  | SizedStr StringType bytes nat | SizedStrAttr StringType bytes nat "bytes option"
  | ConstStr StringType bytes | ConstStrAttr StringType bytes "bytes option"
  | SizedConstStr StringType bytes nat | SizedConstStrAttr StringType bytes nat "bytes option"

fun do_call :: "DltUser \<Rightarrow> DltContextData \<Rightarrow> log_call \<Rightarrow> write_result" where
  "do_call u log (RawCall d) = dlt_user_log_write_raw u log (Some d)"
| "do_call u log (RawFormatted d f) = dlt_user_log_write_raw_formatted u log (Some d) f"
| "do_call u log (RawAttr d name) = dlt_user_log_write_raw_attr u log (Some d) name"
| "do_call u log (RawFormattedAttr d f name) = dlt_user_log_write_raw_formatted_attr u log (Some d) f name"
| "do_call u log (Float32 d) = dlt_user_log_write_float32 u log d"
| "do_call u log (Float64 d) = dlt_user_log_write_float64 u log d"
| "do_call u log (Float32Attr d name unit) = dlt_user_log_write_float32_attr u log d name unit"
| "do_call u log (Float64Attr d name unit) = dlt_user_log_write_float64_attr u log d name unit"
| "do_call u log (Uint w d) = (case w of
     W8 \<Rightarrow> dlt_user_log_write_uint8 u log d | W16 \<Rightarrow> dlt_user_log_write_uint16 u log d
   | W32 \<Rightarrow> dlt_user_log_write_uint32 u log d | W64 \<Rightarrow> dlt_user_log_write_uint64 u log d
   | Wint \<Rightarrow> dlt_user_log_write_uint u log d)"
| "do_call u log (UintAttr w d name unit) = (case w of
     W8 \<Rightarrow> dlt_user_log_write_uint8_attr u log d name unit | W16 \<Rightarrow> dlt_user_log_write_uint16_attr u log d name unit
   | W32 \<Rightarrow> dlt_user_log_write_uint32_attr u log d name unit | W64 \<Rightarrow> dlt_user_log_write_uint64_attr u log d name unit
   | Wint \<Rightarrow> dlt_user_log_write_uint_attr u log d name unit)"
| "do_call u log (UintFormatted w d f) = (case w of
     W8 \<Rightarrow> dlt_user_log_write_uint8_formatted u log d f | W16 \<Rightarrow> dlt_user_log_write_uint16_formatted u log d f
   | W32 \<Rightarrow> dlt_user_log_write_uint32_formatted u log d f | W64 \<Rightarrow> dlt_user_log_write_uint64_formatted u log d f
   | Wint \<Rightarrow> dlt_user_log_write_uint32_formatted u log d f)"
| "do_call u log (Ptr d) = dlt_user_log_write_ptr u log d"
| "do_call u log (Sint w d) = (case w of
     W8 \<Rightarrow> dlt_user_log_write_int8 u log d | W16 \<Rightarrow> dlt_user_log_write_int16 u log d
   | W32 \<Rightarrow> dlt_user_log_write_int32 u log d | W64 \<Rightarrow> dlt_user_log_write_int64 u log d
   | Wint \<Rightarrow> dlt_user_log_write_int u log d)"
| "do_call u log (SintAttr w d name unit) = (case w of
     W8 \<Rightarrow> dlt_user_log_write_int8_attr u log d name unit | W16 \<Rightarrow> dlt_user_log_write_int16_attr u log d name unit
   | W32 \<Rightarrow> dlt_user_log_write_int32_attr u log d name unit | W64 \<Rightarrow> dlt_user_log_write_int64_attr u log d name unit
   | Wint \<Rightarrow> dlt_user_log_write_int_attr u log d name unit)"
| "do_call u log (Boolean d) = dlt_user_log_write_bool u log d"
| "do_call u log (BooleanAttr d name) = dlt_user_log_write_bool_attr u log d name"
| "do_call u log (Str t s) = (case t of
     ASCII_STRING \<Rightarrow> dlt_user_log_write_string u log (Some s)
   | UTF8_STRING \<Rightarrow> dlt_user_log_write_utf8_string u log (Some s))"
| "do_call u log (StrAttr t s name) = (case t of
     ASCII_STRING \<Rightarrow> dlt_user_log_write_string_attr u log (Some s) name
   | UTF8_STRING \<Rightarrow> dlt_user_log_write_utf8_string_attr u log (Some s) name)"
| "do_call u log (SizedStr t s n) = (case t of
     ASCII_STRING \<Rightarrow> dlt_user_log_write_sized_string u log (Some s) n
   | UTF8_STRING \<Rightarrow> dlt_user_log_write_sized_utf8_string u log (Some s) n)"
| "do_call u log (SizedStrAttr t s n name) = (case t of
     ASCII_STRING \<Rightarrow> dlt_user_log_write_sized_string_attr u log (Some s) n name
   | UTF8_STRING \<Rightarrow> dlt_user_log_write_sized_utf8_string_attr u log (Some s) n name)"
| "do_call u log (ConstStr t s) = (case t of
     ASCII_STRING \<Rightarrow> dlt_user_log_write_constant_string u log (Some s)
   | UTF8_STRING \<Rightarrow> dlt_user_log_write_constant_utf8_string u log (Some s))"
| "do_call u log (ConstStrAttr t s name) = (case t of
     ASCII_STRING \<Rightarrow> dlt_user_log_write_constant_string_attr u log (Some s) name
   | UTF8_STRING \<Rightarrow> dlt_user_log_write_constant_utf8_string_attr u log (Some s) name)"
| "do_call u log (SizedConstStr t s n) = (case t of
     ASCII_STRING \<Rightarrow> dlt_user_log_write_sized_constant_string u log (Some s) n
   | UTF8_STRING \<Rightarrow> dlt_user_log_write_sized_constant_utf8_string u log (Some s) n)"
| "do_call u log (SizedConstStrAttr t s n name) = (case t of
     ASCII_STRING \<Rightarrow> dlt_user_log_write_sized_constant_string_attr u log (Some s) n name
   | UTF8_STRING \<Rightarrow> dlt_user_log_write_sized_constant_utf8_string_attr u log (Some s) n name)"

fun log_calls :: "DltUser \<Rightarrow> DltContextData \<Rightarrow> log_call list \<Rightarrow> (DltReturnValue list \<times> DltContextData) option" where
  "log_calls u log [] = Some ([], log)"
| "log_calls u log (c # cs) = do {
     (ret, log) \<leftarrow> do_call u log c;
     (rets, log) \<leftarrow> log_calls u log cs;
     Some (ret # rets, log)
   }"

text \<open>Data of the widths the C types have, and texts that are as long as their length says.\<close>

fun call_ok :: "log_call \<Rightarrow> bool" where
  "call_ok (RawCall d) \<longleftrightarrow> length d < 65536"
| "call_ok (RawAttr d name) \<longleftrightarrow> length d < 65536"
| "call_ok (RawFormatted d f) \<longleftrightarrow> length d < 65536 \<and> valid_format f"
| "call_ok (RawFormattedAttr d f name) \<longleftrightarrow> length d < 65536 \<and> valid_format f"
| "call_ok (UintFormatted w d f) \<longleftrightarrow> valid_format f"
| "call_ok (Str t s) \<longleftrightarrow> length s < 4294967296"
| "call_ok (StrAttr t s name) \<longleftrightarrow> length s < 4294967296"
| "call_ok (ConstStr t s) \<longleftrightarrow> length s < 4294967296"
| "call_ok (ConstStrAttr t s name) \<longleftrightarrow> length s < 4294967296"
| "call_ok (SizedStr t s n) \<longleftrightarrow> n \<le> length s \<and> n < 65536"
| "call_ok (SizedStrAttr t s n name) \<longleftrightarrow> n \<le> length s \<and> n < 65536"
| "call_ok (SizedConstStr t s n) \<longleftrightarrow> n \<le> length s \<and> n < 65536"
| "call_ok (SizedConstStrAttr t s n name) \<longleftrightarrow> n \<le> length s \<and> n < 65536"
| "call_ok _ \<longleftrightarrow> True"

text \<open>The argument each call is for. Constant strings are left out in non-verbose mode.\<close>

fun width_bytes :: "width \<Rightarrow> nat" where
  "width_bytes W8 = 1" | "width_bytes W16 = 2" | "width_bytes W32 = 4" | "width_bytes W64 = 8" | "width_bytes Wint = 4"

fun width_info :: "width \<Rightarrow> type_info" where
  "width_info W8 = DLT_TYLE_8BIT" | "width_info W16 = DLT_TYLE_16BIT" | "width_info W32 = DLT_TYLE_32BIT"
| "width_info W64 = DLT_TYLE_64BIT" | "width_info Wint = DLT_TYLE_32BIT"

fun call_args :: "bool \<Rightarrow> log_call \<Rightarrow> log_arg list" where
  "call_args v (RawCall d) = [Raw (raw_info 0 False) None d]"
| "call_args v (RawFormatted d f) = [Raw (raw_info f False) None d]"
| "call_args v (RawAttr d name) = [Raw (raw_info 0 True) (Some name) d]"
| "call_args v (RawFormattedAttr d f name) = [Raw (raw_info f True) (Some name) d]"
| "call_args v (Float32 d) = [Value (DLT_TYPE_INFO_FLOA OR DLT_TYLE_32BIT) None (le_bytes 4 d)]"
| "call_args v (Float64 d) = [Value (DLT_TYPE_INFO_FLOA OR DLT_TYLE_64BIT) None (le_bytes 8 d)]"
| "call_args v (Float32Attr d name unit) = [Value (DLT_TYPE_INFO_FLOA OR DLT_TYLE_32BIT) (Some (attributes name unit)) (le_bytes 4 d)]"
| "call_args v (Float64Attr d name unit) = [Value (DLT_TYPE_INFO_FLOA OR DLT_TYLE_64BIT) (Some (attributes name unit)) (le_bytes 8 d)]"
| "call_args v (Uint w d) = [Value (DLT_TYPE_INFO_UINT OR width_info w) None (le_bytes (width_bytes w) d)]"
| "call_args v (UintAttr w d name unit) =
     [Value (DLT_TYPE_INFO_UINT OR width_info w) (Some (attributes name unit)) (le_bytes (width_bytes w) d)]"
| "call_args v (UintFormatted w d f) = [Value (format_hint f (DLT_TYPE_INFO_UINT OR width_info w)) None (le_bytes (width_bytes w) d)]"
| "call_args v (Ptr d) = [Value (DLT_TYPE_INFO_UINT OR DLT_TYLE_64BIT OR DLT_SCOD_HEX) None (le_bytes 8 d)]"
| "call_args v (Sint w d) = [Value (DLT_TYPE_INFO_SINT OR width_info w) None (int_bytes (width_bytes w) d)]"
| "call_args v (SintAttr w d name unit) =
     [Value (DLT_TYPE_INFO_SINT OR width_info w) (Some (attributes name unit)) (int_bytes (width_bytes w) d)]"
| "call_args v (Boolean d) = [Value (DLT_TYPE_INFO_BOOL OR DLT_TYLE_8BIT) None (le_bytes 1 d)]"
| "call_args v (BooleanAttr d name) = [Value (DLT_TYPE_INFO_BOOL OR DLT_TYLE_8BIT)
     (Some \<lparr>vi_name = name, vi_unit = None, with_unit = False\<rparr>) (le_bytes 1 d)]"
| "call_args v (Str t s) = [Text t None s]"
| "call_args v (StrAttr t s name) = [Text t (Some name) s]"
| "call_args v (SizedStr t s n) = [Text t None (take n s)]"
| "call_args v (SizedStrAttr t s n name) = [Text t (Some name) (take n s)]"
| "call_args v (ConstStr t s) = (if v then [Text t None s] else [])"
| "call_args v (ConstStrAttr t s name) = (if v then [Text t (Some name) s] else [])"
| "call_args v (SizedConstStr t s n) = (if v then [Text t None (take n s)] else [])"
| "call_args v (SizedConstStrAttr t s n name) = (if v then [Text t (Some name) (take n s)] else [])"

text \<open>
  An argument that does not fit is left out, or cut if it is a string and the note about the cut fits;
  \<open>pos\<close> tells where to cut it.
\<close>

fun shortened :: "(StringType \<Rightarrow> bytes \<Rightarrow> nat \<Rightarrow> nat option) \<Rightarrow> bool \<Rightarrow> int \<Rightarrow> log_arg \<Rightarrow> log_arg list option" where
  "shortened pos v m (Text t nm d) =
     (let k = m - int (length (encode v (Text t nm STR_TRUNCATED_MESSAGE))) in
      if k < 0 then Some [] else map_option (\<lambda>j. [Text t nm (take j d @ STR_TRUNCATED_MESSAGE)]) (pos t d (nat k)))"
| "shortened pos v m _ = Some []"

definition attempt :: "bool \<Rightarrow> DltContextData \<Rightarrow> log_arg \<Rightarrow> (DltReturnValue \<times> DltContextData) option" where
  "attempt v log a =
     (if int (length (encode v a)) \<le> room log then Some (DLT_RETURN_OK, written v log a)
      else map_option (\<lambda>as. (DLT_RETURN_USER_BUFFER_FULL, fold (\<lambda>a log. written v log a) as log))
        (shortened code_cut v (room log) a))"

lemma width_bytes_bound: "width_bytes w < 65536"
  by (cases w) simp_all

lemma byte_before_take: "k \<le> n \<Longrightarrow> 0 < j \<Longrightarrow> byte_before (take n s) k j = byte_before s k j"
  by (auto simp: byte_before_def byte_at_def)

lemma utf8_reduce_take: "k \<le> n \<Longrightarrow> utf8_reduce (take n s) k = utf8_reduce s k"
  by (simp add: utf8_reduce_def byte_before_take cong: if_cong)

lemma code_cut_take: "k \<le> n \<Longrightarrow> code_cut t (take n s) k = code_cut t s k"
  by (cases t) (simp_all add: utf8_reduce_take)

lemma code_cut_le: "code_cut t s k = Some j \<Longrightarrow> j \<le> k"
  by (cases t) auto

lemma write_string:
  assumes "log_ok u log" "n \<le> length s" "n < 4294967296" "nm = (if wv then Some name else None)"
  shows "dlt_user_log_write_sized_string_utils_attr u log (Some s) n t name wv =
    attempt (is_verbose_mode u (Some log)) log (Text t nm (take n s))"
proof -
  let ?v = "is_verbose_mode u (Some log)" and ?k = "cut u log name wv"
  have len: "length (encode ?v (Text t nm d)) = string_extra u log name wv + 2 + length d + 1" for d
    unfolding assms(4) by (rule length_encode_text)
  have k: "?k = nat (room log - int (length (encode ?v (Text t nm STR_TRUNCATED_MESSAGE))))"
    unfolding len cut_def str_truncate_message_length_def by simp
  show ?thesis
  proof (cases "int (length (encode ?v (Text t nm (take n s)))) \<le> room log \<or>
      room log < int (length (encode ?v (Text t nm STR_TRUNCATED_MESSAGE)))")
    case True
    then show ?thesis using write_sized_string [OF assms, of t]
      by (auto simp: attempt_def Let_def simp del: encode.simps)
  next
    case False
    then have n: "?k \<le> n" using assms(2) unfolding k len by (simp add: nat_le_iff)
    have t: "take j (take n s) = take j s" if "code_cut t s ?k = Some j" for j
      using code_cut_le [OF that] n by simp
    have "shortened code_cut ?v (room log) (Text t nm (take n s)) =
        map_option (\<lambda>j. [Text t nm (take j s @ STR_TRUNCATED_MESSAGE)]) (code_cut t s ?k)"
      using False t by (cases "code_cut t s ?k") (simp_all add: Let_def k [symmetric] code_cut_take [OF n] del: encode.simps)
    then show ?thesis using write_sized_string [OF assms, of t] False
      by (simp add: attempt_def Let_def option.map_comp comp_def del: encode.simps shortened.simps)
  qed
qed

lemmas plain_call_defs = dlt_user_log_write_raw_def dlt_user_log_write_raw_formatted_def dlt_user_log_write_raw_attr_def
  dlt_user_log_write_raw_formatted_attr_def dlt_user_log_write_float32_def dlt_user_log_write_float64_def
  dlt_user_log_write_float32_attr_def dlt_user_log_write_float64_attr_def
  dlt_user_log_write_uint8_def dlt_user_log_write_uint16_def dlt_user_log_write_uint32_def dlt_user_log_write_uint64_def
  dlt_user_log_write_uint_def dlt_user_log_write_uint8_attr_def dlt_user_log_write_uint16_attr_def
  dlt_user_log_write_uint32_attr_def dlt_user_log_write_uint64_attr_def dlt_user_log_write_uint_attr_def
  dlt_user_log_write_uint8_formatted_def dlt_user_log_write_uint16_formatted_def dlt_user_log_write_uint32_formatted_def
  dlt_user_log_write_uint64_formatted_def dlt_user_log_write_ptr_def
  dlt_user_log_write_int8_def dlt_user_log_write_int16_def dlt_user_log_write_int32_def dlt_user_log_write_int64_def
  dlt_user_log_write_int_def dlt_user_log_write_int8_attr_def dlt_user_log_write_int16_attr_def
  dlt_user_log_write_int32_attr_def dlt_user_log_write_int64_attr_def dlt_user_log_write_int_attr_def
  dlt_user_log_write_bool_def dlt_user_log_write_bool_attr_def

lemmas string_call_defs = dlt_user_log_write_string_def dlt_user_log_write_string_attr_def dlt_user_log_write_sized_string_def
  dlt_user_log_write_sized_string_attr_def dlt_user_log_write_constant_string_def dlt_user_log_write_constant_string_attr_def
  dlt_user_log_write_sized_constant_string_def dlt_user_log_write_sized_constant_string_attr_def
  dlt_user_log_write_utf8_string_def dlt_user_log_write_utf8_string_attr_def dlt_user_log_write_sized_utf8_string_def
  dlt_user_log_write_sized_utf8_string_attr_def dlt_user_log_write_constant_utf8_string_def
  dlt_user_log_write_constant_utf8_string_attr_def dlt_user_log_write_sized_constant_utf8_string_def
  dlt_user_log_write_sized_constant_utf8_string_attr_def dlt_user_log_write_string_utils_attr_def

lemma length_int_bytes [simp]: "length (int_bytes n d) = n"
  by (simp add: int_bytes_def)

lemma attempt_value:
  assumes "log_ok u log"
  shows "length d < 65536 \<Longrightarrow> pred_option (\<lambda>i. with_unit i \<or> vi_unit i = None) vi \<Longrightarrow>
      dlt_user_log_write_generic_attr u log d t vi = attempt (is_verbose_mode u (Some log)) log (Value t vi d)"
    "length d < 65536 \<Longrightarrow> valid_format f \<Longrightarrow> dlt_user_log_write_generic_formatted u log d t f =
      attempt (is_verbose_mode u (Some log)) log (Value (format_hint f t) None d)"
    "length d < 65536 \<Longrightarrow> valid_format f \<Longrightarrow> dlt_user_log_write_raw_internal u log (Some d) f name wv =
      attempt (is_verbose_mode u (Some log)) log (Raw (raw_info f wv) (if wv then Some name else None) d)"
  using assms write_generic_attr [OF assms, of d vi t]
  by (simp_all add: write_generic_formatted write_raw_internal Let_def attempt_def option.pred_set del: encode.simps)

lemma do_call_attempt:
  assumes ok: "log_ok u log" and c: "call_ok c" and v: "v = is_verbose_mode u (Some log)"
  shows "do_call u log c = (case call_args v c of [] \<Rightarrow> Some (DLT_RETURN_OK, log) | a # _ \<Rightarrow> attempt v log a)"
proof -
  have init: "init_done u" "\<not> freeing u" using ok by (auto simp: log_ok_def)
  have f: "valid_format 0" "valid_format 4" by (simp_all add: valid_format_def c_casts)
  note facts = attempt_value [OF ok] write_string [OF ok] init f v
  show ?thesis
  proof (cases c)
    case (Uint w d) then show ?thesis by (cases w) (simp_all add: plain_call_defs facts)
  next
    case (UintAttr w d) then show ?thesis by (cases w) (simp_all add: plain_call_defs facts attributes_def)
  next
    case (UintFormatted w d f) then show ?thesis using c by (cases w) (simp_all add: plain_call_defs facts)
  next
    case (Sint w d) then show ?thesis by (cases w) (simp_all add: plain_call_defs facts)
  next
    case (SintAttr w d) then show ?thesis by (cases w) (simp_all add: plain_call_defs facts attributes_def)
  qed (use c in \<open>simp_all add: plain_call_defs string_call_defs facts attributes_def format_hint_def or.assoc split: StringType.split\<close>)
qed

text \<open>
  What a call logs with \<open>m\<close> bytes of room: its argument if it fits, and otherwise nothing or its text up to a cut
  with the note. A text of ASCII is cut where the room ends; a text of UTF-8 in front of the character that
  does not fit. Nothing is said about the cut of a text that is not UTF-8, and about one with less than
  three bytes in front of the cut.
\<close>

function utf8_text :: "bytes \<Rightarrow> bool" where
  "utf8_text [] = True"
| "utf8_text (a # r) = (let n = (if a AND 0x80 = 0 then 0 else if a AND 0xe0 = 0xc0 then 1
       else if a AND 0xf0 = 0xe0 then 2 else if a AND 0xf8 = 0xf0 then 3 else length r + 1) in
     n \<le> length r \<and> list_all utf8_cont (take n r) \<and> utf8_text (drop n r))"
  by pat_completeness auto

termination utf8_text
  by (relation "measure length") auto

fun boundary :: "bytes \<Rightarrow> nat \<Rightarrow> nat" where
  "boundary d 0 = 0"
| "boundary d (Suc k) = (if Suc k < length d \<and> utf8_cont (d ! Suc k) then boundary d k else Suc k)"

fun text_cut :: "StringType \<Rightarrow> bytes \<Rightarrow> nat \<Rightarrow> nat option" where
  "text_cut ASCII_STRING d k = Some k"
| "text_cut UTF8_STRING d k = (if 3 \<le> k \<and> utf8_text d then Some (boundary d k) else None)"

definition outcome :: "bool \<Rightarrow> int \<Rightarrow> log_call \<Rightarrow> (DltReturnValue \<times> log_arg list) option" where
  "outcome v m c = (case call_args v c of
     [] \<Rightarrow> Some (DLT_RETURN_OK, [])
   | a # _ \<Rightarrow> if int (length (encode v a)) \<le> m then Some (DLT_RETURN_OK, [a])
             else map_option (Pair DLT_RETURN_USER_BUFFER_FULL) (shortened text_cut v m a))"

definition encoding :: "bool \<Rightarrow> log_arg list \<Rightarrow> bytes" where
  "encoding v as = concat (map (encode v) as)"

fun outcomes :: "bool \<Rightarrow> int \<Rightarrow> log_call list \<Rightarrow> (DltReturnValue \<times> log_arg list) list option" where
  "outcomes v m [] = Some []"
| "outcomes v m (c # cs) = do {
     r \<leftarrow> outcome v m c;
     rs \<leftarrow> outcomes v (m - int (length (encoding v (snd r)))) cs;
     Some (r # rs)
   }"

lemma utf8_text_chars: "utf8_text d \<Longrightarrow> \<exists>cs. list_all utf8_char cs \<and> d = concat cs"
proof (induction d rule: utf8_text.induct)
  case 1
  show ?case by (intro exI [of _ "[]"]) simp
next
  case (2 a r)
  define n where "n = (if a AND 0x80 = 0 then 0 else if a AND 0xe0 = 0xc0 then 1
       else if a AND 0xf0 = 0xe0 then 2 else if a AND 0xf8 = 0xf0 then 3 else length r + 1)"
  have n: "n \<le> length r" "list_all utf8_cont (take n r)" "utf8_text (drop n r)"
    using 2(2) by (simp_all add: n_def Let_def)
  obtain cs where cs: "list_all utf8_char cs" "drop n r = concat cs" using 2(1) [OF n_def n(3)] by blast
  have "utf8_char (a # x)" if "length x = n" "list_all utf8_cont x" for x
  proof -
    have "n \<noteq> length r + 1" using n(1) by simp
    then consider "n = 0" "a AND 0x80 = 0" | "n = Suc 0" "a AND 0xe0 = 0xc0" | "n = Suc (Suc 0)" "a AND 0xf0 = 0xe0"
      | "n = Suc (Suc (Suc 0))" "a AND 0xf8 = 0xf0"
      unfolding n_def by (simp only: split: if_splits) simp_all
    then show ?thesis by cases (use that in \<open>auto simp: length_Suc_conv utf8_char_def\<close>)
  qed
  then have "utf8_char (a # take n r)" using n by simp
  then show ?case using cs append_take_drop_id [of n r]
    by (intro exI [of _ "(a # take n r) # cs"]) simp
qed

lemma boundary_unique:
  "j \<le> n \<Longrightarrow> j = 0 \<or> \<not> utf8_cont (d ! j) \<Longrightarrow> (\<And>i. j < i \<Longrightarrow> i \<le> n \<Longrightarrow> i < length d \<and> utf8_cont (d ! i)) \<Longrightarrow>
   boundary d n = j"
  by (induction n) (auto simp: le_Suc_eq)

lemma utf8_char_first: "utf8_char c \<Longrightarrow> \<not> utf8_cont (c ! 0)"
  by (erule utf8_charE) (auto simp: utf8_cont_def)

lemma utf8_char_rest: "utf8_char c \<Longrightarrow> 0 < i \<Longrightarrow> i < length c \<Longrightarrow> utf8_cont (c ! i)"
  by (erule utf8_charE) (auto simp: less_Suc_eq nth_Cons')

lemma utf8_cut_boundary:
  assumes "utf8_text d" "3 \<le> k" "k < length d"
  shows "code_cut UTF8_STRING d k = Some (boundary d k)"
proof -
  obtain cs where cs: "list_all utf8_char cs" "d = concat cs" using utf8_text_chars [OF assms(1)] by blast
  obtain r j where r: "utf8_reduce (concat cs @ []) k = Some r" "r \<le> k" and j: "j \<le> length cs"
      "take (k - r) (concat cs) = concat (take j cs)" "j < length cs \<Longrightarrow> k < length (concat (take (Suc j) cs))"
    using utf8_reduce_boundary [OF cs(1) assms(2), of "[]"] assms(3) cs(2) by (metis less_imp_le)
  have len: "k - r = length (concat (take j cs))" using arg_cong [OF j(2), of length] assms(3) cs(2) by simp
  have "j < length cs"
  proof (rule ccontr)
    assume "\<not> j < length cs"
    then show False using len assms(3) cs(2) by simp
  qed
  then have c: "utf8_char (cs ! j)" "k < length (concat (take j cs)) + length (cs ! j)"
      "d = concat (take j cs) @ cs ! j @ concat (drop (Suc j) cs)"
    using cs j(3) by (auto simp: list_all_length take_Suc_conv_app_nth) (metis concat.simps(2) concat_append id_take_nth_drop)
  have at: "d ! (k - r + i) = cs ! j ! i" if "i < length (cs ! j)" for i
    using that unfolding len by (subst c(3)) (simp add: nth_append)
  have "boundary d k = k - r"
  proof (rule boundary_unique)
    show "k - r = 0 \<or> \<not> utf8_cont (d ! (k - r))"
      using at [of 0] utf8_char_first [OF c(1)] last_utf8_char [OF c(1)] by simp
    show "i < length d \<and> utf8_cont (d ! i)" if "k - r < i" "i \<le> k" for i
      using that at [of "i - (k - r)"] utf8_char_rest [OF c(1), of "i - (k - r)"] c(2) assms(3) len by simp
  qed simp
  then show ?thesis using r(1) cs(2) by simp
qed

lemma text_cut_code: "text_cut t d k = Some j \<Longrightarrow> k < length d \<Longrightarrow> code_cut t d k = Some j"
  using utf8_cut_boundary by (cases t) (auto split: if_splits simp del: code_cut.simps(2))

lemma shortened_code:
  assumes "shortened text_cut v m a = Some as" "m < int (length (encode v a))"
  shows "shortened code_cut v m a = Some as"
proof (cases a)
  case (Text t nm d)
  let ?k = "m - int (length (encode v (Text t nm STR_TRUNCATED_MESSAGE)))"
  have "int (length (encode v (Text t nm d))) \<le> int (length (encode v (Text t nm STR_TRUNCATED_MESSAGE))) + int (length d)"
    by simp
  then have "0 \<le> ?k \<Longrightarrow> nat ?k < length d" using assms(2) unfolding Text by (subst nat_less_iff) linarith+
  then show ?thesis using assms(1) text_cut_code [of t d "nat ?k"]
    by (auto simp: Text Let_def simp del: encode.simps split: if_splits)
qed (use assms in simp_all)

lemma written_spec:
  assumes "log_ok u log" "int (length (encode v a)) \<le> room log"
  shows "log_ok u (written v log a)" "payload (written v log a) = payload log @ encode v a"
    "is_verbose_mode u (Some (written v log a)) = is_verbose_mode u (Some log)"
    "args_num (written v log a) = i32 (args_num log + 1)"
    "room (written v log a) = room log - int (length (encode v a))"
  using assms by (simp_all add: written_def log_ok_def del: encode.simps)

lemma boundary_le: "boundary d k \<le> k"
  by (induction k) auto

lemma text_cut_le: "text_cut t d k = Some j \<Longrightarrow> j \<le> k"
  by (cases t) (auto simp: boundary_le split: if_splits)

lemma shortened_text:
  "shortened text_cut v m a = Some as \<Longrightarrow> as = [] \<or> (\<exists>b. as = [b] \<and> int (length (encode v b)) \<le> m)"
  by (cases a) (auto simp: Let_def dest!: text_cut_le split: if_splits)

text \<open>A call does what is expected of it, and the rest of the state follows.\<close>

lemma do_call_spec:
  assumes ok: "log_ok u log" and c: "call_ok c" and v: "v = is_verbose_mode u (Some log)"
    and n: "0 \<le> args_num log" "args_num log < 2147483647" and out: "outcome v (room log) c = Some (ret, as)"
  obtains log' where "do_call u log c = Some (ret, log')" "log_ok u log'"
    "payload log' = payload log @ encoding v as" "args_num log' = args_num log + int (length as)"
    "v = is_verbose_mode u (Some log')" "length as \<le> 1" "room log' = room log - int (length (encoding v as))"
proof -
  note call = do_call_attempt [OF ok c v]
  show thesis
  proof (cases "as = []")
    case True
    then have "do_call u log c = Some (ret, log)"
      using call out shortened_code [of v "room log" _ as]
      by (auto simp: outcome_def attempt_def split: list.splits if_splits)
    then show thesis using True ok v by (intro that [of log]) (simp_all add: encoding_def)
  next
    case False
    then obtain b where b: "as = [b]" "int (length (encode v b)) \<le> room log" "do_call u log c = Some (ret, written v log b)"
      using call out shortened_text [of v "room log" _ as] shortened_code [of v "room log" _ as]
      by (auto simp: outcome_def attempt_def split: list.splits if_splits)
    then show thesis using written_spec [OF ok b(2)] n v
      by (intro that [of "written v log b"]) (simp_all add: encoding_def c_casts)
  qed
qed

lemma log_calls_results:
  assumes "log_ok u log" "list_all call_ok calls" "0 \<le> args_num log" "args_num log + int (length calls) < 2147483648"
    and "v = is_verbose_mode u (Some log)" "outcomes v (room log) calls = Some results"
  obtains log' where "log_calls u log calls = Some (map fst results, log')" "log_ok u log'"
    "payload log' = payload log @ encoding v (concat (map snd results))"
    "args_num log' = args_num log + int (length (concat (map snd results)))"
  using assms
proof (induction calls arbitrary: log results thesis)
  case Nil
  then show ?case by (simp add: encoding_def)
next
  case (Cons c calls)
  obtain ret as rs where r: "outcome v (room log) c = Some (ret, as)" "results = (ret, as) # rs"
      "outcomes v (room log - int (length (encoding v as))) calls = Some rs"
    using Cons.prems(7) by (auto simp: Option.bind_eq_Some_conv)
  obtain log1 where 1: "do_call u log c = Some (ret, log1)" "log_ok u log1"
    "payload log1 = payload log @ encoding v as" "args_num log1 = args_num log + int (length as)"
    "v = is_verbose_mode u (Some log1)" "length as \<le> 1" "room log1 = room log - int (length (encoding v as))"
    by (rule do_call_spec [OF Cons.prems(2) _ Cons.prems(6) _ _ r(1)]) (use Cons.prems in \<open>simp_all\<close>)
  show ?case
  proof (rule Cons.IH [of log1 rs])
    fix log'
    assume "log_calls u log1 calls = Some (map fst rs, log')" "log_ok u log'"
      "payload log' = payload log1 @ encoding v (concat (map snd rs))"
      "args_num log' = args_num log1 + int (length (concat (map snd rs)))"
    with 1 r(2) show thesis by (intro Cons.prems(1) [of log']) (simp_all add: encoding_def)
  qed (use 1 r(3) Cons.prems in simp_all)
qed

text \<open>
  C9. Every call that logs an argument, in any sequence of calls, is accepted exactly when the encoding of its
  argument fits into the room that is left. Otherwise it reports a full buffer and adds nothing, or its text up to the
  last byte or character that fits and the note about the cut if there is room for the note. The payload is the
  sequence of the encodings, their number is counted, and nothing is written outside the log buffer. The calls have valid
  formats and texts, and a UTF-8 text that has to be cut is valid and has room for three bytes.
\<close>

theorem log_calls_typed:
  assumes "log_ok u log" "list_all call_ok calls" "0 \<le> args_num log" "args_num log + int (length calls) < 2147483648"
    and "v = is_verbose_mode u (Some log)" "outcomes v (room log) calls = Some results"
  shows "\<exists>log'. log_calls u log calls = Some (map fst results, log') \<and> log_ok u log' \<and>
    payload log' = payload log @ encoding v (concat (map snd results)) \<and>
    args_num log' = args_num log + int (length (concat (map snd results)))"
  by (rule log_calls_results [OF assms]) blast

text \<open>
  C13. A UTF-8 text that is too long is cut between two characters, and one character more would not have
  fitted with the note, provided that there is room for the note and three bytes of the text.
\<close>

theorem utf8_string_cut:
  assumes ok: "log_ok u log" and cs: "list_all utf8_char cs" and len: "length (concat cs) < 4294967296"
    and v: "v = is_verbose_mode u (Some log)"
    and full: "room log < int (length (encode v (Text UTF8_STRING None (concat cs))))"
    and note_fits: "int (length (encode v (Text UTF8_STRING None STR_TRUNCATED_MESSAGE))) + 3 \<le> room log"
  shows "\<exists>k<length cs. \<exists>log'. dlt_user_log_write_utf8_string u log (Some (concat cs)) = Some (DLT_RETURN_USER_BUFFER_FULL, log') \<and>
    payload log' = payload log @ encode v (Text UTF8_STRING None (concat (take k cs) @ STR_TRUNCATED_MESSAGE)) \<and>
    room log < int (length (encode v (Text UTF8_STRING None (concat (take (Suc k) cs) @ STR_TRUNCATED_MESSAGE))))"
proof -
  let ?n = "cut u log None False" and ?text = "concat cs"
  have enc: "length (encode v (Text UTF8_STRING None d)) = string_extra u log None False + 2 + length d + 1" for d
    using length_encode_text [of u log UTF8_STRING False None d] by (simp add: v)
  have n: "int ?n = room log - int (length (encode v (Text UTF8_STRING None STR_TRUNCATED_MESSAGE)))"
    using note_fits unfolding enc cut_def str_truncate_message_length_def by simp
  have T: "0 < length STR_TRUNCATED_MESSAGE" by (simp add: STR_TRUNCATED_MESSAGE_def)
  have n3: "3 \<le> ?n" "?n < length ?text" using n note_fits full T unfolding enc by linarith+
  then obtain r k where r: "utf8_reduce (?text @ [0]) ?n = Some r" "r \<le> ?n" and k: "k \<le> length cs"
      "take (?n - r) ?text = concat (take k cs)" "k < length cs \<Longrightarrow> ?n < length (concat (take (Suc k) cs))"
    using utf8_reduce_boundary [OF cs, of ?n "[0]"] by (metis less_imp_le)
  have "length (take (?n - r) ?text) \<noteq> length ?text" using n3 by simp
  then have kl: "k < length cs" using k(1,2) by (metis le_neq_implies_less take_all_iff order_refl)
  have fits: "int (length (encode v (Text UTF8_STRING None (concat (take k cs) @ STR_TRUNCATED_MESSAGE)))) \<le> room log"
    using n r(2) n3 arg_cong [OF k(2), of length] unfolding enc by simp
  have "dlt_user_log_write_utf8_string u log (Some ?text) = Some (DLT_RETURN_USER_BUFFER_FULL,
      written v log (Text UTF8_STRING None (concat (take k cs) @ STR_TRUNCATED_MESSAGE)))"
    using write_sized_string [OF ok _ len, of "?text @ [0]" None False None UTF8_STRING] r full note_fits k(2) n3
    by (simp add: dlt_user_log_write_utf8_string_def dlt_user_log_write_string_utils_attr_def Let_def v del: encode.simps)
  moreover have "room log < int (length (encode v (Text UTF8_STRING None (concat (take (Suc k) cs) @ STR_TRUNCATED_MESSAGE))))"
    using k(3) [OF kl] n unfolding enc by simp
  ultimately show ?thesis using kl written_spec(2) [OF ok fits] by blast
qed

definition example_user :: DltUser where
  "example_user = \<lparr>log_buf_len = 64, du_verbose_mode = 0, init_done = True, freeing = False, is_child = False, has_ll_ts = True\<rparr>"

definition example_log :: DltContextData where
  "example_log = \<lparr>cd_handle = None, cd_buffer = Some (replicate 64 0), cd_size = 0, cd_log_level = 4, args_num = 0,
     use_timestamp = True, msid = 0, cd_verbose_mode = True\<rparr>"

lemma example_log_ok: "log_ok example_user example_log" "is_verbose_mode example_user (Some example_log) = True"
  "room example_log = 64" "args_num example_log = 0" "payload example_log = []"
  by (simp_all add: log_ok_def log_wf_def room_def is_verbose_mode_def payload_def example_user_def example_log_def)

text \<open>A call that fits, one whose text of UTF-8 is cut between two characters, and one that is refused.\<close>

definition umlauts :: "nat \<Rightarrow> bytes" where
  "umlauts n = concat (replicate n [0xc3, 0xa4])"

lemma umlauts_spec:
  "utf8_text (umlauts n)" "length (umlauts n) = 2 * n" "i < 2 * n \<Longrightarrow> umlauts n ! i = (if even i then 0xc3 else 0xa4)"
  "m \<le> n \<Longrightarrow> take (2 * m) (umlauts n) = umlauts m"
proof -
  have u: "umlauts (Suc n) = 0xc3 # 0xa4 # umlauts n" for n by (simp add: umlauts_def)
  show "utf8_text (umlauts n)"
    by (induction n) (simp_all add: u utf8_cont_def, simp add: umlauts_def)
  show len: "length (umlauts n) = 2 * n" for n by (induction n) (simp_all add: u, simp add: umlauts_def)
  show "i < 2 * n \<Longrightarrow> umlauts n ! i = (if even i then 0xc3 else 0xa4)"
  proof (induction n arbitrary: i)
    case (Suc n)
    show ?case
    proof (cases "i < 2")
      case True
      then have "i = 0 \<or> i = 1" by auto
      then show ?thesis by (auto simp: u)
    next
      case False
      then obtain j where "i = Suc (Suc j)" by (metis Suc_1 less_2_cases_iff not0_implies_Suc One_nat_def)
      then show ?thesis using Suc by (simp add: u)
    qed
  qed simp
  show "take (2 * m) (umlauts n) = umlauts m" if "m \<le> n"
  proof -
    have "umlauts n = umlauts m @ umlauts (n - m)"
      using that by (simp add: umlauts_def flip: concat_append replicate_add)
    then show ?thesis by (simp add: len)
  qed
qed

lemma example_outcomes:
  "outcomes True 64 [Uint W8 5, Str UTF8_STRING (umlauts 30), Uint W64 7] =
     Some [(DLT_RETURN_OK, [Value (DLT_TYPE_INFO_UINT OR DLT_TYLE_8BIT) None (le_bytes 1 5)]),
       (DLT_RETURN_USER_BUFFER_FULL, [Text UTF8_STRING None (umlauts 8 @ STR_TRUNCATED_MESSAGE)]),
       (DLT_RETURN_USER_BUFFER_FULL, [])]"
proof -
  have T: "length STR_TRUNCATED_MESSAGE = 35" by (simp add: STR_TRUNCATED_MESSAGE_def)
  have b: "boundary (umlauts 30) 17 = 16"
  proof (rule boundary_unique)
    show "16 < i \<Longrightarrow> i \<le> 17 \<Longrightarrow> i < length (umlauts 30) \<and> utf8_cont (umlauts 30 ! i)" for i
      by (cases "i = 17") (simp_all add: umlauts_spec utf8_cont_def)
  qed (simp_all add: umlauts_spec utf8_cont_def)
  show ?thesis
    using umlauts_spec(4) [of 8 30] by (simp add: outcome_def encoding_def Let_def umlauts_spec T b)
qed

theorem log_calls_typed_witness:
  "\<exists>log'. log_calls example_user example_log [Uint W8 5, Str UTF8_STRING (umlauts 30), Uint W64 7] =
      Some ([DLT_RETURN_OK, DLT_RETURN_USER_BUFFER_FULL, DLT_RETURN_USER_BUFFER_FULL], log') \<and> log_ok example_user log' \<and>
    payload log' = encoding True [Value (DLT_TYPE_INFO_UINT OR DLT_TYLE_8BIT) None (le_bytes 1 5),
      Text UTF8_STRING None (umlauts 8 @ STR_TRUNCATED_MESSAGE)] \<and> args_num log' = 2"
  using log_calls_typed [OF example_log_ok(1) _ _ _ example_log_ok(2) [symmetric], unfolded example_log_ok(3-5), OF _ _ _ example_outcomes]
  by (simp add: umlauts_spec)

theorem utf8_string_cut_witness:
  "\<exists>k<30. \<exists>log'. dlt_user_log_write_utf8_string example_user example_log (Some (concat (replicate 30 [0xc3, 0xa4]))) =
      Some (DLT_RETURN_USER_BUFFER_FULL, log') \<and>
    payload log' = encode True (Text UTF8_STRING None (concat (take k (replicate 30 [0xc3, 0xa4])) @ STR_TRUNCATED_MESSAGE)) \<and>
    64 < int (length (encode True (Text UTF8_STRING None (concat (take (Suc k) (replicate 30 [0xc3, 0xa4])) @ STR_TRUNCATED_MESSAGE))))"
proof -
  have cs: "list_all utf8_char (replicate 30 [0xc3, 0xa4])"
    by (simp add: utf8_char_def utf8_cont_def list_all_iff)
  have len: "length (concat (replicate 30 [0xc3, 0xa4 :: byte])) = 60"
    by (simp add: length_concat sum_list_replicate)
  have T: "length STR_TRUNCATED_MESSAGE = 35" by (simp add: STR_TRUNCATED_MESSAGE_def)
  show ?thesis
    using utf8_string_cut [of example_user example_log "replicate 30 [0xc3, 0xa4]" True] example_log_ok cs len T by simp
qed

text \<open>
  With room for the note and less than three bytes of the text, the cut looks at bytes in front of the
  text. Here there is room for the note alone.
\<close>

lemma utf8_cut_reads_before_text:
  assumes ok: "log_ok u log" and ne: "s \<noteq> []" "length s < 4294967296"
    and room: "room log = int (string_extra u log None False + 2 + str_truncate_message_length)"
    and full: "room log < int (string_extra u log None False + 2 + length s + 1)"
  shows "dlt_user_log_write_utf8_string u log (Some s) = None"
proof -
  have "0 \<le> cd_size log" "cd_size log + room log = int (log_buf_len u)" "int (log_buf_len u) < 65536"
    "init_done u" "\<not> freeing u" using ok by (auto simp: log_ok_def log_wf_def)
  then show ?thesis using room full ne
    by (simp add: dlt_user_log_write_utf8_string_def dlt_user_log_write_string_utils_attr_def
      dlt_user_log_write_sized_string_utils_attr_def Let_def c_casts utf8_reduce_def byte_before_def)
qed

end
