(* ===== verification/Dlt_Print.thy ===== *)
theory Dlt_Print
  imports Dlt_Format Dlt_Log Dlt_MessageV2
begin

text \<open>
  Output of the payload of a message as text (\<^verbatim>\<open>src/shared/dlt_common.c\<close>): the arguments of a verbose
  message one after the other, and the message id with the other bytes as digits for a non-verbose one.

  \<open>pst\<close> is what the functions change through pointers: the position in the payload, the number of bytes
  left there, and the text. Whether the attributes of an argument are printed is a global variable of
  the C code and an argument here. The host has little endian byte order.
\<close>

section \<open>Reading the payload\<close>

record pst =
  p_ptr :: nat
  p_len :: int
  p_text :: bytes

text \<open>\<open>Fail\<close> is the return of \<^verbatim>\<open>DLT_RETURN_ERROR\<close>.\<close>

datatype 'a step = Fail pst | Next 'a pst

definition andthen :: "'a step option \<Rightarrow> ('a \<Rightarrow> pst \<Rightarrow> 'b step option) \<Rightarrow> 'b step option" where
  "andthen m f = (case m of None \<Rightarrow> None | Some (Fail s) \<Rightarrow> Some (Fail s) | Some (Next a s) \<Rightarrow> f a s)"

definition end_val :: "bool \<Rightarrow> bytes \<Rightarrow> nat" where
  "end_val msb bs = (if msb then be_val bs else le_val bs)"

text \<open>\<^verbatim>\<open>DLT_MSG_READ_VALUE\<close> with the test of the length that follows it, and the conversion of the byte order.\<close>

definition read_num :: "bytes \<Rightarrow> bool \<Rightarrow> nat \<Rightarrow> pst \<Rightarrow> nat step option" where
  "read_num d msb k s =
     (if p_len s < int k then Some (Fail (s\<lparr>p_len := -1\<rparr>))
      else do {
        bs \<leftarrow> load_at d (p_ptr s) k;
        Some (Next (end_val msb bs) (s\<lparr>p_ptr := p_ptr s + k, p_len := p_len s - int k\<rparr>))
      })"

definition skip :: "nat \<Rightarrow> pst \<Rightarrow> unit step option" where
  "skip k s = (if p_len s < int k then Some (Fail s) else Some (Next () (s\<lparr>p_ptr := p_ptr s + k, p_len := p_len s - int k\<rparr>)))"

text \<open>\<^verbatim>\<open>DLT_MSG_READ_STRING\<close> with the test that follows it.\<close>

definition read_string :: "bytes \<Rightarrow> nat \<Rightarrow> int \<Rightarrow> nat \<Rightarrow> pst \<Rightarrow> unit step option" where
  "read_string d off avail n s =
     (if p_len s < 0 \<or> n = 0 \<or> avail < int n \<or> p_len s < int n then Some (Fail (s\<lparr>p_len := -1\<rparr>))
      else do {
        bs \<leftarrow> load_at d (p_ptr s) n;
        t \<leftarrow> store_at (p_text s) off bs;
        c \<leftarrow> dlt_clean_string (drop off t) n;
        t \<leftarrow> store_at (take off t @ c) (off + n) [0];
        Some (Next () (s\<lparr>p_ptr := p_ptr s + n, p_len := p_len s - int n, p_text := t\<rparr>))
      })"

definition write_text :: "nat \<Rightarrow> int \<Rightarrow> bytes \<Rightarrow> pst \<Rightarrow> unit step option" where
  "write_text off avail txt s = do {
     t \<leftarrow> snprintf_at (p_text s) off (nat avail) txt;
     Some (Next () (s\<lparr>p_text := t\<rparr>))
   }"

text \<open>
  A name of \<open>n\<close> bytes is printed in front of the value, which then begins behind it. \<open>keep\<close> is what the
  caller subtracts too little from the room that is left.
\<close>

definition print_name :: "bytes \<Rightarrow> bool \<Rightarrow> nat \<Rightarrow> int \<Rightarrow> nat \<Rightarrow> int \<Rightarrow> pst \<Rightarrow> (nat \<times> int) step option" where
  "print_name d pwa off avail n keep s =
     (if pwa \<and> n > 1 then do {
        nm \<leftarrow> cstring_at d (p_ptr s);
        andthen (write_text off avail (nm @ [58]) s) (\<lambda>_ s. Some (Next (off + n, u64 (avail - (int n - keep))) s))
      }
      else Some (Next (off, avail) s))"

definition read_name :: "bytes \<Rightarrow> bool \<Rightarrow> bool \<Rightarrow> nat \<Rightarrow> int \<Rightarrow> int \<Rightarrow> pst \<Rightarrow> (nat \<times> int) step option" where
  "read_name d msb pwa off avail keep s =
     andthen (read_num d msb 2 s) (\<lambda>n s.
       if p_len s < int n then Some (Fail s)
       else andthen (print_name d pwa off avail n keep s) (\<lambda>v s. andthen (skip n s) (\<lambda>_ s. Some (Next v s))))"

text \<open>Where the text of the value is, how much room it has, and where the unit is and how long.\<close>

type_synonym value_pos = "nat \<times> int \<times> nat \<times> nat"

definition at_value :: "(nat \<times> int) \<Rightarrow> pst \<Rightarrow> value_pos step option" where
  "at_value v s = Some (Next (fst v, snd v, 0, 0) s)"


section \<open>The arguments by type\<close>

definition print_string :: "bytes \<Rightarrow> bool \<Rightarrow> bool \<Rightarrow> bool \<Rightarrow> int \<Rightarrow> nat \<Rightarrow> int \<Rightarrow> pst \<Rightarrow> value_pos step option" where
  "print_string d msb pwa vari byteLength off avail s =
     andthen (if byteLength < 0 then read_num d msb 2 s else Some (Next (nat (u16 byteLength)) s)) (\<lambda>n s.
     andthen (if vari then read_name d msb pwa off avail 0 s else Some (Next (off, avail) s)) (\<lambda>v s.
     andthen (read_string d (fst v) (snd v) n s) (\<lambda>_ s. at_value v s)))"

definition print_bool :: "bytes \<Rightarrow> bool \<Rightarrow> bool \<Rightarrow> bool \<Rightarrow> nat \<Rightarrow> int \<Rightarrow> pst \<Rightarrow> value_pos step option" where
  "print_bool d msb pwa vari off avail s =
     andthen (if vari then read_name d msb pwa off avail 1 s else Some (Next (off, avail) s)) (\<lambda>v s.
     andthen (read_num d False 1 s) (\<lambda>x s.
     andthen (write_text (fst v) (snd v) (dec_text x) s) (\<lambda>_ s. at_value v s)))"

text \<open>The binary digits of a number from the bit \<open>i - 1\<close> down, in groups of four.\<close>

fun bin_text :: "nat \<Rightarrow> nat \<Rightarrow> bytes" where
  "bin_text x 0 = []"
| "bin_text x (Suc i) = (if bit x i then 49 else 48) # (if i mod 4 = 0 \<and> i > 0 then [32] else []) @ bin_text x i"

definition print_bin :: "bytes \<Rightarrow> type_info \<Rightarrow> nat \<Rightarrow> int \<Rightarrow> pst \<Rightarrow> value_pos step option" where
  "print_bin d type_info off avail s =
     (if type_info AND DLT_TYPE_INFO_TYLE = DLT_TYLE_8BIT then
        andthen (read_num d False 1 s) (\<lambda>x s.
        andthen (write_text off avail (str ''0b'' @ bin_text x 8) s) (\<lambda>_ s. at_value (off, avail) s))
      else if type_info AND DLT_TYPE_INFO_TYLE = DLT_TYLE_16BIT then
        andthen (read_num d False 2 s) (\<lambda>x s.
        andthen (write_text off avail (str ''0b'' @ bin_text x 16) s) (\<lambda>_ s. at_value (off, avail) s))
      else at_value (off, avail) s)"

definition print_hex_num :: "bytes \<Rightarrow> nat \<Rightarrow> nat \<Rightarrow> int \<Rightarrow> pst \<Rightarrow> value_pos step option" where
  "print_hex_num d k off avail s =
     andthen (read_num d False k s) (\<lambda>x s.
     andthen (write_text off avail (str ''0x'' @ hex_text (2 * k) x) s) (\<lambda>_ s. at_value (off, avail) s))"

text \<open>A number of 64 bits is read in two parts, the upper one first.\<close>

definition print_hex64 :: "bytes \<Rightarrow> nat \<Rightarrow> int \<Rightarrow> pst \<Rightarrow> value_pos step option" where
  "print_hex64 d off avail s =
     andthen (read_num d False 4 (s\<lparr>p_ptr := p_ptr s + 4\<rparr>)) (\<lambda>x s.
     andthen (write_text off avail (str ''0x'' @ hex_text 8 x) s) (\<lambda>_ s.
     andthen (read_num d False 4 (s\<lparr>p_ptr := p_ptr s - 8\<rparr>)) (\<lambda>x s. do {
       n \<leftarrow> strlen_at (p_text s) off;
       andthen (write_text (off + n) (u64 (avail - int n)) (hex_text 8 x) s) (\<lambda>_ s.
         at_value (off, avail) (s\<lparr>p_ptr := p_ptr s + 4\<rparr>))
     })))"

definition print_hex :: "bytes \<Rightarrow> type_info \<Rightarrow> nat \<Rightarrow> int \<Rightarrow> pst \<Rightarrow> value_pos step option" where
  "print_hex d type_info off avail s =
     (if type_info AND DLT_TYPE_INFO_TYLE = DLT_TYLE_8BIT then print_hex_num d 1 off avail s
      else if type_info AND DLT_TYPE_INFO_TYLE = DLT_TYLE_16BIT then print_hex_num d 2 off avail s
      else if type_info AND DLT_TYPE_INFO_TYLE = DLT_TYLE_32BIT then print_hex_num d 4 off avail s
      else if type_info AND DLT_TYPE_INFO_TYLE = DLT_TYLE_64BIT then print_hex64 d off avail s
      else at_value (off, avail) s)"

text \<open>Name and unit of a number. The unit is printed behind the value, so its place is kept.\<close>

definition read_attributes :: "bytes \<Rightarrow> bool \<Rightarrow> bool \<Rightarrow> bool \<Rightarrow> nat \<Rightarrow> int \<Rightarrow> pst \<Rightarrow> value_pos step option" where
  "read_attributes d msb pwa vari off avail s =
     (if \<not> vari then at_value (off, avail) s
      else
        andthen (read_num d msb 2 s) (\<lambda>n s.
        andthen (read_num d msb 2 s) (\<lambda>m s.
        if p_len s < int n then Some (Fail s)
        else
          andthen (print_name d pwa off avail n 0 s) (\<lambda>v s.
          andthen (skip n s) (\<lambda>_ s.
          if p_len s < int m then Some (Fail s)
          else andthen (skip m s) (\<lambda>_ s'. Some (Next (fst v, snd v, p_ptr s, m) s')))))))"

definition skip_fixp :: "bytes \<Rightarrow> bool \<Rightarrow> type_info \<Rightarrow> pst \<Rightarrow> unit step option" where
  "skip_fixp d msb type_info s =
     andthen (read_num d False 4 s) (\<lambda>_ s.
       let tyle = type_info AND DLT_TYPE_INFO_TYLE in
       if tyle = DLT_TYLE_8BIT \<or> tyle = DLT_TYLE_16BIT \<or> tyle = DLT_TYLE_32BIT then skip 4 s
       else if tyle = DLT_TYLE_64BIT then skip 8 s
       else if tyle = DLT_TYLE_128BIT then skip 16 s
       else Some (Fail s))"

definition signed_val :: "nat \<Rightarrow> nat \<Rightarrow> int" where
  "signed_val k x = (if x < 2 ^ (8 * k - 1) then int x else int x - 2 ^ (8 * k))"

definition print_num :: "bytes \<Rightarrow> bool \<Rightarrow> bool \<Rightarrow> nat \<Rightarrow> value_pos \<Rightarrow> pst \<Rightarrow> value_pos step option" where
  "print_num d msb issint k v s =
     andthen (read_num d msb k s) (\<lambda>x s.
     andthen (write_text (fst v) (fst (snd v)) (if issint then int_text (signed_val k x) else dec_text x) s) (\<lambda>_ s.
     Some (Next v s)))"

text \<open>Bytes as digits; the output is left out when it does not fit.\<close>

definition print_bytes :: "bytes \<Rightarrow> nat \<Rightarrow> value_pos \<Rightarrow> pst \<Rightarrow> value_pos step option" where
  "print_bytes d k v s = do {
     s \<leftarrow> (if p_len s \<ge> int k then do {
             (_, t) \<leftarrow> dlt_print_hex_string (p_text s) (fst v) (i32 (fst (snd v))) d (p_ptr s) (int k);
             Some (s\<lparr>p_text := t\<rparr>)
           }
           else Some s);
     andthen (skip k s) (\<lambda>_ s. Some (Next v s))
   }"

definition print_int_value :: "bytes \<Rightarrow> bool \<Rightarrow> type_info \<Rightarrow> value_pos \<Rightarrow> pst \<Rightarrow> value_pos step option" where
  "print_int_value d msb type_info v s =
     (let tyle = type_info AND DLT_TYPE_INFO_TYLE; issint = (type_info AND DLT_TYPE_INFO_SINT \<noteq> 0) in
      if tyle = DLT_TYLE_8BIT then print_num d False issint 1 v s
      else if tyle = DLT_TYLE_16BIT then print_num d msb issint 2 v s
      else if tyle = DLT_TYLE_32BIT then print_num d msb issint 4 v s
      else if tyle = DLT_TYLE_64BIT then print_num d msb issint 8 v s
      else if tyle = DLT_TYLE_128BIT then print_bytes d 16 v s
      else Some (Fail s))"

definition print_int :: "bytes \<Rightarrow> bool \<Rightarrow> bool \<Rightarrow> type_info \<Rightarrow> nat \<Rightarrow> int \<Rightarrow> pst \<Rightarrow> value_pos step option" where
  "print_int d msb pwa type_info off avail s =
     andthen (read_attributes d msb pwa (type_info AND DLT_TYPE_INFO_VARI \<noteq> 0) off avail s) (\<lambda>v s.
     andthen (if type_info AND DLT_TYPE_INFO_FIXP \<noteq> 0 then skip_fixp d msb type_info s else Some (Next () s)) (\<lambda>_ s.
     print_int_value d msb type_info v s))"

definition print_float :: "bytes \<Rightarrow> bool \<Rightarrow> nat \<Rightarrow> nat \<Rightarrow> nat \<Rightarrow> value_pos \<Rightarrow> pst \<Rightarrow> value_pos step option" where
  "print_float d msb k e m v s =
     andthen (read_num d msb k s) (\<lambda>x s.
     andthen (write_text (fst v) (fst (snd v)) (float_text e m x) s) (\<lambda>_ s. Some (Next v s)))"

definition print_floa :: "bytes \<Rightarrow> bool \<Rightarrow> bool \<Rightarrow> type_info \<Rightarrow> nat \<Rightarrow> int \<Rightarrow> pst \<Rightarrow> value_pos step option" where
  "print_floa d msb pwa type_info off avail s =
     andthen (read_attributes d msb pwa (type_info AND DLT_TYPE_INFO_VARI \<noteq> 0) off avail s) (\<lambda>v s.
       let tyle = type_info AND DLT_TYPE_INFO_TYLE in
       if tyle = DLT_TYLE_8BIT then print_bytes d 1 v s
       else if tyle = DLT_TYLE_16BIT then print_bytes d 2 v s
       else if tyle = DLT_TYLE_32BIT then print_float d msb 4 8 23 v s
       else if tyle = DLT_TYLE_64BIT then print_float d msb 8 11 52 v s
       else if tyle = DLT_TYLE_128BIT then print_bytes d 16 v s
       else Some (Fail s))"

definition print_raw :: "bytes \<Rightarrow> bool \<Rightarrow> bool \<Rightarrow> bool \<Rightarrow> nat \<Rightarrow> int \<Rightarrow> pst \<Rightarrow> value_pos step option" where
  "print_raw d msb pwa vari off avail s =
     andthen (read_num d msb 2 s) (\<lambda>n s.
     andthen (if vari then read_name d msb pwa off avail 0 s else Some (Next (off, avail) s)) (\<lambda>v s.
     if p_len s < int n then Some (Fail s)
     else do {
       (ret, t) \<leftarrow> dlt_print_hex_string_delim (p_text s) (fst v) (i32 (snd v)) d (p_ptr s) (int n) 39;
       let s = s\<lparr>p_text := t\<rparr>;
       if ret_int ret < 0 then Some (Fail s) else andthen (skip n s) (\<lambda>_ s. at_value v s)
     }))"

definition print_trai :: "bytes \<Rightarrow> bool \<Rightarrow> nat \<Rightarrow> int \<Rightarrow> pst \<Rightarrow> value_pos step option" where
  "print_trai d msb off avail s =
     andthen (read_num d msb 2 s) (\<lambda>n s.
     andthen (read_string d off avail n s) (\<lambda>_ s. at_value (off, avail) s))"

definition print_unit :: "bytes \<Rightarrow> bool \<Rightarrow> value_pos \<Rightarrow> pst \<Rightarrow> unit step option" where
  "print_unit d pwa v s =
     (case v of (off, avail, unit_src, unit_len) \<Rightarrow>
        if pwa \<and> unit_len > 1 then do {
          n \<leftarrow> strlen_at (p_text s) off;
          u \<leftarrow> cstring_at d unit_src;
          write_text (off + n) (u64 (avail - int n)) (58 # u) s
        }
        else Some (Next () s))"

definition print_value ::
  "bytes \<Rightarrow> bool \<Rightarrow> bool \<Rightarrow> type_info \<Rightarrow> int \<Rightarrow> nat \<Rightarrow> int \<Rightarrow> pst \<Rightarrow> value_pos step option" where
  "print_value d msb pwa type_info byteLength off avail s =
     (let scod = type_info AND DLT_TYPE_INFO_SCOD; vari = (type_info AND DLT_TYPE_INFO_VARI \<noteq> 0) in
      if type_info AND DLT_TYPE_INFO_STRG \<noteq> 0 \<and> (scod = DLT_SCOD_ASCII \<or> scod = DLT_SCOD_UTF8)
        then print_string d msb pwa vari byteLength off avail s
      else if type_info AND DLT_TYPE_INFO_BOOL \<noteq> 0 then print_bool d msb pwa vari off avail s
      else if type_info AND DLT_TYPE_INFO_UINT \<noteq> 0 \<and> scod = DLT_SCOD_BIN then print_bin d type_info off avail s
      else if type_info AND DLT_TYPE_INFO_UINT \<noteq> 0 \<and> scod = DLT_SCOD_HEX then print_hex d type_info off avail s
      else if type_info AND DLT_TYPE_INFO_SINT \<noteq> 0 \<or> type_info AND DLT_TYPE_INFO_UINT \<noteq> 0
        then print_int d msb pwa type_info off avail s
      else if type_info AND DLT_TYPE_INFO_FLOA \<noteq> 0 then print_floa d msb pwa type_info off avail s
      else if type_info AND DLT_TYPE_INFO_RAWD \<noteq> 0 then print_raw d msb pwa vari off avail s
      else if type_info AND DLT_TYPE_INFO_TRAI \<noteq> 0 then print_trai d msb off avail s
      else Some (Fail s))"

definition argument_print ::
  "bytes \<Rightarrow> bool \<Rightarrow> bool \<Rightarrow> type_info \<Rightarrow> int \<Rightarrow> nat \<Rightarrow> int \<Rightarrow> pst \<Rightarrow> (DltReturnValue \<times> pst) option" where
  "argument_print d msb pwa type_info byteLength off textlength s = do {
     r \<leftarrow> andthen (print_value d msb pwa type_info byteLength off textlength s) (\<lambda>v s.
            if p_len s < 0 then Some (Fail s) else print_unit d pwa v s);
     Some (case r of Fail s \<Rightarrow> (DLT_RETURN_ERROR, s) | Next _ s \<Rightarrow> (DLT_RETURN_OK, s))
   }"

text \<open>\<^verbatim>\<open>DLT_IS_HTYP_MSBF\<close>, which \<^verbatim>\<open>DLT_ENDIAN_GET_16\<close> and its like test.\<close>

definition DLT_IS_HTYP_MSBF :: "byte \<Rightarrow> bool" where "DLT_IS_HTYP_MSBF htyp \<longleftrightarrow> htyp AND 0x02 \<noteq> 0"

definition dlt_message_argument_print ::
  "DltMessage \<Rightarrow> bool \<Rightarrow> type_info \<Rightarrow> int \<Rightarrow> nat \<Rightarrow> int \<Rightarrow> pst \<Rightarrow> (DltReturnValue \<times> pst) option" where
  "dlt_message_argument_print msg pwa type_info byteLength off textlength s = do {
     h \<leftarrow> std_htyp msg;
     d \<leftarrow> databuffer msg;
     argument_print d (DLT_IS_HTYP_MSBF h) pwa type_info byteLength off textlength s
   }"

text \<open>Messages of version 2 have little endian byte order, which is that of the host.\<close>

definition dlt_message_argument_print_v2 ::
  "DltMessageV2 \<Rightarrow> bool \<Rightarrow> type_info \<Rightarrow> int \<Rightarrow> nat \<Rightarrow> int \<Rightarrow> pst \<Rightarrow> (DltReturnValue \<times> pst) option" where
  "dlt_message_argument_print_v2 msg pwa type_info byteLength off textlength s = do {
     d \<leftarrow> databufferv2 msg;
     argument_print d False pwa type_info byteLength off textlength s
   }"


section \<open>The payload of a message\<close>

definition service_id_name :: "bytes list" where
  "service_id_name = map str ['''', ''set_log_level'', ''set_trace_status'', ''get_log_info'', ''get_default_log_level'',
     ''store_config'', ''reset_to_factory_default'', ''set_com_interface_status'', ''set_com_interface_max_bandwidth'',
     ''set_verbose_mode'', ''set_message_filtering'', ''set_timing_packets'', ''get_local_time'', ''use_ecu_id'',
     ''use_session_id'', ''use_timestamp'', ''use_extended_header'', ''set_default_log_level'',
     ''set_default_trace_status'', ''get_software_version'', ''message_buffer_overflow'']"

definition return_type :: "bytes list" where
  "return_type = map str [''ok'', ''not_supported'', ''error'', ''perm_denied'', ''warning'', '''', '''', '''',
     ''no_matching_context_id'']"

text \<open>\<^verbatim>\<open>snprintf\<close> behind the text there is.\<close>

definition append_text :: "bytes \<Rightarrow> int \<Rightarrow> bytes \<Rightarrow> bytes option" where
  "append_text t textlength txt = do {
     n \<leftarrow> strlen t;
     snprintf_at t n (nat (u64 (textlength - int n))) txt
   }"

text \<open>The remaining bytes as digits, at most 20 of them in the limited form.\<close>

definition print_rest :: "bytes \<Rightarrow> int \<Rightarrow> bool \<Rightarrow> bytes \<Rightarrow> nat \<Rightarrow> int \<Rightarrow> (DltReturnValue \<times> bytes) option" where
  "print_rest t textlength limited d p datalength = do {
     n \<leftarrow> strlen t;
     (ret, t) \<leftarrow> dlt_print_hex_string t n (i32 (u64 (textlength - int n))) d p
                  (if limited \<and> datalength > 20 then 20 else datalength);
     if limited then do {
       n \<leftarrow> strlen t;
       t \<leftarrow> (if datalength > 20 \<and> u64 (textlength - int n) > 4 then append_text t textlength (str '' ...'') else Some t);
       Some (ret, t)
     }
     else Some (ret, t)
   }"

definition service_text :: "nat \<Rightarrow> bool \<Rightarrow> bytes option" where
  "service_text service control_time =
     (if 0 < service \<and> service < 21 then Some (service_id_name ! service)
      else if \<not> control_time then Some (str ''service('' @ dec_text service @ str '')'')
      else None)"

definition print_service :: "bytes \<Rightarrow> int \<Rightarrow> nat \<Rightarrow> bool \<Rightarrow> int \<Rightarrow> bytes option" where
  "print_service t textlength service control_time datalength = do {
     t \<leftarrow> (case service_text service control_time of Some x \<Rightarrow> append_text t textlength x | None \<Rightarrow> Some t);
     (if datalength > 0 then append_text t textlength (str '', '') else Some t)
   }"

text \<open>The status of a response.\<close>

definition print_status :: "bytes \<Rightarrow> int \<Rightarrow> bytes \<Rightarrow> nat \<Rightarrow> int \<Rightarrow> (bytes \<times> nat \<times> int) option" where
  "print_status t textlength d p datalength =
     (if datalength > 0 then do {
        b \<leftarrow> byte_at d p;
        t \<leftarrow> append_text t textlength (if b < 5 \<or> b = 8 then return_type ! unat b else hex_text 2 (unat b));
        t \<leftarrow> (if datalength - 1 \<ge> 1 then append_text t textlength (str '', '') else Some t);
        Some (t, p + 1, datalength - 1)
      }
      else Some (t, p, datalength))"

text \<open>The bytes of the extended header the output looks at.\<close>

definition msg_msin :: "DltMessage \<Rightarrow> byte option" where
  "msg_msin msg = do { p \<leftarrow> extendedheader msg; byte_at (headerbuffer msg) p }"

definition msg_noar :: "DltMessage \<Rightarrow> byte option" where
  "msg_noar msg = do { p \<leftarrow> extendedheader msg; byte_at (headerbuffer msg) (p + 1) }"

definition DLT_MSG_IS_NONVERBOSE :: "DltMessage \<Rightarrow> bool option" where
  "DLT_MSG_IS_NONVERBOSE msg = do {
     h \<leftarrow> std_htyp msg;
     if \<not> DLT_IS_HTYP_UEH h then Some True
     else do { m \<leftarrow> msg_msin msg; Some (m AND 0x01 = 0) }
   }"

text \<open>Whether the message is a control message of the given kind, or of any.\<close>

definition DLT_MSG_IS_CONTROL :: "DltMessage \<Rightarrow> nat option \<Rightarrow> bool option" where
  "DLT_MSG_IS_CONTROL msg kind = do {
     h \<leftarrow> std_htyp msg;
     if \<not> DLT_IS_HTYP_UEH h then Some False
     else do {
       m \<leftarrow> msg_msin msg;
       Some (DLT_GET_MSIN_MSTP m = 3 \<and> (case kind of None \<Rightarrow> True | Some k \<Rightarrow> DLT_GET_MSIN_MTIN m = k))
     }
   }"

text \<open>\<^verbatim>\<open>DLT_CONTROL_RESPONSE\<close> is 2 and \<^verbatim>\<open>DLT_CONTROL_TIME\<close> is 3.\<close>

definition payload_nonverbose ::
  "DltMessage \<Rightarrow> bytes \<Rightarrow> bytes \<Rightarrow> int \<Rightarrow> bool \<Rightarrow> (DltReturnValue \<times> bytes) option" where
  "payload_nonverbose msg d t textlength limited = do {
     h \<leftarrow> std_htyp msg;
     if datasize msg < 4 then Some (DLT_RETURN_ERROR, t)
     else do {
       bs \<leftarrow> load_at d 0 4;
       let ident = end_val (DLT_IS_HTYP_MSBF h) bs;
       let datalength = datasize msg - 4;
       if textlength < u32 (datalength * 3 + 20) then Some (DLT_RETURN_ERROR, t)
       else do {
         control \<leftarrow> DLT_MSG_IS_CONTROL msg None;
         control_time \<leftarrow> DLT_MSG_IS_CONTROL msg (Some 3);
         t \<leftarrow> (if control then print_service t textlength ident control_time datalength
               else append_text t textlength (dec_text ident @ str '', ''));
         response \<leftarrow> DLT_MSG_IS_CONTROL msg (Some 2);
         (t, p, datalength) \<leftarrow> (if response then print_status t textlength d 4 datalength else Some (t, 4, datalength));
         print_rest t textlength limited d p datalength
       }
     }
   }"

text \<open>
  The loop over the arguments. The type info is read into a variable that keeps its value when there are
  not enough bytes; then the length is negative and the output of the argument fails.
\<close>

fun payload_args ::
  "bytes \<Rightarrow> bool \<Rightarrow> (type_info \<Rightarrow> int \<Rightarrow> nat \<Rightarrow> int \<Rightarrow> pst \<Rightarrow> (DltReturnValue \<times> pst) option) \<Rightarrow> int \<Rightarrow> nat \<Rightarrow> nat
   \<Rightarrow> type_info \<Rightarrow> pst \<Rightarrow> (DltReturnValue \<times> bytes) option" where
  "payload_args d msb print_arg textlength num 0 info s = Some (DLT_RETURN_OK, p_text s)"
| "payload_args d msb print_arg textlength num (Suc k) info s = do {
     t \<leftarrow> (if num \<noteq> 0 then append_text (p_text s) textlength [32] else Some (p_text s));
     r \<leftarrow> read_num d msb 4 (s\<lparr>p_text := t\<rparr>);
     let (info, s) = (case r of Fail s \<Rightarrow> (info, s) | Next x s \<Rightarrow> (of_nat x, s));
     n \<leftarrow> strlen t;
     (ret, s) \<leftarrow> print_arg info (-1) n (u64 (textlength - int n)) s;
     if ret = DLT_RETURN_ERROR then Some (DLT_RETURN_ERROR, p_text s)
     else payload_args d msb print_arg textlength (num + 1) k info s
   }"

text \<open>The forms of output, \<^verbatim>\<open>DLT_OUTPUT_HEX\<close> to \<^verbatim>\<open>DLT_OUTPUT_ASCII_LIMITED\<close>.\<close>

abbreviation (input) DLT_OUTPUT_HEX :: int where "DLT_OUTPUT_HEX \<equiv> 1"
abbreviation (input) DLT_OUTPUT_ASCII :: int where "DLT_OUTPUT_ASCII \<equiv> 2"
abbreviation (input) DLT_OUTPUT_MIXED_FOR_PLAIN :: int where "DLT_OUTPUT_MIXED_FOR_PLAIN \<equiv> 3"
abbreviation (input) DLT_OUTPUT_MIXED_FOR_HTML :: int where "DLT_OUTPUT_MIXED_FOR_HTML \<equiv> 4"
abbreviation (input) DLT_OUTPUT_ASCII_LIMITED :: int where "DLT_OUTPUT_ASCII_LIMITED \<equiv> 5"

definition dlt_message_payload ::
  "DltMessage \<Rightarrow> bytes \<Rightarrow> int \<Rightarrow> int \<Rightarrow> bool \<Rightarrow> (DltReturnValue \<times> bytes) option" where
  "dlt_message_payload msg t textlength type pwa =
     (case databuffer msg of None \<Rightarrow> Some (DLT_RETURN_WRONG_PARAMETER, t)
      | Some d \<Rightarrow>
        if type < DLT_OUTPUT_HEX \<or> type > DLT_OUTPUT_ASCII_LIMITED \<or> textlength \<le> 0 then Some (DLT_RETURN_WRONG_PARAMETER, t)
        else do {
          t \<leftarrow> store_at t 0 [0];
          if type = DLT_OUTPUT_HEX then dlt_print_hex_string t 0 (i32 textlength) d 0 (i32 (datasize msg))
          else if type = DLT_OUTPUT_MIXED_FOR_PLAIN then dlt_print_mixed_string t 0 (i32 textlength) d (i32 (datasize msg)) False
          else if type = DLT_OUTPUT_MIXED_FOR_HTML then dlt_print_mixed_string t 0 (i32 textlength) d (i32 (datasize msg)) True
          else do {
            nonverbose \<leftarrow> DLT_MSG_IS_NONVERBOSE msg;
            if nonverbose then payload_nonverbose msg d t textlength (type = DLT_OUTPUT_ASCII_LIMITED)
            else do {
              h \<leftarrow> std_htyp msg;
              noar \<leftarrow> msg_noar msg;
              payload_args d (DLT_IS_HTYP_MSBF h) (dlt_message_argument_print msg pwa) textlength 0 (unat noar) 0
                \<lparr>p_ptr = 0, p_len = datasize msg, p_text = t\<rparr>
            }
          }
        })"

text \<open>In version 2 the message id is in the header. \<open>htyp2\<close> has the kind of message in its lowest bits.\<close>

definition control_v2 :: "DltMessageV2 \<Rightarrow> nat option \<Rightarrow> bool option" where
  "control_v2 msg kind = do {
     h \<leftarrow> htyp2 msg;
     Some (h AND 3 = 2 \<and> DLT_GET_MSIN_MSTP (hx_msin (headerextrav2 msg)) = 3
       \<and> (case kind of None \<Rightarrow> True | Some k \<Rightarrow> DLT_GET_MSIN_MTIN (hx_msin (headerextrav2 msg)) = k))
   }"

definition control_time_v2 :: "DltMessageV2 \<Rightarrow> bool" where
  "control_time_v2 msg \<longleftrightarrow> DLT_GET_MSIN_MSTP (hx_msin (headerextrav2 msg)) = 3 \<and> DLT_GET_MSIN_MTIN (hx_msin (headerextrav2 msg)) = 3"

text \<open>The id of a control message is zero, and the length negative, when the payload is too short for it.\<close>

definition payload_control_v2 ::
  "DltMessageV2 \<Rightarrow> bytes \<Rightarrow> bytes \<Rightarrow> int \<Rightarrow> bool \<Rightarrow> (DltReturnValue \<times> bytes) option" where
  "payload_control_v2 msg d t textlength limited = do {
     (ident, p, datalength) \<leftarrow> (if i32 (datasizev2 msg) < 4 then Some (0, 0, -1)
                               else do { bs \<leftarrow> load_at d 0 4; Some (le_val bs, 4, i32 (datasizev2 msg) - 4) });
     t \<leftarrow> print_service t textlength ident (control_time_v2 msg) datalength;
     response \<leftarrow> control_v2 msg (Some 2);
     (t, p, datalength) \<leftarrow> (if response then print_status t textlength d p datalength else Some (t, p, datalength));
     print_rest t textlength limited d p datalength
   }"

definition dlt_message_payload_v2 ::
  "DltMessageV2 \<Rightarrow> bytes \<Rightarrow> int \<Rightarrow> int \<Rightarrow> bool \<Rightarrow> (DltReturnValue \<times> bytes) option" where
  "dlt_message_payload_v2 msg t textlength type pwa =
     (case databufferv2 msg of None \<Rightarrow> Some (DLT_RETURN_WRONG_PARAMETER, t)
      | Some d \<Rightarrow>
        if type < DLT_OUTPUT_HEX \<or> type > DLT_OUTPUT_ASCII_LIMITED \<or> textlength \<le> 0 then Some (DLT_RETURN_WRONG_PARAMETER, t)
        else do {
          t \<leftarrow> store_at t 0 [0];
          if type = DLT_OUTPUT_HEX then dlt_print_hex_string t 0 (i32 textlength) d 0 (i32 (datasizev2 msg))
          else if type = DLT_OUTPUT_MIXED_FOR_PLAIN then dlt_print_mixed_string t 0 (i32 textlength) d (i32 (datasizev2 msg)) False
          else if type = DLT_OUTPUT_MIXED_FOR_HTML then dlt_print_mixed_string t 0 (i32 textlength) d (i32 (datasizev2 msg)) True
          else do {
            h \<leftarrow> htyp2 msg;
            if h AND 3 = 1 then
              (if textlength < u32 (i32 (datasizev2 msg) * 3 + 20) then Some (DLT_RETURN_ERROR, t)
               else print_rest t textlength (type = DLT_OUTPUT_ASCII_LIMITED) d 0 (i32 (datasizev2 msg)))
            else do {
              control \<leftarrow> control_v2 msg None;
              if control then payload_control_v2 msg d t textlength (type = DLT_OUTPUT_ASCII_LIMITED)
              else payload_args d False (dlt_message_argument_print_v2 msg pwa) textlength 0
                     (unat (hx_noar (headerextrav2 msg))) 0
                     \<lparr>p_ptr = 0, p_len = i32 (datasizev2 msg), p_text = t\<rparr>
            }
          }
        })"

end
