(* ===== verification/Dlt_Output.thy ===== *)
theory Dlt_Output
  imports Dlt_Print
begin

unbundle bit_operations_syntax

text \<open>
  What the output of messages does: how each kind of argument is printed, wherever it is in the payload and
  wherever the text goes, and that the arguments an application logs are printed as their texts. Two
  statements show where the output leaves its buffers.
\<close>

section \<open>Single steps\<close>

text \<open>The bytes \<open>bs\<close> are in \<open>d\<close> at \<open>p\<close>.\<close>

definition fetch :: "bytes \<Rightarrow> nat \<Rightarrow> bytes \<Rightarrow> bool" where
  "fetch d p bs \<longleftrightarrow> load_at d p (length bs) = Some bs"

lemma fetch_append [simp]: "fetch d p (x @ y) \<longleftrightarrow> fetch d p x \<and> fetch d (p + length x) y"
proof -
  have "take (length x + length y) (drop p d) = x @ y \<longleftrightarrow>
      take (length x) (drop p d) = x \<and> take (length y) (drop (p + length x) d) = y"
    if "p + length x + length y \<le> length d"
  proof -
    have "take (length x + length y) (drop p d) = take (length x) (drop p d) @ take (length y) (drop (p + length x) d)"
      by (metis add.commute drop_drop take_add)
    moreover have "length (take (length x) (drop p d)) = length x" using that by simp
    ultimately show ?thesis by auto
  qed
  then show ?thesis by (auto simp: fetch_def load_at_def)
qed

lemma fetch_Cons: "fetch d p (c # y) \<longleftrightarrow> fetch d p [c] \<and> fetch d (p + 1) y"
  using fetch_append [of d p "[c]" y] by simp

lemma fetch_byte: "fetch d p [c] \<Longrightarrow> byte_at d p = Some c"
  by (auto simp: fetch_def load_at_def byte_at_def split: if_splits)
    (metis Cons_nth_drop_Suc Suc_le_lessD list.inject take_Suc_Cons)

lemma strlen_append: "0 \<notin> set s \<Longrightarrow> strlen (s @ 0 # r) = Some (length s)"
  by (induction s) auto

lemma fetch_string:
  assumes "fetch d p (s @ [0])" "0 \<notin> set s"
  shows "cstring_at d p = Some s"
proof -
  have "p + length s + 1 \<le> length d" and "take (length s + 1) (drop p d) = s @ [0]"
    using assms(1) by (auto simp: fetch_def load_at_def split: if_splits)
  then have "drop p d = s @ 0 # drop (length s + 1) (drop p d)"
    by (metis append_Cons append_Nil append_assoc append_take_drop_id)
  then have "strlen (drop p d) = Some (length s)" using strlen_append [OF assms(2)] by metis
  moreover have "fetch d p s" using assms(1) by simp
  ultimately show ?thesis by (simp add: cstring_at_def strlen_at_def fetch_def)
qed

lemma andthen_Next [simp]: "andthen (Some (Next a s)) f = f a s"
  by (simp add: andthen_def)

lemma read_num_ok:
  assumes "fetch d p bs" "length bs = k" "int k \<le> l"
  shows "read_num d msb k \<lparr>p_ptr = p, p_len = l, p_text = t\<rparr> =
    Some (Next (end_val msb bs) \<lparr>p_ptr = p + k, p_len = l - int k, p_text = t\<rparr>)"
  using assms by (simp add: read_num_def fetch_def)

lemma skip_ok: "int k \<le> l \<Longrightarrow> skip k \<lparr>p_ptr = p, p_len = l, p_text = t\<rparr> = Some (Next () \<lparr>p_ptr = p + k, p_len = l - int k, p_text = t\<rparr>)"
  by (simp add: skip_def)

lemma store_text: "length txt < length r \<Longrightarrow> store_at (h @ r) (length h) (txt @ [0]) = Some (h @ txt @ 0 # drop (length txt + 1) r)"
  by (simp add: store_at_def)

lemma snprintf_ok:
  "int (length txt) < avail \<Longrightarrow> length txt < length r \<Longrightarrow>
   snprintf_at (h @ r) (length h) (nat avail) txt = Some (h @ txt @ 0 # drop (length txt + 1) r)"
  by (simp add: snprintf_at_def store_text nat_less_iff)

lemma write_text_ok:
  assumes "int (length txt) < avail" "length txt < length r" "off = length h"
  shows "write_text off avail txt \<lparr>p_ptr = p, p_len = l, p_text = h @ r\<rparr> =
    Some (Next () \<lparr>p_ptr = p, p_len = l, p_text = h @ txt @ 0 # drop (length txt + 1) r\<rparr>)"
  using assms by (simp add: write_text_def snprintf_ok)

lemma end_val_le [simp]: "end_val False bs = le_val bs"
  by (simp add: end_val_def)

section \<open>Attributes\<close>

definition attr_ok :: "bytes option \<Rightarrow> bool" where
  "attr_ok name \<longleftrightarrow> (case name of None \<Rightarrow> True | Some s \<Rightarrow> 0 \<notin> set s \<and> length s + 1 < 65536)"

definition name_text :: "bool \<Rightarrow> bytes option \<Rightarrow> bytes" where
  "name_text pwa name = (case name of None \<Rightarrow> [] | Some s \<Rightarrow> if pwa \<and> s \<noteq> [] then s @ [58] else [])"

definition unit_text :: "bool \<Rightarrow> bytes option \<Rightarrow> bytes" where
  "unit_text pwa unit = (case unit of None \<Rightarrow> [] | Some s \<Rightarrow> if pwa \<and> s \<noteq> [] then 58 # s else [])"

lemma attr_bytes_Some: "attr_ok (Some s) \<Longrightarrow> attr_bytes (Some s) = s @ [0]" "attr_ok (Some s) \<Longrightarrow> attr_size (Some s) = length s + 1"
  by (simp_all add: attr_ok_def attr_bytes_def attr_size_def)

lemma print_name_ok:
  assumes "fetch d p (attr_bytes name)" "attr_ok name" "int (length (name_text pwa name)) < avail" "avail < 2147483648"
    "length (name_text pwa name) \<le> length r" "keep = 0 \<or> keep = 1"
  obtains r' avail' where "print_name d pwa (length h) avail (attr_size name) keep \<lparr>p_ptr = p, p_len = l, p_text = h @ 0 # r\<rparr> =
      Some (Next (length (h @ name_text pwa name), avail') \<lparr>p_ptr = p, p_len = l, p_text = (h @ name_text pwa name) @ 0 # r'\<rparr>)"
    "length r' + length (name_text pwa name) = length r"
    "avail - int (length (name_text pwa name)) \<le> avail'" "avail' \<le> avail - int (length (name_text pwa name)) + 1"
proof (cases "name_text pwa name = []")
  case True
  then have "\<not> (pwa \<and> attr_size name > 1)" using assms(2) by (cases name) (auto simp: name_text_def attr_size_def attr_ok_def split: if_splits)
  then show thesis using True by (intro that [of avail r]) (auto simp: print_name_def)
next
  case False
  then obtain s where s: "name = Some s" "pwa" "s \<noteq> []" by (auto simp: name_text_def split: option.splits if_splits)
  with assms(1,2) have c: "cstring_at d p = Some s" and n: "attr_size name = length s + 1"
    by (auto intro!: fetch_string simp: attr_bytes_Some simp del: fetch_append, auto simp: attr_ok_def)
  have w: "write_text (length h) avail (s @ [58]) \<lparr>p_ptr = p, p_len = l, p_text = h @ 0 # r\<rparr> =
      Some (Next () \<lparr>p_ptr = p, p_len = l, p_text = h @ (s @ [58]) @ 0 # drop (length (s @ [58]) + 1) (0 # r)\<rparr>)"
    by (rule write_text_ok) (use assms(3,5) s in \<open>simp_all add: name_text_def\<close>)
  show thesis
    using assms(3-6) s n
    by (intro that [of "u64 (avail - (int (length s + 1) - keep))" "drop (length (s @ [58])) r"])
      (auto simp: print_name_def c w name_text_def c_casts)
qed

lemma read_name_ok:
  assumes "fetch d p (le_bytes 2 (attr_size name) @ attr_bytes name)" "attr_ok name"
    "int (length (name_text pwa name)) < avail" "avail < 2147483648" "length (name_text pwa name) \<le> length r" "keep = 0 \<or> keep = 1"
    "2 + int (attr_size name) \<le> l"
  obtains r' avail' where "read_name d False pwa (length h) avail keep \<lparr>p_ptr = p, p_len = l, p_text = h @ 0 # r\<rparr> =
      Some (Next (length (h @ name_text pwa name), avail') \<lparr>p_ptr = p + 2 + attr_size name, p_len = l - 2 - int (attr_size name),
        p_text = (h @ name_text pwa name) @ 0 # r'\<rparr>)"
    "length r' + length (name_text pwa name) = length r"
    "avail - int (length (name_text pwa name)) \<le> avail'" "avail' \<le> avail - int (length (name_text pwa name)) + 1"
proof -
  have f: "fetch d p (le_bytes 2 (attr_size name))" "fetch d (p + 2) (attr_bytes name)" using assms(1) by simp_all
  have v: "le_val (le_bytes 2 (attr_size name)) = attr_size name" using attr_size_bound [of name] by (simp add: le_val_bytes_id)
  obtain r' avail' where pn: "print_name d pwa (length h) avail (attr_size name) keep
      \<lparr>p_ptr = p + 2, p_len = l - 2, p_text = h @ 0 # r\<rparr> =
      Some (Next (length (h @ name_text pwa name), avail') \<lparr>p_ptr = p + 2, p_len = l - 2, p_text = (h @ name_text pwa name) @ 0 # r'\<rparr>)"
    "length r' + length (name_text pwa name) = length r"
    "avail - int (length (name_text pwa name)) \<le> avail'" "avail' \<le> avail - int (length (name_text pwa name)) + 1"
    by (rule print_name_ok [OF f(2) assms(2-6)])
  show thesis
    by (rule that [of avail' r']) (use assms(7) pn in \<open>simp_all add: read_name_def read_num_ok [OF f(1)] v skip_ok\<close>)
qed

section \<open>Bytes as digits\<close>

definition hex_join :: "byte \<Rightarrow> bytes \<Rightarrow> bytes" where
  "hex_join delim bs = (case bs of [] \<Rightarrow> []
     | b # bs \<Rightarrow> hex_text 2 (unat b) @ concat (map (\<lambda>b. delim # hex_text 2 (unat b)) bs))"

lemma hex_digits_byte: "n < 256 \<Longrightarrow> hex_digits n = (if n < 16 then [hex_digit n] else [hex_digit (n div 16), hex_digit (n mod 16)])"
  using less_mult_imp_div_less [of n 16 16] by (simp add: hex_digits.simps [of n] hex_digits.simps [of "n div 16"])

lemma length_hex_byte [simp]: "length (hex_text 2 (unat (b :: byte))) = 2"
  using unat_byte_less [of b] by (simp add: hex_text_def hex_digits_byte)

lemma snprintf_step:
  assumes "length txt < n" "length txt \<le> length r" "off = length h"
  shows "snprintf_at (h @ 0 # r) off n txt = Some ((h @ txt) @ 0 # drop (length txt) r)"
  using assms snprintf_ok [of "txt" "int n" "0 # r" h] by simp

lemma hex_loop_ok:
  assumes "fetch d (p + num) bs" "0 < num" "3 * length bs \<le> length r"
  shows "hex_loop (h @ 0 # r) (length h) d p delim num (length bs) =
    Some (h @ concat (map (\<lambda>b. delim # hex_text 2 (unat b)) bs) @ 0 # drop (3 * length bs) r)"
  using assms
proof (induction bs arbitrary: h r num)
  case (Cons b bs)
  let ?x = "hex_text 2 (unat b)"
  have b: "byte_at d (p + num) = Some b" and bs: "fetch d (p + Suc num) bs"
    using Cons.prems(1) fetch_Cons [of d "p + num" b bs] by (auto intro: fetch_byte)
  have r: "3 * length bs \<le> length (drop 2 (drop 1 r))" using Cons.prems(3) by simp
  have 1: "snprintf_at (h @ 0 # r) (length h) 2 [delim] = Some ((h @ [delim]) @ 0 # drop 1 r)"
    using snprintf_step [of "[delim]" 2 r "length h" h] Cons.prems(3) by simp
  have 2: "snprintf_at ((h @ [delim]) @ 0 # drop 1 r) (length h + 1) 3 ?x = Some (((h @ [delim]) @ ?x) @ 0 # drop 2 (drop 1 r))"
    using snprintf_step [of ?x 3 "drop 1 r" "length h + 1" "h @ [delim]"] Cons.prems(3) by simp
  show ?case
    using Cons.IH [OF bs _ r, of "(h @ [delim]) @ ?x"] Cons.prems(2) 1 2 b by (simp add: add.commute numeral_3_eq_3)
qed simp

lemma hex_string_ok:
  assumes "fetch d p bs" "3 * int (length bs) \<le> textlength" "0 < textlength" "textlength < 2147483648" "delim \<noteq> 0"
    "length (hex_join delim bs) \<le> length r" "off = length h"
  shows "dlt_print_hex_string_delim (h @ 0 # r) off textlength d p (int (length bs)) delim =
    Some (DLT_RETURN_OK, h @ hex_join delim bs @ 0 # drop (length (hex_join delim bs)) r)"
proof (cases bs)
  case Nil
  with assms show ?thesis by (simp add: dlt_print_hex_string_delim_def hex_join_def c_casts)
next
  case (Cons b cs)
  let ?x = "hex_text 2 (unat b)"
  have b: "byte_at d p = Some b" and cs: "fetch d (p + 1) cs"
    using assms(1) fetch_Cons [of d p b cs] Cons by (auto intro: fetch_byte)
  have len: "length (hex_join delim bs) = 2 + 3 * length cs"
    by (simp add: Cons hex_join_def length_concat comp_def sum_list_triv)
  have 1: "snprintf_at (h @ 0 # r) (length h) 3 ?x = Some ((h @ ?x) @ 0 # drop 2 r)"
    using snprintf_step [of ?x 3 r "length h" h] assms(6) len by simp
  have l: "hex_loop (h @ 0 # r) (length h) d p delim 0 (length bs) = Some (h @ hex_join delim bs @ 0 # drop (length (hex_join delim bs)) r)"
    using hex_loop_ok [OF cs, of "drop 2 r" "h @ ?x" delim] 1 b assms(6) len by (simp add: Cons hex_join_def ac_simps)
  show ?thesis using assms(2-5,7) l by (simp add: dlt_print_hex_string_delim_def c_casts)
qed

section \<open>What the output of an argument does\<close>

lemma minus_one_less: "(-1 :: int) < 0"
  by simp

text \<open>
  An argument with the type info \<open>w\<close> and the bytes \<open>body\<close> is printed as \<open>x\<close>, wherever it is and wherever the
  text is put, when there is room for the text and two bytes more.
\<close>

definition prints :: "bool \<Rightarrow> type_info \<Rightarrow> bytes \<Rightarrow> bytes \<Rightarrow> bool" where
  "prints pwa w body x \<longleftrightarrow> (\<forall>d p l h r avail.
     fetch d p body \<and> int (length body) \<le> l \<and> int (length x) + 2 \<le> avail \<and> avail \<le> int (length r) + 1 \<and> avail < 2147483647 \<longrightarrow>
     (\<exists>r'. length r' + length x = length r \<and>
       argument_print d False pwa w (-1) (length h) avail \<lparr>p_ptr = p, p_len = l, p_text = h @ 0 # r\<rparr> =
         Some (DLT_RETURN_OK, \<lparr>p_ptr = p + length body, p_len = l - int (length body), p_text = h @ x @ 0 # r'\<rparr>)))"

lemma printsI:
  assumes "\<And>d p l h r avail. fetch d p body \<Longrightarrow> int (length body) \<le> l \<Longrightarrow> int (length x) + 2 \<le> avail \<Longrightarrow>
      avail \<le> int (length r) + 1 \<Longrightarrow> avail < 2147483647 \<Longrightarrow>
      \<exists>r' v. length r' + length x = length r \<and>
       print_value d False pwa w (-1) (length h) avail \<lparr>p_ptr = p, p_len = l, p_text = h @ 0 # r\<rparr> =
         Some (Next v \<lparr>p_ptr = p + length body, p_len = l - int (length body), p_text = h @ x @ 0 # r'\<rparr>) \<and> snd (snd (snd v)) = 0"
  shows "prints pwa w body x"
proof -
  have "\<exists>r'. length r' + length x = length r \<and>
       argument_print d False pwa w (-1) (length h) avail \<lparr>p_ptr = p, p_len = l, p_text = h @ 0 # r\<rparr> =
         Some (DLT_RETURN_OK, \<lparr>p_ptr = p + length body, p_len = l - int (length body), p_text = h @ x @ 0 # r'\<rparr>)"
    if prem: "fetch d p body" "int (length body) \<le> l" "int (length x) + 2 \<le> avail" "avail \<le> int (length r) + 1" "avail < 2147483647"
    for d p l h r avail
  proof -
    obtain r' v where "length r' + length x = length r"
       "print_value d False pwa w (-1) (length h) avail \<lparr>p_ptr = p, p_len = l, p_text = h @ 0 # r\<rparr> =
         Some (Next v \<lparr>p_ptr = p + length body, p_len = l - int (length body), p_text = h @ x @ 0 # r'\<rparr>)" "snd (snd (snd v)) = 0"
      using assms [OF prem, of h] by blast
    then show ?thesis using prem(2)
      by (intro exI [of _ r']) (cases v, simp add: argument_print_def print_unit_def)
  qed
  then show ?thesis unfolding prints_def by blast
qed

definition clean :: "bytes \<Rightarrow> bytes" where
  "clean s = map (\<lambda>c. if c = 0x0D \<or> c = 0x0A then 0x20 else c) s"

lemma length_clean [simp]: "length (clean s) = length s"
  by (simp add: clean_def)

lemma read_string_ok:
  assumes "fetch d p (s @ [0])" "int (length s + 1) \<le> l" "int (length s + 1) \<le> avail" "length s + 1 \<le> length r" "off = length h"
  shows "read_string d off avail (length s + 1) \<lparr>p_ptr = p, p_len = l, p_text = h @ 0 # r\<rparr> =
    Some (Next () \<lparr>p_ptr = p + (length s + 1), p_len = l - int (length s + 1), p_text = h @ clean s @ 0 # 0 # drop (length s + 1) r\<rparr>)"
proof -
  have l: "load_at d p (length s + 1) = Some (s @ [0])" using assms(1) unfolding fetch_def by simp
  have st: "store_at (h @ 0 # r) (length h) (s @ [0]) = Some (h @ s @ 0 # drop (length s) r)"
    using store_text [of s "0 # r" h] assms(4) by simp
  have c: "dlt_clean_string (s @ 0 # drop (length s) r) (length s + 1) = Some (clean s @ 0 # drop (length s) r)"
    using clean_string_spec [of "length s + 1" "s @ 0 # drop (length s) r"] by (simp add: clean_def)
  have "store_at (h @ clean s @ 0 # drop (length s) r) (length h + (length s + 1)) [0] =
      Some (h @ clean s @ 0 # 0 # drop (length s + 1) r)"
    using assms(4) store_text [of "[]" "drop (length s) r" "h @ clean s @ [0]"] by (simp add: ac_simps)
  with l st c show ?thesis using assms(2-5) by (simp add: read_string_def)
qed

definition flat :: "bytes option option \<Rightarrow> bytes option" where
  "flat nm = (case nm of None \<Rightarrow> None | Some n \<Rightarrow> n)"

text \<open>The name of an argument that has one, as its type info tells.\<close>

lemma maybe_name_ok:
  assumes "fetch d p (encode_name nm)" "attr_ok (flat nm)"
    "int (length (name_text pwa (flat nm))) < avail" "avail < 2147483648" "length (name_text pwa (flat nm)) \<le> length r"
    "keep = 0 \<or> keep = 1" "int (length (encode_name nm)) \<le> l" "vari = (nm \<noteq> None)"
  obtains r' avail' where "(if vari then read_name d False pwa (length h) avail keep \<lparr>p_ptr = p, p_len = l, p_text = h @ 0 # r\<rparr>
        else Some (Next (length h, avail) \<lparr>p_ptr = p, p_len = l, p_text = h @ 0 # r\<rparr>)) =
      Some (Next (length (h @ name_text pwa (flat nm)), avail') \<lparr>p_ptr = p + length (encode_name nm),
        p_len = l - int (length (encode_name nm)), p_text = (h @ name_text pwa (flat nm)) @ 0 # r'\<rparr>)"
    "length r' + length (name_text pwa (flat nm)) = length r"
    "avail - int (length (name_text pwa (flat nm))) \<le> avail'" "avail' \<le> avail - int (length (name_text pwa (flat nm))) + 1"
proof (cases nm)
  case None
  then show thesis using assms(8) by (intro that [of avail r]) (simp_all add: name_text_def flat_def)
next
  case (Some name)
  have f: "fetch d p (le_bytes 2 (attr_size name) @ attr_bytes name)" and l: "2 + int (attr_size name) \<le> l"
    using assms(1,7) by (simp_all add: Some encode_name_def)
  show thesis
    by (rule read_name_ok [OF f assms(2-6) [unfolded Some flat_def option.case] l, of h])
      (rule that, use assms(8) in \<open>simp_all add: Some flat_def\<close>)
qed

lemma prints_text:
  assumes "0 \<notin> set s" "length s + 1 < 65536" "attr_ok (flat nm)"
  shows "prints pwa (with_vari nm (text_info type)) (le_bytes 2 (length s + 1) @ encode_name nm @ s @ [0])
    (name_text pwa (flat nm) @ clean s)"
proof (rule printsI)
  fix d p l and h r :: bytes and avail
  let ?n = "name_text pwa (flat nm)"
  assume f: "fetch d p (le_bytes 2 (length s + 1) @ encode_name nm @ s @ [0])"
    and l: "int (length (le_bytes 2 (length s + 1) @ encode_name nm @ s @ [0])) \<le> l"
    and a: "int (length (?n @ clean s)) + 2 \<le> avail" "avail \<le> int (length r) + 1" "avail < 2147483647"
  have w: "print_value d False pwa (with_vari nm (text_info type)) (-1) (length h) avail =
      print_string d False pwa (nm \<noteq> None) (-1) (length h) avail"
    by (cases type; cases nm) (simp_all add: fun_eq_iff print_value_def with_vari_def text_info_def type_info_defs)
  have v: "le_val (le_bytes 2 (length s + 1)) = length s + 1" using assms(2) by (simp add: le_val_bytes_id)
  obtain r' avail' where nm: "(if nm \<noteq> None then read_name d False pwa (length h) avail 0 \<lparr>p_ptr = p + 2, p_len = l - 2, p_text = h @ 0 # r\<rparr>
        else Some (Next (length h, avail) \<lparr>p_ptr = p + 2, p_len = l - 2, p_text = h @ 0 # r\<rparr>)) =
      Some (Next (length (h @ ?n), avail') \<lparr>p_ptr = p + 2 + length (encode_name nm),
        p_len = l - 2 - int (length (encode_name nm)), p_text = (h @ ?n) @ 0 # r'\<rparr>)"
    "length r' + length ?n = length r" "avail - int (length ?n) \<le> avail'" "avail' \<le> avail - int (length ?n) + 1"
    by (rule maybe_name_ok [of d "p + 2" nm pwa avail r 0 "l - 2" "nm \<noteq> None" h])
      (use f a l assms(3) in simp_all)
  have rs: "read_string d (length (h @ ?n)) avail' (length s + 1) \<lparr>p_ptr = p + 2 + length (encode_name nm),
        p_len = l - 2 - int (length (encode_name nm)), p_text = (h @ ?n) @ 0 # r'\<rparr> =
      Some (Next () \<lparr>p_ptr = p + 2 + length (encode_name nm) + (length s + 1),
        p_len = l - 2 - int (length (encode_name nm)) - int (length s + 1),
        p_text = (h @ ?n) @ clean s @ 0 # 0 # drop (length s + 1) r'\<rparr>)"
    by (rule read_string_ok) (use f l a nm in simp_all)
  have rn: "read_num d False 2 \<lparr>p_ptr = p, p_len = l, p_text = h @ 0 # r\<rparr> =
      Some (Next (length s + 1) \<lparr>p_ptr = p + 2, p_len = l - 2, p_text = h @ 0 # r\<rparr>)"
    using read_num_ok [of d p "le_bytes 2 (length s + 1)" 2 l False "h @ 0 # r"] f l v by simp
  have eq: "print_value d False pwa (with_vari nm (text_info type)) (-1) (length h) avail \<lparr>p_ptr = p, p_len = l, p_text = h @ 0 # r\<rparr> =
      Some (Next (length (h @ ?n), avail', 0, 0) \<lparr>p_ptr = p + 2 + length (encode_name nm) + (length s + 1),
        p_len = l - 2 - int (length (encode_name nm)) - int (length s + 1),
        p_text = (h @ ?n) @ clean s @ 0 # 0 # drop (length s + 1) r'\<rparr>)"
    by (simp only: w print_string_def neg_0_less_iff_less minus_one_less rn nm rs if_True andthen_Next fst_conv snd_conv at_value_def)
  show "\<exists>r'' v. length r'' + length (?n @ clean s) = length r \<and>
      print_value d False pwa (with_vari nm (text_info type)) (-1) (length h) avail \<lparr>p_ptr = p, p_len = l, p_text = h @ 0 # r\<rparr> =
        Some (Next v \<lparr>p_ptr = p + length (le_bytes 2 (length s + 1) @ encode_name nm @ s @ [0]),
          p_len = l - int (length (le_bytes 2 (length s + 1) @ encode_name nm @ s @ [0])),
          p_text = h @ (?n @ clean s) @ 0 # r''\<rparr>) \<and> snd (snd (snd v)) = 0"
    unfolding eq using nm(2) a by (intro exI [of _ "0 # drop (length s + 1) r'"] exI [of _ "(length (h @ ?n), avail', 0, 0)"]) simp
qed

lemma dec_text_nonzero [simp]: "0 \<notin> set (dec_text n)"
proof (induction n rule: dec_text.induct)
  case (1 n)
  have "(of_nat (48 + k) :: byte) \<noteq> 0" if "k < 10" for k
  proof -
    have "unat (of_nat (48 + k) :: byte) = 48 + k" using that by (simp only: unat_of_nat) simp
    then show ?thesis by (metis add_eq_0_iff_both_eq_0 unat_0 zero_neq_numeral)
  qed
  then show ?case using 1 by (subst dec_text.simps) (auto simp flip: of_nat_add)
qed

lemma int_text_nonzero [simp]: "0 \<notin> set (int_text i)"
  by (simp add: int_text_def)

lemma strip_zeros_nonzero: "0 \<notin> set s \<Longrightarrow> 0 \<notin> set (strip_zeros s)"
  by (auto simp: strip_zeros_def dest: set_dropWhileD)

lemma with_fraction_nonzero: "0 \<notin> set i \<Longrightarrow> 0 \<notin> set f \<Longrightarrow> 0 \<notin> set (with_fraction i f)"
  using strip_zeros_nonzero [of f] by (simp add: with_fraction_def)

lemma g_text_nonzero: "0 \<notin> set (g_text a b)"
proof -
  have "0 \<notin> set (take n (dec_text d))" "0 \<notin> set (drop n (dec_text d))" for n d
    by (meson dec_text_nonzero in_set_takeD in_set_dropD)+
  then show ?thesis by (auto simp: g_text_def Let_def split: prod.splits dest!: with_fraction_nonzero [THEN notE, rotated 2])
qed

lemma float_text_nonzero [simp]: "0 \<notin> set (float_text k m v)"
  by (simp add: float_text_def Let_def g_text_nonzero str_def)

text \<open>How a value is printed behind the name that is there already.\<close>

definition value_prints :: "(bytes \<Rightarrow> value_pos \<Rightarrow> pst \<Rightarrow> value_pos step option) \<Rightarrow> bytes \<Rightarrow> bytes \<Rightarrow> bool" where
  "value_prints f body x \<longleftrightarrow> 0 \<notin> set x \<and> (\<forall>d p l h r avail us ul.
     fetch d p body \<and> int (length body) \<le> l \<and> int (length x) < avail \<and> length x \<le> length r \<longrightarrow>
     f d (length h, avail, us, ul) \<lparr>p_ptr = p, p_len = l, p_text = h @ 0 # r\<rparr> =
       Some (Next (length h, avail, us, ul) \<lparr>p_ptr = p + length body, p_len = l - int (length body),
         p_text = h @ x @ 0 # drop (length x) r\<rparr>))"

lemma value_printsD:
  assumes "value_prints f body x" "fetch d p body" "int (length body) \<le> l" "int (length x) < avail" "length x \<le> length r"
  shows "f d (length h, avail, us, ul) \<lparr>p_ptr = p, p_len = l, p_text = h @ 0 # r\<rparr> =
    Some (Next (length h, avail, us, ul) \<lparr>p_ptr = p + length body, p_len = l - int (length body),
      p_text = h @ x @ 0 # drop (length x) r\<rparr>)"
  using assms by (simp add: value_prints_def)

lemma value_prints_num:
  assumes "length bs = k"
  shows "value_prints (\<lambda>d. print_num d False issint k) bs (if issint then int_text (signed_val k (le_val bs)) else dec_text (le_val bs))"
  using assms by (auto simp: value_prints_def print_num_def read_num_ok write_text_ok)

lemma value_prints_float:
  assumes "length bs = k"
  shows "value_prints (\<lambda>d. print_float d False k e m) bs (float_text e m (le_val bs))"
  using assms by (auto simp: value_prints_def print_float_def read_num_ok write_text_ok)

lemma prints_bool:
  assumes "attr_ok (flat nm)"
  shows "prints pwa (with_vari nm (DLT_TYPE_INFO_BOOL OR DLT_TYLE_8BIT)) (encode_name nm @ [b])
    (name_text pwa (flat nm) @ dec_text (unat b))"
proof (rule printsI)
  fix d p l and h r :: bytes and avail
  let ?n = "name_text pwa (flat nm)" and ?w = "with_vari nm (DLT_TYPE_INFO_BOOL OR DLT_TYLE_8BIT)" and ?x = "dec_text (unat b)"
  assume f: "fetch d p (encode_name nm @ [b])" and l: "int (length (encode_name nm @ [b])) \<le> l"
    and a: "int (length (?n @ ?x)) + 2 \<le> avail" "avail \<le> int (length r) + 1" "avail < 2147483647"
  have w: "print_value d False pwa ?w (-1) (length h) avail = print_bool d False pwa (nm \<noteq> None) (length h) avail"
    by (cases nm) (simp_all add: fun_eq_iff print_value_def with_vari_def type_info_defs)
  obtain r' avail' where nm: "(if nm \<noteq> None then read_name d False pwa (length h) avail 1 \<lparr>p_ptr = p, p_len = l, p_text = h @ 0 # r\<rparr>
        else Some (Next (length h, avail) \<lparr>p_ptr = p, p_len = l, p_text = h @ 0 # r\<rparr>)) =
      Some (Next (length (h @ ?n), avail') \<lparr>p_ptr = p + length (encode_name nm),
        p_len = l - int (length (encode_name nm)), p_text = (h @ ?n) @ 0 # r'\<rparr>)"
    "length r' + length ?n = length r" "avail - int (length ?n) \<le> avail'" "avail' \<le> avail - int (length ?n) + 1"
    by (rule maybe_name_ok [of d p nm pwa avail r 1 l "nm \<noteq> None" h]) (use f a l assms in simp_all)
  have rn: "read_num d False 1 \<lparr>p_ptr = p + length (encode_name nm), p_len = l - int (length (encode_name nm)), p_text = (h @ ?n) @ 0 # r'\<rparr> =
      Some (Next (unat b) \<lparr>p_ptr = p + length (encode_name nm) + 1, p_len = l - int (length (encode_name nm)) - 1, p_text = (h @ ?n) @ 0 # r'\<rparr>)"
    using read_num_ok [of d "p + length (encode_name nm)" "[b]" 1 "l - int (length (encode_name nm))" False "(h @ ?n) @ 0 # r'"] f l by simp
  have wt: "write_text (length (h @ ?n)) avail' ?x
        \<lparr>p_ptr = p + length (encode_name nm) + 1, p_len = l - int (length (encode_name nm)) - 1, p_text = (h @ ?n) @ 0 # r'\<rparr> =
      Some (Next () \<lparr>p_ptr = p + length (encode_name nm) + 1, p_len = l - int (length (encode_name nm)) - 1,
        p_text = (h @ ?n) @ ?x @ 0 # drop (length ?x + 1) (0 # r')\<rparr>)"
    by (rule write_text_ok) (use nm a in simp_all)
  have eq: "print_value d False pwa ?w (-1) (length h) avail \<lparr>p_ptr = p, p_len = l, p_text = h @ 0 # r\<rparr> =
      Some (Next (length (h @ ?n), avail', 0, 0) \<lparr>p_ptr = p + length (encode_name nm) + 1, p_len = l - int (length (encode_name nm)) - 1,
        p_text = (h @ ?n) @ ?x @ 0 # drop (length ?x + 1) (0 # r')\<rparr>)"
    by (simp only: w print_bool_def rn nm wt andthen_Next fst_conv snd_conv at_value_def)
  show "\<exists>r'' v. length r'' + length (?n @ ?x) = length r \<and>
      print_value d False pwa ?w (-1) (length h) avail \<lparr>p_ptr = p, p_len = l, p_text = h @ 0 # r\<rparr> =
        Some (Next v \<lparr>p_ptr = p + length (encode_name nm @ [b]), p_len = l - int (length (encode_name nm @ [b])),
          p_text = h @ (?n @ ?x) @ 0 # r''\<rparr>) \<and> snd (snd (snd v)) = 0"
    unfolding eq using nm(2) a by (intro exI [of _ "drop (length ?x) r'"] exI [of _ "(length (h @ ?n), avail', 0, 0)"]) simp
qed

lemma raw_info_cases:
  assumes "valid_format f"
  shows "raw_info f wv AND DLT_TYPE_INFO_STRG = 0" "raw_info f wv AND DLT_TYPE_INFO_BOOL = 0"
    "raw_info f wv AND DLT_TYPE_INFO_UINT = 0" "raw_info f wv AND DLT_TYPE_INFO_SINT = 0"
    "raw_info f wv AND DLT_TYPE_INFO_FLOA = 0" "raw_info f wv AND DLT_TYPE_INFO_RAWD \<noteq> 0"
    "(raw_info f wv AND DLT_TYPE_INFO_VARI \<noteq> 0) = wv"
proof -
  have "f \<in> {0, 1, 2, 3, 4, 5, 6}"
    using assms by (auto simp: valid_format_def)
  then show "raw_info f wv AND DLT_TYPE_INFO_STRG = 0" "raw_info f wv AND DLT_TYPE_INFO_BOOL = 0"
    "raw_info f wv AND DLT_TYPE_INFO_UINT = 0" "raw_info f wv AND DLT_TYPE_INFO_SINT = 0"
    "raw_info f wv AND DLT_TYPE_INFO_FLOA = 0" "raw_info f wv AND DLT_TYPE_INFO_RAWD \<noteq> 0"
    "(raw_info f wv AND DLT_TYPE_INFO_VARI \<noteq> 0) = wv"
    by (cases wv; auto simp: raw_info_def raw_hint_def type_info_defs)+
qed

lemma prints_raw:
  assumes "valid_format f" "attr_ok (flat nm)" "length bs < 65536" "wv = (nm \<noteq> None)"
  shows "prints pwa (raw_info f wv) (le_bytes 2 (length bs) @ encode_name nm @ bs) (name_text pwa (flat nm) @ hex_join 39 bs)"
proof (rule printsI)
  fix d p l and h r :: bytes and avail
  let ?n = "name_text pwa (flat nm)" and ?w = "raw_info f wv" and ?x = "hex_join 39 bs"
  assume f: "fetch d p (le_bytes 2 (length bs) @ encode_name nm @ bs)" and l: "int (length (le_bytes 2 (length bs) @ encode_name nm @ bs)) \<le> l"
    and a: "int (length (?n @ ?x)) + 2 \<le> avail" "avail \<le> int (length r) + 1" "avail < 2147483647"
  have w: "print_value d False pwa ?w (-1) (length h) avail = print_raw d False pwa (nm \<noteq> None) (length h) avail"
    using raw_info_cases [OF assms(1), of wv] assms(4) by (simp add: fun_eq_iff print_value_def)
  have v: "le_val (le_bytes 2 (length bs)) = length bs" using assms(3) by (simp add: le_val_bytes_id)
  have rn: "read_num d False 2 \<lparr>p_ptr = p, p_len = l, p_text = h @ 0 # r\<rparr> =
      Some (Next (length bs) \<lparr>p_ptr = p + 2, p_len = l - 2, p_text = h @ 0 # r\<rparr>)"
    using read_num_ok [of d p "le_bytes 2 (length bs)" 2 l False "h @ 0 # r"] f l v by simp
  obtain r' avail' where nm: "(if nm \<noteq> None then read_name d False pwa (length h) avail 0 \<lparr>p_ptr = p + 2, p_len = l - 2, p_text = h @ 0 # r\<rparr>
        else Some (Next (length h, avail) \<lparr>p_ptr = p + 2, p_len = l - 2, p_text = h @ 0 # r\<rparr>)) =
      Some (Next (length (h @ ?n), avail') \<lparr>p_ptr = p + 2 + length (encode_name nm),
        p_len = l - 2 - int (length (encode_name nm)), p_text = (h @ ?n) @ 0 # r'\<rparr>)"
    "length r' + length ?n = length r" "avail - int (length ?n) \<le> avail'" "avail' \<le> avail - int (length ?n) + 1"
    by (rule maybe_name_ok [of d "p + 2" nm pwa avail r 0 "l - 2" "nm \<noteq> None" h]) (use f a l assms(2) in simp_all)
  have len: "length bs \<noteq> 0 \<longrightarrow> length ?x = 3 * length bs - 1"
    by (cases bs) (simp_all add: hex_join_def length_concat comp_def sum_list_triv)
  have hs: "dlt_print_hex_string_delim ((h @ ?n) @ 0 # r') (length (h @ ?n)) (i32 avail') d (p + 2 + length (encode_name nm)) (int (length bs)) 39 =
      Some (DLT_RETURN_OK, (h @ ?n) @ ?x @ 0 # drop (length ?x) r')"
  proof -
    have i: "i32 avail' = avail'" "3 * int (length bs) \<le> avail'" "0 < avail'" "avail' < 2147483648" "length ?x \<le> length r'"
      using a nm(2-4) len by (simp_all add: c_casts) (cases "length bs = 0"; simp)+
    then show ?thesis using f hex_string_ok [of d _ bs avail' 39 r' "length (h @ ?n)" "h @ ?n"] by simp
  qed
  have eq: "print_value d False pwa ?w (-1) (length h) avail \<lparr>p_ptr = p, p_len = l, p_text = h @ 0 # r\<rparr> =
      Some (Next (length (h @ ?n), avail', 0, 0) \<lparr>p_ptr = p + 2 + length (encode_name nm) + length bs,
        p_len = l - 2 - int (length (encode_name nm)) - int (length bs),
        p_text = (h @ ?n) @ ?x @ 0 # drop (length ?x) r'\<rparr>)"
    unfolding w print_raw_def rn nm andthen_Next using hs l by (simp add: skip_ok at_value_def)
  show "\<exists>r'' v. length r'' + length (?n @ ?x) = length r \<and>
      print_value d False pwa ?w (-1) (length h) avail \<lparr>p_ptr = p, p_len = l, p_text = h @ 0 # r\<rparr> =
        Some (Next v \<lparr>p_ptr = p + length (le_bytes 2 (length bs) @ encode_name nm @ bs), p_len = l - int (length (le_bytes 2 (length bs) @ encode_name nm @ bs)),
          p_text = h @ (?n @ ?x) @ 0 # r''\<rparr>) \<and> snd (snd (snd v)) = 0"
    unfolding eq using nm(2) a by (intro exI [of _ "drop (length ?x) r'"] exI [of _ "(length (h @ ?n), avail', 0, 0)"]) simp
qed

text \<open>Numbers, with a name and a unit if they have attributes.\<close>

definition attrs_bytes :: "(bytes option \<times> bytes option) option \<Rightarrow> bytes" where
  "attrs_bytes vi = (case vi of None \<Rightarrow> [] | Some (name, unit) \<Rightarrow>
     le_bytes 2 (attr_size name) @ le_bytes 2 (attr_size unit) @ attr_bytes name @ attr_bytes unit)"

definition attrs_ok :: "(bytes option \<times> bytes option) option \<Rightarrow> bool" where
  "attrs_ok vi \<longleftrightarrow> (case vi of None \<Rightarrow> True | Some (name, unit) \<Rightarrow> attr_ok name \<and> attr_ok unit)"

definition attrs_name :: "(bytes option \<times> bytes option) option \<Rightarrow> bytes option" where
  "attrs_name vi = (case vi of None \<Rightarrow> None | Some (name, unit) \<Rightarrow> name)"

definition attrs_unit :: "(bytes option \<times> bytes option) option \<Rightarrow> bytes option" where
  "attrs_unit vi = (case vi of None \<Rightarrow> None | Some (name, unit) \<Rightarrow> unit)"

lemma read_attributes_ok:
  assumes "fetch d p (attrs_bytes vi)" "attrs_ok vi"
    "int (length (name_text pwa (attrs_name vi))) < avail" "avail < 2147483648" "length (name_text pwa (attrs_name vi)) \<le> length r"
    "int (length (attrs_bytes vi)) \<le> l"
  obtains r' avail' us where "read_attributes d False pwa (vi \<noteq> None) (length h) avail \<lparr>p_ptr = p, p_len = l, p_text = h @ 0 # r\<rparr> =
      Some (Next (length (h @ name_text pwa (attrs_name vi)), avail', us, attr_size (attrs_unit vi))
        \<lparr>p_ptr = p + length (attrs_bytes vi), p_len = l - int (length (attrs_bytes vi)), p_text = (h @ name_text pwa (attrs_name vi)) @ 0 # r'\<rparr>)"
    "length r' + length (name_text pwa (attrs_name vi)) = length r" "fetch d us (attr_bytes (attrs_unit vi))"
    "avail - int (length (name_text pwa (attrs_name vi))) \<le> avail'" "avail' \<le> avail - int (length (name_text pwa (attrs_name vi))) + 1"
proof (cases vi)
  case None
  then show thesis
    by (intro that [of avail 0 r])
      (simp_all add: read_attributes_def at_value_def attrs_name_def attrs_unit_def attrs_bytes_def name_text_def attr_size_def attr_bytes_def fetch_def load_at_def)
next
  case (Some nu)
  obtain name unit where nu: "vi = Some (name, unit)" using Some by (cases nu) simp
  let ?n = "name_text pwa name"
  have f: "fetch d p (le_bytes 2 (attr_size name))" "fetch d (p + 2) (le_bytes 2 (attr_size unit))"
      "fetch d (p + 2 + 2) (attr_bytes name)" "fetch d (p + 2 + 2 + attr_size name) (attr_bytes unit)"
    using assms(1) by (simp_all add: nu attrs_bytes_def ac_simps)
  have ok: "attr_ok name" "attr_ok unit" using assms(2) by (simp_all add: nu attrs_ok_def)
  have l: "4 + int (attr_size name) + int (attr_size unit) \<le> l" using assms(6) by (simp add: nu attrs_bytes_def)
  have v: "le_val (le_bytes 2 (attr_size x)) = attr_size x" for x using attr_size_bound [of x] by (simp add: le_val_bytes_id)
  have b: "int (length ?n) < avail" "length ?n \<le> length r" using assms(3,5) by (simp_all add: nu attrs_name_def)
  obtain r' avail' where pn: "print_name d pwa (length h) avail (attr_size name) 0
      \<lparr>p_ptr = p + 2 + 2, p_len = l - 2 - 2, p_text = h @ 0 # r\<rparr> =
      Some (Next (length (h @ ?n), avail') \<lparr>p_ptr = p + 2 + 2, p_len = l - 2 - 2, p_text = (h @ ?n) @ 0 # r'\<rparr>)"
    "length r' + length ?n = length r" "avail - int (length ?n) \<le> avail'" "avail' \<le> avail - int (length ?n) + 1"
    by (rule print_name_ok [OF f(3) ok(1) b(1) assms(4) b(2)]) (rule disjI1, rule refl)
  have rn: "read_num d False 2 \<lparr>p_ptr = p, p_len = l, p_text = h @ 0 # r\<rparr> =
      Some (Next (attr_size name) \<lparr>p_ptr = p + 2, p_len = l - 2, p_text = h @ 0 # r\<rparr>)"
    "read_num d False 2 \<lparr>p_ptr = p + 2, p_len = l - 2, p_text = h @ 0 # r\<rparr> =
      Some (Next (attr_size unit) \<lparr>p_ptr = p + 2 + 2, p_len = l - 2 - 2, p_text = h @ 0 # r\<rparr>)"
    using read_num_ok [OF f(1), of 2 l False] read_num_ok [OF f(2), of 2 "l - 2" False] v l by simp_all
  have "read_attributes d False pwa (vi \<noteq> None) (length h) avail \<lparr>p_ptr = p, p_len = l, p_text = h @ 0 # r\<rparr> =
      Some (Next (length (h @ ?n), avail', p + 2 + 2 + attr_size name, attr_size unit)
        \<lparr>p_ptr = p + 2 + 2 + attr_size name + attr_size unit, p_len = l - 2 - 2 - int (attr_size name) - int (attr_size unit),
          p_text = (h @ ?n) @ 0 # r'\<rparr>)"
    unfolding read_attributes_def nu rn andthen_Next using l pn by (simp add: skip_ok)
  with pn(2-4) f(4) show thesis
    by (intro that [of avail' "p + 2 + 2 + attr_size name" r']) (simp_all add: nu attrs_name_def attrs_unit_def attrs_bytes_def algebra_simps)
qed

lemma print_unit_ok:
  assumes "fetch d us (attr_bytes unit)" "attr_ok unit" "0 \<notin> set x"
    "int (length x + length (unit_text pwa unit)) < avail" "avail < 2147483648" "length (unit_text pwa unit) \<le> length r" "off = length h"
  obtains r' where "print_unit d pwa (off, avail, us, attr_size unit) \<lparr>p_ptr = p, p_len = l, p_text = h @ x @ 0 # r\<rparr> =
      Some (Next () \<lparr>p_ptr = p, p_len = l, p_text = h @ (x @ unit_text pwa unit) @ 0 # r'\<rparr>)"
    "length r' + length (unit_text pwa unit) = length r"
proof (cases "unit_text pwa unit = []")
  case True
  then have "\<not> (pwa \<and> attr_size unit > 1)" using assms(2)
    by (cases unit) (auto simp: unit_text_def attr_size_def attr_ok_def split: if_splits)
  then show thesis using True by (intro that [of r]) (auto simp: print_unit_def)
next
  case False
  then obtain s where s: "unit = Some s" "pwa" "s \<noteq> []" by (auto simp: unit_text_def split: option.splits if_splits)
  with assms(1,2) have c: "cstring_at d us = Some s" and n: "attr_size unit = length s + 1"
    by (auto intro!: fetch_string simp: attr_bytes_Some simp del: fetch_append, auto simp: attr_ok_def)
  have st: "strlen_at (h @ x @ 0 # r) (length h) = Some (length x)"
    using strlen_append [OF assms(3)] by (simp add: strlen_at_def)
  have w: "write_text (length (h @ x)) (avail - int (length x)) (58 # s) \<lparr>p_ptr = p, p_len = l, p_text = (h @ x) @ 0 # r\<rparr> =
      Some (Next () \<lparr>p_ptr = p, p_len = l, p_text = (h @ x) @ (58 # s) @ 0 # drop (length (58 # s) + 1) (0 # r)\<rparr>)"
    by (rule write_text_ok) (use assms(4,6) s in \<open>simp_all add: unit_text_def\<close>)
  have u: "u64 (avail - int (length x)) = avail - int (length x)" using assms(4,5) by (simp add: c_casts)
  show thesis
    using assms(4-7) s n w c st u
    by (intro that [of "drop (length (58 # s)) r"]) (simp_all add: print_unit_def unit_text_def)
qed

lemma prints_value:
  assumes val: "value_prints f body x" and ok: "attrs_ok vi"
    and w: "\<And>d off avail s. print_value d False pwa w (-1) off avail s =
      andthen (read_attributes d False pwa (vi \<noteq> None) off avail s) (f d)"
  shows "prints pwa w (attrs_bytes vi @ body) (name_text pwa (attrs_name vi) @ x @ unit_text pwa (attrs_unit vi))"
  unfolding prints_def
proof (intro allI impI, elim conjE)
  fix d p l and h r :: bytes and avail
  let ?n = "name_text pwa (attrs_name vi)" and ?u = "unit_text pwa (attrs_unit vi)" and ?k = "length (attrs_bytes vi)"
  assume f: "fetch d p (attrs_bytes vi @ body)" and l: "int (length (attrs_bytes vi @ body)) \<le> l"
    and a: "int (length (?n @ x @ ?u)) + 2 \<le> avail" "avail \<le> int (length r) + 1" "avail < 2147483647"
  obtain r' avail' us where ra: "read_attributes d False pwa (vi \<noteq> None) (length h) avail \<lparr>p_ptr = p, p_len = l, p_text = h @ 0 # r\<rparr> =
      Some (Next (length (h @ ?n), avail', us, attr_size (attrs_unit vi))
        \<lparr>p_ptr = p + ?k, p_len = l - int ?k, p_text = (h @ ?n) @ 0 # r'\<rparr>)"
    "length r' + length ?n = length r" "fetch d us (attr_bytes (attrs_unit vi))"
    "avail - int (length ?n) \<le> avail'" "avail' \<le> avail - int (length ?n) + 1"
    by (rule read_attributes_ok [of d p vi pwa avail r l h]) (use f l a ok in simp_all)
  have pv: "f d (length (h @ ?n), avail', us, attr_size (attrs_unit vi)) \<lparr>p_ptr = p + ?k, p_len = l - int ?k, p_text = (h @ ?n) @ 0 # r'\<rparr> =
      Some (Next (length (h @ ?n), avail', us, attr_size (attrs_unit vi)) \<lparr>p_ptr = p + ?k + length body, p_len = l - int ?k - int (length body),
        p_text = (h @ ?n) @ x @ 0 # drop (length x) r'\<rparr>)"
    by (rule value_printsD [OF val]) (use f l a ra(2,4) in simp_all)
  have x: "0 \<notin> set x" using val by (simp add: value_prints_def)
  have u: "attr_ok (attrs_unit vi)" using ok by (auto simp: attrs_ok_def attrs_unit_def attr_ok_def split: option.splits)
  have b: "int (length x + length ?u) < avail'" "avail' < 2147483648" "length ?u \<le> length (drop (length x) r')"
    using a ra(2,4,5) by simp_all
  obtain r'' where pu: "print_unit d pwa (length (h @ ?n), avail', us, attr_size (attrs_unit vi)) \<lparr>p_ptr = p + ?k + length body, p_len = l - int ?k - int (length body),
        p_text = (h @ ?n) @ x @ 0 # drop (length x) r'\<rparr> =
      Some (Next () \<lparr>p_ptr = p + ?k + length body, p_len = l - int ?k - int (length body), p_text = (h @ ?n) @ (x @ ?u) @ 0 # r''\<rparr>)"
    "length r'' + length ?u = length (drop (length x) r')"
    by (rule print_unit_ok [OF ra(3) u x b refl])
  have "argument_print d False pwa w (-1) (length h) avail \<lparr>p_ptr = p, p_len = l, p_text = h @ 0 # r\<rparr> =
      Some (DLT_RETURN_OK, \<lparr>p_ptr = p + ?k + length body, p_len = l - int ?k - int (length body), p_text = (h @ ?n) @ (x @ ?u) @ 0 # r''\<rparr>)"
    unfolding argument_print_def w ra(1) andthen_Next pv using pu(1) l by simp
  then show "\<exists>r''. length r'' + length (?n @ x @ ?u) = length r \<and>
      argument_print d False pwa w (-1) (length h) avail \<lparr>p_ptr = p, p_len = l, p_text = h @ 0 # r\<rparr> =
      Some (DLT_RETURN_OK, \<lparr>p_ptr = p + length (attrs_bytes vi @ body), p_len = l - int (length (attrs_bytes vi @ body)),
        p_text = h @ (?n @ x @ ?u) @ 0 # r''\<rparr>)"
    using pu(2) ra(2) a by (intro exI [of _ r'']) simp
qed

definition as_attrs :: "VarInfo option \<Rightarrow> (bytes option \<times> bytes option) option" where
  "as_attrs vi = map_option (\<lambda>i. (vi_name i, vi_unit i)) vi"

lemma encode_value: "pred_option with_unit vi \<Longrightarrow> encode True (Value t vi d) = log_bytes (with_vari vi t) @ attrs_bytes (as_attrs vi) @ d"
  by (cases vi) (auto simp: attrs_bytes_def as_attrs_def)

lemma prints_uint:
  assumes "length bs = width_bytes w" "attrs_ok vi"
  shows "prints pwa (with_vari vi (DLT_TYPE_INFO_UINT OR width_info w)) (attrs_bytes vi @ bs)
    (name_text pwa (attrs_name vi) @ dec_text (le_val bs) @ unit_text pwa (attrs_unit vi))"
proof (rule prints_value [OF _ assms(2)])
  show "value_prints (\<lambda>d. print_num d False False (width_bytes w)) bs (dec_text (le_val bs))"
    using value_prints_num [OF assms(1), of False] by simp
  show "print_value d False pwa (with_vari vi (DLT_TYPE_INFO_UINT OR width_info w)) (-1) off avail s =
      andthen (read_attributes d False pwa (vi \<noteq> None) off avail s) (print_num d False False (width_bytes w))" for d off avail s
    by (cases w; cases vi) (simp_all add: print_value_def print_int_def print_int_value_def with_vari_def type_info_defs)
qed

lemma prints_sint:
  assumes "length bs = width_bytes w" "attrs_ok vi"
  shows "prints pwa (with_vari vi (DLT_TYPE_INFO_SINT OR width_info w)) (attrs_bytes vi @ bs)
    (name_text pwa (attrs_name vi) @ int_text (signed_val (width_bytes w) (le_val bs)) @ unit_text pwa (attrs_unit vi))"
proof (rule prints_value [OF _ assms(2)])
  show "value_prints (\<lambda>d. print_num d False True (width_bytes w)) bs (int_text (signed_val (width_bytes w) (le_val bs)))"
    using value_prints_num [OF assms(1), of True] by simp
  show "print_value d False pwa (with_vari vi (DLT_TYPE_INFO_SINT OR width_info w)) (-1) off avail s =
      andthen (read_attributes d False pwa (vi \<noteq> None) off avail s) (print_num d False True (width_bytes w))" for d off avail s
    by (cases w; cases vi) (simp_all add: print_value_def print_int_def print_int_value_def with_vari_def type_info_defs)
qed

lemma prints_float32:
  assumes "length bs = 4" "attrs_ok vi"
  shows "prints pwa (with_vari vi (DLT_TYPE_INFO_FLOA OR DLT_TYLE_32BIT)) (attrs_bytes vi @ bs)
    (name_text pwa (attrs_name vi) @ float_text 8 23 (le_val bs) @ unit_text pwa (attrs_unit vi))"
  by (rule prints_value [OF value_prints_float [OF assms(1)] assms(2)])
    (cases vi; simp add: print_value_def print_floa_def with_vari_def type_info_defs)

lemma prints_float64:
  assumes "length bs = 8" "attrs_ok vi"
  shows "prints pwa (with_vari vi (DLT_TYPE_INFO_FLOA OR DLT_TYLE_64BIT)) (attrs_bytes vi @ bs)
    (name_text pwa (attrs_name vi) @ float_text 11 52 (le_val bs) @ unit_text pwa (attrs_unit vi))"
  by (rule prints_value [OF value_prints_float [OF assms(1)] assms(2)])
    (cases vi; simp add: print_value_def print_floa_def with_vari_def type_info_defs)

text \<open>Numbers in binary and hexadecimal digits. A fixed number of digits can be printed in two parts.\<close>

fun hexw :: "nat \<Rightarrow> nat \<Rightarrow> bytes" where
  "hexw 0 n = []"
| "hexw (Suc k) n = hexw k (n div 16) @ [hex_digit (n mod 16)]"

lemma hexw_0: "hexw k 0 = replicate k 48"
  by (induction k) (simp_all add: hex_digit_def replicate_append_same)

lemma hex_text_hexw: "0 < k \<Longrightarrow> n < 16 ^ k \<Longrightarrow> hex_text k n = hexw k n"
proof (induction k arbitrary: n)
  case (Suc k)
  show ?case
  proof (cases "n < 16")
    case True
    then show ?thesis by (simp add: hex_text_def hex_digits.simps [of n] hexw_0)
  next
    case False
    with Suc.prems have "0 < k" "n div 16 < 16 ^ k" by (cases k, simp_all add: less_mult_imp_div_less mult.commute)
    then show ?thesis using Suc.IH [of "n div 16"] False by (simp add: hex_text_def hex_digits.simps [of n])
  qed
qed simp

lemma hexw_add: "hexw (a + b) n = hexw a (n div 16 ^ b) @ hexw b (n mod 16 ^ b)"
proof (induction b arbitrary: n)
  case (Suc b)
  have "n div 16 div 16 ^ b = n div 16 ^ Suc b" by (simp add: div_mult2_eq)
  moreover have "n mod 16 ^ Suc b div 16 = n div 16 mod 16 ^ b"
    by (simp add: mod_mult2_eq)
  moreover have "n mod 16 ^ Suc b mod 16 = n mod 16" by (simp add: mod_mod_cancel)
  ultimately show ?case using Suc.IH [of "n div 16"] by simp
qed simp

lemma length_hexw [simp]: "length (hexw k n) = k"
  by (induction k arbitrary: n) simp_all

lemma hex_digit_nonzero: "d < 16 \<Longrightarrow> hex_digit d \<noteq> 0"
proof -
  assume "d < 16"
  then have "unat (hex_digit d) = (if d < 10 then 48 + d else 87 + d)"
    unfolding hex_digit_def by (simp only: unat_of_nat) simp
  then show ?thesis by (metis add_eq_0_iff_both_eq_0 unat_0 zero_neq_numeral)
qed

lemma hexw_nonzero [simp]: "0 \<notin> set (hexw k n)"
proof (induction k arbitrary: n)
  case (Suc k)
  then show ?case using hex_digit_nonzero [of "n mod 16", THEN not_sym] by simp
qed simp

lemma le_val_append: "le_val (a @ b) = le_val a + 256 ^ length a * le_val b"
  by (induction a) (simp_all add: algebra_simps)

lemma prints_plain:
  assumes "\<And>d off avail s. print_value d False pwa w (-1) off avail s =
      andthen (read_num d False (length bs) s) (\<lambda>x s. andthen (write_text off avail (g x) s) (\<lambda>_ s. at_value (off, avail) s))"
  shows "prints pwa w bs (g (le_val bs))"
proof (rule printsI)
  fix d p l and h r :: bytes and avail
  let ?x = "g (le_val bs)"
  assume f: "fetch d p bs" and l: "int (length bs) \<le> l"
    and a: "int (length ?x) + 2 \<le> avail" "avail \<le> int (length r) + 1" "avail < 2147483647"
  show "\<exists>r' v. length r' + length ?x = length r \<and>
      print_value d False pwa w (-1) (length h) avail \<lparr>p_ptr = p, p_len = l, p_text = h @ 0 # r\<rparr> =
        Some (Next v \<lparr>p_ptr = p + length bs, p_len = l - int (length bs), p_text = h @ ?x @ 0 # r'\<rparr>) \<and> snd (snd (snd v)) = 0"
    using f l a by (intro exI [of _ "drop (length ?x) r"] exI [of _ "(length h, avail, 0, 0)"])
      (simp add: assms read_num_ok write_text_ok at_value_def)
qed

lemma prints_bin:
  "length bs = 1 \<Longrightarrow> prints pwa (DLT_TYPE_INFO_UINT OR DLT_TYLE_8BIT OR DLT_SCOD_BIN) bs (str ''0b'' @ bin_text (le_val bs) 8)"
  "length bs = 2 \<Longrightarrow> prints pwa (DLT_TYPE_INFO_UINT OR DLT_TYLE_16BIT OR DLT_SCOD_BIN) bs (str ''0b'' @ bin_text (le_val bs) 16)"
  by (rule prints_plain; simp add: print_value_def print_bin_def type_info_defs)+

lemma prints_hex_num:
  "length bs = 1 \<Longrightarrow> prints pwa (DLT_TYPE_INFO_UINT OR DLT_TYLE_8BIT OR DLT_SCOD_HEX) bs (str ''0x'' @ hex_text 2 (le_val bs))"
  "length bs = 2 \<Longrightarrow> prints pwa (DLT_TYPE_INFO_UINT OR DLT_TYLE_16BIT OR DLT_SCOD_HEX) bs (str ''0x'' @ hex_text 4 (le_val bs))"
  "length bs = 4 \<Longrightarrow> prints pwa (DLT_TYPE_INFO_UINT OR DLT_TYLE_32BIT OR DLT_SCOD_HEX) bs (str ''0x'' @ hex_text 8 (le_val bs))"
  by (rule prints_plain; simp add: print_value_def print_hex_def print_hex_num_def type_info_defs)+

lemma hex_text_halves:
  assumes "length a = 4" "length b = 4"
  shows "hex_text 16 (le_val (a @ b)) = hexw 8 (le_val b) @ hexw 8 (le_val a)"
    "hex_text 8 (le_val a) = hexw 8 (le_val a)" "hex_text 8 (le_val b) = hexw 8 (le_val b)"
proof -
  have v: "le_val a < 16 ^ 8" "le_val b < 16 ^ 8" using le_val_less [of a] le_val_less [of b] assms by simp_all
  have n: "le_val (a @ b) = le_val a + 16 ^ 8 * le_val b" using assms by (simp add: le_val_append)
  have "le_val (a @ b) < 16 ^ 16" using le_val_less [of "a @ b"] assms by simp
  then show "hex_text 16 (le_val (a @ b)) = hexw 8 (le_val b) @ hexw 8 (le_val a)"
    using hexw_add [of 8 8 "le_val (a @ b)"] v by (simp add: hex_text_hexw n)
  show "hex_text 8 (le_val a) = hexw 8 (le_val a)" "hex_text 8 (le_val b) = hexw 8 (le_val b)"
    using v by (simp_all add: hex_text_hexw)
qed

lemma prints_hex64:
  assumes "length bs = 8"
  shows "prints pwa (DLT_TYPE_INFO_UINT OR DLT_TYLE_64BIT OR DLT_SCOD_HEX) bs (str ''0x'' @ hex_text 16 (le_val bs))"
proof (rule printsI)
  fix d p l and h r :: bytes and avail
  define a b where "a = take 4 bs" and "b = drop 4 bs"
  have ab: "bs = a @ b" "length a = 4" "length b = 4" using assms by (simp_all add: a_def b_def)
  note halves = hex_text_halves [OF ab(2,3)]
  let ?w = "DLT_TYPE_INFO_UINT OR DLT_TYLE_64BIT OR DLT_SCOD_HEX" and ?y = "str ''0x'' @ hexw 8 (le_val b)" and ?z = "hexw 8 (le_val a)"
  assume f: "fetch d p bs" and l: "int (length bs) \<le> l"
    and av: "int (length (str ''0x'' @ hex_text 16 (le_val bs))) + 2 \<le> avail" "avail \<le> int (length r) + 1" "avail < 2147483647"
  have fs: "fetch d p a" "fetch d (p + 4) b" using f ab by simp_all
  have sz: "length (str ''0x'') = 2" by (simp add: str_def)
  have z0: "0 \<notin> set ?y" by (simp add: str_def)
  have av': "20 \<le> avail" "avail < 2147483647" "18 \<le> length r" using av halves ab sz by simp_all
  have rn: "read_num d False 4 \<lparr>p_ptr = p + 4, p_len = l, p_text = h @ 0 # r\<rparr> =
      Some (Next (le_val b) \<lparr>p_ptr = p + 4 + 4, p_len = l - 4, p_text = h @ 0 # r\<rparr>)"
    "read_num d False 4 \<lparr>p_ptr = p, p_len = l - 4, p_text = h @ ?y @ 0 # drop 10 r\<rparr> =
      Some (Next (le_val a) \<lparr>p_ptr = p + 4, p_len = l - 4 - 4, p_text = h @ ?y @ 0 # drop 10 r\<rparr>)"
    using read_num_ok [OF fs(2) ab(3), of l False "h @ 0 # r"] read_num_ok [OF fs(1) ab(2), of "l - 4" False "h @ ?y @ 0 # drop 10 r"] l ab
    by simp_all
  have w1: "write_text (length h) avail ?y \<lparr>p_ptr = p + 4 + 4, p_len = l - 4, p_text = h @ 0 # r\<rparr> =
      Some (Next () \<lparr>p_ptr = p + 4 + 4, p_len = l - 4, p_text = h @ ?y @ 0 # drop 10 r\<rparr>)"
    using write_text_ok [of ?y avail "0 # r" "length h" h "p + 4 + 4" "l - 4"] av' sz by simp
  have w2: "write_text (length h + length ?y) (u64 (avail - int (length ?y))) ?z \<lparr>p_ptr = p + 4, p_len = l - 4 - 4, p_text = h @ ?y @ 0 # drop 10 r\<rparr> =
      Some (Next () \<lparr>p_ptr = p + 4, p_len = l - 4 - 4, p_text = (h @ ?y) @ ?z @ 0 # drop 8 (drop 10 r)\<rparr>)"
    using write_text_ok [of ?z "avail - 10" "0 # drop 10 r" "length (h @ ?y)" "h @ ?y" "p + 4" "l - 4 - 4"] av' sz
    by (simp add: c_casts)
  have st: "strlen_at (h @ ?y @ 0 # drop 10 r) (length h) = Some (length ?y)"
    using strlen_append [OF z0] by (simp add: strlen_at_def)
  have eq: "print_value d False pwa ?w (-1) (length h) avail \<lparr>p_ptr = p, p_len = l, p_text = h @ 0 # r\<rparr> =
      Some (Next (length h, avail, 0, 0) \<lparr>p_ptr = p + 4 + 4, p_len = l - 4 - 4, p_text = (h @ ?y) @ ?z @ 0 # drop 8 (drop 10 r)\<rparr>)"
  proof -
    have pv: "print_value d False pwa ?w (-1) (length h) avail s = print_hex64 d (length h) avail s" for s
      by (simp add: print_value_def print_hex_def type_info_defs)
    have b8: "p + 4 + 4 - 8 = p" by simp
    show ?thesis
      by (simp only: pv print_hex64_def pst.simps rn w1 w2 st b8 halves(2,3) andthen_Next at_value_def fst_conv snd_conv Option.bind_lunit)
  qed
  show "\<exists>r' v. length r' + length (str ''0x'' @ hex_text 16 (le_val bs)) = length r \<and>
      print_value d False pwa ?w (-1) (length h) avail \<lparr>p_ptr = p, p_len = l, p_text = h @ 0 # r\<rparr> =
        Some (Next v \<lparr>p_ptr = p + length bs, p_len = l - int (length bs), p_text = h @ (str ''0x'' @ hex_text 16 (le_val bs)) @ 0 # r'\<rparr>)
      \<and> snd (snd (snd v)) = 0"
    unfolding eq using av' halves ab sz by (intro exI [of _ "drop 8 (drop 10 r)"] exI [of _ "(length h, avail, 0, 0)"]) simp
qed

section \<open>Printing what was logged\<close>

text \<open>The text of each call: numbers in decimal, or as the format says, bytes as digits, strings on one line.\<close>

fun call_text :: "bool \<Rightarrow> log_call \<Rightarrow> bytes" where
  "call_text pwa (RawCall d) = hex_join 39 d"
| "call_text pwa (RawFormatted d f) = hex_join 39 d"
| "call_text pwa (RawAttr d name) = name_text pwa name @ hex_join 39 d"
| "call_text pwa (RawFormattedAttr d f name) = name_text pwa name @ hex_join 39 d"
| "call_text pwa (Float32 x) = float_text 8 23 (x mod 256 ^ 4)"
| "call_text pwa (Float64 x) = float_text 11 52 (x mod 256 ^ 8)"
| "call_text pwa (Float32Attr x name unit) = name_text pwa name @ float_text 8 23 (x mod 256 ^ 4) @ unit_text pwa unit"
| "call_text pwa (Float64Attr x name unit) = name_text pwa name @ float_text 11 52 (x mod 256 ^ 8) @ unit_text pwa unit"
| "call_text pwa (Uint w x) = dec_text (x mod 256 ^ width_bytes w)"
| "call_text pwa (UintAttr w x name unit) = name_text pwa name @ dec_text (x mod 256 ^ width_bytes w) @ unit_text pwa unit"
| "call_text pwa (UintFormatted w x f) =
     (if f = 0 then dec_text (x mod 256 ^ width_bytes w)
      else if f \<le> 4 then str ''0x'' @ hex_text (2 * width_bytes w) (x mod 256 ^ width_bytes w)
      else str ''0b'' @ bin_text (x mod 256 ^ width_bytes w) (8 * width_bytes w))"
| "call_text pwa (Ptr x) = str ''0x'' @ hex_text 16 (x mod 256 ^ 8)"
| "call_text pwa (Sint w x) = int_text (signed_val (width_bytes w) (nat (x mod 2 ^ (8 * width_bytes w))))"
| "call_text pwa (SintAttr w x name unit) =
     name_text pwa name @ int_text (signed_val (width_bytes w) (nat (x mod 2 ^ (8 * width_bytes w)))) @ unit_text pwa unit"
| "call_text pwa (Boolean x) = dec_text (x mod 256)"
| "call_text pwa (BooleanAttr x name) = name_text pwa name @ dec_text (x mod 256)"
| "call_text pwa (Str t s) = clean s"
| "call_text pwa (StrAttr t s name) = name_text pwa name @ clean s"
| "call_text pwa (SizedStr t s n) = clean (take n s)"
| "call_text pwa (SizedStrAttr t s n name) = name_text pwa name @ clean (take n s)"
| "call_text pwa (ConstStr t s) = clean s"
| "call_text pwa (ConstStrAttr t s name) = name_text pwa name @ clean s"
| "call_text pwa (SizedConstStr t s n) = clean (take n s)"
| "call_text pwa (SizedConstStrAttr t s n name) = name_text pwa name @ clean (take n s)"

text \<open>
  Calls whose texts and names are strings of C, and whose binary format has one of the two widths the
  output knows.
\<close>

definition text_ok :: "bytes \<Rightarrow> bool" where
  "text_ok s \<longleftrightarrow> 0 \<notin> set s \<and> length s + 1 < 65536"

fun printable :: "log_call \<Rightarrow> bool" where
  "printable (RawAttr d name) \<longleftrightarrow> attr_ok name"
| "printable (RawFormattedAttr d f name) \<longleftrightarrow> attr_ok name"
| "printable (Float32Attr x name unit) \<longleftrightarrow> attr_ok name \<and> attr_ok unit"
| "printable (Float64Attr x name unit) \<longleftrightarrow> attr_ok name \<and> attr_ok unit"
| "printable (UintAttr w x name unit) \<longleftrightarrow> attr_ok name \<and> attr_ok unit"
| "printable (UintFormatted w x f) \<longleftrightarrow> f \<le> 4 \<or> w = W8 \<or> w = W16"
| "printable (SintAttr w x name unit) \<longleftrightarrow> attr_ok name \<and> attr_ok unit"
| "printable (BooleanAttr x name) \<longleftrightarrow> attr_ok name"
| "printable (Str t s) \<longleftrightarrow> text_ok s"
| "printable (StrAttr t s name) \<longleftrightarrow> text_ok s \<and> attr_ok name"
| "printable (SizedStr t s n) \<longleftrightarrow> text_ok (take n s)"
| "printable (SizedStrAttr t s n name) \<longleftrightarrow> text_ok (take n s) \<and> attr_ok name"
| "printable (ConstStr t s) \<longleftrightarrow> text_ok s"
| "printable (ConstStrAttr t s name) \<longleftrightarrow> text_ok s \<and> attr_ok name"
| "printable (SizedConstStr t s n) \<longleftrightarrow> text_ok (take n s)"
| "printable (SizedConstStrAttr t s n name) \<longleftrightarrow> text_ok (take n s) \<and> attr_ok name"
| "printable _ \<longleftrightarrow> True"

text \<open>The argument \<open>a\<close> is printed as \<open>x\<close>.\<close>

definition prints_arg :: "bool \<Rightarrow> log_arg \<Rightarrow> bytes \<Rightarrow> bool" where
  "prints_arg pwa a x \<longleftrightarrow> (\<exists>w body. encode True a = log_bytes w @ body \<and> prints pwa w body x)"

lemma prints_arg_text:
  assumes "text_ok s" "attr_ok (flat nm)"
  shows "prints_arg pwa (Text type nm s) (name_text pwa (flat nm) @ clean s)"
  unfolding prints_arg_def
  using prints_text [of s nm pwa type] assms by (intro exI conjI) (auto simp: text_ok_def)

lemma prints_arg_raw:
  assumes "valid_format f" "attr_ok (flat nm)" "length bs < 65536"
  shows "prints_arg pwa (Raw (raw_info f (nm \<noteq> None)) nm bs) (name_text pwa (flat nm) @ hex_join 39 bs)"
  unfolding prints_arg_def using prints_raw [OF assms refl] by (intro exI conjI) auto

lemma prints_arg_value:
  assumes "pred_option with_unit vi" "prints pwa (with_vari vi t) (attrs_bytes (as_attrs vi) @ bs) x"
  shows "prints_arg pwa (Value t vi bs) x"
  unfolding prints_arg_def using assms encode_value [OF assms(1), of t bs] by blast

lemma prints_arg_number:
  assumes "\<And>vi. attrs_ok vi \<Longrightarrow> prints pwa (with_vari vi t) (attrs_bytes vi @ bs)
    (name_text pwa (attrs_name vi) @ x @ unit_text pwa (attrs_unit vi))"
  shows "prints_arg pwa (Value t None bs) x"
    "attr_ok name \<Longrightarrow> attr_ok unit \<Longrightarrow>
      prints_arg pwa (Value t (Some (attributes name unit)) bs) (name_text pwa name @ x @ unit_text pwa unit)"
proof -
  show "prints_arg pwa (Value t None bs) x"
    by (rule prints_arg_value)
      (use assms [of None] in \<open>simp_all add: attrs_ok_def attrs_name_def attrs_unit_def name_text_def unit_text_def as_attrs_def with_vari_def\<close>)
  show "prints_arg pwa (Value t (Some (attributes name unit)) bs) (name_text pwa name @ x @ unit_text pwa unit)"
    if "attr_ok name" "attr_ok unit"
    by (rule prints_arg_value)
      (use that assms [of "Some (name, unit)"] in \<open>simp_all add: attrs_ok_def attrs_name_def attrs_unit_def as_attrs_def with_vari_def attributes_def\<close>)
qed

lemma prints_arg_plain: "prints pwa t bs x \<Longrightarrow> prints_arg pwa (Value t None bs) x"
  by (rule prints_arg_value) (simp_all add: attrs_bytes_def as_attrs_def with_vari_def)

lemma le_val_int_bytes: "0 < k \<Longrightarrow> le_val (int_bytes k x) = nat (x mod 2 ^ (8 * k))"
proof -
  have "nat (x mod 2 ^ (8 * k)) < 256 ^ k"
    by (simp add: nat_less_iff power_mult)
  then show ?thesis by (simp add: int_bytes_def le_val_bytes_id)
qed

lemma width_bytes_pos: "0 < width_bytes w"
  by (cases w) simp_all

lemma prints_formatted:
  assumes "valid_format f" "f \<le> 4 \<or> w = W8 \<or> w = W16"
  shows "prints_arg pwa (Value (format_hint f (DLT_TYPE_INFO_UINT OR width_info w)) None (le_bytes (width_bytes w) x))
    (call_text pwa (UintFormatted w x f))"
proof -
  let ?bs = "le_bytes (width_bytes w) x"
  have v: "le_val ?bs = x mod 256 ^ width_bytes w" by (simp add: le_val_bytes)
  consider "f = 0" | "1 \<le> f" "f \<le> 4" | "5 \<le> f" "f \<le> 6" using assms(1) by (auto simp: valid_format_def) linarith
  then show ?thesis
  proof cases
    case 1
    then show ?thesis using prints_arg_number(1) [OF prints_uint [of ?bs w]] by (simp add: format_hint_def v)
  next
    case 2
    then show ?thesis
      using prints_hex_num [of ?bs pwa] prints_hex64 [of ?bs pwa]
      by (intro prints_arg_plain) (cases w; simp add: format_hint_def or.assoc le_val_bytes)
  next
    case 3
    with assms(2) have "w = W8 \<or> w = W16" by auto
    then show ?thesis
      using 3 prints_bin [of ?bs pwa] by (intro prints_arg_plain) (elim disjE; simp add: format_hint_def or.assoc le_val_bytes)
  qed
qed

lemma prints_call_text:
  "text_ok s \<Longrightarrow> prints_arg pwa (Text ty None s) (clean s)"
  "text_ok s \<Longrightarrow> attr_ok name \<Longrightarrow> prints_arg pwa (Text ty (Some name) s) (name_text pwa name @ clean s)"
  using prints_arg_text [of s None pwa ty] prints_arg_text [of s "Some name" pwa ty]
  by (simp_all add: flat_def attr_ok_def name_text_def)

lemma prints_call_raw:
  "valid_format f \<Longrightarrow> length d < 65536 \<Longrightarrow> prints_arg pwa (Raw (raw_info f False) None d) (hex_join 39 d)"
  "valid_format f \<Longrightarrow> length d < 65536 \<Longrightarrow> attr_ok name \<Longrightarrow>
     prints_arg pwa (Raw (raw_info f True) (Some name) d) (name_text pwa name @ hex_join 39 d)"
  using prints_arg_raw [of f None d pwa] prints_arg_raw [of f "Some name" d pwa]
  by (simp_all add: flat_def attr_ok_def name_text_def)

lemma prints_call_number:
  fixes pwa name unit
  defines "with_attrs \<equiv> \<lambda>x. name_text pwa name @ x @ unit_text pwa unit"
  shows "prints_arg pwa (Value (DLT_TYPE_INFO_UINT OR width_info w) None (le_bytes (width_bytes w) x)) (dec_text (x mod 256 ^ width_bytes w))"
    "attr_ok name \<Longrightarrow> attr_ok unit \<Longrightarrow> prints_arg pwa (Value (DLT_TYPE_INFO_UINT OR width_info w) (Some (attributes name unit))
       (le_bytes (width_bytes w) x)) (with_attrs (dec_text (x mod 256 ^ width_bytes w)))"
    "prints_arg pwa (Value (DLT_TYPE_INFO_SINT OR width_info w) None (int_bytes (width_bytes w) i))
       (int_text (signed_val (width_bytes w) (nat (i mod 2 ^ (8 * width_bytes w)))))"
    "attr_ok name \<Longrightarrow> attr_ok unit \<Longrightarrow> prints_arg pwa (Value (DLT_TYPE_INFO_SINT OR width_info w) (Some (attributes name unit))
       (int_bytes (width_bytes w) i)) (with_attrs (int_text (signed_val (width_bytes w) (nat (i mod 2 ^ (8 * width_bytes w))))))"
    "prints_arg pwa (Value (DLT_TYPE_INFO_FLOA OR DLT_TYLE_32BIT) None (le_bytes 4 x)) (float_text 8 23 (x mod 4294967296))"
    "attr_ok name \<Longrightarrow> attr_ok unit \<Longrightarrow> prints_arg pwa (Value (DLT_TYPE_INFO_FLOA OR DLT_TYLE_32BIT) (Some (attributes name unit))
       (le_bytes 4 x)) (with_attrs (float_text 8 23 (x mod 4294967296)))"
    "prints_arg pwa (Value (DLT_TYPE_INFO_FLOA OR DLT_TYLE_64BIT) None (le_bytes 8 x)) (float_text 11 52 (x mod 18446744073709551616))"
    "attr_ok name \<Longrightarrow> attr_ok unit \<Longrightarrow> prints_arg pwa (Value (DLT_TYPE_INFO_FLOA OR DLT_TYLE_64BIT) (Some (attributes name unit))
       (le_bytes 8 x)) (with_attrs (float_text 11 52 (x mod 18446744073709551616)))"
  using prints_arg_number(1) [OF prints_uint [of "le_bytes (width_bytes w) x" w]] prints_arg_number(2) [OF prints_uint [of "le_bytes (width_bytes w) x" w]]
    prints_arg_number(1) [OF prints_sint [of "int_bytes (width_bytes w) i" w]] prints_arg_number(2) [OF prints_sint [of "int_bytes (width_bytes w) i" w]]
    prints_arg_number(1) [OF prints_float32 [of "le_bytes 4 x"]] prints_arg_number(2) [OF prints_float32 [of "le_bytes 4 x"]]
    prints_arg_number(1) [OF prints_float64 [of "le_bytes 8 x"]] prints_arg_number(2) [OF prints_float64 [of "le_bytes 8 x"]]
  by (simp_all add: le_val_bytes le_val_int_bytes width_bytes_pos with_attrs_def)

lemma prints_call_bool:
  "prints_arg pwa (Value (DLT_TYPE_INFO_BOOL OR DLT_TYLE_8BIT) None (le_bytes 1 x)) (dec_text (x mod 256))"
  "attr_ok name \<Longrightarrow> prints_arg pwa (Value (DLT_TYPE_INFO_BOOL OR DLT_TYLE_8BIT)
     (Some \<lparr>vi_name = name, vi_unit = None, with_unit = False\<rparr>) (le_bytes 1 x)) (name_text pwa name @ dec_text (x mod 256))"
proof -
  have b: "le_bytes 1 x = [of_nat (x mod 256)]" by simp
  show "prints_arg pwa (Value (DLT_TYPE_INFO_BOOL OR DLT_TYLE_8BIT) None (le_bytes 1 x)) (dec_text (x mod 256))"
    using prints_bool [of None pwa "of_nat (x mod 256)"] unfolding b
    by (intro prints_arg_plain) (simp add: with_vari_def flat_def attr_ok_def name_text_def encode_name_def)
  show "prints_arg pwa (Value (DLT_TYPE_INFO_BOOL OR DLT_TYLE_8BIT)
     (Some \<lparr>vi_name = name, vi_unit = None, with_unit = False\<rparr>) (le_bytes 1 x)) (name_text pwa name @ dec_text (x mod 256))"
    if "attr_ok name"
    unfolding prints_arg_def b using prints_bool [of "Some name" pwa "of_nat (x mod 256)"] that
    by (intro exI conjI) (auto simp: flat_def encode_name_def with_vari_def attr_bytes_def [of None])
qed

lemma call_prints:
  assumes "call_ok c" "printable c"
  shows "\<exists>a. call_args True c = [a] \<and> prints_arg pwa a (call_text pwa c)"
proof (cases c)
  case (UintFormatted w x f)
  then show ?thesis using assms prints_formatted [of f w pwa x] by simp
next
  case (Ptr x)
  then show ?thesis using prints_formatted [of 4 W64 pwa x] by (simp add: format_hint_def or.assoc valid_format_def c_casts)
next
  case (Boolean x) then show ?thesis using prints_call_bool(1) [of pwa x] by simp
next
  case (BooleanAttr x name) then show ?thesis using assms prints_call_bool(2) [of name pwa x] by simp
next
  case (RawCall d) then show ?thesis using assms prints_call_raw(1) [of 0 d pwa] by (simp add: valid_format_def c_casts)
next
  case (RawAttr d name) then show ?thesis using assms prints_call_raw(2) [of 0 d name pwa] by (simp add: valid_format_def c_casts)
qed (use assms in \<open>simp_all add: prints_call_text prints_call_raw prints_call_number\<close>)

lemma hex_digits_nonzero: "0 \<notin> set (hex_digits n)"
proof (induction n rule: hex_digits.induct)
  case (1 n)
  show ?case
  proof (cases "n < 16")
    case True
    then show ?thesis using hex_digit_nonzero [of n, THEN not_sym] by (simp add: hex_digits.simps [of n])
  next
    case False
    then show ?thesis using 1 hex_digit_nonzero [of "n mod 16", THEN not_sym] by (simp add: hex_digits.simps [of n])
  qed
qed

lemma text_nonzero:
  "0 \<notin> set (hex_text k n)" "0 \<notin> set (bin_text n k)" "delim \<noteq> 0 \<Longrightarrow> 0 \<notin> set (hex_join delim bs)"
  "0 \<notin> set t \<Longrightarrow> 0 \<notin> set (clean t)" "attr_ok name \<Longrightarrow> 0 \<notin> set (name_text pwa name)"
  "attr_ok name \<Longrightarrow> 0 \<notin> set (unit_text pwa name)" "0 \<notin> set (str ''0x'')" "0 \<notin> set (str ''0b'')"
proof -
  show h: "0 \<notin> set (hex_text k n)" for k n using hex_digits_nonzero [of n] by (simp add: hex_text_def)
  show "0 \<notin> set (bin_text n k)" by (induction k) auto
  show "0 \<notin> set (hex_join delim bs)" if "delim \<noteq> 0" using h that by (cases bs) (auto simp: hex_join_def)
qed (auto simp: clean_def name_text_def unit_text_def attr_ok_def str_def split: option.splits)

lemma call_text_nonzero: "printable c \<Longrightarrow> 0 \<notin> set (call_text pwa c)"
  by (cases c) (auto simp: text_nonzero text_ok_def)

definition blank_join :: "bytes list \<Rightarrow> bytes" where
  "blank_join xs = (case xs of [] \<Rightarrow> [] | x # xs \<Rightarrow> x @ concat (map ((#) 32) xs))"

lemma append_text_ok:
  assumes "0 \<notin> set h" "int (length h) + int (length x) < textlength" "textlength < 2147483648" "length x \<le> length r"
  shows "append_text (h @ 0 # r) textlength x = Some ((h @ x) @ 0 # drop (length x) r)"
  using assms snprintf_ok [of x "textlength - int (length h)" "0 # r" h]
  by (simp add: append_text_def strlen_append c_casts)

lemma unat_info_less: "unat (w :: type_info) < 4294967296"
  using unsigned_less [of w] by simp

lemma read_info:
  assumes "fetch d p (log_bytes w)" "4 \<le> l"
  shows "read_num d False 4 \<lparr>p_ptr = p, p_len = l, p_text = t\<rparr> = Some (Next (unat w) \<lparr>p_ptr = p + 4, p_len = l - 4, p_text = t\<rparr>)"
  using read_num_ok [OF assms(1), of 4 l False t] assms(2) unat_info_less [of w] by (simp add: log_bytes_def le_val_bytes_id)

lemma printsD:
  assumes "prints pwa w body x" "fetch d p body" "int (length body) \<le> l" "int (length x) + 2 \<le> avail" "avail \<le> int (length r) + 1" "avail < 2147483647"
  obtains r' where "length r' + length x = length r"
    "argument_print d False pwa w (-1) (length h) avail \<lparr>p_ptr = p, p_len = l, p_text = h @ 0 # r\<rparr> =
      Some (DLT_RETURN_OK, \<lparr>p_ptr = p + length body, p_len = l - int (length body), p_text = h @ x @ 0 # r'\<rparr>)"
  using assms unfolding prints_def by blast

text \<open>The arguments of a payload one after the other, behind the text of those before.\<close>

definition sep :: "nat \<Rightarrow> bytes \<Rightarrow> bytes" where
  "sep num x = (if num = 0 then x else 32 # x)"

lemma payload_step:
  assumes a: "prints_arg pwa a x" "0 \<notin> set h" and f: "fetch d p (encode True a)" "int (length (encode True a)) \<le> l"
    and t: "int (length h + length (sep num x)) + 2 \<le> textlength" "textlength \<le> int (length h + length r) + 1" "textlength < 2147483647"
  obtains r' info' where "length r' + length (sep num x) = length r"
    "payload_args d False (argument_print d False pwa) textlength num (Suc k) info \<lparr>p_ptr = p, p_len = l, p_text = h @ 0 # r\<rparr> =
      payload_args d False (argument_print d False pwa) textlength (num + 1) k info'
        \<lparr>p_ptr = p + length (encode True a), p_len = l - int (length (encode True a)), p_text = (h @ sep num x) @ 0 # r'\<rparr>"
proof -
  obtain w body where e: "encode True a = log_bytes w @ body" and pr: "prints pwa w body x" using a(1) by (auto simp: prints_arg_def)
  define h' where "h' = (if num = 0 then h else h @ [32])"
  define r1 where "r1 = (if num = 0 then r else drop 1 r)"
  have h': "0 \<notin> set h'" "h @ sep num x = h' @ x" using a(2) by (simp_all add: h'_def sep_def)
  have len: "int (length h' + length x) + 2 \<le> textlength" "textlength \<le> int (length h' + length r1) + 1"
    "length h' + length r1 = length h + length r" using t by (auto simp: h'_def r1_def sep_def split: if_splits)
  have 1: "(if num \<noteq> 0 then append_text (h @ 0 # r) textlength [32] else Some (h @ 0 # r)) = Some (h' @ 0 # r1)"
    using t append_text_ok [OF a(2), of "[32]" textlength r] by (simp add: h'_def r1_def sep_def)
  have fs: "fetch d p (log_bytes w)" "fetch d (p + 4) body" "4 \<le> l" "int (length body) \<le> l - 4" using f e by simp_all
  have u: "u64 (textlength - int (length h')) = textlength - int (length h')" using len(1) t(3) by (simp add: c_casts)
  obtain r' where r': "length r' + length x = length r1"
    "argument_print d False pwa w (-1) (length h') (textlength - int (length h')) \<lparr>p_ptr = p + 4, p_len = l - 4, p_text = h' @ 0 # r1\<rparr> =
      Some (DLT_RETURN_OK, \<lparr>p_ptr = p + 4 + length body, p_len = l - 4 - int (length body), p_text = h' @ x @ 0 # r'\<rparr>)"
    by (rule printsD [OF pr fs(2,4), of "textlength - int (length h')" r1 h']) (use len t(3) in simp_all)
  show thesis
  proof (rule that [of r' w])
    show "length r' + length (sep num x) = length r" using r'(1) len(3) arg_cong [OF h'(2), of length] by simp
    show "payload_args d False (argument_print d False pwa) textlength num (Suc k) info \<lparr>p_ptr = p, p_len = l, p_text = h @ 0 # r\<rparr> =
      payload_args d False (argument_print d False pwa) textlength (num + 1) k w
        \<lparr>p_ptr = p + length (encode True a), p_len = l - int (length (encode True a)), p_text = (h @ sep num x) @ 0 # r'\<rparr>"
    proof -
      have "payload_args d False (argument_print d False pwa) textlength num (Suc k) info \<lparr>p_ptr = p, p_len = l, p_text = h @ 0 # r\<rparr> =
        payload_args d False (argument_print d False pwa) textlength (num + 1) k w
          \<lparr>p_ptr = p + 4 + length body, p_len = l - 4 - int (length body), p_text = h' @ x @ 0 # r'\<rparr>"
        unfolding payload_args.simps pst.simps 1 Option.bind_lunit
        using read_info [OF fs(1,3), of "h' @ 0 # r1"] strlen_append [OF h'(1), of r1] u r'(2) by simp
      then show ?thesis unfolding h'(2) e by (simp add: algebra_simps)
    qed
  qed
qed

lemma sep_join: "x @ concat (map ((#) 32) xs) = blank_join (x # xs)"
  by (simp add: blank_join_def)

lemma payload_args_ok:
  assumes "list_all2 (prints_arg pwa) as xs" "list_all (\<lambda>x. 0 \<notin> set x) xs" "0 \<notin> set h"
    "fetch d p (concat (map (encode True) as))" "int (length (concat (map (encode True) as))) \<le> l"
    "int (length h + length (concat (map (sep num) (take 1 xs))) + length (concat (map ((#) 32) (drop 1 xs)))) + 2 \<le> textlength"
    "textlength \<le> int (length h + length r) + 1" "textlength < 2147483647"
  shows "\<exists>r'. payload_args d False (argument_print d False pwa) textlength num (length as) info \<lparr>p_ptr = p, p_len = l, p_text = h @ 0 # r\<rparr> =
    Some (DLT_RETURN_OK, h @ concat (map (sep num) (take 1 xs)) @ concat (map ((#) 32) (drop 1 xs)) @ 0 # r')"
  using assms
proof (induction as xs arbitrary: h p l r num info rule: list_all2_induct)
  case Nil
  then show ?case by simp
next
  case (Cons a as x xs)
  obtain r' info' where s: "length r' + length (sep num x) = length r"
    "payload_args d False (argument_print d False pwa) textlength num (Suc (length as)) info \<lparr>p_ptr = p, p_len = l, p_text = h @ 0 # r\<rparr> =
      payload_args d False (argument_print d False pwa) textlength (num + 1) (length as) info'
        \<lparr>p_ptr = p + length (encode True a), p_len = l - int (length (encode True a)), p_text = (h @ sep num x) @ 0 # r'\<rparr>"
    by (rule payload_step [OF Cons.hyps(1), of h d p l num textlength r "length as" info]) (use Cons.prems in simp_all)
  have tail: "concat (map (sep (num + 1)) (take 1 xs)) @ concat (map ((#) 32) (drop 1 xs)) = concat (map ((#) 32) xs)"
    by (cases xs) (simp_all add: sep_def)
  have "\<exists>r''. payload_args d False (argument_print d False pwa) textlength (num + 1) (length as) info'
        \<lparr>p_ptr = p + length (encode True a), p_len = l - int (length (encode True a)), p_text = (h @ sep num x) @ 0 # r'\<rparr> =
      Some (DLT_RETURN_OK, (h @ sep num x) @ concat (map (sep (num + 1)) (take 1 xs)) @ concat (map ((#) 32) (drop 1 xs)) @ 0 # r'')"
  proof (rule Cons.IH)
    show "0 \<notin> set (h @ sep num x)" using Cons.prems by (simp add: sep_def)
    show "int (length (h @ sep num x) + length (concat (map (sep (num + 1)) (take 1 xs))) + length (concat (map ((#) 32) (drop 1 xs)))) + 2 \<le> textlength"
      using Cons.prems(5) arg_cong [OF tail, of length] by simp
  qed (use Cons.prems s(1) in simp_all)
  then show ?case using s(2) tail by (metis (no_types, lifting) append_assoc concat.simps(2) drop0 drop_Suc_Cons length_Cons list.simps(9) One_nat_def take0 take_Suc_Cons concat.simps(1) append_Nil2 list.simps(8))
qed

lemma length_payload: "log_ok u log \<Longrightarrow> int (length (payload log)) = cd_size log"
  by (auto simp: log_ok_def log_wf_def room_def payload_def split: option.splits)

lemma do_call_ok:
  assumes "log_ok u log" "call_ok c" "v = is_verbose_mode u (Some log)" "do_call u log c = Some (DLT_RETURN_OK, log')"
  shows "outcome v (room log) c = Some (DLT_RETURN_OK, call_args v c)"
proof -
  have "call_args v c = [] \<or> (\<exists>a. call_args v c = [a])" by (cases c) auto
  then show ?thesis using do_call_attempt [OF assms(1-3), symmetric] unfolding assms(4)
    by (auto simp: outcome_def attempt_def simp del: encode.simps split: if_splits)
qed

text \<open>When all calls succeed they log what they are for.\<close>

lemma all_logged:
  assumes "log_ok u log" "list_all call_ok calls" "0 \<le> args_num log" "args_num log + int (length calls) < 2147483648"
    and "v = is_verbose_mode u (Some log)" "log_calls u log calls = Some (rets, log')" "set rets \<subseteq> {DLT_RETURN_OK}"
  shows "outcomes v (room log) calls = Some (map (\<lambda>c. (DLT_RETURN_OK, call_args v c)) calls)"
  using assms
proof (induction calls arbitrary: log rets)
  case (Cons c calls)
  obtain log1 rs where 1: "do_call u log c = Some (DLT_RETURN_OK, log1)" "log_calls u log1 calls = Some (rs, log')"
      "set rs \<subseteq> {DLT_RETURN_OK}"
    using Cons.prems(6,7) by (auto simp: Option.bind_eq_Some_conv)
  have o: "outcome v (room log) c = Some (DLT_RETURN_OK, call_args v c)"
    using do_call_ok [OF Cons.prems(1) _ Cons.prems(5) 1(1)] Cons.prems(2) by simp
  obtain log2 where "do_call u log c = Some (DLT_RETURN_OK, log2)" "log_ok u log2"
    "args_num log2 = args_num log + int (length (call_args v c))" "v = is_verbose_mode u (Some log2)" "length (call_args v c) \<le> 1"
    "room log2 = room log - int (length (encoding v (call_args v c)))"
    by (rule do_call_spec [OF Cons.prems(1) _ Cons.prems(5) _ _ o]) (use Cons.prems in simp_all)
  then show ?case using Cons.IH [of log2 rs] 1 o Cons.prems by simp
qed simp

lemma calls_print:
  assumes "list_all call_ok calls" "list_all printable calls"
  shows "list_all2 (prints_arg pwa) (concat (map (call_args True) calls)) (map (call_text pwa) calls)"
    "length (concat (map (call_args True) calls)) = length calls"
proof -
  have "list_all2 (prints_arg pwa) (concat (map (call_args True) calls)) (map (call_text pwa) calls) \<and>
      length (concat (map (call_args True) calls)) = length calls"
    using assms
  proof (induction calls)
    case (Cons c calls)
    then show ?case using call_prints [of c pwa] by auto
  qed simp
  then show "list_all2 (prints_arg pwa) (concat (map (call_args True) calls)) (map (call_text pwa) calls)"
    "length (concat (map (call_args True) calls)) = length calls" by simp_all
qed

text \<open>A message that carries the payload: verbose, in the byte order of the host, and with the number of arguments.\<close>

definition carries :: "DltMessage \<Rightarrow> DltContextData \<Rightarrow> bool" where
  "carries msg log \<longleftrightarrow>
     (\<exists>junk. databuffer msg = Some (payload log @ junk)) \<and> datasize msg = cd_size log \<and> DLT_MSG_IS_NONVERBOSE msg = Some False \<and>
     pred_option (\<lambda>h. \<not> DLT_IS_HTYP_MSBF h) (std_htyp msg) \<and> map_option uint (msg_noar msg) = Some (args_num log)"

text \<open>
  C8. What an application logs is what a viewer prints. When all calls succeed and a message carries their
  arguments, its output has the texts of the calls in order, separated by blanks, with names and units if
  attributes are asked for, provided that the text is two bytes longer than needed.
\<close>

theorem logged_payload_printed:
  assumes log: "log_ok u log" "payload log = []" "args_num log = 0" "is_verbose_mode u (Some log)"
    and calls: "list_all call_ok calls" "list_all printable calls" "length calls < 256"
    and run: "log_calls u log calls = Some (rets, log')" "set rets \<subseteq> {DLT_RETURN_OK}"
    and msg: "carries msg log'"
    and len: "int (length (blank_join (map (call_text pwa) calls))) + 2 \<le> textlength" "textlength \<le> int (length t)" "textlength < 2147483647"
    and type: "type = DLT_OUTPUT_ASCII \<or> type = DLT_OUTPUT_ASCII_LIMITED"
  shows "\<exists>rest. dlt_message_payload msg t textlength type pwa =
    Some (DLT_RETURN_OK, blank_join (map (call_text pwa) calls) @ 0 # rest)"
proof -
  let ?as = "concat (map (call_args True) calls)" and ?xs = "map (call_text pwa) calls"
  obtain h m where h: "std_htyp msg = Some h" "\<not> DLT_IS_HTYP_MSBF h" and m: "msg_noar msg = Some m" "uint m = args_num log'"
    using msg by (cases "std_htyp msg") (auto simp: carries_def DLT_MSG_IS_NONVERBOSE_def)
  obtain junk where d: "databuffer msg = Some (payload log' @ junk)" "datasize msg = cd_size log'" using msg by (auto simp: carries_def)
  have o: "outcomes True (room log) calls = Some (map (\<lambda>c. (DLT_RETURN_OK, call_args True c)) calls)"
    using all_logged [OF log(1) calls(1) _ _ _ run, of True] log calls(3) by simp
  obtain log2 where r: "log_calls u log calls = Some (map (\<lambda>c. DLT_RETURN_OK) calls, log2)" "log_ok u log2"
    "payload log2 = payload log @ concat (map (encode True) ?as)" "args_num log2 = args_num log + int (length ?as)"
    by (rule log_calls_results [OF log(1) calls(1) _ _ _ o]) (use log calls(3) in \<open>simp_all add: comp_def encoding_def\<close>)
  then have l2: "log2 = log'" using run by simp
  have p: "payload log' = concat (map (encode True) ?as)" "uint m = int (length calls)"
    using r(3,4) l2 log(2,3) m(2) calls_print(2) [OF calls(1,2)] by simp_all
  have sz: "cd_size log' = int (length (payload log'))" using r(2) l2 by (simp add: length_payload)
  have n: "unat m = length calls" using p(2) by (simp add: unat_eq_nat_uint)
  have t: "store_at t 0 [0] = Some ([] @ 0 # tl t)" "textlength \<le> int (length (tl t)) + 1" "0 < textlength"
    using len by (cases t; simp add: store_at_def)+
  have pa: "dlt_message_argument_print msg pwa = argument_print (payload log' @ junk) False pwa"
    using h d(1) by (simp add: dlt_message_argument_print_def fun_eq_iff)
  have join: "concat (map (sep 0) (take 1 ?xs)) @ concat (map ((#) 32) (drop 1 ?xs)) = blank_join ?xs"
    by (cases calls) (simp_all add: blank_join_def sep_def)
  have "\<exists>r'. payload_args (payload log' @ junk) False (argument_print (payload log' @ junk) False pwa) textlength 0 (length ?as) 0
      \<lparr>p_ptr = 0, p_len = datasize msg, p_text = [] @ 0 # tl t\<rparr> =
    Some (DLT_RETURN_OK, [] @ concat (map (sep 0) (take 1 ?xs)) @ concat (map ((#) 32) (drop 1 ?xs)) @ 0 # r')"
  proof (rule payload_args_ok [OF calls_print(1) [OF calls(1,2)]])
    show "list_all (\<lambda>x. 0 \<notin> set x) ?xs" using calls(2) by (auto simp: list_all_iff call_text_nonzero)
    show "fetch (payload log' @ junk) 0 (concat (map (encode True) ?as))" by (simp add: p(1) fetch_def load_at_def)
    show "int (length ([] :: bytes) + length (concat (map (sep 0) (take 1 ?xs))) + length (concat (map ((#) 32) (drop 1 ?xs)))) + 2 \<le> textlength"
      using len(1) arg_cong [OF join, of length] by simp
  qed (use d(2) sz p(1) len t in simp_all)
  then have "\<exists>rest. payload_args (payload log' @ junk) False (argument_print (payload log' @ junk) False pwa) textlength 0 (unat m) 0
      \<lparr>p_ptr = 0, p_len = datasize msg, p_text = [] @ 0 # tl t\<rparr> = Some (DLT_RETURN_OK, blank_join ?xs @ 0 # rest)"
    unfolding n calls_print(2) [OF calls(1,2)] using join by (metis append_Nil append_assoc)
  then show ?thesis using msg h m t type d(1) pa by (auto simp: dlt_message_payload_def carries_def)
qed

definition example_calls :: "log_call list" where
  "example_calls = [Uint W8 5, StrAttr ASCII_STRING (str ''up'') (Some (str ''link''))]"

definition example_logged :: DltContextData where
  "example_logged = written True (written True example_log (Value (DLT_TYPE_INFO_UINT OR DLT_TYLE_8BIT) None (le_bytes 1 5)))
     (Text ASCII_STRING (Some (Some (str ''link''))) (str ''up''))"

text \<open>A message with a standard header and an extended header and nothing between them.\<close>

definition example_message :: DltMessage where
  "example_message = \<lparr>found_serialheader = False, resync_offset = 0, headersize = 14, datasize = cd_size example_logged,
     headerbuffer = [0x21, 0, 0, 40, 0x41, 2, 65, 80, 80, 0, 67, 79, 78, 0], databuffer = Some (payload example_logged),
     databuffersize = cd_size example_logged, storageheader = None, standardheader = Some 0,
     headerextra = \<lparr>ecu = [], seid = 0, tmsp = 0\<rparr>, extendedheader = Some 4\<rparr>"

lemma example_run: "log_calls example_user example_log example_calls = Some ([DLT_RETURN_OK, DLT_RETURN_OK], example_logged)"
  "args_num example_logged = 2"
proof -
  let ?a = "Value (DLT_TYPE_INFO_UINT OR DLT_TYLE_8BIT) None (le_bytes 1 5)" and ?b = "Text ASCII_STRING (Some (Some (str ''link''))) (str ''up'')"
  have len: "length (encode True ?a) = 5" "length (encode True ?b) = 16" by (simp_all add: str_def attr_size_def)
  have fa: "int (length (encode True ?a)) \<le> room example_log" using len example_log_ok by simp
  note a = written_spec [OF example_log_ok(1) fa]
  have wf: "log_wf example_log" using example_log_ok(1) by (simp add: log_ok_def)
  have "room (written True example_log ?a) = 59" using fa wf len example_log_ok(3) by (simp add: written_def del: encode.simps)
  then have fb: "int (length (encode True ?b)) \<le> room (written True example_log ?a)" using len by simp
  show "log_calls example_user example_log example_calls = Some ([DLT_RETURN_OK, DLT_RETURN_OK], example_logged)"
    using do_call_attempt [OF example_log_ok(1), of "Uint W8 5" True]
      do_call_attempt [OF a(1), of "StrAttr ASCII_STRING (str ''up'') (Some (str ''link''))" True] a(3) example_log_ok(2) fa fb
    by (simp add: example_calls_def attempt_def example_logged_def str_def del: encode.simps)
  show "args_num example_logged = 2"
    using written_spec(4) [OF a(1) fb] a(4) example_log_ok(4) by (simp add: example_logged_def c_casts)
qed

lemma example_carries: "carries example_message example_logged"
  unfolding carries_def
proof (intro conjI)
  show "\<exists>junk. databuffer example_message = Some (payload example_logged @ junk)"
    by (intro exI [of _ "[]"]) (simp add: example_message_def)
qed (simp_all add: example_message_def DLT_MSG_IS_NONVERBOSE_def std_htyp_def msg_msin_def msg_noar_def byte_at_def DLT_IS_HTYP_UEH_def
    DLT_IS_HTYP_MSBF_def example_run(2))

theorem logged_payload_printed_witness:
  "\<exists>rest. dlt_message_payload example_message (replicate 100 1) 100 DLT_OUTPUT_ASCII True = Some (DLT_RETURN_OK, str ''5 link:up'' @ 0 # rest)"
proof -
  have join: "blank_join (map (call_text True) example_calls) = str ''5 link:up''" by code_simp
  show ?thesis
    using logged_payload_printed [of example_user example_log example_calls _ example_logged example_message True 100 "replicate 100 1" DLT_OUTPUT_ASCII]
      example_log_ok example_run(1) example_carries join
    by (simp add: example_calls_def attr_ok_def text_ok_def str_def)
qed

lemma print_text_info: "print_value d msb pwa (text_info ty) len off avail st = print_string d msb pwa False len off avail st"
  by (cases ty) (simp_all add: print_value_def text_info_def type_info_defs)

lemma argument_print_full:
  assumes f: "fetch d p (le_bytes 2 (length t) @ s)" and s: "length s = length t" "0 < length t" "length t < 65536"
    and l: "int (length t) + 2 \<le> l"
  shows "argument_print d False pwa (text_info ty) (-1) 0 (int (length t)) \<lparr>p_ptr = p, p_len = l, p_text = t\<rparr> = None"
proof -
  have v: "le_val (le_bytes 2 (length t)) = length t" using s(3) by (simp add: le_val_bytes_id)
  have fs: "fetch d p (le_bytes 2 (length t))" "load_at d (p + 2) (length t) = Some s" using f s(1) by (simp_all add: fetch_def [of d _ s])
  have "read_string d 0 (int (length t)) (length t) \<lparr>p_ptr = p + 2, p_len = l - 2, p_text = t\<rparr> = None"
    using l s fs(2) clean_string_spec [of "length t" s] by (simp add: read_string_def store_at_def)
  then show ?thesis
    using read_num_ok [OF fs(1), of 2 l False t] l v
    by (simp add: argument_print_def print_text_info print_string_def andthen_def [of None])
qed

text \<open>
  C39. A string argument whose length, with its zero, is exactly the length of the text buffer is accepted, and the
  zero behind it is written past the end of the buffer.
\<close>

theorem string_fills_text:
  assumes msg: "DLT_MSG_IS_NONVERBOSE msg = Some False" "std_htyp msg = Some h" "\<not> DLT_IS_HTYP_MSBF h" "msg_noar msg = Some n" "0 < n"
    and d: "databuffer msg = Some (log_bytes (text_info ty) @ le_bytes 2 (length t) @ s @ junk)" "length s = length t"
      "0 < length t" "length t < 65536" "int (length t) + 6 \<le> datasize msg"
  shows "dlt_message_payload msg t (int (length t)) DLT_OUTPUT_ASCII pwa = None"
proof -
  let ?d = "log_bytes (text_info ty) @ le_bytes 2 (length t) @ s @ junk" and ?t = "0 # tl t"
  obtain k where k: "unat n = Suc k" using msg(5) by (metis gr0_implies_Suc unat_gt_0 word_neq_0_conv)
  have t: "store_at t 0 [0] = Some ?t" "length ?t = length t" using d(3) by (cases t; simp add: store_at_def)+
  have f: "fetch ?d 0 (log_bytes (text_info ty))" "fetch ?d 4 (le_bytes 2 (length ?t) @ s)"
    using t(2) by (simp_all add: fetch_def load_at_def)
  have a: "argument_print ?d False pwa (text_info ty) (-1) 0 (int (length ?t)) \<lparr>p_ptr = 4, p_len = datasize msg - 4, p_text = ?t\<rparr> = None"
    by (rule argument_print_full [OF f(2)]) (use d t(2) in simp_all)
  have u: "u64 (int (length t)) = int (length t)" using d(4) by (simp add: c_casts)
  have "payload_args ?d False (dlt_message_argument_print msg pwa) (int (length t)) 0 (Suc k) 0
      \<lparr>p_ptr = 0, p_len = datasize msg, p_text = ?t\<rparr> = None"
    using read_info [OF f(1), of "datasize msg" ?t] a d t(2) msg u by (simp add: dlt_message_argument_print_def)
  moreover have "DLT_IS_HTYP_MSBF h = False" using msg(3) by simp
  ultimately show ?thesis using msg(1,2,4) d(1,3) t(1) k by (simp add: dlt_message_payload_def del: payload_args.simps)
qed

text \<open>
  A hexadecimal number of 64 bits with only its lower half at the end of the buffer: the upper half is read
  behind the end, since the length is tested for four bytes only.
\<close>

lemma hex64_reads_behind:
  assumes "p + 4 = length d" "4 \<le> l"
  shows "argument_print d msb pwa (DLT_TYPE_INFO_UINT OR DLT_TYLE_64BIT OR DLT_SCOD_HEX) (-1) off avail \<lparr>p_ptr = p, p_len = l, p_text = t\<rparr> = None"
  using assms by (simp add: argument_print_def print_value_def print_hex_def print_hex64_def read_num_def load_at_def andthen_def type_info_defs)

definition full_message :: DltMessage where
  "full_message = \<lparr>found_serialheader = False, resync_offset = 0, headersize = 14, datasize = 10,
     headerbuffer = [0x21, 0, 0, 24, 0x41, 1, 65, 80, 80, 0, 67, 79, 78, 0],
     databuffer = Some (log_bytes (text_info ASCII_STRING) @ le_bytes 2 4 @ [97, 98, 99, 0]),
     databuffersize = 10, storageheader = None, standardheader = Some 0,
     headerextra = \<lparr>ecu = [], seid = 0, tmsp = 0\<rparr>, extendedheader = Some 4\<rparr>"

theorem string_fills_text_witness: "dlt_message_payload full_message (replicate 4 1) 4 DLT_OUTPUT_ASCII False = None"
  using string_fills_text [of full_message "0x21" 1 ASCII_STRING "replicate 4 1" "[97, 98, 99, 0]" "[]" False]
  by (simp add: full_message_def DLT_MSG_IS_NONVERBOSE_def std_htyp_def msg_msin_def msg_noar_def byte_at_def DLT_IS_HTYP_UEH_def
    DLT_IS_HTYP_MSBF_def)

end
