(* ===== verification/Dlt_EnvLL.thy ===== *)
theory Dlt_EnvLL
  imports Dlt_Id
begin

text \<open>
  Initial log levels from the environment (\<^verbatim>\<open>src/lib/dlt_env_ll.c\<close>): a list of items
  \<^verbatim>\<open>application:context:level\<close> separated by semicolons, and the choice of the level for a context.

  The setting is the block \<open>s\<close> of bytes with its terminating zero, and the pointer the functions move is an
  offset \<open>p\<close> into it. Checks for null pointers are left out. \<open>alloc\<close> gives the array that is allocated for a
  number of items.
\<close>

section \<open>Data\<close>

record dlt_env_ll_item =
  ei_appId :: bytes
  ei_appId2len :: nat
  ei_appId2 :: "bytes option"
  ei_ctxId :: bytes
  ei_ctxId2len :: nat
  ei_ctxId2 :: "bytes option"
  ei_ll :: int

record dlt_env_ll_set =
  es_item :: "dlt_env_ll_item list option"
  es_array_size :: nat
  es_num_elem :: nat

type_synonym item_alloc = "nat \<Rightarrow> dlt_env_ll_item list option"

definition zero_item :: dlt_env_ll_item where
  "zero_item = \<lparr>ei_appId = [0, 0, 0, 0], ei_appId2len = 0, ei_appId2 = None, ei_ctxId = [0, 0, 0, 0], ei_ctxId2len = 0,
     ei_ctxId2 = None, ei_ll = 0\<rparr>"


section \<open>Parsing an item\<close>

fun extract_id_loop :: "bytes \<Rightarrow> nat \<Rightarrow> bytes \<Rightarrow> nat \<Rightarrow> nat \<Rightarrow> (nat \<times> bytes) option" where
  "extract_id_loop s p ident i 0 = Some (p, ident)"
| "extract_id_loop s p ident i (Suc k) = do {
     c \<leftarrow> byte_at s p;
     if c \<noteq> 58 \<and> c \<noteq> 0 then extract_id_loop s (p + 1) (ident[i := c]) (i + 1) k else Some (p, ident)
   }"

definition dlt_env_extract_id :: "bytes \<Rightarrow> nat \<Rightarrow> (int \<times> nat \<times> bytes) option" where
  "dlt_env_extract_id s p = do {
     (p, ident) \<leftarrow> extract_id_loop s p [0, 0, 0, 0] 0 4;
     c \<leftarrow> byte_at s p;
     Some (if c = 58 then 0 else -1, p, ident)
   }"

definition to_lower :: "byte \<Rightarrow> byte" where
  "to_lower c = (if 65 \<le> c \<and> c \<le> 90 then c + 97 - 65 else c)"

fun lower_loop :: "bytes \<Rightarrow> nat \<Rightarrow> byte \<Rightarrow> bytes \<Rightarrow> nat \<Rightarrow> (nat \<times> byte \<times> bytes) option" where
  "lower_loop s p ch result 0 = Some (p, ch, result)"
| "lower_loop s p ch result (Suc k) =
     (if ch \<noteq> 0 \<and> ch \<noteq> 59 then do {
        c \<leftarrow> byte_at s (p + 1);
        lower_loop s (p + 1) c (result @ [to_lower ch]) k
      }
      else Some (p, ch, result))"

text \<open>The result is the string without its zero; \<open>n\<close> is the size of the buffer for it.\<close>

definition dlt_env_helper_to_lower :: "bytes \<Rightarrow> nat \<Rightarrow> nat \<Rightarrow> (int \<times> nat \<times> bytes) option" where
  "dlt_env_helper_to_lower s p n = do {
     ch \<leftarrow> byte_at s p;
     (p, ch, result) \<leftarrow> lower_loop s p ch [] (n - 1);
     Some (if ch = 0 \<or> ch = 59 then 0 else -1, p, result)
   }"

definition symbolic_levels :: "(bytes \<times> int) list" where
  "symbolic_levels = [(str ''default'', -1), (str ''off'', 0), (str ''fatal'', 1), (str ''error'', 2), (str ''warning'', 3),
     (str ''info'', 4), (str ''debug'', 5), (str ''verbose'', 6)]"

definition dlt_env_extract_symbolic_ll :: "bytes \<Rightarrow> nat \<Rightarrow> int \<Rightarrow> (int \<times> nat \<times> int) option" where
  "dlt_env_extract_symbolic_ll s p ll = do {
     (ret, p, result) \<leftarrow> dlt_env_helper_to_lower s p 8;
     if ret = 0 then
       (case map_of symbolic_levels result of
          None \<Rightarrow> Some (-1, p, ll)
        | Some l \<Rightarrow> do { c \<leftarrow> byte_at s p; Some (0, if c \<noteq> 0 then p + 1 else p, l) })
     else Some (-1, p, ll)
   }"

definition dlt_env_extract_ll :: "bytes \<Rightarrow> nat \<Rightarrow> int \<Rightarrow> (int \<times> nat \<times> int) option" where
  "dlt_env_extract_ll s p ll = do {
     c \<leftarrow> byte_at s p;
     (ret, p, ll) \<leftarrow>
       (if c = 45 then do {
          c \<leftarrow> byte_at s (p + 1);
          Some (0, if c = 49 then p + 2 else p + 1, if c = 49 then -1 else ll)
        }
        else if 48 \<le> c \<and> c < 55 then Some (0, p + 1, uint c - 48)
        else dlt_env_extract_symbolic_ll s p ll);
     if ret \<noteq> 0 then Some (-1, p, ll)
     else do {
       c \<leftarrow> byte_at s p;
       Some (if c = 59 \<or> c = 0 then 0 else -1, p, ll)
     }
   }"

definition dlt_env_extract_ll_item :: "bytes \<Rightarrow> nat \<Rightarrow> (int \<times> nat \<times> dlt_env_ll_item) option" where
  "dlt_env_extract_ll_item s p = do {
     (ret, p, ident) \<leftarrow> dlt_env_extract_id s p;
     let item = zero_item\<lparr>ei_appId := ident\<rparr>;
     if ret = -1 then Some (-1, p, item)
     else do {
       (ret, p, ident) \<leftarrow> dlt_env_extract_id s (p + 1);
       let item = item\<lparr>ei_ctxId := ident\<rparr>;
       if ret = -1 then Some (-1, p, item)
       else do {
         (ret, p, ll) \<leftarrow> dlt_env_extract_ll s (p + 1) (ei_ll item);
         Some (if ret = -1 then -1 else 0, p, item\<lparr>ei_ll := ll\<rparr>)
       }
     }
   }"


section \<open>The set of items\<close>

definition dlt_env_init_ll_set :: "item_alloc \<Rightarrow> dlt_env_ll_set \<Rightarrow> int \<times> dlt_env_ll_set" where
  "dlt_env_init_ll_set alloc ll_set =
     (case alloc 10 of
        None \<Rightarrow> (-1, ll_set\<lparr>es_item := None, es_array_size := 0\<rparr>)
      | Some a \<Rightarrow> (0, ll_set\<lparr>es_item := Some a, es_array_size := 10, es_num_elem := 0\<rparr>))"

definition dlt_env_free_ll_set :: "dlt_env_ll_set \<Rightarrow> dlt_env_ll_set" where
  "dlt_env_free_ll_set ll_set = ll_set\<lparr>es_item := None, es_array_size := 0, es_num_elem := 0\<rparr>"

definition dlt_env_increase_ll_set :: "item_alloc \<Rightarrow> dlt_env_ll_set \<Rightarrow> (int \<times> dlt_env_ll_set) option" where
  "dlt_env_increase_ll_set alloc ll_set =
     (case alloc (es_array_size ll_set + 10) of
        None \<Rightarrow> Some (-1, ll_set\<lparr>es_item := None\<rparr>)
      | Some a \<Rightarrow> do {
          old \<leftarrow> es_item ll_set;
          part \<leftarrow> load_at old 0 (es_array_size ll_set);
          a \<leftarrow> store_at a 0 part;
          Some (0, ll_set\<lparr>es_item := Some a, es_array_size := es_array_size ll_set + 10\<rparr>)
        })"

text \<open>
  The loop over the items. Each item that is accepted has at least two bytes, so the length of the setting
  is enough as the bound \<open>k\<close> of the rounds.
\<close>

fun extract_set_loop :: "nat \<Rightarrow> item_alloc \<Rightarrow> bytes \<Rightarrow> nat \<Rightarrow> dlt_env_ll_set \<Rightarrow> (int \<times> nat \<times> dlt_env_ll_set) option" where
  "extract_set_loop 0 alloc s p ll_set = None"
| "extract_set_loop (Suc k) alloc s p ll_set = do {
     (ret, ll_set) \<leftarrow> (if es_num_elem ll_set = es_array_size ll_set then dlt_env_increase_ll_set alloc ll_set
                       else Some (0, ll_set));
     if ret = -1 then Some (-1, p, ll_set)
     else do {
       (ret, p, item) \<leftarrow> dlt_env_extract_ll_item s p;
       a \<leftarrow> es_item ll_set;
       a \<leftarrow> store_at a (es_num_elem ll_set) [item];
       let ll_set = ll_set\<lparr>es_item := Some a, es_num_elem := es_num_elem ll_set + 1\<rparr>;
       if ret = -1 then Some (-1, p, ll_set)
       else do {
         c \<leftarrow> byte_at s p;
         let p = (if c = 59 then p + 1 else p);
         c \<leftarrow> byte_at s p;
         if c \<noteq> 0 then extract_set_loop k alloc s p ll_set else Some (0, p, ll_set)
       }
     }
   }"

definition dlt_env_extract_ll_set :: "item_alloc \<Rightarrow> bytes \<Rightarrow> nat \<Rightarrow> dlt_env_ll_set \<Rightarrow> (int \<times> nat \<times> dlt_env_ll_set) option" where
  "dlt_env_extract_ll_set alloc s p ll_set =
     (let (ret, ll_set) = dlt_env_init_ll_set alloc ll_set in
      if ret = -1 then Some (-1, p, ll_set) else extract_set_loop (Suc (length s)) alloc s p ll_set)"


section \<open>Choosing a level\<close>

definition dlt_env_ids_match :: "bytes \<Rightarrow> bytes \<Rightarrow> bool option" where
  "dlt_env_ids_match a b = do {
     a0 \<leftarrow> byte_at a 0; b0 \<leftarrow> byte_at b 0;
     if a0 \<noteq> b0 then Some False
     else do {
       a1 \<leftarrow> byte_at a 1; b1 \<leftarrow> byte_at b 1;
       if a1 \<noteq> b1 then Some False
       else do {
         a2 \<leftarrow> byte_at a 2; b2 \<leftarrow> byte_at b 2;
         if a2 \<noteq> b2 then Some False
         else do { a3 \<leftarrow> byte_at a 3; b3 \<leftarrow> byte_at b 3; Some (a3 = b3) }
       }
     }
   }"

text \<open>\<^verbatim>\<open>strncmp\<close> for equality: it stops at a difference, a zero, or after \<open>n\<close> bytes.\<close>

fun strn_equal :: "bytes \<Rightarrow> bytes \<Rightarrow> nat \<Rightarrow> bool option" where
  "strn_equal a b 0 = Some True"
| "strn_equal (x # a) (y # b) (Suc n) = (if x \<noteq> y then Some False else if x = 0 then Some True else strn_equal a b n)"
| "strn_equal _ _ (Suc n) = None"

definition dlt_env_ids_match_v2 :: "bytes \<Rightarrow> bytes \<Rightarrow> nat \<Rightarrow> bool option" where
  "dlt_env_ids_match_v2 a b len = strn_equal a b len"

definition dlt_env_ll_item_get_matching_prio :: "dlt_env_ll_item \<Rightarrow> bytes \<Rightarrow> bytes \<Rightarrow> int option" where
  "dlt_env_ll_item_get_matching_prio item apid ctid = do {
     a0 \<leftarrow> byte_at (ei_appId item) 0;
     c0 \<leftarrow> byte_at (ei_ctxId item) 0;
     if a0 = 0 then
       (if c0 = 0 then Some 1
        else do { m \<leftarrow> dlt_env_ids_match (ei_ctxId item) ctid; Some (if m then 2 else 0) })
     else do {
       m \<leftarrow> dlt_env_ids_match (ei_appId item) apid;
       if \<not> m then Some 0
       else if c0 = 0 then Some 3
       else do { m \<leftarrow> dlt_env_ids_match (ei_ctxId item) ctid; Some (if m then 4 else 0) }
     }
   }"

definition dlt_env_ll_item_get_matching_prio_v2 ::
  "dlt_env_ll_item \<Rightarrow> bytes \<Rightarrow> nat \<Rightarrow> bytes \<Rightarrow> nat \<Rightarrow> int option" where
  "dlt_env_ll_item_get_matching_prio_v2 item apid apidlen ctid ctidlen =
     (case ei_appId2 item of
        None \<Rightarrow>
          (case ei_ctxId2 item of
             None \<Rightarrow> Some 1
           | Some c \<Rightarrow> do { m \<leftarrow> dlt_env_ids_match_v2 c ctid ctidlen; Some (if m then 2 else 0) })
      | Some a \<Rightarrow> do {
          m \<leftarrow> dlt_env_ids_match_v2 a apid apidlen;
          if \<not> m then Some 0
          else case ei_ctxId2 item of
              None \<Rightarrow> Some 3
            | Some c \<Rightarrow> do { m \<leftarrow> dlt_env_ids_match_v2 c ctid ctidlen; Some (if m then 4 else 0) }
        })"

text \<open>The loop of both versions, over the \<open>k\<close> items from \<open>i\<close> on.\<close>

fun adjust_loop :: "(dlt_env_ll_item \<Rightarrow> int option) \<Rightarrow> dlt_env_ll_set \<Rightarrow> int \<Rightarrow> int \<Rightarrow> nat \<Rightarrow> nat \<Rightarrow> int option" where
  "adjust_loop get_prio ll_set res prio i 0 = Some res"
| "adjust_loop get_prio ll_set res prio i (Suc k) = do {
     a \<leftarrow> es_item ll_set;
     item \<leftarrow> (if i < length a then Some (a ! i) else None);
     p \<leftarrow> get_prio item;
     if p > prio then
       (if p = 4 then Some (ei_ll item) else adjust_loop get_prio ll_set (ei_ll item) p (i + 1) k)
     else adjust_loop get_prio ll_set res prio (i + 1) k
   }"

definition dlt_env_adjust_ll_from_env :: "dlt_env_ll_set \<Rightarrow> bytes \<Rightarrow> bytes \<Rightarrow> int \<Rightarrow> int option" where
  "dlt_env_adjust_ll_from_env ll_set apid ctid ll =
     adjust_loop (\<lambda>item. dlt_env_ll_item_get_matching_prio item apid ctid) ll_set ll 0 0 (es_num_elem ll_set)"

definition dlt_env_adjust_ll_from_env_v2 :: "dlt_env_ll_set \<Rightarrow> bytes \<Rightarrow> nat \<Rightarrow> bytes \<Rightarrow> nat \<Rightarrow> int \<Rightarrow> int option" where
  "dlt_env_adjust_ll_from_env_v2 ll_set apid apidlen ctid ctidlen ll =
     adjust_loop (\<lambda>item. dlt_env_ll_item_get_matching_prio_v2 item apid apidlen ctid ctidlen) ll_set ll 0 0 (es_num_elem ll_set)"


section \<open>The text of a setting\<close>

type_synonym setting_item = "bytes \<times> bytes \<times> int"

definition pad :: "bytes \<Rightarrow> bytes" where
  "pad w = w @ replicate (4 - length w) 0"

definition ident_ok :: "bytes \<Rightarrow> bool" where
  "ident_ok w \<longleftrightarrow> length w \<le> 4 \<and> 58 \<notin> set w \<and> 0 \<notin> set w"

fun item_ok :: "setting_item \<Rightarrow> bool" where
  "item_ok (a, c, l) \<longleftrightarrow> ident_ok a \<and> ident_ok c \<and> -1 \<le> l \<and> l \<le> 6"

definition level_text :: "int \<Rightarrow> bytes" where
  "level_text l = (if l = -1 then [45, 49] else [word_of_int (48 + l)])"

fun item_text :: "setting_item \<Rightarrow> bytes" where
  "item_text (a, c, l) = a @ 58 # c @ 58 # level_text l"

fun item_of :: "setting_item \<Rightarrow> dlt_env_ll_item" where
  "item_of (a, c, l) = zero_item\<lparr>ei_appId := pad a, ei_ctxId := pad c, ei_ll := l\<rparr>"

fun setting :: "setting_item list \<Rightarrow> bytes" where
  "setting [] = [0]"
| "setting [x] = item_text x @ [0]"
| "setting (x # y # xs) = item_text x @ 59 # setting (y # xs)"

lemma byte_at_hit [simp]: "byte_at (pre @ c # post) (length pre) = Some c"
  by (simp add: byte_at_def)

lemma byte_at_next [simp]: "byte_at (pre @ w @ c # post) (length pre + length w) = Some c"
  using byte_at_hit[of "pre @ w" c post] by simp

lemma extract_id_loop_word:
  "58 \<notin> set w \<Longrightarrow> 0 \<notin> set w \<Longrightarrow> length w \<le> k \<Longrightarrow> i + length w \<le> length ident \<Longrightarrow>
   extract_id_loop (pre @ w @ 58 # post) (length pre) ident i k
     = Some (length pre + length w, take i ident @ w @ drop (i + length w) ident)"
proof (induction w arbitrary: pre ident i k)
  case Nil
  then show ?case by (cases k) auto
next
  case (Cons c w)
  obtain k' where k: "k = Suc k'" using Cons.prems(3) by (cases k) auto
  have "extract_id_loop ((pre @ [c]) @ w @ 58 # post) (length (pre @ [c])) (ident[i := c]) (i + 1) k'
      = Some (length (pre @ [c]) + length w,
          take (i + 1) (ident[i := c]) @ w @ drop (i + 1 + length w) (ident[i := c]))"
    by (rule Cons.IH) (use Cons.prems k in auto)
  moreover have "take (i + 1) (ident[i := c]) = take i ident @ [c]"
    using Cons.prems(4) by (simp add: take_Suc_conv_app_nth)
  ultimately show ?case using Cons.prems k by simp
qed

lemma extract_id_word:
  assumes "ident_ok w"
  shows "dlt_env_extract_id (pre @ w @ 58 # post) (length pre) = Some (0, length pre + length w, pad w)"
proof -
  have "drop (length w) [0, 0, 0, 0 :: byte] = replicate (4 - length w) 0"
    using drop_replicate[of "length w" 4 "0 :: byte"] by (simp add: numeral_eq_Suc)
  then show ?thesis
    using assms extract_id_loop_word[of w 4 0 "[0, 0, 0, 0]" pre post]
    by (simp add: dlt_env_extract_id_def ident_ok_def pad_def)
qed

lemma level_range: "-1 \<le> l \<Longrightarrow> l \<le> 6 \<Longrightarrow> l \<in> {-1, 0, 1, 2, 3, 4, 5, 6 :: int}"
  by auto

lemma extract_ll_level:
  assumes "-1 \<le> l" "l \<le> 6" "c = 59 \<or> c = 0"
  shows "dlt_env_extract_ll (pre @ level_text l @ c # post) (length pre) ll
    = Some (0, length pre + length (level_text l), l)"
proof -
  have next1: "byte_at (pre @ d # e # post) (Suc (length pre)) = Some e" for d e
    using byte_at_hit[of "pre @ [d]" e post] by simp
  have next2: "byte_at (pre @ d # e # f # post) (Suc (Suc (length pre))) = Some f" for d e f
    using byte_at_hit[of "pre @ [d, e]" f post] by simp
  have "byte_at (pre @ 45 # 49 # c # post) (Suc (length pre)) = Some 49"
    using byte_at_hit[of "pre @ [45]" 49 "c # post"] by simp
  then show ?thesis
    using level_range[OF assms(1,2)] assms(3) next1 next2
    by (auto simp: dlt_env_extract_ll_def level_text_def)
qed

lemma extract_ll_item_text:
  assumes "item_ok x" "c = 59 \<or> c = 0"
  shows "dlt_env_extract_ll_item (pre @ item_text x @ c # post) (length pre)
    = Some (0, length pre + length (item_text x), item_of x)"
proof -
  obtain a b l where x: "x = (a, b, l)" by (cases x)
  have ok: "ident_ok a" "ident_ok b" "-1 \<le> l" "l \<le> 6" using assms(1) by (auto simp: x)
  have 1: "dlt_env_extract_id (pre @ a @ 58 # b @ 58 # level_text l @ c # post) (length pre)
      = Some (0, length pre + length a, pad a)"
    by (rule extract_id_word[OF ok(1)])
  have 2: "dlt_env_extract_id (pre @ a @ 58 # b @ 58 # level_text l @ c # post) (Suc (length pre + length a))
      = Some (0, Suc (length pre + length a + length b), pad b)"
    using extract_id_word[OF ok(2), of "pre @ a @ [58]" "level_text l @ c # post"] by simp
  have 3: "dlt_env_extract_ll (pre @ a @ 58 # b @ 58 # level_text l @ c # post)
        (Suc (Suc (length pre + length a + length b))) ll
      = Some (0, Suc (Suc (length pre + length a + length b)) + length (level_text l), l)" for ll
    using extract_ll_level[OF ok(3,4) assms(2), of "pre @ a @ [58] @ b @ [58]" post ll] by (simp add: add.assoc)
  show ?thesis by (simp add: x dlt_env_extract_ll_item_def 1 2 3)
qed


section \<open>The set\<close>

text \<open>The set holds the items \<open>ys\<close>.\<close>

definition holds :: "dlt_env_ll_set \<Rightarrow> dlt_env_ll_item list \<Rightarrow> bool" where
  "holds ll_set ys \<longleftrightarrow> (\<exists>a. es_item ll_set = Some a \<and> length a = es_array_size ll_set \<and> length ys \<le> length a
     \<and> es_num_elem ll_set = length ys \<and> take (length ys) a = ys)"

definition alloc_sized :: "item_alloc \<Rightarrow> bool" where
  "alloc_sized alloc \<longleftrightarrow> (\<forall>n a. alloc n = Some a \<longrightarrow> length a = n)"

definition alloc_works :: "item_alloc \<Rightarrow> bool" where
  "alloc_works alloc \<longleftrightarrow> (\<forall>n. \<exists>a. alloc n = Some a)"

lemma init_holds:
  "alloc_sized alloc \<Longrightarrow> alloc 10 = Some a \<Longrightarrow> \<exists>u. dlt_env_init_ll_set alloc ll_set = (0, u) \<and> holds u []"
  by (auto simp: dlt_env_init_ll_set_def holds_def alloc_sized_def)

lemma increase_holds:
  assumes "alloc_sized alloc" "alloc (es_array_size u + 10) = Some a" "holds u ys"
  shows "\<exists>v. dlt_env_increase_ll_set alloc u = Some (0, v) \<and> holds v ys \<and> length ys < es_array_size v"
proof -
  have a: "length a = es_array_size u + 10" using assms(1,2) by (auto simp: alloc_sized_def)
  obtain old where old: "es_item u = Some old" "length old = es_array_size u" "length ys \<le> length old"
    "es_num_elem u = length ys" "take (length ys) old = ys" using assms(3) by (auto simp: holds_def)
  then show ?thesis using a assms(2)
    by (auto simp: dlt_env_increase_ll_set_def load_at_def store_at_def holds_def)
qed

lemma store_holds:
  assumes "holds u ys" "length ys < es_array_size u" "es_item u = Some a"
  shows "\<exists>b. store_at a (es_num_elem u) [x] = Some b
    \<and> holds (u\<lparr>es_item := Some b, es_num_elem := es_num_elem u + 1\<rparr>) (ys @ [x])"
  using assms by (auto simp: holds_def store_at_def)

lemma holds_item: "holds u ys \<Longrightarrow> \<exists>a. es_item u = Some a"
  by (auto simp: holds_def)

text \<open>One round up to the item it adds.\<close>

definition with_room :: "item_alloc \<Rightarrow> dlt_env_ll_set \<Rightarrow> (int \<times> dlt_env_ll_set) option" where
  "with_room alloc u = (if es_num_elem u = es_array_size u then dlt_env_increase_ll_set alloc u else Some (0, u))"

lemma with_room_holds:
  assumes "alloc_sized alloc" "holds u ys" "es_num_elem u = es_array_size u \<Longrightarrow> alloc (es_array_size u + 10) \<noteq> None"
  shows "\<exists>v. with_room alloc u = Some (0, v) \<and> holds v ys \<and> length ys < es_array_size v"
proof (cases "es_num_elem u = es_array_size u")
  case True
  then obtain a where "alloc (es_array_size u + 10) = Some a" using assms(3) by auto
  from increase_holds[OF assms(1) this assms(2)] show ?thesis by (simp add: with_room_def True)
next
  case False
  then have "length ys < es_array_size u" using assms(2) by (auto simp: holds_def)
  then show ?thesis using False assms(2) by (simp add: with_room_def)
qed

lemma set_round:
  assumes "with_room alloc u = Some (0, v)" "holds v ys" "length ys < es_array_size v"
    and "dlt_env_extract_ll_item s p = Some (ret, q, x)"
    and "byte_at s q = Some c" "t = (if c = 59 then Suc q else q)" "byte_at s t = Some d"
  shows "\<exists>w. holds w (ys @ [x]) \<and> extract_set_loop (Suc k) alloc s p u =
    (if ret = -1 then Some (-1, q, w) else if d \<noteq> 0 then extract_set_loop k alloc s t w else Some (0, t, w))"
proof -
  obtain a where a: "es_item v = Some a" using holds_item[OF assms(2)] by blast
  obtain b where b: "store_at a (es_num_elem v) [x] = Some b"
    "holds (v\<lparr>es_item := Some b, es_num_elem := es_num_elem v + 1\<rparr>) (ys @ [x])"
    using store_holds[OF assms(2,3) a] by blast
  show ?thesis
    by (rule exI[of _ "v\<lparr>es_item := Some b, es_num_elem := Suc (es_num_elem v)\<rparr>"])
      (use a b assms(1,4-7) in \<open>simp add: with_room_def[symmetric] Let_def cong: if_cong\<close>)
qed


section \<open>Parsing a whole setting\<close>

lemma setting_split:
  "xs \<noteq> [] \<Longrightarrow> \<exists>c post. setting (x # xs) = item_text x @ 59 # setting xs \<and> setting xs = c # post \<and> c \<noteq> 0"
  if "\<forall>y \<in> set xs. item_ok y"
proof -
  assume "xs \<noteq> []"
  then obtain y ys where xs: "xs = y # ys" by (cases xs) auto
  obtain a b l where y: "y = (a, b, l)" by (cases y)
  have "ident_ok a" using that by (simp add: xs y)
  then have "\<exists>c post. setting xs = c # post \<and> c \<noteq> 0"
    by (cases ys; cases a) (auto simp: xs y ident_ok_def)
  then show ?thesis by (auto simp: xs)
qed

lemma setting_length: "length xs < length (setting xs)"
  by (induction xs rule: setting.induct) auto

lemma set_loop_setting:
  assumes alloc: "alloc_sized alloc" "alloc_works alloc"
  shows "xs \<noteq> [] \<Longrightarrow> \<forall>x \<in> set xs. item_ok x \<Longrightarrow> holds u ys \<Longrightarrow> length xs \<le> k \<Longrightarrow>
    \<exists>v q. extract_set_loop k alloc (pre @ setting xs) (length pre) u = Some (0, q, v) \<and> holds v (ys @ map item_of xs)"
proof (induction xs arbitrary: pre u ys k)
  case Nil
  then show ?case by simp
next
  case (Cons x xs)
  obtain k' where k: "k = Suc k'" using Cons.prems(4) by (cases k) auto
  obtain v where v: "with_room alloc u = Some (0, v)" "holds v ys" "length ys < es_array_size v"
    using with_room_holds[OF alloc(1) Cons.prems(3)] alloc(2) by (auto simp: alloc_works_def)
  have ok: "item_ok x" "\<forall>y \<in> set xs. item_ok y" using Cons.prems(2) by auto
  show ?case
  proof (cases "xs = []")
    case True
    have "dlt_env_extract_ll_item (pre @ item_text x @ [0]) (length pre)
        = Some (0, length pre + length (item_text x), item_of x)"
      by (rule extract_ll_item_text) (use ok in auto)
    from set_round[OF v this _ refl, of 0 0 k'] show ?thesis by (force simp: True k simp del: extract_set_loop.simps)
  next
    case False
    obtain c post where c: "setting (x # xs) = item_text x @ 59 # setting xs" "setting xs = c # post" "c \<noteq> 0"
      using setting_split[OF ok(2) False, of x] by blast
    have "dlt_env_extract_ll_item (pre @ item_text x @ 59 # setting xs) (length pre)
        = Some (0, length pre + length (item_text x), item_of x)"
      by (rule extract_ll_item_text) (use ok in auto)
    from set_round[OF v this _ refl, of 59 c k'] obtain w where w: "holds w (ys @ [item_of x])"
      "extract_set_loop (Suc k') alloc (pre @ item_text x @ 59 # setting xs) (length pre) u =
         extract_set_loop k' alloc ((pre @ item_text x @ [59]) @ setting xs) (length (pre @ item_text x @ [59])) w"
      using c(3) byte_at_hit[of "pre @ item_text x @ [59]" c post] by (auto simp: c(2) simp del: item_text.simps extract_set_loop.simps)
    from Cons.IH[OF False ok(2) w(1), of k' "pre @ item_text x @ [59]"] Cons.prems(4)
    show ?thesis by (simp add: k c(1) w(2) del: extract_set_loop.simps)
  qed
qed

lemma extract_setting:
  assumes "alloc_sized alloc" "alloc_works alloc" "xs \<noteq> []" "\<forall>x \<in> set xs. item_ok x"
  shows "\<exists>v q. dlt_env_extract_ll_set alloc (setting xs) 0 u = Some (0, q, v) \<and> holds v (map item_of xs)"
proof -
  obtain a where "alloc 10 = Some a" using assms(2) by (auto simp: alloc_works_def)
  from init_holds[OF assms(1) this, of u] obtain v
    where v: "dlt_env_init_ll_set alloc u = (0, v)" "holds v []" by blast
  have "length xs \<le> Suc (length (setting xs))" using setting_length[of xs] by simp
  from set_loop_setting[OF assms(1,2,3,4) v(2) this, of "[]"] v(1)
  show ?thesis by (simp add: dlt_env_extract_ll_set_def del: extract_set_loop.simps)
qed


section \<open>The chosen level\<close>

text \<open>
  The specification of the choice: the first of the items with the highest priority, or the level given
  when no item has a priority.
\<close>

definition chosen :: "('a \<Rightarrow> int) \<Rightarrow> ('a \<Rightarrow> int) \<Rightarrow> 'a list \<Rightarrow> int \<Rightarrow> int \<Rightarrow> bool" where
  "chosen prio lev xs ll r \<longleftrightarrow>
     (\<forall>x \<in> set xs. prio x = 0) \<and> r = ll
     \<or> (\<exists>i < length xs. r = lev (xs ! i) \<and> 0 < prio (xs ! i) \<and> (\<forall>x \<in> set xs. prio x \<le> prio (xs ! i))
          \<and> (\<forall>j < i. prio (xs ! j) < prio (xs ! i)))"

text \<open>The running choice of the loop, over the items still to come.\<close>

fun best :: "('a \<Rightarrow> int) \<Rightarrow> ('a \<Rightarrow> int) \<Rightarrow> int \<Rightarrow> int \<Rightarrow> 'a list \<Rightarrow> int" where
  "best prio lev res p [] = res"
| "best prio lev res p (x # xs) = (if p < prio x then best prio lev (lev x) (prio x) xs else best prio lev res p xs)"

lemma best_low: "\<forall>x \<in> set xs. prio x \<le> p \<Longrightarrow> best prio lev res p xs = res"
  by (induction xs) auto

lemma best_spec:
  "(\<forall>x \<in> set xs. prio x \<le> p) \<and> best prio lev res p xs = res
   \<or> (\<exists>i < length xs. best prio lev res p xs = lev (xs ! i) \<and> p < prio (xs ! i)
        \<and> (\<forall>x \<in> set xs. prio x \<le> prio (xs ! i)) \<and> (\<forall>j < i. prio (xs ! j) < prio (xs ! i)))"
proof (induction xs arbitrary: res p)
  case Nil
  then show ?case by simp
next
  case (Cons x xs)
  define r where "r = (if p < prio x then lev x else res)"
  define q where "q = max p (prio x)"
  have step: "best prio lev res p (x # xs) = best prio lev r q xs" by (auto simp: r_def q_def max_def)
  consider "\<forall>y \<in> set xs. prio y \<le> q" "best prio lev r q xs = r"
    | i where "i < length xs" "best prio lev r q xs = lev (xs ! i)" "q < prio (xs ! i)"
        "\<forall>y \<in> set xs. prio y \<le> prio (xs ! i)" "\<forall>j < i. prio (xs ! j) < prio (xs ! i)"
    using Cons.IH[of q r] by blast
  then show ?case
  proof cases
    case 1
    then show ?thesis by (cases "p < prio x") (auto simp: step r_def q_def max_def intro!: exI[of _ 0])
  next
    case (2 i)
    have "\<forall>j < Suc i. prio ((x # xs) ! j) < prio (xs ! i)"
      using 2(3,5) by (auto simp: q_def less_Suc_eq_0_disj)
    then show ?thesis
      by (intro disjI2 exI[of _ "Suc i"]) (use 2 in \<open>simp add: step q_def del: best.simps\<close>)
  qed
qed

lemma best_chosen: "\<forall>x \<in> set xs. 0 \<le> prio x \<Longrightarrow> chosen prio lev xs ll (best prio lev ll 0 xs)"
  using best_spec[of xs prio 0 lev ll] unfolding chosen_def by force

lemma adjust_loop_best:
  assumes "holds u ys" "\<forall>y \<in> set ys. get_prio y = Some (prio y) \<and> prio y \<le> 4"
  shows "i + k = length ys \<Longrightarrow> adjust_loop get_prio u res p i k = Some (best prio ei_ll res p (drop i ys))"
proof (induction k arbitrary: i res p)
  case 0
  then show ?case by simp
next
  case (Suc k)
  obtain a where a: "es_item u = Some a" "length ys \<le> length a" "take (length ys) a = ys"
    using assms(1) by (auto simp: holds_def)
  have i: "i < length a" "i < length ys" using Suc.prems a(2) by auto
  have ai: "a ! i = ys ! i" using a(3) i(2) by (metis nth_take)
  have y: "get_prio (ys ! i) = Some (prio (ys ! i))" using assms(2) i(2) by auto
  have top: "best prio ei_ll (ei_ll (ys ! i)) 4 (drop (Suc i) ys) = ei_ll (ys ! i)"
    by (rule best_low) (use assms(2) in \<open>auto dest: in_set_dropD\<close>)
  have d: "drop i ys = ys ! i # drop (Suc i) ys" using i(2) by (simp add: Cons_nth_drop_Suc)
  show ?case using Suc.IH[of "Suc i"] Suc.prems i(1) top by (simp add: a(1) ai y d)
qed


fun item_prio :: "bytes \<Rightarrow> bytes \<Rightarrow> setting_item \<Rightarrow> int" where
  "item_prio apid ctid (a, c, l) =
     (if (a = [] \<or> pad a = apid) \<and> (c = [] \<or> pad c = ctid)
      then 1 + (if c = [] then 0 else 1) + (if a = [] then 0 else 2) else 0)"

fun item_level :: "setting_item \<Rightarrow> int" where
  "item_level (a, c, l) = l"

lemma ids_match_eq:
  assumes "length a = 4" "length b = 4"
  shows "dlt_env_ids_match a b = Some (a = b)"
proof -
  obtain a0 a1 a2 a3 where a: "a = [a0, a1, a2, a3]"
    using assms(1) by (auto simp: numeral_eq_Suc length_Suc_conv)
  obtain b0 b1 b2 b3 where b: "b = [b0, b1, b2, b3]"
    using assms(2) by (auto simp: numeral_eq_Suc length_Suc_conv)
  show ?thesis by (simp add: a b dlt_env_ids_match_def byte_at_def)
qed

lemma pad_first: "ident_ok w \<Longrightarrow> byte_at (pad w) 0 = Some (if w = [] then 0 else w ! 0)"
  by (cases w) (auto simp: pad_def byte_at_def)

lemma pad_length: "ident_ok w \<Longrightarrow> length (pad w) = 4"
  by (simp add: pad_def ident_ok_def)

lemma ident_ok_first: "ident_ok w \<Longrightarrow> w \<noteq> [] \<Longrightarrow> w ! 0 \<noteq> 0"
  by (cases w) (auto simp: ident_ok_def)

lemma item_of_prio:
  assumes "item_ok x" "length apid = 4" "length ctid = 4"
  shows "dlt_env_ll_item_get_matching_prio (item_of x) apid ctid = Some (item_prio apid ctid x)"
proof -
  obtain a c l where x: "x = (a, c, l)" by (cases x)
  have ok: "ident_ok a" "ident_ok c" using assms(1) by (auto simp: x)
  show ?thesis
    using ok assms(2,3) ident_ok_first[OF ok(1)] ident_ok_first[OF ok(2)]
    by (simp add: x dlt_env_ll_item_get_matching_prio_def pad_first ids_match_eq pad_length)
qed

lemma best_map: "best prio lev r p (map f xs) = best (\<lambda>x. prio (f x)) (\<lambda>x. lev (f x)) r p xs"
  by (induction xs arbitrary: r p) auto

lemma best_cong:
  "\<forall>x \<in> set xs. prio x = prio' x \<and> lev x = lev' x \<Longrightarrow> best prio lev r p xs = best prio' lev' r p xs"
  by (induction xs arbitrary: r p) auto

text \<open>
  C14. A setting written as a list of items with levels as numbers is accepted, and the level given to a context is the
  one of the most specific item for its application and context (the first of them when several are equally specific),
  or the level the application asked for when no item applies. An empty application or context in an item stands for
  all of them; an item for the application comes before an item for the context only.
\<close>

theorem env_level_chosen:
  assumes "alloc_sized alloc" "alloc_works alloc" "xs \<noteq> []" "\<forall>x \<in> set xs. item_ok x" "length apid = 4" "length ctid = 4"
  shows "\<exists>v q r. dlt_env_extract_ll_set alloc (setting xs) 0 u = Some (0, q, v)
    \<and> dlt_env_adjust_ll_from_env v apid ctid ll = Some r \<and> chosen (item_prio apid ctid) item_level xs ll r"
proof -
  obtain v q where v: "dlt_env_extract_ll_set alloc (setting xs) 0 u = Some (0, q, v)" "holds v (map item_of xs)"
    using extract_setting[OF assms(1-4), of u] by blast
  let ?prio = "\<lambda>y. the (dlt_env_ll_item_get_matching_prio y apid ctid)"
  have p: "\<forall>x \<in> set xs. dlt_env_ll_item_get_matching_prio (item_of x) apid ctid = Some (item_prio apid ctid x)"
    using assms(4) by (auto intro: item_of_prio[OF _ assms(5,6)])
  have low: "item_prio apid ctid x \<le> 4 \<and> 0 \<le> item_prio apid ctid x" for x by (cases x) auto
  have n: "es_num_elem v = length (map item_of xs)" using v(2) by (auto simp: holds_def)
  have lev: "ei_ll (item_of x) = item_level x" for x by (cases x) simp
  have "dlt_env_adjust_ll_from_env v apid ctid ll = Some (best ?prio ei_ll ll 0 (drop 0 (map item_of xs)))"
    unfolding dlt_env_adjust_ll_from_env_def
    by (rule adjust_loop_best[OF v(2)]) (use p low n in auto)
  also have "best ?prio ei_ll ll 0 (drop 0 (map item_of xs)) = best (item_prio apid ctid) item_level ll 0 xs"
    unfolding drop_0 best_map by (rule best_cong) (use p lev in auto)
  finally show ?thesis using v(1) best_chosen[of xs "item_prio apid ctid" item_level ll] low by blast
qed

theorem env_level_chosen_witness:
  "\<exists>v q r. dlt_env_extract_ll_set (\<lambda>n. Some (replicate n zero_item)) (cstr ''APP1::6;:CTX2:-1'') 0
       \<lparr>es_item = None, es_array_size = 0, es_num_elem = 0\<rparr> = Some (0, q, v)
     \<and> dlt_env_adjust_ll_from_env v (str ''APP1'') (str ''CTX2'') 4 = Some r
     \<and> chosen (item_prio (str ''APP1'') (str ''CTX2'')) item_level [(str ''APP1'', [], 6), ([], str ''CTX2'', -1)] 4 r"
proof -
  have "setting [(str ''APP1'', [], 6), ([], str ''CTX2'', -1)] = cstr ''APP1::6;:CTX2:-1''"
    by (simp add: level_text_def str_def cstr_def)
  then show ?thesis
    using env_level_chosen[of "\<lambda>n. Some (replicate n zero_item)" "[(str ''APP1'', [], 6), ([], str ''CTX2'', -1)]"
        "str ''APP1''" "str ''CTX2''" "\<lparr>es_item = None, es_array_size = 0, es_num_elem = 0\<rparr>" 4]
    by (simp add: alloc_sized_def alloc_works_def ident_ok_def str_def)
qed


section \<open>Any setting\<close>

definition has_nul :: "bytes \<Rightarrow> nat \<Rightarrow> bool" where
  "has_nul s p \<longleftrightarrow> 0 \<in> set (drop p s)"

lemma has_nul_byte: "has_nul s p \<Longrightarrow> \<exists>c. byte_at s p = Some c \<and> p < length s \<and> (c \<noteq> 0 \<longrightarrow> has_nul s (Suc p))"
  by (cases "p < length s") (auto simp: has_nul_def byte_at_def Cons_nth_drop_Suc[symmetric])

lemma extract_id_loop_safe:
  "has_nul s p \<Longrightarrow> \<exists>q ident'. extract_id_loop s p ident i k = Some (q, ident') \<and> has_nul s q \<and> p \<le> q
     \<and> length ident' = length ident"
proof (induction k arbitrary: p ident i)
  case 0
  then show ?case by simp
next
  case (Suc k)
  obtain c where c: "byte_at s p = Some c" "c \<noteq> 0 \<longrightarrow> has_nul s (Suc p)" using has_nul_byte[OF Suc.prems] by blast
  show ?case
  proof (cases "c \<noteq> 58 \<and> c \<noteq> 0")
    case True
    then show ?thesis using Suc.IH[of "Suc p" "ident[i := c]" "Suc i"] c by fastforce
  next
    case False
    then show ?thesis using c Suc.prems by auto
  qed
qed

lemma extract_id_safe:
  assumes "has_nul s p"
  shows "\<exists>ret q ident. dlt_env_extract_id s p = Some (ret, q, ident) \<and> has_nul s q \<and> p \<le> q \<and> length ident = 4
    \<and> (ret = -1 \<or> ret = 0 \<and> has_nul s (Suc q))"
proof -
  obtain q ident where q: "extract_id_loop s p [0, 0, 0, 0] 0 4 = Some (q, ident)" "has_nul s q" "p \<le> q"
    "length ident = 4" using extract_id_loop_safe[OF assms, of "[0, 0, 0, 0]" 0 4] by auto
  obtain c where "byte_at s q = Some c" "c \<noteq> 0 \<longrightarrow> has_nul s (Suc q)" using has_nul_byte[OF q(2)] by blast
  then show ?thesis using q by (auto simp: dlt_env_extract_id_def)
qed

lemma lower_loop_safe:
  "has_nul s p \<Longrightarrow> byte_at s p = Some ch \<Longrightarrow>
   \<exists>q c result. lower_loop s p ch acc k = Some (q, c, result) \<and> has_nul s q \<and> p \<le> q"
proof (induction k arbitrary: p ch acc)
  case 0
  then show ?case by simp
next
  case (Suc k)
  show ?case
  proof (cases "ch \<noteq> 0 \<and> ch \<noteq> 59")
    case True
    then have n: "has_nul s (Suc p)" using has_nul_byte[OF Suc.prems(1)] Suc.prems(2) by auto
    then obtain c where "byte_at s (Suc p) = Some c" using has_nul_byte by blast
    then show ?thesis using Suc.IH[OF n, of c "acc @ [to_lower ch]"] True by fastforce
  next
    case False
    then show ?thesis using Suc.prems by auto
  qed
qed

lemma symbolic_range: "map_of symbolic_levels w = Some l \<Longrightarrow> -1 \<le> l \<and> l \<le> 6"
  by (drule map_of_SomeD) (auto simp: symbolic_levels_def)

lemma extract_symbolic_safe:
  assumes "has_nul s p" "-1 \<le> ll" "ll \<le> 6"
  shows "\<exists>ret q l. dlt_env_extract_symbolic_ll s p ll = Some (ret, q, l) \<and> has_nul s q \<and> p \<le> q \<and> -1 \<le> l \<and> l \<le> 6
    \<and> (ret = -1 \<or> ret = 0)"
proof -
  obtain ch where ch: "byte_at s p = Some ch" using has_nul_byte[OF assms(1)] by blast
  obtain q c w where q: "lower_loop s p ch [] 7 = Some (q, c, w)" "has_nul s q" "p \<le> q"
    using lower_loop_safe[OF assms(1) ch, of "[]" 7] by blast
  obtain d where "byte_at s q = Some d" "d \<noteq> 0 \<longrightarrow> has_nul s (Suc q)" using has_nul_byte[OF q(2)] by blast
  then show ?thesis using q assms(2,3) ch symbolic_range[of w]
    by (cases "map_of symbolic_levels w")
      (auto simp: dlt_env_extract_symbolic_ll_def dlt_env_helper_to_lower_def)
qed

lemma digit_range: "48 \<le> (c :: byte) \<Longrightarrow> c < 55 \<Longrightarrow> 0 \<le> uint c - 48 \<and> uint c - 48 \<le> 6"
  by (simp add: word_le_def word_less_def)

lemma extract_ll_safe:
  assumes "has_nul s p" "-1 \<le> ll" "ll \<le> 6"
  shows "\<exists>ret q l. dlt_env_extract_ll s p ll = Some (ret, q, l) \<and> has_nul s q \<and> p \<le> q \<and> -1 \<le> l \<and> l \<le> 6
    \<and> (ret = -1 \<or> ret = 0)"
proof -
  obtain c where c: "byte_at s p = Some c" "c \<noteq> 0 \<longrightarrow> has_nul s (Suc p)" using has_nul_byte[OF assms(1)] by blast
  have rest: ?thesis
    if "dlt_env_extract_ll s p ll = do { d \<leftarrow> byte_at s q; Some (if d = 59 \<or> d = 0 then 0 else -1, q, l) }"
      "has_nul s q" "p \<le> q" "-1 \<le> l" "l \<le> 6" for q l
    using that has_nul_byte[OF that(2)] by auto
  consider "c = 45" | "c \<noteq> 45" "48 \<le> c \<and> c < 55" | "c \<noteq> 45" "\<not> (48 \<le> c \<and> c < 55)" by blast
  then show ?thesis
  proof cases
    case 1
    then have n: "has_nul s (Suc p)" using c(2) by simp
    then obtain d where d: "byte_at s (Suc p) = Some d" "d \<noteq> 0 \<longrightarrow> has_nul s (Suc (Suc p))"
      using has_nul_byte by blast
    show ?thesis
      by (rule rest[of "if d = 49 then p + 2 else p + 1" "if d = 49 then -1 else ll"])
        (use 1 c(1) d n assms(2,3) in \<open>auto simp: dlt_env_extract_ll_def\<close>)
  next
    case 2
    show ?thesis
      by (rule rest[of "p + 1" "uint c - 48"])
        (use 2 c digit_range[of c] in \<open>auto simp: dlt_env_extract_ll_def\<close>)
  next
    case 3
    obtain ret q l where q: "dlt_env_extract_symbolic_ll s p ll = Some (ret, q, l)" "has_nul s q" "p \<le> q" "-1 \<le> l"
      "l \<le> 6" "ret = -1 \<or> ret = 0" using extract_symbolic_safe[OF assms] by blast
    from q(6) show ?thesis
    proof
      assume "ret = -1"
      then show ?thesis using 3 c(1) q by (auto simp: dlt_env_extract_ll_def)
    next
      assume "ret = 0"
      then show ?thesis by (intro rest[of q l]) (use 3 c(1) q in \<open>auto simp: dlt_env_extract_ll_def\<close>)
    qed
  qed
qed


definition item_valid :: "dlt_env_ll_item \<Rightarrow> bool" where
  "item_valid y \<longleftrightarrow> length (ei_appId y) = 4 \<and> length (ei_ctxId y) = 4 \<and> -1 \<le> ei_ll y \<and> ei_ll y \<le> 6"

lemma extract_ll_item_safe:
  assumes "has_nul s p"
  shows "\<exists>ret q y. dlt_env_extract_ll_item s p = Some (ret, q, y) \<and> has_nul s q \<and> item_valid y
    \<and> (ret = -1 \<or> ret = 0 \<and> p < q)"
proof -
  obtain r1 q1 a where 1: "dlt_env_extract_id s p = Some (r1, q1, a)" "has_nul s q1" "p \<le> q1" "length a = 4"
    "r1 = -1 \<or> r1 = 0 \<and> has_nul s (Suc q1)" using extract_id_safe[OF assms] by blast
  show ?thesis
  proof (cases "r1 = -1")
    case True
    then show ?thesis using 1 by (auto simp: dlt_env_extract_ll_item_def item_valid_def zero_item_def)
  next
    case one: False
    then have "has_nul s (Suc q1)" using 1(5) by simp
    then obtain r2 q2 c where 2: "dlt_env_extract_id s (Suc q1) = Some (r2, q2, c)" "has_nul s q2" "Suc q1 \<le> q2"
      "length c = 4" "r2 = -1 \<or> r2 = 0 \<and> has_nul s (Suc q2)" using extract_id_safe by blast
    show ?thesis
    proof (cases "r2 = -1")
      case True
      then show ?thesis using 1 2 one by (auto simp: dlt_env_extract_ll_item_def item_valid_def zero_item_def)
    next
      case False
      then have "has_nul s (Suc q2)" using 2(5) by simp
      then obtain r3 q3 l where "dlt_env_extract_ll s (Suc q2) 0 = Some (r3, q3, l)" "has_nul s q3" "Suc q2 \<le> q3"
        "-1 \<le> l" "l \<le> 6" "r3 = -1 \<or> r3 = 0" using extract_ll_safe[of s "Suc q2" 0] by auto
      then show ?thesis using 1 2 one False by (auto simp: dlt_env_extract_ll_item_def item_valid_def zero_item_def)
    qed
  qed
qed

text \<open>What holds of the set after parsing: it holds valid items, or its array is lost after a failed allocation.\<close>

definition set_valid :: "dlt_env_ll_set \<Rightarrow> bool" where
  "set_valid u \<longleftrightarrow> es_item u = None \<or> (\<exists>ys. holds u ys \<and> list_all item_valid ys)"

lemma set_loop_safe:
  assumes alloc: "alloc_sized alloc"
  shows "has_nul s p \<Longrightarrow> holds u ys \<Longrightarrow> list_all item_valid ys \<Longrightarrow> length s - p < k \<Longrightarrow>
    \<exists>ret q v. extract_set_loop k alloc s p u = Some (ret, q, v) \<and> (ret = -1 \<or> ret = 0) \<and> set_valid v"
proof (induction k arbitrary: p u ys)
  case 0
  then show ?case by simp
next
  case (Suc k)
  show ?case
  proof (cases "es_num_elem u = es_array_size u \<and> alloc (es_array_size u + 10) = None")
    case True
    then show ?thesis by (simp add: dlt_env_increase_ll_set_def set_valid_def)
  next
    case False
    then obtain v where v: "with_room alloc u = Some (0, v)" "holds v ys" "length ys < es_array_size v"
      using with_room_holds[OF alloc Suc.prems(2)] by auto
    obtain ret q y where q: "dlt_env_extract_ll_item s p = Some (ret, q, y)" "has_nul s q" "item_valid y"
      "ret = -1 \<or> ret = 0 \<and> p < q" using extract_ll_item_safe[OF Suc.prems(1)] by blast
    obtain c where c: "byte_at s q = Some c" "q < length s" "c \<noteq> 0 \<longrightarrow> has_nul s (Suc q)"
      using has_nul_byte[OF q(2)] by blast
    define t where "t = (if c = 59 then Suc q else q)"
    have t: "has_nul s t" "q \<le> t" using q(2) c(3) by (auto simp: t_def)
    obtain d where d: "byte_at s t = Some d" using has_nul_byte[OF t(1)] by blast
    obtain w where w: "holds w (ys @ [y])" "extract_set_loop (Suc k) alloc s p u =
        (if ret = -1 then Some (-1, q, w) else if d \<noteq> 0 then extract_set_loop k alloc s t w else Some (0, t, w))"
      using set_round[OF v q(1) c(1) t_def d, of k] by blast
    have ys: "list_all item_valid (ys @ [y])" using Suc.prems(3) q(3) by simp
    have sv: "set_valid w" using w(1) ys by (auto simp: set_valid_def)
    have IH: "ret \<noteq> -1 \<Longrightarrow> \<exists>ret q v. extract_set_loop k alloc s t w = Some (ret, q, v) \<and> (ret = -1 \<or> ret = 0) \<and> set_valid v"
      by (rule Suc.IH[OF t(1) w(1) ys]) (use q(4) t(2) c(2) Suc.prems(4) in auto)
    show ?thesis using sv IH unfolding w(2) by auto
  qed
qed

lemma extract_set_safe:
  assumes "alloc_sized alloc" "0 \<in> set s"
  shows "\<exists>ret q v. dlt_env_extract_ll_set alloc s 0 u = Some (ret, q, v) \<and> (ret = -1 \<or> ret = 0) \<and> set_valid v"
proof (cases "alloc 10")
  case None
  then show ?thesis by (simp add: dlt_env_extract_ll_set_def dlt_env_init_ll_set_def set_valid_def)
next
  case (Some a)
  from init_holds[OF assms(1) this, of u] obtain v
    where v: "dlt_env_init_ll_set alloc u = (0, v)" "holds v []" by blast
  have "has_nul s 0" using assms(2) by (simp add: has_nul_def)
  from set_loop_safe[OF assms(1) this v(2), of "Suc (length s)"] v(1) show ?thesis
    by (simp add: dlt_env_extract_ll_set_def del: extract_set_loop.simps)
qed

lemma matching_prio_safe:
  assumes "item_valid y" "length apid = 4" "length ctid = 4"
  shows "\<exists>p. dlt_env_ll_item_get_matching_prio y apid ctid = Some p \<and> 0 \<le> p \<and> p \<le> 4"
proof -
  have "byte_at (ei_appId y) 0 = Some (ei_appId y ! 0)" "byte_at (ei_ctxId y) 0 = Some (ei_ctxId y ! 0)"
    using assms(1) by (auto simp: byte_at_def item_valid_def)
  then show ?thesis using assms
    by (simp add: dlt_env_ll_item_get_matching_prio_def ids_match_eq item_valid_def)
qed

lemma adjust_safe:
  assumes "holds v ys" "list_all item_valid ys" "length apid = 4" "length ctid = 4"
  shows "\<exists>r. dlt_env_adjust_ll_from_env v apid ctid ll = Some r \<and> (r = ll \<or> -1 \<le> r \<and> r \<le> 6)"
proof -
  let ?prio = "\<lambda>y. the (dlt_env_ll_item_get_matching_prio y apid ctid)"
  have p: "\<forall>y \<in> set ys. dlt_env_ll_item_get_matching_prio y apid ctid = Some (?prio y) \<and> ?prio y \<le> 4"
    using matching_prio_safe[OF _ assms(3,4)] assms(2) by (fastforce simp: list_all_iff)
  have n: "0 + es_num_elem v = length ys" using assms(1) by (auto simp: holds_def)
  have "dlt_env_adjust_ll_from_env v apid ctid ll = Some (best ?prio ei_ll ll 0 ys)"
    using adjust_loop_best[OF assms(1) p n] by (simp add: dlt_env_adjust_ll_from_env_def)
  moreover have "best ?prio ei_ll ll 0 ys = ll \<or> (\<exists>y \<in> set ys. best ?prio ei_ll ll 0 ys = ei_ll y)"
    using best_spec[of ys ?prio 0 ei_ll ll] by (metis nth_mem)
  ultimately show ?thesis using assms(2) by (auto simp: list_all_iff item_valid_def)
qed

text \<open>
  C15. Parsing ends for every zero-terminated setting without a read behind the zero or a write outside the array of items,
  with 0 or -1 also when memory runs out. If the array is still there, choosing a level for a context is safe even
  after a rejected setting, and gives the level asked for or a level from -1 to 6.
\<close>

theorem env_setting_safe:
  assumes "alloc_sized alloc" "0 \<in> set s" "length apid = 4" "length ctid = 4"
  shows "\<exists>ret q v. dlt_env_extract_ll_set alloc s 0 u = Some (ret, q, v) \<and> (ret = -1 \<or> ret = 0)
    \<and> (es_item v = None \<or> (\<exists>r. dlt_env_adjust_ll_from_env v apid ctid ll = Some r \<and> (r = ll \<or> -1 \<le> r \<and> r \<le> 6)))"
proof -
  obtain ret q v where v: "dlt_env_extract_ll_set alloc s 0 u = Some (ret, q, v)" "ret = -1 \<or> ret = 0" "set_valid v"
    using extract_set_safe[OF assms(1,2)] by blast
  have "es_item v = None \<or> (\<exists>r. dlt_env_adjust_ll_from_env v apid ctid ll = Some r \<and> (r = ll \<or> -1 \<le> r \<and> r \<le> 6))"
    using v(3) unfolding set_valid_def by (elim disjE exE conjE) (simp_all add: adjust_safe[OF _ _ assms(3,4)])
  then show ?thesis using v(1,2) by simp
qed

theorem env_setting_safe_witness:
  "\<exists>ret q v. dlt_env_extract_ll_set (\<lambda>n. if n \<le> 10 then Some (replicate n zero_item) else None) (cstr ''a:b:c:d'') 0
       \<lparr>es_item = None, es_array_size = 0, es_num_elem = 0\<rparr> = Some (ret, q, v) \<and> (ret = -1 \<or> ret = 0)
     \<and> (es_item v = None \<or> (\<exists>r. dlt_env_adjust_ll_from_env v (str ''APP1'') (str ''CTX2'') 4 = Some r
          \<and> (r = 4 \<or> -1 \<le> r \<and> r \<le> 6)))"
  by (rule env_setting_safe) (auto simp: alloc_sized_def str_def cstr_def split: if_splits)


section \<open>Rejected settings\<close>

lemma lower_loop_word:
  "0 \<notin> set w \<Longrightarrow> 59 \<notin> set w \<Longrightarrow> length w \<le> k \<Longrightarrow>
   lower_loop (pre @ w @ 59 # post) (length pre) (hd (w @ [59])) acc k
     = Some (length pre + length w, 59, acc @ map to_lower w)"
proof (induction w arbitrary: pre acc k)
  case Nil
  then show ?case by (cases k) auto
next
  case (Cons c w)
  obtain k' where k: "k = Suc k'" using Cons.prems(3) by (cases k) auto
  have "byte_at (pre @ c # w @ 59 # post) (Suc (length pre)) = Some (hd (w @ [59]))"
    using byte_at_hit[of "pre @ [c]" "hd (w @ [59])" "tl (w @ [59]) @ post"] by (cases w) auto
  moreover have "lower_loop ((pre @ [c]) @ w @ 59 # post) (length (pre @ [c])) (hd (w @ [59])) (acc @ [to_lower c]) k'
      = Some (length (pre @ [c]) + length w, 59, (acc @ [to_lower c]) @ map to_lower w)"
    by (rule Cons.IH) (use Cons.prems k in auto)
  ultimately show ?case using Cons.prems by (simp add: k)
qed

lemma symbolic_word:
  assumes "(w, l) \<in> set symbolic_levels"
  shows "0 \<notin> set w" "59 \<notin> set w" "length w \<le> 7" "map to_lower w = w" "map_of symbolic_levels w = Some l"
    "hd (w @ [59]) \<noteq> 45" "\<not> (48 \<le> hd (w @ [59]) \<and> hd (w @ [59]) < 55)"
  using assms by (auto simp: symbolic_levels_def str_def to_lower_def)

lemma extract_ll_symbolic:
  assumes "(w, l) \<in> set symbolic_levels" "d \<noteq> 59" "d \<noteq> 0"
  shows "dlt_env_extract_ll (pre @ w @ 59 # d # post) (length pre) ll = Some (-1, Suc (length pre + length w), l)"
proof -
  note w = symbolic_word[OF assms(1)]
  have ch: "byte_at (pre @ w @ 59 # d # post) (length pre) = Some (hd (w @ [59]))" by (cases w) auto
  have 1: "byte_at (pre @ w @ 59 # d # post) (Suc (length pre + length w)) = Some d"
    using byte_at_hit[of "pre @ w @ [59]" d post] by simp
  have "dlt_env_extract_symbolic_ll (pre @ w @ 59 # d # post) (length pre) ll = Some (0, Suc (length pre + length w), l)"
    using lower_loop_word[OF w(1-3), of pre "d # post" "[]"]
    by (simp add: dlt_env_extract_symbolic_ll_def dlt_env_helper_to_lower_def ch w(4,5))
  then show ?thesis using w(6,7) assms(2,3) by (auto simp: dlt_env_extract_ll_def ch 1)
qed

lemma extract_item_symbolic:
  assumes "ident_ok a" "ident_ok c" "(w, l) \<in> set symbolic_levels" "d \<noteq> 59" "d \<noteq> 0"
  shows "\<exists>q. dlt_env_extract_ll_item (a @ 58 # c @ 58 # w @ 59 # d # post) 0 = Some (-1, q, item_of (a, c, l))"
proof -
  have 1: "dlt_env_extract_id (a @ 58 # c @ 58 # w @ 59 # d # post) 0 = Some (0, length a, pad a)"
    using extract_id_word[OF assms(1), of "[]" "c @ 58 # w @ 59 # d # post"] by simp
  have 2: "dlt_env_extract_id (a @ 58 # c @ 58 # w @ 59 # d # post) (Suc (length a))
      = Some (0, Suc (length a + length c), pad c)"
    using extract_id_word[OF assms(2), of "a @ [58]" "w @ 59 # d # post"] by simp
  have 3: "dlt_env_extract_ll (a @ 58 # c @ 58 # w @ 59 # d # post) (Suc (Suc (length a + length c))) 0
      = Some (-1, Suc (Suc (Suc (length a + length c + length w))), l)"
    using extract_ll_symbolic[OF assms(3-5), of "a @ [58] @ c @ [58]" post 0] by (simp add: add.assoc)
  have "ei_ll zero_item = 0" by (simp add: zero_item_def)
  with 1 2 3 show ?thesis by (simp add: dlt_env_extract_ll_item_def)
qed


lemma rejected_first_item:
  assumes "alloc_sized alloc" "alloc 10 = Some b" "has_nul s 0" "dlt_env_extract_ll_item s 0 = Some (-1, q, y)"
  shows "\<exists>v. dlt_env_extract_ll_set alloc s 0 u = Some (-1, q, v) \<and> holds v [y]"
proof -
  obtain v where v: "dlt_env_init_ll_set alloc u = (0, v)" "holds v []" using init_holds[OF assms(1,2)] by blast
  have "es_array_size v = 10" using v(1) assms(2) by (auto simp: dlt_env_init_ll_set_def)
  then have r: "with_room alloc v = Some (0, v)" "length [] < es_array_size v"
    using v(2) by (auto simp: with_room_def holds_def)
  obtain a where a: "es_item v = Some a" using holds_item[OF v(2)] by blast
  obtain w where "store_at a (es_num_elem v) [y] = Some w"
    "holds (v\<lparr>es_item := Some w, es_num_elem := es_num_elem v + 1\<rparr>) [y]"
    using store_holds[OF v(2) r(2) a] by auto
  then show ?thesis using v(1) a r(1) assms(4)
    by (simp add: dlt_env_extract_ll_set_def with_room_def[symmetric])
qed

text \<open>
  C40. When the first item of a setting gives its level by name and another item follows, the whole setting is
  rejected. The rest is dropped, while the first item stays in the set, from which levels are still chosen.
\<close>

theorem symbolic_level_rejects_rest:
  assumes "alloc_sized alloc" "alloc_works alloc" "ident_ok a" "ident_ok c" "(w, l) \<in> set symbolic_levels" "d \<noteq> 59" "d \<noteq> 0"
    and "0 \<in> set post"
  shows "\<exists>q v. dlt_env_extract_ll_set alloc (a @ 58 # c @ 58 # w @ 59 # d # post) 0 u = Some (-1, q, v)
    \<and> holds v [item_of (a, c, l)]"
proof -
  obtain b where b: "alloc 10 = Some b" using assms(2) by (auto simp: alloc_works_def)
  obtain q where q: "dlt_env_extract_ll_item (a @ 58 # c @ 58 # w @ 59 # d # post) 0 = Some (-1, q, item_of (a, c, l))"
    using extract_item_symbolic[OF assms(3-7)] by blast
  have "has_nul (a @ 58 # c @ 58 # w @ 59 # d # post) 0" using assms(8) by (simp add: has_nul_def)
  from rejected_first_item[OF assms(1) b this q] show ?thesis by blast
qed

theorem symbolic_level_rejects_rest_witness:
  "\<exists>q v. dlt_env_extract_ll_set (\<lambda>n. Some (replicate n zero_item)) (cstr ''APP1:CTX1:info;APP2:CTX2:debug'') 0
       \<lparr>es_item = None, es_array_size = 0, es_num_elem = 0\<rparr> = Some (-1, q, v)
     \<and> holds v [item_of (str ''APP1'', str ''CTX1'', 4)]"
  using symbolic_level_rejects_rest[of "\<lambda>n. Some (replicate n zero_item)" "str ''APP1''" "str ''CTX1''" "str ''info''" 4
      "of_char (CHR ''A'')" "str ''PP2:CTX2:debug'' @ [0]" "\<lparr>es_item = None, es_array_size = 0, es_num_elem = 0\<rparr>"]
  by (simp add: alloc_sized_def alloc_works_def ident_ok_def symbolic_levels_def str_def cstr_def)

text \<open>
  An empty setting is rejected, but leaves an item for all applications and contexts with the level 0: every
  context is switched off.
\<close>

lemma empty_setting_silences:
  assumes "alloc_sized alloc" "alloc_works alloc"
  shows "\<exists>q v. dlt_env_extract_ll_set alloc [0] 0 u = Some (-1, q, v) \<and> dlt_env_adjust_ll_from_env v apid ctid ll = Some 0"
proof -
  obtain b where b: "alloc 10 = Some b" using assms(2) by (auto simp: alloc_works_def)
  have one: "extract_id_loop [0] 0 w 0 (Suc k) = Some (0, w)" for w k by (simp add: byte_at_def)
  have four: "extract_id_loop [0] 0 w 0 4 = Some (0, w)" for w using one[of w 3] by (simp del: extract_id_loop.simps)
  have "dlt_env_extract_ll_item [0] 0 = Some (-1, 0, zero_item)"
    by (simp add: dlt_env_extract_ll_item_def dlt_env_extract_id_def byte_at_def four zero_item_def)
  then obtain v where v: "dlt_env_extract_ll_set alloc [0] 0 u = Some (-1, 0, v)" "holds v [zero_item]"
    using rejected_first_item[OF assms(1) b _ , of "[0]" 0 zero_item u] by (auto simp: has_nul_def)
  have p: "dlt_env_ll_item_get_matching_prio zero_item apid ctid = Some 1"
    by (simp add: dlt_env_ll_item_get_matching_prio_def byte_at_def zero_item_def)
  have "dlt_env_adjust_ll_from_env v apid ctid ll = Some (best (\<lambda>y. 1) ei_ll ll 0 [zero_item])"
    using adjust_loop_best[OF v(2), of "\<lambda>y. dlt_env_ll_item_get_matching_prio y apid ctid" "\<lambda>y. 1" 0 1 ll 0] p v(2)
    by (auto simp: dlt_env_adjust_ll_from_env_def holds_def)
  then show ?thesis using v(1) by (simp add: zero_item_def)
qed

text \<open>
  The ids of the second protocol version are never filled in by the parser, so with it the level of the first item
  goes to every context, whatever ids the item names.
\<close>

lemma v2_takes_first_item:
  assumes "alloc_sized alloc" "alloc_works alloc" "\<forall>y \<in> set (x # xs). item_ok y"
  shows "\<exists>q v. dlt_env_extract_ll_set alloc (setting (x # xs)) 0 u = Some (0, q, v)
    \<and> dlt_env_adjust_ll_from_env_v2 v apid apidlen ctid ctidlen ll = Some (item_level x)"
proof -
  obtain v q where v: "dlt_env_extract_ll_set alloc (setting (x # xs)) 0 u = Some (0, q, v)" "holds v (map item_of (x # xs))"
    using extract_setting[OF assms(1,2) _ assms(3), of u] by blast
  have p: "dlt_env_ll_item_get_matching_prio_v2 (item_of y) apid apidlen ctid ctidlen = Some 1" for y
    by (cases y) (simp add: dlt_env_ll_item_get_matching_prio_v2_def zero_item_def)
  have n: "0 + es_num_elem v = length (map item_of (x # xs))" using v(2) by (auto simp: holds_def)
  have "dlt_env_adjust_ll_from_env_v2 v apid apidlen ctid ctidlen ll = Some (best (\<lambda>y. 1) ei_ll ll 0 (map item_of (x # xs)))"
    using adjust_loop_best[OF v(2) _ n, of "\<lambda>y. dlt_env_ll_item_get_matching_prio_v2 y apid apidlen ctid ctidlen" "\<lambda>y. 1" ll 0] p
    by (simp add: dlt_env_adjust_ll_from_env_v2_def)
  also have "best (\<lambda>y. 1) ei_ll ll 0 (map item_of (x # xs)) = item_level x"
    by (cases x) (simp add: best_low)
  finally show ?thesis using v(1) by simp
qed

end
