(* ===== verification/Spec2Isabelle.thy ===== *)
theory Spec2Isabelle
  imports Dlt_Receiver Dlt_Control Dlt_MessageV2 Dlt_Contexts Dlt_Output Dlt_EnvLL
begin

text \<open>
  Verification of the DLT daemon and its libraries (COVESA dlt-daemon; paths below are relative to
  \<^verbatim>\<open>src/\<close> of the repository).

  \<^bold>\<open>The program.\<close> Applications log through the user library (\<^verbatim>\<open>src/lib/dlt_user.c\<close>). It puts typed
  arguments into a message and hands the message to the daemon, or to a ring buffer while the daemon is away.
  The daemon (\<^verbatim>\<open>src/daemon\<close>) polls its connections and collects their bytes in receivers. It keeps tables of the
  applications and contexts that registered, forwards messages to the connected clients, and buffers them
  while there is no client. Clients read messages of either protocol version from a byte stream and print them.
  Messages, ring buffer, receiver and text output are shared code (\<^verbatim>\<open>src/shared/dlt_common.c\<close>).

  \<^bold>\<open>Conventions.\<close> An operation of C is a function with the same name, on records with the fields of its structures.
  An access outside a block of memory, through a null pointer or to a block that is not allocated has the result
  \<open>None\<close>, so that a statement with \<open>Some\<close> includes memory safety. Error codes are values. C integers are
  HOL integers with the conversions \<open>u8\<close>, \<open>i32\<close> and so on where the code converts, memory is a list of 8 bit
  words. The host has little endian byte order. Functions of the C library with a
  determined result (\<^verbatim>\<open>memcpy\<close>, \<^verbatim>\<open>bsearch\<close>, \<^verbatim>\<open>qsort\<close>, \<^verbatim>\<open>snprintf\<close>) are functions here. Allocation, system calls and the
  clock are arguments; what is expected of an argument is a named hypothesis
  (\<open>malloc_ok\<close>, \<open>allocator_ok\<close>, \<open>answers_ok\<close>, \<open>env_good\<close>, \<open>alloc_sized\<close> and others). Output on the console and most checks for
  null arguments are left out. The models follow the default build: no UDP, no shared memory, no trace load control,
  no watchdog, pipes between applications and daemon.

  \<^bold>\<open>Theories.\<close>
  \<^item> \<open>Dlt_Prelude\<close>: bytes, conversions, byte order, access to blocks, shared facts on lists.
  \<^item> \<open>Dlt_Queue\<close>: the contract of a message queue (locale \<open>message_queue\<close>) and what follows for any run of operations.
  \<^item> \<open>Dlt_Buffer\<close> (\<open>dlt_buffer_*\<close>): the ring buffer. It refines the queue; every operation keeps its invariant; pushing
    and reading are described on all branches; two theorems show how a message overruns its destination or is lost.
  \<^item> \<open>Dlt_Receiver\<close> (\<open>dlt_receiver_*\<close>): receivers over a heap with the buffer they share. Bytes are conserved (locale
    \<open>byte_stream\<close>); the two ways in which bytes are lost or mixed up are proved.
  \<^item> \<open>Dlt_Event\<close> (\<^verbatim>\<open>dlt_daemon_event_handler.c\<close>, \<^verbatim>\<open>dlt_daemon_connection.c\<close>): connections and the poll table, with their
    invariant under creation, removal and cleaning up. The search of the gateway for the receiver of a connection is part of it.
    A connection that is created while the poll table cannot grow is registered, but not polled.
  \<^item> \<open>Dlt_Send\<close> (\<^verbatim>\<open>dlt_daemon_client.c\<close>, \<^verbatim>\<open>dlt_daemon_socket.c\<close>, \<^verbatim>\<open>dlt_daemon_serial.c\<close>): delivery to clients on top of
    buffer and connections. Sends return, the buffer is delivered completely and in order, and some failures lose messages.
    A report about discarded messages that failed once is not sent again by any later send. The contents of the messages
    the daemon builds for these reports are arguments.
  \<^item> \<open>Dlt_Id\<close>: names of applications, contexts and control units.
  \<^item> \<open>Dlt_Message\<close>, \<open>Dlt_MessageV2\<close> (\<open>dlt_message_read\<close>, \<open>dlt_message_read_v2\<close>, header functions): both message formats.
    Written messages are read back; reading stays in bounds for version 1; overruns in version 2 are proved.
  \<^item> \<open>Dlt_Control\<close>: control messages of the daemon and forwarding of messages, on top of delivery.
  \<^item> \<open>Dlt_Sorted\<close>, \<open>Dlt_Users\<close>, \<open>Dlt_Contexts\<close> (\<^verbatim>\<open>dlt_daemon_common.c\<close>): sorted tables (locale \<open>ordered_by\<close>), the tables of
    applications and contexts, and that registering and unregistering are updates of maps from names to entries. The
    tables stay consistent through any sequence of operations of version 1, also when memory for a table is missing
    (\<open>answers_ok\<close>); identifiers must have nothing but zeros behind a terminating zero, and what happens otherwise
    is proved as well.
  \<^item> \<open>Dlt_Log\<close> (\<open>dlt_user_log_write_*\<close>): appending arguments to a message. A reference (\<open>outcomes\<close>) says from the room that
    is left what each call returns and which arguments it adds, with ASCII and UTF-8 strings cut where they do not fit; the
    code returns exactly that, and the payload is the encoding of these arguments.
  \<^item> \<open>Dlt_Format\<close>, \<open>Dlt_Print\<close>, \<open>Dlt_Output\<close> (\<open>dlt_print_*\<close>, \<open>dlt_message_argument_print\<close>, \<open>dlt_message_payload\<close>): output of
    payloads as text, with the round trip from logged arguments to their texts.
  \<^item> \<open>Dlt_EnvLL\<close> (\<^verbatim>\<open>src/lib/dlt_env_ll.c\<close>): levels from the environment. A setting is parsed safely and the most specific
    item is applied; settings with symbolic levels in front of other items are rejected.

  \<^bold>\<open>Bounds.\<close> Loops are structural recursions where the C loop counts. Other loops carry a bound on the rounds, and running
  out of it is \<open>None\<close>; theorems that state a result show that it is not reached. The functions that send and close
  connections call each other: their depth is bounded by the number of connections and a constant, which
  \<open>client_send_returns\<close> shows to be enough. Sending the ring buffer takes a round per message. Parsing a setting takes at most as
  many rounds as the setting has bytes, because an accepted item is not empty (\<open>env_setting_safe\<close>).

  \<^bold>\<open>Not modelled.\<close>
  \<^item> The event loop (\<open>dlt_daemon_handle_event\<close>), start up, timers and signals, and the opening of sockets, pipes and serial
    lines consist of system calls and callbacks.
  \<^item> Registration, threads, locks and the connection in the user library, the client library and the console tools are
    driven by system calls and by the interleaving of threads.
  \<^item> Handlers of single service requests, and the version 2 variants of control messages, build on what is modelled, but
    are left out.
  \<^item> The tables of applications and contexts are not loaded from or saved to files; log storage, offline trace, file transfer
    and message files are file input and output.
  \<^item> Filters, the configuration file parser, the gateway apart from the search for a receiver and the output of headers as
    text are left out; nothing modelled depends on them.
  \<^item> UDP, shared memory, trace load control and the programs that collect system data are not part of the default build or are
    separate programs.
\<close>

end
